(* ===== verification/Flow_Prelude.thy ===== *)
theory Flow_Prelude
  imports Main "HOL-Library.Char_ord" "HOL-Library.List_Lexorder" "HOL-Library.Multiset"
begin

text \<open>
  What every component of the development shares: results (a thrown error is \<open>Inl\<close>), the
  \<open>for\<close> loop that stops at the first throw, the JavaScript string operations the sources call
  (\<open>trim\<close>, \<open>split\<close>, \<open>startsWith\<close>, \<open>toLowerCase\<close>, decimal digits), the stable \<open>Array.sort\<close> with a
  comparator, and the identifier patterns several registries use. Strings are lists of code units
  below 256; the white space \<open>trim\<close> and \<open>\s\<close> know is cut down to that range.
\<close>

section \<open>Results\<close>

named_theorems result_simps \<open>case analysis of results and throwing loops\<close>

fun and_then :: "'e + 'a \<Rightarrow> ('a \<Rightarrow> 'e + 'b) \<Rightarrow> 'e + 'b" where
  "and_then (Inl e) f = Inl e"
| "and_then (Inr x) f = f x"

definition throw_if :: "bool \<Rightarrow> 'e \<Rightarrow> 'e + unit" where
  "throw_if c e = (if c then Inl e else Inr ())"

definition is_ok :: "'e + 'a \<Rightarrow> bool" where
  "is_ok r = (case r of Inl _ \<Rightarrow> False | Inr _ \<Rightarrow> True)"

lemma and_then_Inr [result_simps]:
  "and_then r f = Inr y \<longleftrightarrow> (\<exists>x. r = Inr x \<and> f x = Inr y)"
  by (cases r) auto

lemma and_then_Inl [result_simps]:
  "and_then r f = Inl e \<longleftrightarrow> r = Inl e \<or> (\<exists>x. r = Inr x \<and> f x = Inl e)"
  by (cases r) auto

lemma and_then_cong [fundef_cong]:
  "r = r' \<Longrightarrow> (\<And>x. r' = Inr x \<Longrightarrow> f x = g x) \<Longrightarrow> and_then r f = and_then r' g"
  by (cases r') auto

lemma throw_if_Inr [result_simps]: "throw_if c e = Inr u \<longleftrightarrow> \<not> c"
  by (simp add: throw_if_def)

lemma throw_if_Inl [result_simps]: "throw_if c e = Inl e' \<longleftrightarrow> c \<and> e' = e"
  by (auto simp: throw_if_def)

lemma throw_if_simps [simp]: "throw_if True e = Inl e" "throw_if False e = Inr ()"
  by (simp_all add: throw_if_def)

lemma is_ok_simps [simp]: "is_ok (Inr x)" "\<not> is_ok (Inl e)"
  by (simp_all add: is_ok_def)

lemma is_ok_iff: "is_ok r \<longleftrightarrow> (\<exists>x. r = Inr x)"
  by (cases r) auto

lemma not_is_ok_iff: "\<not> is_ok r \<longleftrightarrow> (\<exists>e. r = Inl e)"
  by (cases r) auto

text \<open>A \<open>for\<close> loop over a list whose body may throw; the state is passed along.\<close>

fun for_each :: "('s \<Rightarrow> 'a \<Rightarrow> 'e + 's) \<Rightarrow> 's \<Rightarrow> 'a list \<Rightarrow> 'e + 's" where
  "for_each f s [] = Inr s"
| "for_each f s (x # xs) = and_then (f s x) (\<lambda>s'. for_each f s' xs)"

lemma for_each_cong [fundef_cong]:
  "xs = ys \<Longrightarrow> s = t \<Longrightarrow> (\<And>s x. x \<in> set ys \<Longrightarrow> f s x = g s x) \<Longrightarrow>
     for_each f s xs = for_each g t ys"
proof (induction xs arbitrary: ys s t)
  case Nil
  then show ?case by simp
next
  case (Cons x xs)
  then obtain ys' where ys: "ys = x # ys'" "xs = ys'" by (cases ys) auto
  have eq: "f s x = g s x" using Cons.prems(3) ys by simp
  have "for_each f s' xs = for_each g s' ys'" for s'
    using Cons.IH [of ys' s' s'] Cons.prems(3) ys by auto
  then show ?case using ys eq Cons.prems(2) by simp
qed

lemma for_each_append:
  "for_each f s (xs @ ys) = and_then (for_each f s xs) (\<lambda>s'. for_each f s' ys)"
proof (induction xs arbitrary: s)
  case (Cons x xs)
  then show ?case by (cases "f s x") auto
qed simp

lemma for_each_invariant:
  assumes "for_each f s xs = Inr s'" and "P s"
    and "\<And>t x t'. x \<in> set xs \<Longrightarrow> P t \<Longrightarrow> f t x = Inr t' \<Longrightarrow> P t'"
  shows "P s'"
  using assms
proof (induction xs arbitrary: s)
  case Nil
  then show ?case by simp
next
  case (Cons x xs)
  from Cons.prems(1) obtain t where t: "f s x = Inr t" "for_each f t xs = Inr s'"
    by (auto simp: and_then_Inr)
  then have "P t" using Cons.prems(2,3) by auto
  then show ?case using Cons.IH [OF t(2)] Cons.prems(3) by auto
qed

lemma for_each_Inl: "for_each f s xs = Inl e \<Longrightarrow> \<exists>x \<in> set xs. \<exists>t. f t x = Inl e"
  by (induction xs arbitrary: s) (auto simp: and_then_Inl)

text \<open>
  Every iteration keeps \<open>P\<close>, moves the state up the preorder \<open>le\<close> and establishes \<open>Q\<close> for its
  element, which later iterations keep.
\<close>

lemma for_each_progress:
  assumes "for_each f s xs = Inr s'" and "P s"
    and step: "\<And>t x t'. x \<in> set xs \<Longrightarrow> P t \<Longrightarrow> f t x = Inr t' \<Longrightarrow> P t' \<and> le t t' \<and> Q x t'"
    and le_refl: "\<And>t. le t t" and le_trans: "\<And>t u v. le t u \<Longrightarrow> le u v \<Longrightarrow> le t v"
    and keeps: "\<And>x t u. le t u \<Longrightarrow> Q x t \<Longrightarrow> Q x u"
  shows "P s' \<and> le s s' \<and> (\<forall>x \<in> set xs. Q x s')"
  using assms(1,2) step
proof (induction xs arbitrary: s)
  case Nil
  then show ?case using le_refl by simp
next
  case (Cons x xs)
  from Cons.prems(1) obtain t where t: "f s x = Inr t" "for_each f t xs = Inr s'"
    by (auto simp: and_then_Inr)
  have 1: "P t \<and> le s t \<and> Q x t" using Cons.prems(3) [OF _ Cons.prems(2) t(1)] by simp
  have "P s' \<and> le t s' \<and> (\<forall>x \<in> set xs. Q x s')"
    using Cons.IH [OF t(2)] 1 Cons.prems(3) by auto
  then show ?case using 1 le_trans keeps by auto
qed

lemma for_each_unit_Inr:
  "for_each (\<lambda>_ x. f x) () xs = Inr u \<longleftrightarrow> (\<forall>x \<in> set xs. f x = Inr ())"
  by (induction xs) (auto simp: result_simps)

section \<open>Strings\<close>

definition code :: "char \<Rightarrow> nat" where
  "code c = of_char c"

definition is_space :: "char \<Rightarrow> bool" where
  "is_space c = (code c \<in> {9, 10, 11, 12, 13, 32, 160})"

definition is_digit :: "char \<Rightarrow> bool" where
  "is_digit c = (48 \<le> code c \<and> code c \<le> 57)"

definition is_lower :: "char \<Rightarrow> bool" where
  "is_lower c = (97 \<le> code c \<and> code c \<le> 122)"

definition is_upper :: "char \<Rightarrow> bool" where
  "is_upper c = (65 \<le> code c \<and> code c \<le> 90)"

definition trim :: "string \<Rightarrow> string" where
  "trim s = rev (dropWhile is_space (rev (dropWhile is_space s)))"

definition starts_with :: "string \<Rightarrow> string \<Rightarrow> bool" where
  "starts_with p s = (take (length p) s = p)"

text \<open>\<open>s.split(c)\<close> for a one-character separator: never empty.\<close>

fun split_on :: "char \<Rightarrow> string \<Rightarrow> string list" where
  "split_on c [] = [[]]"
| "split_on c (x # xs) =
     (if x = c then [] # split_on c xs
      else (case split_on c xs of [] \<Rightarrow> [[x]] | p # ps \<Rightarrow> (x # p) # ps))"

text \<open>\<open>s.split(/\s+/)\<close>.\<close>

function split_spaces :: "string \<Rightarrow> string list" where
  "split_spaces s =
     (let w = takeWhile (\<lambda>c. \<not> is_space c) s;
          r = dropWhile (\<lambda>c. \<not> is_space c) s
      in if r = [] then [w] else w # split_spaces (dropWhile is_space r))"
  by pat_completeness auto
termination
proof (relation "measure length", simp)
  fix s w r :: string
  assume r: "r = dropWhile (\<lambda>c. \<not> is_space c) s" and "r \<noteq> []"
  then have "is_space (hd r)" using hd_dropWhile by blast
  then have "length (dropWhile is_space r) < length r"
    using \<open>r \<noteq> []\<close> by (cases r) (auto simp: less_Suc_eq_le length_dropWhile_le)
  also have "length r \<le> length s" by (simp add: r length_dropWhile_le)
  finally show "(dropWhile is_space r, s) \<in> measure length" by simp
qed

declare split_spaces.simps [simp del]

text \<open>\<open>toLowerCase\<close> on code units below 256.\<close>

definition lower_char :: "char \<Rightarrow> char" where
  "lower_char c =
     (if is_upper c \<or> (192 \<le> code c \<and> code c \<le> 222 \<and> code c \<noteq> 215)
      then char_of (code c + 32) else c)"

definition lower :: "string \<Rightarrow> string" where
  "lower s = map lower_char s"

text \<open>\<open>parts.join(sep)\<close>.\<close>

fun join :: "string \<Rightarrow> string list \<Rightarrow> string" where
  "join sep [] = []"
| "join sep [x] = x"
| "join sep (x # y # ys) = x @ sep @ join sep (y # ys)"

subsection \<open>Decimal numerals\<close>

definition digit_value :: "char \<Rightarrow> nat" where
  "digit_value c = code c - 48"

definition digit_char :: "nat \<Rightarrow> char" where
  "digit_char d = char_of (48 + d)"

definition read_nat :: "string \<Rightarrow> nat" where
  "read_nat s = foldl (\<lambda>n c. 10 * n + digit_value c) 0 s"

fun show_nat :: "nat \<Rightarrow> string" where
  "show_nat n = (if n < 10 then [digit_char n] else show_nat (n div 10) @ [digit_char (n mod 10)])"

declare show_nat.simps [simp del]

text \<open>\<open>/^(0|[1-9]\d*)$/\<close>.\<close>

definition is_numeral :: "string \<Rightarrow> bool" where
  "is_numeral s = (s \<noteq> [] \<and> list_all is_digit s \<and> (hd s \<noteq> CHR ''0'' \<or> length s = 1))"

lemma code_char_of: "n < 256 \<Longrightarrow> code (char_of n) = n"
  by (simp add: code_def)

lemma is_digit_digit_char [simp]: "d < 10 \<Longrightarrow> is_digit (digit_char d)"
  by (simp add: is_digit_def digit_char_def code_char_of)

lemma digit_value_digit_char [simp]: "d < 10 \<Longrightarrow> digit_value (digit_char d) = d"
  by (simp add: digit_value_def digit_char_def code_char_of)

lemma show_nat_small: "n < 10 \<Longrightarrow> show_nat n = [digit_char n]"
  by (subst show_nat.simps) simp

lemma show_nat_big: "\<not> n < 10 \<Longrightarrow> show_nat n = show_nat (n div 10) @ [digit_char (n mod 10)]"
  by (subst show_nat.simps) simp

lemma show_nat_digits: "list_all is_digit (show_nat n)"
proof (induction n rule: show_nat.induct)
  case (1 n)
  then show ?case
    by (cases "n < 10") (simp_all add: show_nat_small show_nat_big)
qed

lemma show_nat_nonempty [simp]: "show_nat n \<noteq> []"
  by (cases "n < 10") (simp_all add: show_nat_small show_nat_big)

lemma read_nat_show_nat [simp]: "read_nat (show_nat n) = n"
proof (induction n rule: show_nat.induct)
  case (1 n)
  then show ?case
    by (cases "n < 10") (simp_all add: show_nat_small show_nat_big read_nat_def)
qed

lemma digit_char_0_iff: "d < 10 \<Longrightarrow> digit_char d = CHR ''0'' \<longleftrightarrow> d = 0"
proof -
  assume "d < 10"
  have "digit_char d = CHR ''0'' \<Longrightarrow> d = 0"
    using digit_value_digit_char [OF \<open>d < 10\<close>] by (simp add: digit_value_def code_def)
  moreover have "digit_char 0 = CHR ''0''" by code_simp
  ultimately show ?thesis by auto
qed

lemma hd_show_nat: "0 < n \<Longrightarrow> hd (show_nat n) \<noteq> CHR ''0''"
proof (induction n rule: show_nat.induct)
  case (1 n)
  then show ?case
    by (cases "n < 10") (simp_all add: show_nat_small show_nat_big digit_char_0_iff)
qed

lemma is_numeral_show_nat [simp]: "is_numeral (show_nat n)"
proof (cases "n = 0")
  case True
  then show ?thesis by (simp add: is_numeral_def show_nat_small)
next
  case False
  then show ?thesis using hd_show_nat [of n] show_nat_digits [of n] by (simp add: is_numeral_def)
qed

lemma digit_char_digit_value: "is_digit c \<Longrightarrow> digit_char (digit_value c) = c"
  by (simp add: is_digit_def digit_value_def digit_char_def code_def)

lemma digit_value_less: "is_digit c \<Longrightarrow> digit_value c < 10"
  unfolding is_digit_def digit_value_def by linarith

lemma digit_value_0_iff: "is_digit c \<Longrightarrow> digit_value c = 0 \<longleftrightarrow> c = CHR ''0''"
  using digit_char_0_iff [of "digit_value c"] digit_char_digit_value [of c] digit_value_less [of c]
  by simp

lemma read_nat_snoc: "read_nat (s @ [c]) = 10 * read_nat s + digit_value c"
  by (simp add: read_nat_def)

text \<open>A canonical numeral is the one \<open>show_nat\<close> prints.\<close>

lemma read_nat_pos: "list_all is_digit s \<Longrightarrow> s \<noteq> [] \<Longrightarrow> hd s \<noteq> CHR ''0'' \<Longrightarrow> 0 < read_nat s"
proof (induction s rule: rev_induct)
  case (snoc c s)
  have "c \<noteq> CHR ''0'' \<Longrightarrow> is_digit c \<Longrightarrow> 0 < digit_value c"
    using digit_value_0_iff [of c] by linarith
  with snoc show ?case
    by (cases "s = []") (auto simp: read_nat_snoc read_nat_def)
qed simp

lemma show_nat_read_nat: "is_numeral s \<Longrightarrow> show_nat (read_nat s) = s"
proof (induction s rule: rev_induct)
  case Nil
  then show ?case by (simp add: is_numeral_def)
next
  case (snoc c s)
  then have dig: "is_digit c" by (simp add: is_numeral_def)
  show ?case
  proof (cases "s = []")
    case True
    then show ?thesis
      using dig by (simp add: read_nat_def show_nat_small digit_value_less digit_char_digit_value)
  next
    case False
    with snoc.prems have ds: "list_all is_digit s" "hd s \<noteq> CHR ''0''" "is_numeral s"
      by (auto simp: is_numeral_def)
    with False have "0 < read_nat s" by (simp add: read_nat_pos)
    then have "\<not> read_nat (s @ [c]) < 10" by (simp add: read_nat_snoc)
    then show ?thesis
      using snoc.IH [OF ds(3)] dig
      by (simp add: show_nat_big read_nat_snoc digit_value_less digit_char_digit_value)
  qed
qed

subsection \<open>Splitting, joining, trimming\<close>

lemma split_on_nonempty [simp]: "split_on c s \<noteq> []"
  by (induction s) (auto split: list.splits)

lemma split_on_absent: "c \<notin> set s \<Longrightarrow> split_on c s = [s]"
  by (induction s) auto

lemma split_on_append: "c \<notin> set a \<Longrightarrow> split_on c (a @ c # s) = a # split_on c s"
  by (induction a) auto

lemma split_on_join:
  "ps \<noteq> [] \<Longrightarrow> list_all (\<lambda>p. c \<notin> set p) ps \<Longrightarrow> split_on c (join [c] ps) = ps"
  by (induction "[c]" ps rule: join.induct) (auto simp: split_on_absent split_on_append)

lemma join_Cons: "ps \<noteq> [] \<Longrightarrow> join sep (p # ps) = p @ sep @ join sep ps"
  by (cases ps) auto

lemma join_split_on: "join [c] (split_on c s) = s"
proof (induction s)
  case (Cons x s)
  then show ?case
    by (cases "split_on c s"; cases "tl (split_on c s)") (auto simp: join_Cons)
qed simp

lemma split_on_parts: "p \<in> set (split_on c s) \<Longrightarrow> c \<notin> set p"
proof (induction s arbitrary: p)
  case (Cons x s)
  then show ?case
    by (cases "split_on c s") (auto split: if_splits)
qed simp

lemma trim_decompose:
  "\<exists>l r. s = l @ trim s @ r \<and> list_all is_space l \<and> list_all is_space r"
proof -
  let ?t = "dropWhile is_space s"
  have 1: "s = takeWhile is_space s @ ?t" by simp
  have "rev ?t = takeWhile is_space (rev ?t) @ dropWhile is_space (rev ?t)" by simp
  then have "?t = rev (dropWhile is_space (rev ?t)) @ rev (takeWhile is_space (rev ?t))"
    by (metis rev_append rev_rev_ident)
  with 1 have eq: "s = takeWhile is_space s @ trim s @ rev (takeWhile is_space (rev ?t))"
    unfolding trim_def by metis
  have *: "list_all is_space (takeWhile is_space u)" for u
    by (auto simp: list_all_iff dest: set_takeWhileD)
  have "list_all is_space (rev (takeWhile is_space (rev ?t)))"
    using * [of "rev ?t"] by (simp only: list_all_rev)
  with eq * [of s] show ?thesis by blast
qed

lemma trim_id: "s = [] \<or> \<not> is_space (hd s) \<and> \<not> is_space (last s) \<Longrightarrow> trim s = s"
proof -
  assume "s = [] \<or> \<not> is_space (hd s) \<and> \<not> is_space (last s)"
  then have "dropWhile is_space s = s" "dropWhile is_space (rev s) = rev s"
    by (auto simp: dropWhile_eq_self_iff hd_rev)
  then show ?thesis by (simp add: trim_def)
qed

lemma trim_no_space: "list_all (\<lambda>c. \<not> is_space c) s \<Longrightarrow> trim s = s"
proof (rule trim_id, cases "s = []")
  case False
  assume "list_all (\<lambda>c. \<not> is_space c) s"
  with False show "s = [] \<or> \<not> is_space (hd s) \<and> \<not> is_space (last s)"
    by (simp add: list_all_iff)
qed simp

lemma dropWhile_last: "dropWhile P xs \<noteq> [] \<Longrightarrow> last (dropWhile P xs) = last xs"
  by (metis last_appendR takeWhile_dropWhile_id)

lemma trim_ends: "trim s = [] \<or> \<not> is_space (hd (trim s)) \<and> \<not> is_space (last (trim s))"
proof (cases "trim s = []")
  case False
  let ?u = "dropWhile is_space s" and ?t = "dropWhile is_space (rev (dropWhile is_space s))"
  have t: "trim s = rev ?t" by (simp add: trim_def)
  with False have ne1: "?t \<noteq> []" by (simp only: rev_is_Nil_conv not_False_eq_True)
  then have ne2: "?u \<noteq> []" by (metis dropWhile.simps(1) rev.simps(1))
  note ne = ne1 ne2
  have "last (trim s) = hd ?t" using ne by (simp add: t last_rev)
  moreover have "\<not> is_space (hd ?t)" using ne(1) by (rule hd_dropWhile)
  moreover have "hd (trim s) = hd ?u"
    using dropWhile_last [OF ne(1)] ne by (simp add: t hd_rev last_rev)
  moreover have "\<not> is_space (hd ?u)" using ne(2) by (rule hd_dropWhile)
  ultimately show ?thesis by simp
qed simp

lemma trim_trim [simp]: "trim (trim s) = trim s"
  by (rule trim_id) (rule trim_ends)

lemma split_spaces_no_space: "list_all (\<lambda>c. \<not> is_space c) s \<Longrightarrow> split_spaces s = [s]"
  by (subst split_spaces.simps) (auto simp: Let_def list_all_iff)

lemma split_spaces_unfold:
  "dropWhile (\<lambda>c. \<not> is_space c) s = [] \<Longrightarrow> split_spaces s = [s]"
  "dropWhile (\<lambda>c. \<not> is_space c) s \<noteq> [] \<Longrightarrow>
     split_spaces s = takeWhile (\<lambda>c. \<not> is_space c) s #
       split_spaces (dropWhile is_space (dropWhile (\<lambda>c. \<not> is_space c) s))"
proof -
  assume "dropWhile (\<lambda>c. \<not> is_space c) s = []"
  moreover from this have "takeWhile (\<lambda>c. \<not> is_space c) s = s"
    using takeWhile_dropWhile_id [of "\<lambda>c. \<not> is_space c" s] by (simp only: append_Nil2)
  ultimately show "split_spaces s = [s]"
    by (simp only: split_spaces.simps [of s] Let_def if_True simp_thms)
next
  assume "dropWhile (\<lambda>c. \<not> is_space c) s \<noteq> []"
  then show "split_spaces s = takeWhile (\<lambda>c. \<not> is_space c) s #
       split_spaces (dropWhile is_space (dropWhile (\<lambda>c. \<not> is_space c) s))"
    by (simp only: split_spaces.simps [of s] Let_def if_False simp_thms)
qed

section \<open>Sorting with a comparator\<close>

text \<open>
  \<open>xs.sort(cmp)\<close> is stable: an element goes before the elements it compares equal to when it stood
  before them. \<open>localeCompare\<close> is the host's collation and a parameter of the definitions that use
  it; the default \<open>sort()\<close> of strings compares code units, which is \<open>unit_compare\<close>.
\<close>

fun insert_by :: "('a \<Rightarrow> 'a \<Rightarrow> int) \<Rightarrow> 'a \<Rightarrow> 'a list \<Rightarrow> 'a list" where
  "insert_by cmp x [] = [x]"
| "insert_by cmp x (y # ys) = (if cmp x y \<le> 0 then x # y # ys else y # insert_by cmp x ys)"

fun sort_by :: "('a \<Rightarrow> 'a \<Rightarrow> int) \<Rightarrow> 'a list \<Rightarrow> 'a list" where
  "sort_by cmp [] = []"
| "sort_by cmp (x # xs) = insert_by cmp x (sort_by cmp xs)"

lemma mset_insert_by [simp]: "mset (insert_by cmp x xs) = add_mset x (mset xs)"
  by (induction xs) auto

lemma mset_sort_by [simp]: "mset (sort_by cmp xs) = mset xs"
  by (induction xs) auto

lemma set_sort_by [simp]: "set (sort_by cmp xs) = set xs"
  by (metis mset_sort_by set_mset_mset)

lemma length_sort_by [simp]: "length (sort_by cmp xs) = length xs"
  by (metis mset_sort_by size_mset)

locale comparator_order =
  fixes cmp :: "'a \<Rightarrow> 'a \<Rightarrow> int"
  assumes cmp_total: "cmp x y \<le> 0 \<or> cmp y x \<le> 0"
    and cmp_trans: "cmp x y \<le> 0 \<Longrightarrow> cmp y z \<le> 0 \<Longrightarrow> cmp x z \<le> 0"
begin

lemma insert_by_sorted:
  "sorted_wrt (\<lambda>x y. cmp x y \<le> 0) xs \<Longrightarrow> sorted_wrt (\<lambda>x y. cmp x y \<le> 0) (insert_by cmp x xs)"
proof (induction xs)
  case (Cons y ys)
  have "set (insert_by cmp x ys) = insert x (set ys)"
    by (metis mset_insert_by set_mset_add_mset_insert set_mset_mset)
  then show ?case using Cons cmp_total [of x y] by (auto intro: cmp_trans)
qed simp

lemma sort_by_sorted: "sorted_wrt (\<lambda>x y. cmp x y \<le> 0) (sort_by cmp xs)"
  by (induction xs) (auto simp: insert_by_sorted)

end

text \<open>A comparator on keys orders the elements that carry the keys.\<close>

lemma comparator_order_key:
  "comparator_order cmp \<Longrightarrow> comparator_order (\<lambda>x y. cmp (key x) (key y))"
  unfolding comparator_order_def by blast

text \<open>\<open>a - b || then\<close>: compare a number first and fall through when it is equal.\<close>

definition compare_then :: "('a \<Rightarrow> int) \<Rightarrow> ('a \<Rightarrow> 'a \<Rightarrow> int) \<Rightarrow> 'a \<Rightarrow> 'a \<Rightarrow> int" where
  "compare_then num next x y = (if num x - num y \<noteq> 0 then num x - num y else next x y)"

lemma comparator_order_then: "comparator_order next \<Longrightarrow> comparator_order (compare_then num next)"
  unfolding comparator_order_def compare_then_def by (smt (verit))

definition unit_compare :: "string \<Rightarrow> string \<Rightarrow> int" where
  "unit_compare x y = (if x < y then -1 else if y < x then 1 else 0)"

interpretation unit_order: comparator_order unit_compare
  by unfold_locales (auto simp: unit_compare_def split: if_splits)

text \<open>\<open>Number.MAX_SAFE_INTEGER\<close>.\<close>

definition MAX_SAFE_INTEGER :: int where "MAX_SAFE_INTEGER = 9007199254740991"

section \<open>Identifier patterns\<close>

text \<open>\<open>/^[a-z][a-z0-9-]*$/\<close> and \<open>/^[a-z][a-z0-9-]*(\.[a-z][a-z0-9-]*)+$/\<close>.\<close>

fun kebab_id :: "string \<Rightarrow> bool" where
  "kebab_id [] = False"
| "kebab_id (c # cs) =
     (is_lower c \<and> list_all (\<lambda>d. is_lower d \<or> is_digit d \<or> d = CHR ''-'') cs)"

definition dotted_id :: "string \<Rightarrow> bool" where
  "dotted_id s = (let ps = split_on CHR ''.'' s in 2 \<le> length ps \<and> list_all kebab_id ps)"

end
