(* ===== verification/Kernel_Version.thy ===== *)
theory Kernel_Version
  imports Flow_Prelude
begin

text \<open>
  \<open>packages/kernel/src/version-range.ts\<close> and \<open>module-compatibility.ts\<close>: versions, the range
  language module manifests use (\<open>*\<close>, exact, \<open>^\<close>, \<open>~\<close>, comparators, spaces and \<open>||\<close>), version bumps,
  range retargeting and the compatibility check of a manifest. Version parts are natural numbers;
  the code holds them as doubles, which is exact below \<open>2 ^ 53\<close>.
\<close>

section \<open>Versions\<close>

datatype version = Version (major: nat) (minor: nat) (patch: nat)

definition parseVersion :: "string \<Rightarrow> version option" where
  "parseVersion value =
     (case split_on CHR ''.'' (trim value) of
        [a, b, c] \<Rightarrow>
          if is_numeral a \<and> is_numeral b \<and> is_numeral c
          then Some (Version (read_nat a) (read_nat b) (read_nat c)) else None
      | _ \<Rightarrow> None)"

fun compareVersions :: "version \<Rightarrow> version \<Rightarrow> int" where
  "compareVersions (Version a b c) (Version a' b' c') =
     (if a \<noteq> a' then int a - int a'
      else if b \<noteq> b' then int b - int b'
      else if c \<noteq> c' then int c - int c'
      else 0)"

fun showVersion :: "version \<Rightarrow> string" where
  "showVersion (Version a b c) = join ''.'' [show_nat a, show_nat b, show_nat c]"

text \<open>The order \<open>compareVersions\<close> induces makes versions a linear order.\<close>

instantiation version :: linorder
begin

definition less_eq_version :: "version \<Rightarrow> version \<Rightarrow> bool" where
  "less_eq_version v w = (compareVersions v w \<le> 0)"

definition less_version :: "version \<Rightarrow> version \<Rightarrow> bool" where
  "less_version v w = (compareVersions v w < 0)"

instance
proof
  fix u v w :: version
  show "u < v \<longleftrightarrow> u \<le> v \<and> \<not> v \<le> u"
    by (cases u; cases v) (auto simp: less_eq_version_def less_version_def split: if_splits)
  show "u \<le> u"
    by (cases u) (simp add: less_eq_version_def)
  show "u \<le> v \<or> v \<le> u"
    by (cases u; cases v) (auto simp: less_eq_version_def split: if_splits)
  show "u \<le> v \<Longrightarrow> v \<le> u \<Longrightarrow> u = v"
    by (cases u; cases v) (auto simp: less_eq_version_def split: if_splits)
  show "u \<le> v \<Longrightarrow> v \<le> w \<Longrightarrow> u \<le> w"
    by (cases u; cases v; cases w) (auto simp: less_eq_version_def split: if_splits)
qed

end

lemma compareVersions_le [simp]: "compareVersions v w \<le> 0 \<longleftrightarrow> v \<le> w"
  by (simp add: less_eq_version_def)

lemma compareVersions_less [simp]: "compareVersions v w < 0 \<longleftrightarrow> v < w"
  by (simp add: less_version_def)

lemma compareVersions_ge [simp]: "0 \<le> compareVersions v w \<longleftrightarrow> w \<le> v"
  by (simp add: linorder_not_less [symmetric])

lemma compareVersions_gr [simp]: "0 < compareVersions v w \<longleftrightarrow> w < v"
  by (simp add: linorder_not_le [symmetric])

lemma compareVersions_eq [simp]: "compareVersions v w = 0 \<longleftrightarrow> v = w"
  by (cases v; cases w) auto

lemma version_le_iff:
  "Version a b c \<le> Version a' b' c' \<longleftrightarrow> a < a' \<or> a = a' \<and> (b < b' \<or> b = b' \<and> c \<le> c')"
  by (auto simp: less_eq_version_def simp del: compareVersions_le)

lemma version_less_iff:
  "Version a b c < Version a' b' c' \<longleftrightarrow> a < a' \<or> a = a' \<and> (b < b' \<or> b = b' \<and> c < c')"
  by (auto simp: less_version_def simp del: compareVersions_less)

declare compareVersions.simps [simp del]

section \<open>Comparators and ranges\<close>

datatype operator = Caret | Tilde | Ge | Le | Gr | Ls | Eq

text \<open>The bound a \<open>^\<close> or \<open>~\<close> comparator stops before.\<close>

fun upperBound :: "operator \<Rightarrow> version \<Rightarrow> version" where
  "upperBound op (Version a b c) =
     (if op = Tilde then Version a (b + 1) 0
      else if 0 < a then Version (a + 1) 0 0
      else if 0 < b then Version a (b + 1) 0
      else Version a b (c + 1))"

text \<open>
  The \<open>COMPARATOR\<close> pattern: an optional operator, white space, then the rest of the line. Where the
  pattern would backtrack over an operator with nothing after it, what remains is no version, so
  both readers of the match treat it as no match, which is the \<open>None\<close> here.
\<close>

definition splitOperator :: "string \<Rightarrow> operator option \<times> string" where
  "splitOperator s =
     (if starts_with ''^'' s then (Some Caret, drop 1 s)
      else if starts_with ''~'' s then (Some Tilde, drop 1 s)
      else if starts_with ''>='' s then (Some Ge, drop 2 s)
      else if starts_with ''<='' s then (Some Le, drop 2 s)
      else if starts_with ''>'' s then (Some Gr, drop 1 s)
      else if starts_with ''<'' s then (Some Ls, drop 1 s)
      else if starts_with ''='' s then (Some Eq, drop 1 s)
      else (None, s))"

definition comparator :: "string \<Rightarrow> (operator option \<times> string) option" where
  "comparator s =
     (let (op, r) = splitOperator s; rest = dropWhile is_space r
      in if rest = [] \<or> list_ex (\<lambda>c. code c \<in> {10, 13}) rest then None else Some (op, rest))"

fun operatorMatches :: "operator \<Rightarrow> version \<Rightarrow> version \<Rightarrow> bool" where
  "operatorMatches Caret v b = (0 \<le> compareVersions v b \<and> compareVersions v (upperBound Caret b) < 0)"
| "operatorMatches Tilde v b = (0 \<le> compareVersions v b \<and> compareVersions v (upperBound Tilde b) < 0)"
| "operatorMatches Ge v b = (0 \<le> compareVersions v b)"
| "operatorMatches Le v b = (compareVersions v b \<le> 0)"
| "operatorMatches Gr v b = (0 < compareVersions v b)"
| "operatorMatches Ls v b = (compareVersions v b < 0)"
| "operatorMatches Eq v b = (compareVersions v b = 0)"

definition comparatorMatches :: "version \<Rightarrow> string \<Rightarrow> bool" where
  "comparatorMatches v term =
     (case comparator term of
        None \<Rightarrow> False
      | Some (op, rest) \<Rightarrow>
          (case parseVersion rest of
             None \<Rightarrow> False
           | Some bound \<Rightarrow> operatorMatches (case op of None \<Rightarrow> Eq | Some opr \<Rightarrow> opr) v bound))"

text \<open>\<open>range.split('||')\<close>.\<close>

fun split_bars :: "string \<Rightarrow> string list" where
  "split_bars [] = [[]]"
| "split_bars [c] = [[c]]"
| "split_bars (c # d # s) =
     (if c = CHR ''|'' \<and> d = CHR ''|'' then [] # split_bars s
      else (case split_bars (d # s) of [] \<Rightarrow> [[c]] | p # ps \<Rightarrow> (c # p) # ps))"

definition valid_term :: "string \<Rightarrow> bool" where
  "valid_term term =
     (case comparator term of None \<Rightarrow> False | Some (op, rest) \<Rightarrow> parseVersion rest \<noteq> None)"

definition alternativeTerms :: "string \<Rightarrow> string list option" where
  "alternativeTerms alternative =
     (if alternative = [] \<or> alternative = ''*'' then Some []
      else (let terms = split_spaces alternative
            in if list_all valid_term terms then Some terms else None))"

fun collect :: "string list \<Rightarrow> string list list option" where
  "collect [] = Some []"
| "collect (a # as) =
     (case alternativeTerms a of
        None \<Rightarrow> None
      | Some ts \<Rightarrow> (case collect as of None \<Rightarrow> None | Some tss \<Rightarrow> Some (ts # tss)))"

definition comparators :: "string \<Rightarrow> string list list option" where
  "comparators rng = collect (map trim (split_bars rng))"

definition isValidRange :: "string \<Rightarrow> bool" where
  "isValidRange rng = (comparators rng \<noteq> None)"

definition rangeSatisfies :: "string \<Rightarrow> string \<Rightarrow> bool" where
  "rangeSatisfies version rng =
     (case (parseVersion version, comparators rng) of
        (Some v, Some alternatives) \<Rightarrow>
          list_ex (\<lambda>terms. list_all (comparatorMatches v) terms) alternatives
      | _ \<Rightarrow> False)"

datatype level = Patch | Minor | Major

fun bump :: "level \<Rightarrow> version \<Rightarrow> version" where
  "bump Major (Version a b c) = Version (a + 1) 0 0"
| "bump Minor (Version a b c) = Version a (b + 1) 0"
| "bump Patch (Version a b c) = Version a b (c + 1)"

definition nextVersion :: "string \<Rightarrow> level \<Rightarrow> string option" where
  "nextVersion version level =
     (case parseVersion version of None \<Rightarrow> None | Some v \<Rightarrow> Some (showVersion (bump level v)))"

section \<open>Module compatibility\<close>

datatype registry_error =
  MODULE_VERSION_INVALID | MODULE_PLATFORM_REQUIRED | MODULE_PLATFORM_INCOMPATIBLE
| MODULE_RANGE_INVALID | MODULE_DEPENDENCY_DUPLICATE | MODULE_DEPENDENCY_INCOMPATIBLE
| MODULE_CAPABILITY_DUPLICATE | MODULE_DEPENDENCY_CYCLE | MODULE_NOT_FOUND
| MODULE_DEPENDENCY_MISSING | MODULE_CAPABILITY_MISSING | MODULE_DUPLICATE
| NAVIGATION_DUPLICATE

definition PLATFORM_API_VERSION :: string where
  "PLATFORM_API_VERSION = ''0.2.4''"

record module_dependency =
  dep_id :: string
  dep_range :: string

record capability_requirement =
  req_id :: string
  req_optional :: bool

record module_manifest =
  platformApi :: "string option"
  man_id :: string
  man_version :: string
  dependencies :: "module_dependency list"
  provides :: "string list"
  requires :: "capability_requirement list"

definition incrementModuleVersion :: "string \<Rightarrow> level \<Rightarrow> registry_error + string" where
  "incrementModuleVersion version level =
     (case nextVersion version level of None \<Rightarrow> Inl MODULE_VERSION_INVALID | Some v \<Rightarrow> Inr v)"

definition satisfiesModuleVersion :: "string \<Rightarrow> string \<Rightarrow> bool" where
  "satisfiesModuleVersion version rng = rangeSatisfies version rng"

text \<open>\<open>/^([\^~]?)\d+\.\d+\.\d+$/\<close> on the trimmed range: the operator kept, as a string.\<close>

definition digits1 :: "string \<Rightarrow> bool" where
  "digits1 s = (s \<noteq> [] \<and> list_all is_digit s)"

definition simpleRange :: "string \<Rightarrow> string option" where
  "simpleRange s =
     (let (op, r) = (if starts_with ''^'' s then (''^'', drop 1 s)
                     else if starts_with ''~'' s then (''~'', drop 1 s) else ([], s))
      in case split_on CHR ''.'' r of
           [a, b, c] \<Rightarrow> if digits1 a \<and> digits1 b \<and> digits1 c then Some op else None
         | _ \<Rightarrow> None)"

definition retargetModuleRange :: "string \<Rightarrow> string \<Rightarrow> string option" where
  "retargetModuleRange rng version =
     (if satisfiesModuleVersion version rng then Some rng
      else (case simpleRange (trim rng) of None \<Rightarrow> None | Some op \<Rightarrow> Some (op @ version)))"

definition compareModuleVersions :: "string \<Rightarrow> string \<Rightarrow> int" where
  "compareModuleVersions left right =
     (case (parseVersion left, parseVersion right) of
        (Some first, Some second) \<Rightarrow> compareVersions second first
      | _ \<Rightarrow> 0)"

text \<open>
  \<open>range.matchAll(/\d+\.\d+\.\d+/g)\<close>: scan from the left; at each position read a greedy run of
  digits, a dot, digits, a dot, digits, or move one character on.
\<close>

definition match_version_at :: "string \<Rightarrow> (string \<times> string) option" where
  "match_version_at s =
     (let a = takeWhile is_digit s; s1 = dropWhile is_digit s in
      if a = [] \<or> s1 = [] \<or> hd s1 \<noteq> CHR ''.'' then None else
      let b = takeWhile is_digit (tl s1); s2 = dropWhile is_digit (tl s1) in
      if b = [] \<or> s2 = [] \<or> hd s2 \<noteq> CHR ''.'' then None else
      let c = takeWhile is_digit (tl s2); s3 = dropWhile is_digit (tl s2) in
      if c = [] then None else Some (a @ ''.'' @ b @ ''.'' @ c, s3))"

lemma match_version_at_shorter: "match_version_at s = Some (m, r) \<Longrightarrow> length r < length s"
proof -
  assume "match_version_at s = Some (m, r)"
  then have r: "r = dropWhile is_digit (tl (dropWhile is_digit (tl (dropWhile is_digit s))))"
    and ne: "dropWhile is_digit s \<noteq> []"
    by (auto simp: match_version_at_def Let_def split: if_splits)
  have "length r \<le> length (tl (dropWhile is_digit (tl (dropWhile is_digit s))))"
    unfolding r by (rule length_dropWhile_le)
  also have "\<dots> \<le> length (dropWhile is_digit (tl (dropWhile is_digit s)))" by simp
  also have "\<dots> \<le> length (tl (dropWhile is_digit s))" by (rule length_dropWhile_le)
  also have "\<dots> < length (dropWhile is_digit s)" using ne by simp
  also have "\<dots> \<le> length s" by (rule length_dropWhile_le)
  finally show ?thesis .
qed

function named_versions :: "string \<Rightarrow> string list" where
  "named_versions [] = []"
| "named_versions (c # s) =
     (case match_version_at (c # s) of
        Some (m, r) \<Rightarrow> m # named_versions r
      | None \<Rightarrow> named_versions s)"
  by pat_completeness auto
termination
  by (relation "measure length") (auto dest: match_version_at_shorter)

declare named_versions.simps(2) [simp del]

fun next_patch :: "version \<Rightarrow> version" where
  "next_patch (Version a b c) = Version a b (c + 1)"

text \<open>Every named version of a valid range parses, so the code's \<open>parseVersion(named)!\<close> is a version.\<close>

definition platformCandidates :: "string \<Rightarrow> version list" where
  "platformCandidates rng =
     Version 0 0 0 #
     concat (map (\<lambda>named. case parseVersion named of None \<Rightarrow> [] | Some v \<Rightarrow> [v, next_patch v])
                 (named_versions rng))"

definition assertPlatformLine :: "string \<Rightarrow> version \<Rightarrow> registry_error + unit" where
  "assertPlatformLine rng platform =
     (let line = Version (major platform) (minor platform) 0;
          older = list_ex (\<lambda>candidate. compareVersions candidate line < 0 \<and>
                             rangeSatisfies (showVersion candidate) rng)
                    (platformCandidates rng)
      in throw_if older MODULE_PLATFORM_INCOMPATIBLE)"

definition checkDependency :: "string set \<Rightarrow> module_dependency \<Rightarrow> registry_error + string set" where
  "checkDependency ids dependency =
     (if trim (dep_range dependency) = [] \<or> \<not> isValidRange (dep_range dependency)
      then Inl MODULE_RANGE_INVALID
      else if dep_id dependency \<in> ids then Inl MODULE_DEPENDENCY_DUPLICATE
      else Inr (insert (dep_id dependency) ids))"

definition assertModuleCompatibility ::
    "module_manifest \<Rightarrow> string option \<Rightarrow> registry_error + unit" where
  "assertModuleCompatibility manifest platformVersion =
     (if parseVersion (man_version manifest) = None then Inl MODULE_VERSION_INVALID
      else case platformApi manifest of
        None \<Rightarrow> Inl MODULE_PLATFORM_REQUIRED
      | Some api \<Rightarrow>
          if \<not> isValidRange api \<or>
             (case platformVersion of None \<Rightarrow> False | Some p \<Rightarrow> \<not> satisfiesModuleVersion p api)
          then Inl MODULE_PLATFORM_INCOMPATIBLE
          else and_then
            (case platformVersion of
               None \<Rightarrow> Inr ()
             | Some p \<Rightarrow> assertPlatformLine api (the (parseVersion p)))
            (\<lambda>_. and_then (for_each checkDependency {} (dependencies manifest)) (\<lambda>_. Inr ())))"

definition assertModuleDependency :: "module_dependency \<Rightarrow> string \<Rightarrow> registry_error + unit" where
  "assertModuleDependency dependency version =
     throw_if (\<not> satisfiesModuleVersion version (dep_range dependency)) MODULE_DEPENDENCY_INCOMPATIBLE"

section \<open>Reading and printing versions\<close>

lemma numeral_no_dot: "is_numeral a \<Longrightarrow> CHR ''.'' \<notin> set a"
  by (auto simp: is_numeral_def list_all_iff is_digit_def code_def)

lemma digit_not_space: "is_digit c \<Longrightarrow> \<not> is_space c"
  by (auto simp: is_digit_def is_space_def)

definition version_char :: "char \<Rightarrow> bool" where
  "version_char c = (is_digit c \<or> c = CHR ''.'')"

lemma dot_facts [simp]: "\<not> is_space CHR ''.''" "\<not> is_digit CHR ''.''" "code CHR ''.'' = 46"
  by (simp_all add: is_space_def is_digit_def code_def)

lemma version_char_not_space: "version_char c \<Longrightarrow> \<not> is_space c"
  by (auto simp: version_char_def digit_not_space)

lemma showVersion_chars: "list_all version_char (showVersion v)"
proof -
  have "list_all version_char (show_nat n)" for n
    using show_nat_digits [of n] by (auto simp: list_all_iff version_char_def)
  then show ?thesis by (cases v) (simp add: version_char_def)
qed

lemma trim_showVersion [simp]: "trim (showVersion v) = showVersion v"
  using showVersion_chars [of v]
  by (auto simp: list_all_iff version_char_not_space intro!: trim_no_space)

lemma parse_showVersion [simp]: "parseVersion (showVersion v) = Some v"
proof (cases v)
  case (Version a b c)
  have "split_on CHR ''.'' (showVersion v) = [show_nat a, show_nat b, show_nat c]"
    unfolding Version showVersion.simps
    by (rule split_on_join) (simp_all add: numeral_no_dot)
  then show ?thesis by (simp add: parseVersion_def Version del: showVersion.simps)
qed

lemma parseVersion_canonical: "parseVersion s = Some v \<Longrightarrow> trim s = showVersion v"
proof -
  assume "parseVersion s = Some v"
  then obtain a b c where abc: "split_on CHR ''.'' (trim s) = [a, b, c]"
    and num: "is_numeral a" "is_numeral b" "is_numeral c"
    and v: "v = Version (read_nat a) (read_nat b) (read_nat c)"
    by (auto simp: parseVersion_def split: list.splits if_splits)
  have "trim s = join ''.'' [a, b, c]"
    using join_split_on [of "CHR ''.''" "trim s"] by (simp only: abc)
  then show ?thesis by (simp add: v num show_nat_read_nat)
qed

lemma parseVersion_trim: "parseVersion (trim s) = parseVersion s"
  by (simp add: parseVersion_def)

lemma parseVersion_iff: "parseVersion s = Some v \<longleftrightarrow> trim s = showVersion v"
  by (metis parseVersion_canonical parseVersion_trim parse_showVersion)

text \<open>\<open>parseVersion\<close> accepts exactly the canonical spelling of a version, up to surrounding white
  space, and printing a version and reading it back gives the version.\<close>

lemma parse_version_exact:
  "(parseVersion s = Some v \<longleftrightarrow> trim s = showVersion v) \<and> parseVersion (showVersion v) = Some v"
  by (simp add: parseVersion_iff)

section \<open>Single comparators\<close>

definition spell :: "operator \<Rightarrow> string" where
  "spell op = (case op of Caret \<Rightarrow> ''^'' | Tilde \<Rightarrow> ''~'' | Ge \<Rightarrow> ''>='' | Le \<Rightarrow> ''<='' | Gr \<Rightarrow> ''>''
     | Ls \<Rightarrow> ''<'' | Eq \<Rightarrow> ''='')"

lemma version_char_codes: "version_char c \<Longrightarrow> code c = 46 \<or> 48 \<le> code c \<and> code c \<le> 57"
  by (auto simp: version_char_def is_digit_def)

lemma showVersion_nonempty [simp]: "showVersion v \<noteq> []"
  by (cases v) simp

lemma showVersion_Cons: "\<exists>c s. showVersion v = c # s \<and> version_char c \<and> list_all version_char s"
  using showVersion_chars [of v] by (cases "showVersion v") auto

lemma code_simps: "code CHR ''^'' = 94" "code CHR ''~'' = 126" "code CHR ''>'' = 62"
  "code CHR ''<'' = 60" "code CHR ''='' = 61" "code CHR ''|'' = 124" "code CHR ''*'' = 42"
  by (simp_all add: code_def)

lemma splitOperator_spell: "splitOperator (spell op @ showVersion b) = (Some op, showVersion b)"
proof -
  obtain c s where cs: "showVersion b = c # s" "version_char c" using showVersion_Cons by blast
  have "c \<noteq> CHR ''=''" using version_char_codes [OF cs(2)] by (auto simp: code_def)
  then show ?thesis
    unfolding cs(1) by (cases op) (simp_all add: splitOperator_def spell_def starts_with_def)
qed

lemma splitOperator_none: "splitOperator (showVersion b) = (None, showVersion b)"
proof -
  obtain c s where cs: "showVersion b = c # s" "version_char c" using showVersion_Cons by blast
  have "c \<notin> {CHR ''^'', CHR ''~'', CHR ''>'', CHR ''<'', CHR ''=''}"
    using version_char_codes [OF cs(2)] by (auto simp: code_def)
  then show ?thesis
    unfolding cs(1) by (simp add: splitOperator_def starts_with_def)
qed

lemma showVersion_clean: "dropWhile is_space (showVersion b) = showVersion b"
  "\<not> list_ex (\<lambda>c. code c \<in> {10, 13}) (showVersion b)"
proof -
  obtain c s where cs: "showVersion b = c # s" "version_char c" "list_all version_char s"
    using showVersion_Cons by blast
  show "dropWhile is_space (showVersion b) = showVersion b"
    using cs by (simp add: version_char_not_space)
  show "\<not> list_ex (\<lambda>c. code c \<in> {10, 13}) (showVersion b)"
    using showVersion_chars [of b]
    by (auto simp: list_ex_iff list_all_iff dest!: version_char_codes)
qed

lemma comparator_spell: "comparator (spell op @ showVersion b) = Some (Some op, showVersion b)"
  "comparator (showVersion b) = Some (None, showVersion b)"
  using showVersion_clean [of b]
  by (simp_all add: comparator_def splitOperator_spell splitOperator_none Let_def
      del: dropWhile_eq_Nil_conv)

lemma comparatorMatches_spell [simp]:
  "comparatorMatches v (spell op @ showVersion b) = operatorMatches op v b"
  "comparatorMatches v (showVersion b) = operatorMatches Eq v b"
  by (simp_all add: comparatorMatches_def comparator_spell)

definition term_char :: "char \<Rightarrow> bool" where
  "term_char c = (version_char c \<or> c \<in> {CHR ''^'', CHR ''~'', CHR ''>'', CHR ''<'', CHR ''=''})"

lemma term_char_not_space: "term_char c \<Longrightarrow> \<not> is_space c"
  unfolding term_char_def
  by (erule disjE, erule version_char_not_space) (auto simp: is_space_def code_def)

lemma term_char_not_bar: "term_char c \<Longrightarrow> c \<noteq> CHR ''|''"
  by (auto simp: term_char_def version_char_def is_digit_def code_def)

lemma spell_chars: "list_all term_char (spell op @ showVersion b)"
  using showVersion_chars [of b]
  by (cases op) (auto simp: spell_def term_char_def list_all_iff)

lemma split_bars_no_bar: "CHR ''|'' \<notin> set s \<Longrightarrow> split_bars s = [s]"
  by (induction s rule: split_bars.induct) auto

lemma valid_term_spell: "valid_term (spell op @ showVersion b)"
  by (simp add: valid_term_def comparator_spell)

lemma comparators_single:
  assumes "list_all term_char t" and "t \<noteq> []" and "t \<noteq> ''*''" and "valid_term t"
  shows "comparators t = Some [[t]]"
proof -
  have sp: "list_all (\<lambda>c. \<not> is_space c) t" and "CHR ''|'' \<notin> set t"
    using assms(1) by (auto simp: list_all_iff term_char_not_space dest: term_char_not_bar)
  then have "map trim (split_bars t) = [t]"
    by (simp add: split_bars_no_bar trim_no_space)
  then show ?thesis
    using assms sp by (simp add: comparators_def alternativeTerms_def split_spaces_no_space)
qed

lemma comparators_spell: "comparators (spell op @ showVersion b) = Some [[spell op @ showVersion b]]"
proof (rule comparators_single)
  obtain c s where "showVersion b = c # s" "version_char c" using showVersion_Cons by blast
  moreover from this have "c \<noteq> CHR ''*''" using version_char_codes [of c] by (auto simp: code_def)
  ultimately show "spell op @ showVersion b \<noteq> ''*''" by (cases op) (auto simp: spell_def)
qed (use spell_chars [of op b] valid_term_spell in simp_all)

text \<open>What each operator accepts. \<open>^\<close> keeps the leftmost non-zero part of the bound and \<open>~\<close> its
  major and minor part; both accept nothing older than the bound.\<close>

lemma range_operator_meaning:
  "rangeSatisfies (showVersion v) (spell op @ showVersion b) \<longleftrightarrow>
     (case op of
        Caret \<Rightarrow> b \<le> v \<and>
          (if 0 < major b then major v = major b
           else if 0 < minor b then major v = 0 \<and> minor v = minor b
           else v = b)
      | Tilde \<Rightarrow> b \<le> v \<and> major v = major b \<and> minor v = minor b
      | Ge \<Rightarrow> b \<le> v | Le \<Rightarrow> v \<le> b | Gr \<Rightarrow> b < v | Ls \<Rightarrow> v < b | Eq \<Rightarrow> v = b)"
proof -
  have "rangeSatisfies (showVersion v) (spell op @ showVersion b) = operatorMatches op v b"
    by (simp add: rangeSatisfies_def comparators_spell)
  then show ?thesis
    by (cases op; cases v; cases b) (auto simp: version_le_iff version_less_iff)
qed

section \<open>Bumping and retargeting\<close>

lemma bump_greater: "v < bump l v"
  by (cases v; cases l) (simp_all add: version_less_iff)

text \<open>A bump prints a version that reads back as the bumped one and is newer; the level decides
  which part grows and every part right of it restarts at zero.\<close>

lemma next_version_newer:
  assumes "nextVersion s l = Some t"
  shows "\<exists>v. parseVersion s = Some v \<and> parseVersion t = Some (bump l v) \<and> v < bump l v"
  using assms by (auto simp: nextVersion_def bump_greater simp del: showVersion.simps split: option.splits)

lemma next_version_newer_example:
  "\<exists>v. parseVersion ''1.2.9'' = Some v \<and> parseVersion ''1.3.0'' = Some (bump Minor v) \<and> v < bump Minor v"
proof -
  have "nextVersion ''1.2.9'' Minor = Some ''1.3.0''" by code_simp
  then show ?thesis by (rule next_version_newer)
qed

lemma simpleRange_spells: "simpleRange s = Some op \<Longrightarrow> op \<in> {[], spell Caret, spell Tilde}"
  by (auto simp: simpleRange_def spell_def Let_def split: if_splits list.splits)

lemma operatorMatches_self: "op \<in> {Caret, Tilde, Eq} \<Longrightarrow> operatorMatches op v v"
  by (cases v) (auto simp: version_less_iff)

lemma rangeSatisfies_self:
  assumes "op \<in> {[], spell Caret, spell Tilde}"
  shows "rangeSatisfies (showVersion v) (op @ showVersion v)"
proof -
  have "comparators (showVersion v) = Some [[showVersion v]]"
  proof (rule comparators_single)
    show "list_all term_char (showVersion v)"
      using showVersion_chars [of v] by (simp add: list_all_iff term_char_def)
    show "showVersion v \<noteq> ''*''"
      using parse_showVersion [of v] by (auto simp: parseVersion_def trim_def is_space_def code_def)
    show "valid_term (showVersion v)" by (simp add: valid_term_def comparator_spell)
  qed simp
  then show ?thesis
    using assms operatorMatches_self [of Caret v] operatorMatches_self [of Tilde v]
    by (auto simp: rangeSatisfies_def comparators_spell simp del: operatorMatches.simps(1,2))
qed

text \<open>a retargeted range accepts the version it was retargeted to, and a range that already
  accepts it is returned unchanged.\<close>

lemma retarget_accepts:
  assumes "retargetModuleRange rng (showVersion v) = Some rng'"
  shows "satisfiesModuleVersion (showVersion v) rng' \<and>
         (satisfiesModuleVersion (showVersion v) rng \<longrightarrow> rng' = rng)"
  using assms
  by (auto simp: retargetModuleRange_def satisfiesModuleVersion_def
      intro: rangeSatisfies_self dest: simpleRange_spells split: if_splits option.splits)

lemma retarget_accepts_witness:
  "satisfiesModuleVersion (showVersion (Version 0 12 0)) ''^0.12.0''"
proof -
  have "retargetModuleRange ''^0.11.0'' (showVersion (Version 0 12 0)) = Some ''^0.12.0''"
    by code_simp
  then show ?thesis using retarget_accepts by blast
qed

section \<open>The platform line check is exact\<close>

text \<open>
  First the scan: the versions \<open>matchAll\<close> names in a valid range are those of its terms. A character
  that is neither a digit nor a dot separates the scan.
\<close>

definition separator :: "char \<Rightarrow> bool" where
  "separator c = (\<not> is_digit c \<and> c \<noteq> CHR ''.'')"

lemma match_version_at_sep:
  assumes "separator c"
  shows "match_version_at (xs @ c # ys) =
    map_option (\<lambda>(m, r). (m, r @ c # ys)) (match_version_at xs)"
proof -
  have tw: "takeWhile is_digit (zs @ c # ys) = takeWhile is_digit zs"
    and dw: "dropWhile is_digit (zs @ c # ys) = dropWhile is_digit zs @ c # ys" for zs
    using assms by (induction zs) (auto simp: separator_def)
  have hd': "hd (zs @ c # ys) = CHR ''.'' \<longleftrightarrow> zs \<noteq> [] \<and> hd zs = CHR ''.''" for zs
    using assms by (cases zs) (auto simp: separator_def)
  show ?thesis
    unfolding match_version_at_def tw dw Let_def
    by (cases "dropWhile is_digit xs"; cases "dropWhile is_digit (tl (dropWhile is_digit xs))")
      (use assms in \<open>auto simp: tw dw hd' separator_def\<close>)
qed

lemma named_versions_sep:
  assumes "separator c"
  shows "named_versions (xs @ c # ys) = named_versions xs @ named_versions ys"
proof (induction xs rule: named_versions.induct)
  case 1
  have "match_version_at (c # ys) = None"
    using match_version_at_sep [OF assms, of "[]" ys] by (simp add: match_version_at_def)
  then show ?case by (simp add: named_versions.simps(2))
next
  case (2 d xs)
  have m: "match_version_at (d # xs @ c # ys) =
      map_option (\<lambda>(m, r). (m, r @ c # ys)) (match_version_at (d # xs))"
    using match_version_at_sep [OF assms, of "d # xs" ys] by simp
  show ?case
    by (cases "match_version_at (d # xs)") (use "2.IH" m in \<open>auto simp: named_versions.simps(2)\<close>)
qed

lemma named_versions_sep_Cons [simp]: "separator c \<Longrightarrow> named_versions (c # ys) = named_versions ys"
  using named_versions_sep [of c "[]" ys] by simp

lemma named_versions_left: "list_all separator l \<Longrightarrow> named_versions (l @ s) = named_versions s"
  by (induction l) auto

lemma named_versions_right: "list_all separator r \<Longrightarrow> named_versions (s @ r) = named_versions s"
  by (cases r) (auto simp: named_versions_sep named_versions_left [of _ "[]", simplified])

lemma space_separator: "is_space c \<Longrightarrow> separator c"
  by (auto simp: separator_def is_digit_def is_space_def)

lemma spaces_separator: "list_all is_space l \<Longrightarrow> list_all separator l"
  by (auto simp: list_all_iff space_separator)

lemma named_versions_trim: "named_versions (trim s) = named_versions s"
  using trim_decompose [of s] named_versions_left named_versions_right spaces_separator by metis

lemma join_split_bars: "join ''||'' (split_bars s) = s"
proof (induction s rule: split_bars.induct)
  case (3 c d s)
  have ne: "split_bars t \<noteq> []" for t
    by (induction t rule: split_bars.induct) (auto split: list.splits)
  show ?case
  proof (cases "c = CHR ''|'' \<and> d = CHR ''|''")
    case True
    with "3.IH"(1) ne [of s] show ?thesis by (simp add: join_Cons)
  next
    case False
    obtain p ps where p: "split_bars (d # s) = p # ps" using ne by (cases "split_bars (d # s)") auto
    with "3.IH"(2) [OF False] False show ?thesis by (cases ps) (auto simp: join_Cons)
  qed
qed simp_all

lemma named_versions_join: "named_versions (join ''||'' ps) = concat (map named_versions ps)"
proof (induction "''||''" ps rule: join.induct)
  case (3 x y ys)
  have "separator CHR ''|''" by (simp add: separator_def is_digit_def code_def)
  then show ?case using 3 by (simp add: named_versions_sep)
qed simp_all

lemma named_versions_spaces: "named_versions s = concat (map named_versions (split_spaces s))"
proof (induction s rule: split_spaces.induct)
  case (1 s)
  let ?w = "takeWhile (\<lambda>c. \<not> is_space c) s" and ?r = "dropWhile (\<lambda>c. \<not> is_space c) s"
  show ?case
  proof (cases "?r = []")
    case True
    then show ?thesis by (simp only: split_spaces_unfold(1)) simp
  next
    case False
    then obtain c t where r: "?r = c # t" and c: "is_space c"
      using hd_dropWhile [OF False] by (cases ?r) auto
    have "list_all separator (takeWhile is_space t)"
      by (auto simp: list_all_iff intro!: space_separator dest: set_takeWhileD)
    then have t: "named_versions (dropWhile is_space t) = named_versions t"
      using named_versions_left [of "takeWhile is_space t" "dropWhile is_space t"] by simp
    have "named_versions s = named_versions (?w @ c # t)"
      using takeWhile_dropWhile_id [of "\<lambda>c. \<not> is_space c" s] by (simp only: r)
    also have "\<dots> = named_versions ?w @ named_versions (dropWhile is_space ?r)"
      using c by (simp add: named_versions_sep space_separator r t)
    finally show ?thesis
      using "1.IH" [OF refl refl False] unfolding split_spaces_unfold(2) [OF False] by simp
  qed
qed

lemma named_versions_showVersion: "named_versions (showVersion v) = [showVersion v]"
proof (cases v)
  case (Version a b c)
  have dig: "takeWhile is_digit (show_nat n @ CHR ''.'' # t) = show_nat n"
    "dropWhile is_digit (show_nat n @ CHR ''.'' # t) = CHR ''.'' # t" for n t
    using show_nat_digits [of n] by (simp_all add: list_all_iff takeWhile_append2 dropWhile_append2)
  have end': "takeWhile is_digit (show_nat n) = show_nat n" "dropWhile is_digit (show_nat n) = []" for n
    using show_nat_digits [of n] by (simp_all add: list_all_iff takeWhile_eq_all_conv)
  have "match_version_at (showVersion v) = Some (showVersion v, [])"
    by (simp add: Version match_version_at_def Let_def dig end'
        del: takeWhile_eq_Nil_iff dropWhile_eq_Nil_conv)
  then show ?thesis by (cases "showVersion v") (auto simp: named_versions.simps(2))
qed

lemma splitOperator_rest: "splitOperator t = (op, r) \<Longrightarrow> \<exists>p. t = p @ r \<and> list_all separator p"
proof -
  assume sp: "splitOperator t = (op, r)"
  have take2: "starts_with p t \<Longrightarrow> t = p @ drop (length p) t" for p
    unfolding starts_with_def by (metis append_take_drop_id)
  have seps: "list_all separator ''>=''" "list_all separator ''<=''" "list_all separator ''^''"
    "list_all separator ''~''" "list_all separator ''>''" "list_all separator ''<''"
    "list_all separator ''=''" "list_all separator []"
    by (simp_all add: separator_def is_digit_def code_def)
  have "\<exists>p. t = p @ r \<and> list_all separator p"
    if "starts_with p t" "r = drop (length p) t" "list_all separator p" for p
    using take2 [OF that(1)] that by blast
  note this [of "''^''"] this [of "''~''"] this [of "''>=''"] this [of "''<=''"]
      this [of "''>''"] this [of "''<''"] this [of "''=''"]
  then show ?thesis
    using sp seps unfolding splitOperator_def
    by (simp add: numeral_2_eq_2 split: if_splits; blast)
qed

lemma valid_term_decompose:
  assumes "valid_term t"
  obtains op b where "named_versions t = [showVersion b]"
    and "\<And>v. comparatorMatches v t = operatorMatches op v b"
proof -
  from assms obtain opo rest b where c: "comparator t = Some (opo, rest)" "parseVersion rest = Some b"
    by (auto simp: valid_term_def split: option.splits)
  then obtain r where r: "splitOperator t = (opo, r)" "rest = dropWhile is_space r"
    by (auto simp: comparator_def Let_def split: prod.splits if_splits)
  obtain p where p: "t = p @ r" "list_all separator p" using splitOperator_rest [OF r(1)] by blast
  have "named_versions t = named_versions (takeWhile is_space r @ rest)"
    using p r(2) by (simp add: named_versions_left)
  also have "\<dots> = named_versions rest"
    by (rule named_versions_left)
      (auto simp: list_all_iff intro!: space_separator dest: set_takeWhileD)
  also have "\<dots> = named_versions (showVersion b)"
    using parseVersion_canonical [OF c(2)] named_versions_trim [of rest] by simp
  finally have "named_versions t = [showVersion b]" by (simp only: named_versions_showVersion)
  moreover have "comparatorMatches v t = operatorMatches (case opo of None \<Rightarrow> Eq | Some x \<Rightarrow> x) v b" for v
    by (simp add: comparatorMatches_def c)
  ultimately show thesis by (rule that)
qed

lemma collect_members: "collect as = Some tss \<Longrightarrow> terms \<in> set tss \<Longrightarrow> \<exists>a \<in> set as. alternativeTerms a = Some terms"
  by (induction as arbitrary: tss) (auto split: option.splits)

lemma alternativeTerms_named:
  assumes "alternativeTerms a = Some terms" and "t \<in> set terms"
  shows "valid_term t \<and> set (named_versions t) \<subseteq> set (named_versions a)"
  using assms named_versions_spaces [of a]
  by (auto simp: alternativeTerms_def Let_def list_all_iff split: if_splits)

lemma range_terms_named:
  assumes "comparators rng = Some alternatives" and "terms \<in> set alternatives" and "t \<in> set terms"
  shows "valid_term t \<and> set (named_versions t) \<subseteq> set (named_versions rng)"
proof -
  from assms obtain a where a: "a \<in> set (split_bars rng)" "alternativeTerms (trim a) = Some terms"
    using collect_members unfolding comparators_def by fastforce
  have "named_versions rng = concat (map named_versions (split_bars rng))"
    by (metis join_split_bars named_versions_join)
  then have "set (named_versions (trim a)) \<subseteq> set (named_versions rng)"
    using a(1) by (auto simp: named_versions_trim)
  then show ?thesis using alternativeTerms_named [OF a(2) assms(3)] by blast
qed

text \<open>
  Then the arithmetic: every version a term accepts is at least the term's own lower bound, and the
  lower bound up to that version is accepted too, so the greatest lower bound of the terms of an
  alternative is accepted by all of them.
\<close>

definition lowerBound :: "operator \<Rightarrow> version \<Rightarrow> version" where
  "lowerBound op b = (if op = Gr then next_patch b else if op \<in> {Le, Ls} then Version 0 0 0 else b)"

lemma zero_version_le [simp]: "Version 0 0 0 \<le> v"
  by (cases v) (auto simp: version_le_iff)

lemma lowerBound_le: "operatorMatches op v b \<Longrightarrow> lowerBound op b \<le> v"
  by (cases op; cases v; cases b) (auto simp: lowerBound_def version_le_iff version_less_iff)

lemma operatorMatches_down:
  assumes "operatorMatches op v b" and "lowerBound op b \<le> w" and "w \<le> v"
  shows "operatorMatches op w b"
proof (cases op)
  case Gr
  then show ?thesis
    using assms by (cases b; cases w) (auto simp: lowerBound_def version_le_iff version_less_iff)
qed (use assms in \<open>auto simp: lowerBound_def\<close>)

lemma least_accepted:
  assumes "list_all (comparatorMatches v) terms"
    and "\<And>t. t \<in> set terms \<Longrightarrow> valid_term t \<and> set (named_versions t) \<subseteq> set (named_versions rng)"
  shows "\<exists>w \<in> set (platformCandidates rng). w \<le> v \<and> list_all (comparatorMatches w) terms"
proof -
  have "\<exists>op b. showVersion b \<in> set (named_versions rng) \<and> (\<forall>u. comparatorMatches u t = operatorMatches op u b)"
    if "t \<in> set terms" for t
  proof -
    from assms(2) [OF that] obtain op b where "named_versions t = [showVersion b]"
      "\<And>v. comparatorMatches v t = operatorMatches op v b"
      using valid_term_decompose by metis
    with assms(2) [OF that] have "showVersion b \<in> set (named_versions rng)" by simp
    with \<open>\<And>v. comparatorMatches v t = operatorMatches op v b\<close> show ?thesis by blast
  qed
  then obtain f g where fg: "t \<in> set terms \<Longrightarrow> showVersion (g t) \<in> set (named_versions rng)"
    "t \<in> set terms \<Longrightarrow> comparatorMatches u t = operatorMatches (f t) u (g t)" for t u
    by metis
  let ?L = "insert (Version 0 0 0) ((\<lambda>t. lowerBound (f t) (g t)) ` set terms)"
  let ?w = "Max ?L"
  have w: "?w \<in> ?L" by (rule Max_in) auto
  have "lowerBound (f t) (g t) \<in> set (platformCandidates rng)" if "t \<in> set terms" for t
    using fg(1) [OF that] by (force simp: platformCandidates_def lowerBound_def)
  moreover have "Version 0 0 0 \<in> set (platformCandidates rng)" by (simp add: platformCandidates_def)
  ultimately have "?L \<subseteq> set (platformCandidates rng)" by blast
  with w have "?w \<in> set (platformCandidates rng)" by (rule rev_subsetD)
  moreover have "\<forall>x \<in> ?L. x \<le> v"
    using assms(1) fg(2) by (auto simp: list_all_iff intro: lowerBound_le)
  then have le: "?w \<le> v" using w by blast
  moreover have "comparatorMatches ?w t" if "t \<in> set terms" for t
  proof -
    have "lowerBound (f t) (g t) \<le> ?w" using that by (intro Max_ge) auto
    then show ?thesis
      using that assms(1) fg(2) le by (auto simp: list_all_iff intro: operatorMatches_down)
  qed
  then have "list_all (comparatorMatches ?w) terms" by (simp add: list_all_iff)
  ultimately show ?thesis by blast
qed

text \<open>C36: for a valid range, the candidates the check tests decide the question exactly: it refuses the
  range if and only if some version older than the platform's own line satisfies it.\<close>

theorem platform_line_exact:
  assumes "isValidRange rng"
  shows "assertPlatformLine rng p = Inl MODULE_PLATFORM_INCOMPATIBLE \<longleftrightarrow>
    (\<exists>v. v < Version (major p) (minor p) 0 \<and> rangeSatisfies (showVersion v) rng)"
    (is "_ \<longleftrightarrow> (\<exists>v. v < ?line \<and> _)")
proof -
  from assms obtain alternatives where alts: "comparators rng = Some alternatives"
    by (auto simp: isValidRange_def)
  have sat: "rangeSatisfies (showVersion u) rng \<longleftrightarrow>
      (\<exists>terms \<in> set alternatives. list_all (comparatorMatches u) terms)" for u
    by (simp add: rangeSatisfies_def alts list_ex_iff)
  have "\<exists>w \<in> set (platformCandidates rng). w < ?line \<and> rangeSatisfies (showVersion w) rng"
    if v: "v < ?line" "rangeSatisfies (showVersion v) rng" for v
  proof -
    obtain terms where terms: "terms \<in> set alternatives" "list_all (comparatorMatches v) terms"
      using v(2) sat by blast
    then obtain w where "w \<in> set (platformCandidates rng)" "w \<le> v" "list_all (comparatorMatches w) terms"
      using least_accepted [OF terms(2)] range_terms_named [OF alts terms(1)] by blast
    then show ?thesis using v(1) terms(1) sat by (meson le_less_trans)
  qed
  then show ?thesis
    by (auto simp: assertPlatformLine_def throw_if_Inl list_ex_iff simp del: showVersion.simps)
qed

theorem platform_line_exact_witness:
  "isValidRange ''>0.1.9 <0.3.0 || 0.2.4'' \<and>
   assertPlatformLine ''>0.1.9 <0.3.0 || 0.2.4'' (Version 0 2 4) = Inl MODULE_PLATFORM_INCOMPATIBLE"
proof -
  let ?r = "''>0.1.9 <0.3.0 || 0.2.4''"
  have v: "isValidRange ?r" by code_simp
  have "Version 0 1 10 < Version 0 2 0" by (simp add: version_less_iff)
  moreover have "rangeSatisfies (showVersion (Version 0 1 10)) ?r" by code_simp
  ultimately show ?thesis using v platform_line_exact [OF v, of "Version 0 2 4"] by auto
qed

end
