(* ===== verification/Kernel_Modules.thy ===== *)
theory Kernel_Modules
  imports Kernel_Version
begin

text \<open>
  \<open>packages/kernel/src/module-registry.ts\<close>: the composition of modules. \<open>createModuleRegistry\<close> checks
  each module, indexes the capability providers, and orders the modules by a depth-first walk over
  dependencies and required capabilities. The \<open>Map\<close> from ids to modules is an association list in
  insertion order. The set \<open>visiting\<close> holds what is on the walk's own path: the code adds an id before
  it descends and deletes it after, so the model passes the enlarged set down instead.
\<close>

record navigation_item =
  nav_id :: string
  nav_permission :: "string option"
  nav_order :: "int option"

record registered_module =
  manifest :: module_manifest
  navigation :: "navigation_item list"

type_synonym module_map = "(string \<times> registered_module) list"

abbreviation module_id :: "registered_module \<Rightarrow> string" where
  "module_id m \<equiv> man_id (manifest m)"

definition compareModules ::
    "(string \<Rightarrow> string \<Rightarrow> int) \<Rightarrow> registered_module \<Rightarrow> registered_module \<Rightarrow> int" where
  "compareModules localeCompare left right = localeCompare (module_id left) (module_id right)"

definition addProvider ::
    "string \<Rightarrow> (string \<rightharpoonup> string) \<Rightarrow> string \<Rightarrow> registry_error + (string \<rightharpoonup> string)" where
  "addProvider owner providers capability =
     (case providers capability of
        Some existing \<Rightarrow>
          if existing \<noteq> [] \<and> existing \<noteq> owner then Inl MODULE_CAPABILITY_DUPLICATE
          else Inr (providers(capability \<mapsto> owner))
      | None \<Rightarrow> Inr (providers(capability \<mapsto> owner)))"

definition capabilityProviders ::
    "registered_module list \<Rightarrow> registry_error + (string \<rightharpoonup> string)" where
  "capabilityProviders modules =
     for_each (\<lambda>providers m. for_each (addProvider (module_id m)) providers (provides (manifest m)))
       Map.empty modules"

record visit_state =
  visited :: "string set"
  ordered :: "registered_module list"

text \<open>Each descent enlarges \<open>visiting\<close> by a registered module, which bounds the depth of the walk.\<close>

lemma unvisited_decreases:
  fixes modules :: module_map
  assumes "map_of modules i = Some m" and "i \<notin> visiting"
  shows "card (fst ` set modules - insert i visiting) < card (fst ` set modules - visiting)"
proof (rule psubset_card_mono)
  show "finite (fst ` set modules - visiting)" by simp
  have "i \<in> fst ` set modules" using map_of_SomeD [OF assms(1)] by force
  then show "fst ` set modules - insert i visiting \<subset> fst ` set modules - visiting"
    using assms(2) by auto
qed

function visitModule ::
    "(string \<Rightarrow> string \<Rightarrow> int) \<Rightarrow> module_map \<Rightarrow> (string \<rightharpoonup> string) \<Rightarrow> string set \<Rightarrow> visit_state \<Rightarrow>
     string \<Rightarrow> registry_error + visit_state" where
  "visitModule localeCompare modules providers visiting st i =
     (if i \<in> visited st then Inr st
      else if i \<in> visiting then Inl MODULE_DEPENDENCY_CYCLE
      else case map_of modules i of
        None \<Rightarrow> Inl MODULE_NOT_FOUND
      | Some current \<Rightarrow>
          and_then
            (for_each (\<lambda>st dependency.
               case map_of modules (dep_id dependency) of
                 None \<Rightarrow> Inl MODULE_DEPENDENCY_MISSING
               | Some m \<Rightarrow>
                   and_then (assertModuleDependency dependency (man_version (manifest m)))
                     (\<lambda>_. visitModule localeCompare modules providers (insert i visiting) st
                            (dep_id dependency)))
              st (sort_by (\<lambda>a b. localeCompare (dep_id a) (dep_id b)) (dependencies (manifest current))))
            (\<lambda>st. and_then
              (for_each (\<lambda>st requirement.
                 if req_optional requirement then Inr st
                 else case providers (req_id requirement) of
                   None \<Rightarrow> Inl MODULE_CAPABILITY_MISSING
                 | Some provider \<Rightarrow>
                     if provider = [] then Inl MODULE_CAPABILITY_MISSING
                     else if provider = i then Inr st
                     else visitModule localeCompare modules providers (insert i visiting) st provider)
                st (sort_by (\<lambda>a b. localeCompare (req_id a) (req_id b)) (requires (manifest current))))
              (\<lambda>st. Inr (st\<lparr>visited := insert i (visited st), ordered := ordered st @ [current]\<rparr>))))"
  by pat_completeness auto
termination
  by (relation "measure (\<lambda>(_, modules, _, visiting, _, _). card (fst ` set modules - visiting))")
    (auto simp: unvisited_decreases)

declare visitModule.simps [simp del]

record module_registry =
  modules :: "registered_module list"
  byId :: module_map

definition registerNavigation :: "string set \<Rightarrow> navigation_item \<Rightarrow> registry_error + string set" where
  "registerNavigation ids item =
     (if nav_id item \<in> ids then Inl NAVIGATION_DUPLICATE else Inr (insert (nav_id item) ids))"

definition registerModule ::
    "module_map \<times> string set \<Rightarrow> registered_module \<Rightarrow> registry_error + module_map \<times> string set" where
  "registerModule = (\<lambda>(mods, navigationIds) m.
     and_then (assertModuleCompatibility (manifest m) (Some PLATFORM_API_VERSION)) (\<lambda>_.
       if map_of mods (module_id m) \<noteq> None then Inl MODULE_DUPLICATE
       else and_then (for_each registerNavigation navigationIds (navigation m)) (\<lambda>ids.
         Inr (mods @ [(module_id m, m)], ids))))"

definition createModuleRegistry ::
    "(string \<Rightarrow> string \<Rightarrow> int) \<Rightarrow> registered_module list \<Rightarrow> registry_error + module_registry" where
  "createModuleRegistry localeCompare input =
     and_then (for_each registerModule ([], {}) input) (\<lambda>(mods, _).
     and_then (capabilityProviders (map snd mods)) (\<lambda>providers.
     and_then (for_each (\<lambda>st m. visitModule localeCompare mods providers {} st (module_id m))
                 \<lparr>visited = {}, ordered = []\<rparr> (sort_by (compareModules localeCompare) input)) (\<lambda>st.
     Inr \<lparr>modules = ordered st, byId = mods\<rparr>)))"

definition registry_navigation ::
    "(string \<Rightarrow> string \<Rightarrow> int) \<Rightarrow> module_registry \<Rightarrow> string set option \<Rightarrow> navigation_item list" where
  "registry_navigation localeCompare reg permissions =
     sort_by
       (compare_then (\<lambda>item. case nav_order item of None \<Rightarrow> 1000 | Some n \<Rightarrow> n)
          (\<lambda>left right. localeCompare (nav_id left) (nav_id right)))
       (filter (\<lambda>item.
           (case nav_permission item of
              None \<Rightarrow> True
            | Some p \<Rightarrow> p = [] \<or> (case permissions of None \<Rightarrow> False | Some ps \<Rightarrow> p \<in> ps)))
         (concat (map navigation (modules reg))))"

section \<open>What the walk establishes\<close>

text \<open>\<open>met S m\<close>: what module \<open>m\<close> declares is met by registered modules whose ids are in \<open>S\<close>.\<close>

definition met :: "module_map \<Rightarrow> (string \<rightharpoonup> string) \<Rightarrow> string set \<Rightarrow> registered_module \<Rightarrow> bool" where
  "met mods providers S m \<longleftrightarrow>
     (\<forall>d \<in> set (dependencies (manifest m)).
        dep_id d \<in> S \<and> (\<exists>m'. map_of mods (dep_id d) = Some m' \<and>
          satisfiesModuleVersion (man_version (manifest m')) (dep_range d))) \<and>
     (\<forall>r \<in> set (requires (manifest m)). \<not> req_optional r \<longrightarrow>
        (\<exists>p. providers (req_id r) = Some p \<and> p \<noteq> [] \<and> (p = module_id m \<or> p \<in> S)))"

definition keyed :: "module_map \<Rightarrow> bool" where
  "keyed mods \<longleftrightarrow> (\<forall>i m. map_of mods i = Some m \<longrightarrow> module_id m = i)"

definition visit_inv :: "module_map \<Rightarrow> (string \<rightharpoonup> string) \<Rightarrow> string set \<Rightarrow> visit_state \<Rightarrow> bool" where
  "visit_inv mods providers visiting st \<longleftrightarrow>
     visited st = module_id ` set (ordered st) \<and> distinct (map module_id (ordered st)) \<and>
     (\<forall>m \<in> set (ordered st). map_of mods (module_id m) = Some m) \<and>
     (\<forall>k < length (ordered st). met mods providers (module_id ` set (take k (ordered st))) (ordered st ! k)) \<and>
     visiting \<inter> visited st = {}"

lemma visit_inv_push:
  assumes inv: "visit_inv mods providers (insert i visiting) st" and "keyed mods"
    and "map_of mods i = Some m" and "met mods providers (visited st) m" and "i \<notin> visiting"
  shows "visit_inv mods providers visiting
           (st\<lparr>visited := insert i (visited st), ordered := ordered st @ [m]\<rparr>)"
proof -
  have id: "module_id m = i" using assms(2,3) by (simp add: keyed_def)
  show ?thesis
    using assms id by (auto simp: visit_inv_def nth_append less_Suc_eq)
qed

lemma visit_ok:
  assumes "visitModule lc mods providers visiting st i = Inr st'"
    and "keyed mods" and "visit_inv mods providers visiting st"
  shows "visit_inv mods providers visiting st' \<and> visited st \<subseteq> visited st' \<and> i \<in> visited st'"
  using assms
proof (induction lc mods providers visiting st i arbitrary: st' rule: visitModule.induct)
  case (1 lc mods providers visiting st i)
  show ?case
  proof (cases "i \<in> visited st")
    case True
    with "1.prems" show ?thesis by (simp add: visitModule.simps [of lc mods providers visiting st i])
  next
    case new: False
    with "1.prems" obtain m st1 st2 where m: "map_of mods i = Some m" and i: "i \<notin> visiting"
      and deps: "for_each (\<lambda>st dependency.
               case map_of mods (dep_id dependency) of
                 None \<Rightarrow> Inl MODULE_DEPENDENCY_MISSING
               | Some m \<Rightarrow>
                   and_then (assertModuleDependency dependency (man_version (manifest m)))
                     (\<lambda>_. visitModule lc mods providers (insert i visiting) st (dep_id dependency)))
              st (sort_by (\<lambda>a b. lc (dep_id a) (dep_id b)) (dependencies (manifest m))) = Inr st1"
      and reqs: "for_each (\<lambda>st requirement.
                 if req_optional requirement then Inr st
                 else case providers (req_id requirement) of
                   None \<Rightarrow> Inl MODULE_CAPABILITY_MISSING
                 | Some provider \<Rightarrow>
                     if provider = [] then Inl MODULE_CAPABILITY_MISSING
                     else if provider = i then Inr st
                     else visitModule lc mods providers (insert i visiting) st provider)
                st1 (sort_by (\<lambda>a b. lc (req_id a) (req_id b)) (requires (manifest m))) = Inr st2"
      and st': "st' = st2\<lparr>visited := insert i (visited st2), ordered := ordered st2 @ [m]\<rparr>"
      by (auto simp: visitModule.simps [of lc mods providers visiting st i] and_then_Inr
          split: option.splits if_splits)
    let ?P = "visit_inv mods providers (insert i visiting)"
    let ?le = "\<lambda>s t. visited s \<subseteq> visited t"
    let ?Q = "\<lambda>d t. dep_id d \<in> visited t \<and> (\<exists>m'. map_of mods (dep_id d) = Some m' \<and>
          satisfiesModuleVersion (man_version (manifest m')) (dep_range d))"
    let ?R = "\<lambda>r t. \<not> req_optional r \<longrightarrow>
        (\<exists>p. providers (req_id r) = Some p \<and> p \<noteq> [] \<and> (p = i \<or> p \<in> visited t))"
    have P: "?P st" using "1.prems"(3) new by (auto simp: visit_inv_def)
    have D: "?P st1 \<and> ?le st st1 \<and>
        (\<forall>d \<in> set (sort_by (\<lambda>a b. lc (dep_id a) (dep_id b)) (dependencies (manifest m))). ?Q d st1)"
    proof (rule for_each_progress [where le = ?le and P = ?P and Q = ?Q, OF deps P], goal_cases)
      case (1 t d t')
      then show ?case
        using "1.IH"(1) [OF new i m] \<open>keyed mods\<close>
        by (auto simp: and_then_Inr assertModuleDependency_def throw_if_Inr split: option.splits)
    qed blast+
    have R: "?P st2 \<and> ?le st1 st2 \<and>
        (\<forall>r \<in> set (sort_by (\<lambda>a b. lc (req_id a) (req_id b)) (requires (manifest m))). ?R r st2)"
    proof (rule for_each_progress [where le = ?le and P = ?P and Q = ?R, OF reqs D [THEN conjunct1]], goal_cases)
      case (1 t r t')
      then show ?case
        using "1.IH"(2) [OF new i m deps] \<open>keyed mods\<close>
        by (auto split: option.splits if_splits)
    qed blast+
    have "met mods providers (visited st2) m"
      using D R m \<open>keyed mods\<close> by (auto simp: met_def keyed_def)
    then show ?thesis
      using visit_inv_push [OF _ \<open>keyed mods\<close> m] R D i unfolding st' by auto
  qed
qed

section \<open>Why the walk fails\<close>

definition walk_edges :: "module_map \<Rightarrow> (string \<rightharpoonup> string) \<Rightarrow> (string \<times> string) set" where
  "walk_edges mods providers =
     {(i, j). \<exists>m. map_of mods i = Some m \<and>
        (j \<in> dep_id ` set (dependencies (manifest m)) \<or>
         (\<exists>r \<in> set (requires (manifest m)). \<not> req_optional r \<and> providers (req_id r) = Some j \<and>
            j \<noteq> [] \<and> j \<noteq> i))}"

definition resolvable :: "module_map \<Rightarrow> (string \<rightharpoonup> string) \<Rightarrow> bool" where
  "resolvable mods providers \<longleftrightarrow>
     (\<forall>(i, m) \<in> set mods.
        (\<forall>d \<in> set (dependencies (manifest m)). \<exists>m'. map_of mods (dep_id d) = Some m' \<and>
          satisfiesModuleVersion (man_version (manifest m')) (dep_range d)) \<and>
        (\<forall>r \<in> set (requires (manifest m)). \<not> req_optional r \<longrightarrow>
          (\<exists>p. providers (req_id r) = Some p \<and> p \<noteq> [] \<and> map_of mods p \<noteq> None)))"

lemma resolvableD:
  assumes "resolvable mods providers" and "map_of mods i = Some m"
  shows "d \<in> set (dependencies (manifest m)) \<Longrightarrow> \<exists>m'. map_of mods (dep_id d) = Some m' \<and>
          satisfiesModuleVersion (man_version (manifest m')) (dep_range d)"
    and "r \<in> set (requires (manifest m)) \<Longrightarrow> \<not> req_optional r \<Longrightarrow>
          \<exists>p. providers (req_id r) = Some p \<and> p \<noteq> [] \<and> map_of mods p \<noteq> None"
  using assms map_of_SomeD [OF assms(2)] by (fastforce simp: resolvable_def)+

lemma visit_error:
  assumes "visitModule lc mods providers visiting st i = Inl e"
    and "resolvable mods providers" and "map_of mods i \<noteq> None"
  shows "e = MODULE_DEPENDENCY_CYCLE \<and>
    ((\<forall>v \<in> visiting. (v, i) \<in> (walk_edges mods providers)\<^sup>+) \<longrightarrow>
     \<not> acyclic (walk_edges mods providers))"
  using assms
proof (induction lc mods providers visiting st i arbitrary: e rule: visitModule.induct)
  case (1 lc mods providers visiting st i)
  let ?E = "walk_edges mods providers"
  show ?case
  proof (cases "i \<in> visiting")
    case True
    with "1.prems"(1) show ?thesis
      by (auto simp: visitModule.simps [of lc mods providers visiting st i] acyclic_def split: if_splits)
  next
    case i: False
    from "1.prems"(1) have new: "i \<notin> visited st"
      by (auto simp: visitModule.simps [of lc mods providers visiting st i])
    obtain m where m: "map_of mods i = Some m" using "1.prems"(3) by auto
    have chain: "\<forall>v \<in> insert i visiting. (v, j) \<in> ?E\<^sup>+"
      if "(i, j) \<in> ?E" and "\<forall>v \<in> visiting. (v, i) \<in> ?E\<^sup>+" for j
      using that by (auto intro: trancl_into_trancl)
    from "1.prems"(1) new i m consider
      (dep) "for_each (\<lambda>st dependency.
               case map_of mods (dep_id dependency) of
                 None \<Rightarrow> Inl MODULE_DEPENDENCY_MISSING
               | Some m \<Rightarrow>
                   and_then (assertModuleDependency dependency (man_version (manifest m)))
                     (\<lambda>_. visitModule lc mods providers (insert i visiting) st (dep_id dependency)))
              st (sort_by (\<lambda>a b. lc (dep_id a) (dep_id b)) (dependencies (manifest m))) = Inl e"
    | (req) st1 where "for_each (\<lambda>st dependency.
               case map_of mods (dep_id dependency) of
                 None \<Rightarrow> Inl MODULE_DEPENDENCY_MISSING
               | Some m \<Rightarrow>
                   and_then (assertModuleDependency dependency (man_version (manifest m)))
                     (\<lambda>_. visitModule lc mods providers (insert i visiting) st (dep_id dependency)))
              st (sort_by (\<lambda>a b. lc (dep_id a) (dep_id b)) (dependencies (manifest m))) = Inr st1"
        and "for_each (\<lambda>st requirement.
                 if req_optional requirement then Inr st
                 else case providers (req_id requirement) of
                   None \<Rightarrow> Inl MODULE_CAPABILITY_MISSING
                 | Some provider \<Rightarrow>
                     if provider = [] then Inl MODULE_CAPABILITY_MISSING
                     else if provider = i then Inr st
                     else visitModule lc mods providers (insert i visiting) st provider)
                st1 (sort_by (\<lambda>a b. lc (req_id a) (req_id b)) (requires (manifest m))) = Inl e"
      by (auto simp: visitModule.simps [of lc mods providers visiting st i] and_then_Inl)
    then show ?thesis
    proof cases
      case dep
      obtain t d where d: "d \<in> set (dependencies (manifest m))"
        and err: "(case map_of mods (dep_id d) of None \<Rightarrow> Inl MODULE_DEPENDENCY_MISSING
               | Some m \<Rightarrow> and_then (assertModuleDependency d (man_version (manifest m)))
                     (\<lambda>_. visitModule lc mods providers (insert i visiting) t (dep_id d))) = Inl e"
        using for_each_Inl [OF dep] by auto
      obtain m' where m': "map_of mods (dep_id d) = Some m'"
        and ok: "assertModuleDependency d (man_version (manifest m')) = Inr ()"
        using resolvableD(1) [OF "1.prems"(2) m d] by (auto simp: assertModuleDependency_def)
      have E: "(i, dep_id d) \<in> ?E" using m d by (auto simp: walk_edges_def)
      have "visitModule lc mods providers (insert i visiting) t (dep_id d) = Inl e"
        using err m' ok by simp
      then have "e = MODULE_DEPENDENCY_CYCLE \<and>
          ((\<forall>v \<in> insert i visiting. (v, dep_id d) \<in> ?E\<^sup>+) \<longrightarrow> \<not> acyclic ?E)"
        using "1.IH"(1) [OF new i m _ m' ok] d "1.prems"(2) m' by auto
      then show ?thesis using chain [OF E] by blast
    next
      case (req st1)
      obtain t r where r: "r \<in> set (requires (manifest m))"
        and err: "(if req_optional r then Inr t
                 else case providers (req_id r) of None \<Rightarrow> Inl MODULE_CAPABILITY_MISSING
                 | Some provider \<Rightarrow> if provider = [] then Inl MODULE_CAPABILITY_MISSING
                     else if provider = i then Inr t
                     else visitModule lc mods providers (insert i visiting) t provider) = Inl e"
        using for_each_Inl [OF req(2)] by auto
      from err have opt: "\<not> req_optional r" by auto
      then obtain p where p: "providers (req_id r) = Some p" "p \<noteq> []" "map_of mods p \<noteq> None"
        using resolvableD(2) [OF "1.prems"(2) m r] by blast
      with err opt have pi: "p \<noteq> i" and v: "visitModule lc mods providers (insert i visiting) t p = Inl e"
        by (auto split: if_splits)
      have E: "(i, p) \<in> ?E" using m r p opt pi by (auto simp: walk_edges_def)
      have "e = MODULE_DEPENDENCY_CYCLE \<and>
          ((\<forall>v \<in> insert i visiting. (v, p) \<in> ?E\<^sup>+) \<longrightarrow> \<not> acyclic ?E)"
        using "1.IH"(2) [OF new i m req(1) _ opt p(1,2) pi v "1.prems"(2) p(3)] r by simp
      then show ?thesis using chain [OF E] by blast
    qed
  qed
qed

text \<open>An order in which every module comes after what it needs rules out a cycle.\<close>

lemma index_of_taken:
  "x \<in> f ` set (take k xs) \<Longrightarrow> length (takeWhile (\<lambda>m. f m \<noteq> x) xs) < k"
proof (induction xs arbitrary: k)
  case (Cons y ys)
  then show ?case by (cases k) auto
qed simp

lemma index_of_nth:
  "distinct (map f xs) \<Longrightarrow> k < length xs \<Longrightarrow> length (takeWhile (\<lambda>m. f m \<noteq> f (xs ! k)) xs) = k"
proof (induction xs arbitrary: k)
  case (Cons y ys)
  then show ?case by (cases k) (auto dest: nth_mem [of _ ys])
qed simp

lemma ordered_acyclic:
  assumes inv: "visit_inv mods providers {} st" and all: "\<And>i m. map_of mods i = Some m \<Longrightarrow> i \<in> visited st"
  shows "acyclic (walk_edges mods providers)"
proof -
  let ?ms = "ordered st"
  let ?idx = "\<lambda>i. length (takeWhile (\<lambda>m. module_id m \<noteq> i) ?ms)"
  have "(walk_edges mods providers)\<inverse> \<subseteq> measure ?idx"
  proof (clarsimp simp: walk_edges_def, goal_cases)
    case (1 j i m)
    have "i \<in> module_id ` set ?ms" using all [OF 1(1)] inv by (simp add: visit_inv_def)
    then obtain k where k: "k < length ?ms" "module_id (?ms ! k) = i" by (auto simp: in_set_conv_nth)
    have mk: "?ms ! k = m" using inv k 1(1) by (auto simp: visit_inv_def)
    have "met mods providers (module_id ` set (take k ?ms)) m"
      using inv k(1) mk by (auto simp: visit_inv_def)
    then have "j \<in> module_id ` set (take k ?ms)"
      using 1(2) k(2) mk by (fastforce simp: met_def)
    then have "?idx j < k" by (rule index_of_taken)
    moreover have "?idx i = k"
      using index_of_nth [OF _ k(1), of module_id] inv k(2) by (simp add: visit_inv_def)
    ultimately show ?case by simp
  qed
  then have "wf ((walk_edges mods providers)\<inverse>)" by (rule wf_subset [OF wf_measure])
  then show ?thesis using wf_acyclic acyclic_converse by blast
qed

section \<open>The registry\<close>

lemma registerModule_loop:
  assumes "for_each registerModule (mods0, ids0) input = Inr (mods, ids)"
    and "distinct (map fst mods0)"
  shows "mods = mods0 @ map (\<lambda>m. (module_id m, m)) input \<and> distinct (map fst mods)"
  using assms
proof (induction input arbitrary: mods0 ids0)
  case Nil
  then show ?case by simp
next
  case (Cons m input)
  then obtain s1 where s1: "registerModule (mods0, ids0) m = Inr s1"
    and rest: "for_each registerModule s1 input = Inr (mods, ids)"
    by (auto simp: and_then_Inr)
  from s1 obtain ids1 where new: "map_of mods0 (module_id m) = None"
    and s1': "s1 = (mods0 @ [(module_id m, m)], ids1)"
    by (auto simp: and_then_Inr registerModule_def simp del: not_None_eq split: if_splits)
  note rest = rest [unfolded s1']
  have "distinct (map fst (mods0 @ [(module_id m, m)]))"
    using Cons.prems(2) new by (auto simp: map_of_eq_None_iff)
  note IH = Cons.IH [OF rest this]
  show ?case using conjunct1 [OF IH] conjunct2 [OF IH] by simp
qed

lemma capabilityProviders_owner:
  assumes "capabilityProviders ms = Inr providers" and "providers c = Some p"
  shows "\<exists>m \<in> set ms. module_id m = p \<and> c \<in> set (provides (manifest m))"
proof -
  let ?P = "\<lambda>pr. \<forall>c p. pr c = Some p \<longrightarrow> (\<exists>m \<in> set ms. module_id m = p \<and> c \<in> set (provides (manifest m)))"
  have "?P providers"
  proof (rule for_each_invariant [where P = ?P, OF assms(1) [unfolded capabilityProviders_def]],
      goal_cases)
    case (2 pr m pr')
    show ?case
    proof (rule for_each_invariant [where P = ?P, OF 2(3) 2(2)])
      fix t x t'
      assume "x \<in> set (provides (manifest m))" "?P t" "addProvider (module_id m) t x = Inr t'"
      then show "?P t'"
        using 2(1) by (auto simp: addProvider_def split: option.splits if_splits)
    qed
  qed simp
  then show ?thesis using assms(2) by blast
qed

lemma mods_facts:
  assumes "for_each registerModule ([], {}) input = Inr (mods, ids)"
  shows "mods = map (\<lambda>m. (module_id m, m)) input" and "distinct (map module_id input)"
    and "map_of mods i = Some m \<longleftrightarrow> m \<in> set input \<and> module_id m = i" and "keyed mods"
proof -
  have d: "mods = map (\<lambda>m. (module_id m, m)) input" "distinct (map fst mods)"
    using conjunct1 [OF registerModule_loop [OF assms]] conjunct2 [OF registerModule_loop [OF assms]]
    by (simp_all add: comp_def)
  then have "map fst mods = map module_id input" by (simp add: comp_def)
  with d show "mods = map (\<lambda>m. (module_id m, m)) input" "distinct (map module_id input)"
    by metis+
  have *: "map_of mods i = Some m \<longleftrightarrow> m \<in> set input \<and> module_id m = i" for i m
    using map_of_eq_Some_iff [OF d(2), of i m] by (auto simp: d(1))
  then show "map_of mods i = Some m \<longleftrightarrow> m \<in> set input \<and> module_id m = i" .
  show "keyed mods" by (simp add: keyed_def *)
qed

lemma visit_all:
  assumes "for_each (\<lambda>st m. visitModule lc mods providers {} st (module_id m))
             \<lparr>visited = {}, ordered = []\<rparr> ms = Inr st" and "keyed mods"
  shows "visit_inv mods providers {} st \<and> (\<forall>m \<in> set ms. module_id m \<in> visited st)"
proof -
  have "visit_inv mods providers {} st \<and> visited \<lparr>visited = {}, ordered = []\<rparr> \<subseteq> visited st \<and>
      (\<forall>m \<in> set ms. module_id m \<in> visited st)"
    by (rule for_each_progress [where le = "\<lambda>s t. visited s \<subseteq> visited t"
          and P = "visit_inv mods providers {}" and Q = "\<lambda>m t. module_id m \<in> visited t", OF assms(1)])
      (auto simp: visit_inv_def [of _ _ _ "\<lparr>visited = {}, ordered = []\<rparr>"] dest: visit_ok [OF _ assms(2)])
  then show ?thesis by simp
qed

lemma createModuleRegistry_stages:
  assumes "createModuleRegistry lc input = Inr reg"
  obtains mods ids providers st where
    "for_each registerModule ([], {}) input = Inr (mods, ids)"
    "capabilityProviders input = Inr providers"
    "visit_inv mods providers {} st" "\<forall>m \<in> set input. module_id m \<in> visited st"
    "modules reg = ordered st" "byId reg = mods"
proof -
  from assms obtain mods ids providers st where r: "for_each registerModule ([], {}) input = Inr (mods, ids)"
    and p: "capabilityProviders (map snd mods) = Inr providers"
    and v: "for_each (\<lambda>st m. visitModule lc mods providers {} st (module_id m))
             \<lparr>visited = {}, ordered = []\<rparr> (sort_by (compareModules lc) input) = Inr st"
    and reg: "reg = \<lparr>modules = ordered st, byId = mods\<rparr>"
    by (auto simp: createModuleRegistry_def and_then_Inr)
  have "map snd mods = input" using mods_facts(1) [OF r] by (simp add: comp_def)
  with p have p': "capabilityProviders input = Inr providers" by simp
  have "visit_inv mods providers {} st" "\<forall>m \<in> set input. module_id m \<in> visited st"
    using visit_all [OF v mods_facts(4) [OF r]] by simp_all
  from that [OF r p' this] reg show thesis by simp
qed

text \<open>Under the invariant an earlier identifier is that of an earlier module, so what a module depends on
  and what provides a capability it requires stand before it.\<close>

lemma visit_inv_owner:
  assumes "visit_inv mods providers {} st" and "k < length (ordered st)"
    and "i \<in> module_id ` set (take k (ordered st))"
  shows "\<exists>j < k. module_id (ordered st ! j) = i \<and> map_of mods i = Some (ordered st ! j)"
proof -
  from assms(2,3) obtain j where j: "j < k" "module_id (ordered st ! j) = i"
    by (auto simp: in_set_conv_nth)
  with assms(2) have "ordered st ! j \<in> set (ordered st)" by simp
  then have "map_of mods i = Some (ordered st ! j)" using assms(1) j(2) by (auto simp: visit_inv_def)
  with j show ?thesis by blast
qed

lemma visit_inv_dependency:
  assumes inv: "visit_inv mods providers {} st" and k: "k < length (ordered st)"
    and d: "d \<in> set (dependencies (manifest (ordered st ! k)))"
  shows "\<exists>j < k. module_id (ordered st ! j) = dep_id d \<and>
    satisfiesModuleVersion (man_version (manifest (ordered st ! j))) (dep_range d)"
proof -
  have "met mods providers (module_id ` set (take k (ordered st))) (ordered st ! k)"
    using inv k by (simp add: visit_inv_def)
  then obtain m' where "dep_id d \<in> module_id ` set (take k (ordered st))" "map_of mods (dep_id d) = Some m'"
    "satisfiesModuleVersion (man_version (manifest m')) (dep_range d)"
    using d unfolding met_def by blast
  with visit_inv_owner [OF inv k this(1)] show ?thesis by auto
qed

lemma visit_inv_provider:
  assumes inv: "visit_inv mods providers {} st" and k: "k < length (ordered st)"
    and p: "capabilityProviders input = Inr providers" and mods: "\<And>i m. map_of mods i = Some m \<longleftrightarrow> m \<in> set input \<and> module_id m = i"
    and r: "r \<in> set (requires (manifest (ordered st ! k)))" "\<not> req_optional r"
  shows "\<exists>j \<le> k. req_id r \<in> set (provides (manifest (ordered st ! j)))"
proof -
  have "met mods providers (module_id ` set (take k (ordered st))) (ordered st ! k)"
    using inv k by (simp add: visit_inv_def)
  then obtain q where q: "providers (req_id r) = Some q"
    "q = module_id (ordered st ! k) \<or> q \<in> module_id ` set (take k (ordered st))"
    using r unfolding met_def by blast
  obtain m where m: "m \<in> set input" "module_id m = q" "req_id r \<in> set (provides (manifest m))"
    using capabilityProviders_owner [OF p q(1)] by blast
  have self: "map_of mods (module_id (ordered st ! k)) = Some (ordered st ! k)"
    using inv k by (auto simp: visit_inv_def)
  obtain j where "j \<le> k" "map_of mods q = Some (ordered st ! j)"
    using q(2) visit_inv_owner [OF inv k, of q] self by (metis le_refl less_imp_le)
  moreover have "map_of mods q = Some m" using m mods by blast
  ultimately show ?thesis using m(3) by auto
qed

lemma visit_inv_all:
  assumes inv: "visit_inv mods providers {} st" and all: "\<forall>m \<in> set input. module_id m \<in> visited st"
    and mods: "\<And>i m. map_of mods i = Some m \<longleftrightarrow> m \<in> set input \<and> module_id m = i"
  shows "set (ordered st) = set input"
proof
  show "set (ordered st) \<subseteq> set input" using inv mods by (auto simp: visit_inv_def)
  show "set input \<subseteq> set (ordered st)"
  proof
    fix m assume m: "m \<in> set input"
    then obtain m' where m': "m' \<in> set (ordered st)" "module_id m' = module_id m"
      using all inv by (auto simp: visit_inv_def)
    then have "map_of mods (module_id m) = Some m'" using inv by (auto simp: visit_inv_def)
    then show "m \<in> set (ordered st)" using mods [of "module_id m" m] m m'(1) by simp
  qed
qed

text \<open>C17: a registry holds exactly the modules it was given, each once, in an order in which every
  declared dependency stands earlier at a version its range accepts, and every required capability
  is provided by an earlier module or by the module itself.\<close>

theorem registry_dependency_order:
  assumes "createModuleRegistry localeCompare input = Inr reg"
  shows "mset (modules reg) = mset input \<and> distinct (map module_id (modules reg)) \<and>
    (\<forall>k < length (modules reg).
       (\<forall>d \<in> set (dependencies (manifest (modules reg ! k))).
          \<exists>j < k. module_id (modules reg ! j) = dep_id d \<and>
            satisfiesModuleVersion (man_version (manifest (modules reg ! j))) (dep_range d)) \<and>
       (\<forall>r \<in> set (requires (manifest (modules reg ! k))). \<not> req_optional r \<longrightarrow>
          (\<exists>j \<le> k. req_id r \<in> set (provides (manifest (modules reg ! j))))))"
proof -
  from assms obtain mods ids providers st where
    r: "for_each registerModule ([], {}) input = Inr (mods, ids)"
    and p: "capabilityProviders input = Inr providers"
    and inv: "visit_inv mods providers {} st" and all: "\<forall>m \<in> set input. module_id m \<in> visited st"
    and reg: "modules reg = ordered st"
    by (rule createModuleRegistry_stages)
  note mods = mods_facts [OF r]
  have dist: "distinct (map module_id (ordered st))" using inv by (simp add: visit_inv_def)
  have "mset (ordered st) = mset input"
    using dist mods(2) visit_inv_all [OF inv all mods(3)]
    by (metis distinct_map set_eq_iff_mset_eq_distinct)
  then show ?thesis
    unfolding reg using dist visit_inv_dependency [OF inv] visit_inv_provider [OF inv _ p mods(3)] by blast
qed
text \<open>C35: when every module passes its own checks and everything declared can be resolved, composition
  fails exactly when the dependency and capability graph has a cycle, and then with the cycle error.\<close>

theorem registry_cycle_exact:
  assumes reg: "for_each registerModule ([], {}) input = Inr (mods, ids)"
    and prov: "capabilityProviders input = Inr providers" and res: "resolvable mods providers"
  shows "if acyclic (walk_edges mods providers)
         then \<exists>reg. createModuleRegistry localeCompare input = Inr reg
         else createModuleRegistry localeCompare input = Inl MODULE_DEPENDENCY_CYCLE"
proof -
  note mods = mods_facts [OF reg]
  let ?walk = "for_each (\<lambda>st m. visitModule localeCompare mods providers {} st (module_id m))
             \<lparr>visited = {}, ordered = []\<rparr> (sort_by (compareModules localeCompare) input)"
  have "map snd mods = input" using mods(1) by (simp add: comp_def)
  then have c: "createModuleRegistry localeCompare input =
      and_then ?walk (\<lambda>st. Inr \<lparr>modules = ordered st, byId = mods\<rparr>)"
    by (simp add: createModuleRegistry_def reg prov)
  show ?thesis
  proof (cases ?walk)
    case (Inl e)
    then obtain t m where m: "m \<in> set input"
      and v: "visitModule localeCompare mods providers {} t (module_id m) = Inl e"
      using for_each_Inl by fastforce
    have "map_of mods (module_id m) \<noteq> None" using mods(3) [of "module_id m" m] m by simp
    then have "e = MODULE_DEPENDENCY_CYCLE" "\<not> acyclic (walk_edges mods providers)"
      using visit_error [OF v res] by auto
    then show ?thesis using Inl c by simp
  next
    case (Inr st)
    have "acyclic (walk_edges mods providers)"
      using visit_all [OF Inr mods(4)] mods(3) by (intro ordered_acyclic [of mods providers st]) auto
    then show ?thesis using Inr c by simp
  qed
qed

text \<open>Navigation lists exactly the items whose permission is absent or held, ordered by their order
  number (1000 when absent) and then by id in the host's collation.\<close>

lemma registry_navigation_exact:
  assumes "comparator_order localeCompare"
  shows "(item \<in> set (registry_navigation localeCompare reg permissions) \<longleftrightarrow>
      (\<exists>m \<in> set (modules reg). item \<in> set (navigation m)) \<and>
      (\<forall>p. nav_permission item = Some p \<and> p \<noteq> [] \<longrightarrow> (\<exists>ps. permissions = Some ps \<and> p \<in> ps))) \<and>
    sorted_wrt (\<lambda>a b. compare_then (\<lambda>i. case nav_order i of None \<Rightarrow> 1000 | Some n \<Rightarrow> n)
        (\<lambda>l r. localeCompare (nav_id l) (nav_id r)) a b \<le> 0)
      (registry_navigation localeCompare reg permissions)"
proof
  show "item \<in> set (registry_navigation localeCompare reg permissions) \<longleftrightarrow>
      (\<exists>m \<in> set (modules reg). item \<in> set (navigation m)) \<and>
      (\<forall>p. nav_permission item = Some p \<and> p \<noteq> [] \<longrightarrow> (\<exists>ps. permissions = Some ps \<and> p \<in> ps))"
    by (auto simp: registry_navigation_def split: option.splits)
  show "sorted_wrt (\<lambda>a b. compare_then (\<lambda>i. case nav_order i of None \<Rightarrow> 1000 | Some n \<Rightarrow> n)
        (\<lambda>l r. localeCompare (nav_id l) (nav_id r)) a b \<le> 0)
      (registry_navigation localeCompare reg permissions)"
    unfolding registry_navigation_def
    by (rule comparator_order.sort_by_sorted [OF comparator_order_then [OF comparator_order_key [OF assms]]])
qed

section \<open>Witnesses\<close>

definition example_module ::
    "string \<Rightarrow> (string \<times> string) list \<Rightarrow> string list \<Rightarrow> string list \<Rightarrow> registered_module" where
  "example_module i deps prov req =
     \<lparr>manifest = \<lparr>platformApi = Some ''^0.2.0'', man_id = i, man_version = ''1.2.0'',
        dependencies = map (\<lambda>(d, r). \<lparr>dep_id = d, dep_range = r\<rparr>) deps,
        provides = prov, requires = map (\<lambda>c. \<lparr>req_id = c, req_optional = False\<rparr>) req\<rparr>,
      navigation = [\<lparr>nav_id = i, nav_permission = Some ''read'', nav_order = None\<rparr>]\<rparr>"

definition example_modules :: "registered_module list" where
  "example_modules =
     [example_module ''orders'' [(''auth'', ''^1.1.0'')] [] [''mail.send''],
      example_module ''mail'' [(''auth'', ''>=1.0.0 <2.0.0'')] [''mail.send''] [],
      example_module ''auth'' [] [] []]"

definition example_cycle :: "registered_module list" where
  "example_cycle =
     [example_module ''orders'' [(''auth'', ''^1.1.0'')] [''orders.list''] [],
      example_module ''auth'' [] [] [''orders.list'']]"

lemma example_modules_run:
  "map_sum id (\<lambda>reg. map module_id (modules reg)) (createModuleRegistry unit_compare example_modules) =
     Inr [''auth'', ''mail'', ''orders'']"
  by code_simp

theorem registry_dependency_order_witness:
  "\<exists>reg. createModuleRegistry unit_compare example_modules = Inr reg \<and>
     mset (modules reg) = mset example_modules"
proof -
  obtain reg where "createModuleRegistry unit_compare example_modules = Inr reg"
    using example_modules_run by (cases "createModuleRegistry unit_compare example_modules") auto
  with registry_dependency_order [OF this] show ?thesis by blast
qed

theorem registry_cycle_exact_witness:
  "createModuleRegistry unit_compare example_cycle = Inl MODULE_DEPENDENCY_CYCLE"
proof -
  let ?mods = "map (\<lambda>m. (module_id m, m)) example_cycle"
  let ?prov = "[''orders.list'' \<mapsto> ''orders'']"
  have reg: "for_each registerModule ([], {}) example_cycle = Inr (?mods, {''orders'', ''auth''})"
    by code_simp
  have prov: "capabilityProviders example_cycle = Inr ?prov"
    by (simp add: capabilityProviders_def example_cycle_def example_module_def addProvider_def)
  have sat: "rangeSatisfies ''1.2.0'' ''^1.1.0''" by code_simp
  have res: "resolvable ?mods ?prov"
    using sat by (simp add: resolvable_def example_cycle_def example_module_def satisfiesModuleVersion_def)
  have "(''orders'', ''auth'') \<in> walk_edges ?mods ?prov" "(''auth'', ''orders'') \<in> walk_edges ?mods ?prov"
    by (simp_all add: walk_edges_def example_cycle_def example_module_def)
  then have "\<not> acyclic (walk_edges ?mods ?prov)"
    unfolding acyclic_def by (meson trancl.r_into_trancl trancl_trans)
  then show ?thesis using registry_cycle_exact [OF reg prov res, of unit_compare] by simp
qed

lemma registry_navigation_example:
  "\<lparr>nav_id = ''auth'', nav_permission = Some ''read'', nav_order = None\<rparr> \<notin>
     set (registry_navigation unit_compare \<lparr>modules = example_modules, byId = []\<rparr> None)"
  unfolding conjunct1 [OF registry_navigation_exact [OF unit_order.comparator_order_axioms]]
  by simp

end
