(* ===== verification/Kernel_Acl.thy ===== *)
theory Kernel_Acl
  imports Flow_Prelude
begin

text \<open>
  \<open>packages/kernel/src/acl.ts\<close>: permission checks and the policy registry. A policy body is module
  code and a field of the policy; it answers a decision or throws, which is \<open>Inl ()\<close> here. The type
  of the record under decision is a type variable.
\<close>

section \<open>Principals, decisions and policies\<close>

record principal =
  prin_id :: string
  permissions :: "string set"

datatype access_reason = Granted | Anonymous | Missing_permission

record access_decision =
  access_allowed :: bool
  access_reason :: access_reason

definition authorize :: "principal option \<Rightarrow> string \<Rightarrow> access_decision" where
  "authorize prin permission =
     (case prin of
        None \<Rightarrow> \<lparr>access_allowed = False, access_reason = Anonymous\<rparr>
      | Some p \<Rightarrow>
          if permission \<notin> permissions p
          then \<lparr>access_allowed = False, access_reason = Missing_permission\<rparr>
          else \<lparr>access_allowed = True, access_reason = Granted\<rparr>)"

record approval_requirement =
  requirement_roleKey :: "string option"
  requirement_scope :: "string option"
  requirement_decisions :: "int option"
  requirement_expiresInDays :: "int option"

datatype deny_reason = Scope_reason access_reason | Policy_reason string | Policy_failed string

datatype policy_decision = Allowed | Denied deny_reason "approval_requirement option"

record 'r policy_context =
  ctx_principal :: principal
  ctx_permission :: string
  ctx_record :: 'r
  ctx_action :: "string option"

record 'r policy =
  policy_id :: string
  policy_permission :: string
  policy_evaluate :: "'r policy_context \<Rightarrow> unit + policy_decision"

datatype policy_error = POLICY_INVALID | POLICY_REGISTRY_SEALED | POLICY_DUPLICATE | POLICY_LIMIT

definition MAX_POLICIES :: nat where
  "MAX_POLICIES = 256"

text \<open>A definition whose \<open>evaluate\<close> is no function is \<open>None\<close> in the third argument.\<close>

definition definePolicy ::
    "string \<Rightarrow> string \<Rightarrow> ('r policy_context \<Rightarrow> unit + policy_decision) option \<Rightarrow> policy_error + 'r policy" where
  "definePolicy i permission evaluate =
     (if \<not> dotted_id i then Inl POLICY_INVALID
      else if \<not> dotted_id permission then Inl POLICY_INVALID
      else case evaluate of
        None \<Rightarrow> Inl POLICY_INVALID
      | Some f \<Rightarrow> Inr \<lparr>policy_id = i, policy_permission = permission, policy_evaluate = f\<rparr>)"

section \<open>The registry\<close>

record 'r policy_registry =
  policy_ids :: "string set"
  byPermission :: "string \<rightharpoonup> 'r policy list"
  policies_sealed :: bool

definition createPolicyRegistry :: "'r policy_registry" where
  "createPolicyRegistry = \<lparr>policy_ids = {}, byPermission = Map.empty, policies_sealed = False\<rparr>"

definition registerPolicy :: "'r policy_registry \<Rightarrow> 'r policy \<Rightarrow> policy_error + 'r policy_registry" where
  "registerPolicy reg policy =
     (if policies_sealed reg then Inl POLICY_REGISTRY_SEALED
      else if policy_id policy \<in> policy_ids reg then Inl POLICY_DUPLICATE
      else if MAX_POLICIES \<le> card (policy_ids reg) then Inl POLICY_LIMIT
      else Inr (reg\<lparr>policy_ids := insert (policy_id policy) (policy_ids reg),
             byPermission := (byPermission reg)(policy_permission policy \<mapsto>
               (case byPermission reg (policy_permission policy) of
                  None \<Rightarrow> [policy] | Some registered \<Rightarrow> registered @ [policy]))\<rparr>))"

definition listPolicies :: "'r policy_registry \<Rightarrow> string \<Rightarrow> 'r policy list" where
  "listPolicies reg permission = (case byPermission reg permission of None \<Rightarrow> [] | Some ps \<Rightarrow> ps)"

definition evaluatePolicy :: "'r policy \<Rightarrow> 'r policy_context \<Rightarrow> policy_decision" where
  "evaluatePolicy policy context =
     (case policy_evaluate policy context of
        Inr decision \<Rightarrow> decision
      | Inl _ \<Rightarrow> Denied (Policy_failed (policy_id policy)) None)"

fun evaluateAll :: "'r policy list \<Rightarrow> 'r policy_context \<Rightarrow> policy_decision" where
  "evaluateAll [] context = Allowed"
| "evaluateAll (p # ps) context =
     (case evaluatePolicy p context of Allowed \<Rightarrow> evaluateAll ps context | Denied r a \<Rightarrow> Denied r a)"

definition evaluatePolicies ::
    "'r policy_registry \<Rightarrow> principal \<Rightarrow> string \<Rightarrow> 'r \<Rightarrow> string option \<Rightarrow> policy_decision" where
  "evaluatePolicies reg prin permission rec action =
     (case byPermission reg permission of
        None \<Rightarrow> Allowed
      | Some registered \<Rightarrow>
          evaluateAll registered
            \<lparr>ctx_principal = prin, ctx_permission = permission, ctx_record = rec, ctx_action = action\<rparr>)"

definition sealPolicies :: "'r policy_registry \<Rightarrow> 'r policy_registry" where
  "sealPolicies reg = reg\<lparr>policies_sealed := True\<rparr>"

definition authorizeRecord ::
    "'r policy_registry \<Rightarrow> principal option \<Rightarrow> string \<Rightarrow> 'r \<Rightarrow> string option \<Rightarrow> policy_decision" where
  "authorizeRecord reg prin permission rec action =
     (let scope = authorize prin permission in
      case prin of
        Some p \<Rightarrow>
          if access_allowed scope then evaluatePolicies reg p permission rec action
          else Denied (Scope_reason (access_reason scope)) None
      | None \<Rightarrow> Denied (Scope_reason (access_reason scope)) None)"

section \<open>Deny overrides\<close>

lemma evaluateAll_Allowed:
  "evaluateAll ps context = Allowed \<longleftrightarrow> (\<forall>p \<in> set ps. policy_evaluate p context = Inr Allowed)"
proof (induction ps)
  case (Cons p ps)
  then show ?case
    by (cases "policy_evaluate p context") (auto simp: evaluatePolicy_def split: policy_decision.splits)
qed simp

text \<open>C37: an action on a record is allowed exactly when there is a principal that holds the permission
  and every policy registered for the permission ran and allowed it; a policy that throws or denies
  is never outvoted.\<close>

theorem authorize_record_exact:
  "authorizeRecord reg prin permission rec action = Allowed \<longleftrightarrow>
     (\<exists>p. prin = Some p \<and> permission \<in> permissions p \<and>
        (\<forall>policy \<in> set (listPolicies reg permission).
           policy_evaluate policy \<lparr>ctx_principal = p, ctx_permission = permission, ctx_record = rec,
             ctx_action = action\<rparr> = Inr Allowed))"
  by (cases prin)
    (auto simp: authorizeRecord_def authorize_def evaluatePolicies_def listPolicies_def
      evaluateAll_Allowed Let_def split: option.splits)

theorem authorize_record_exact_witness:
  "authorizeRecord createPolicyRegistry (Some \<lparr>prin_id = ''a'', permissions = {''orders.read''}\<rparr>)
     ''orders.read'' () None = Allowed"
  unfolding authorize_record_exact by (simp add: listPolicies_def createPolicyRegistry_def)

section \<open>Registration\<close>

text \<open>What every sequence of registrations keeps.\<close>

definition policies_wf :: "'r policy_registry \<Rightarrow> bool" where
  "policies_wf reg \<longleftrightarrow>
     finite (policy_ids reg) \<and> card (policy_ids reg) \<le> MAX_POLICIES \<and>
     (\<forall>perm ps. byPermission reg perm = Some ps \<longrightarrow>
        distinct (map policy_id ps) \<and>
        (\<forall>p \<in> set ps. policy_permission p = perm \<and> policy_id p \<in> policy_ids reg))"

inductive policy_reach :: "'r policy_registry \<Rightarrow> bool" where
  created: "policy_reach createPolicyRegistry"
| registered: "policy_reach reg \<Longrightarrow> registerPolicy reg p = Inr reg' \<Longrightarrow> policy_reach reg'"
| sealed: "policy_reach reg \<Longrightarrow> policy_reach (sealPolicies reg)"

inductive_cases policy_reachE: "policy_reach reg"

lemma registerPolicy_wf: "policies_wf reg \<Longrightarrow> registerPolicy reg p = Inr reg' \<Longrightarrow> policies_wf reg'"
  unfolding policies_wf_def registerPolicy_def
  by (auto split: if_splits option.splits)

text \<open>in every reachable policy registry at most 256 policies are registered, and the policies
  listed for a permission are about that permission and have distinct registered ids.\<close>

lemma policy_registry_invariant:
  assumes "policy_reach reg"
  shows "card (policy_ids reg) \<le> 256 \<and> distinct (map policy_id (listPolicies reg permission)) \<and>
    (\<forall>p \<in> set (listPolicies reg permission).
       policy_permission p = permission \<and> policy_id p \<in> policy_ids reg)"
proof -
  from assms have "policies_wf reg"
  proof induction
    case created
    show ?case by (simp add: policies_wf_def createPolicyRegistry_def)
  next
    case (registered reg p reg')
    then show ?case by (blast intro: registerPolicy_wf)
  next
    case (sealed reg)
    then show ?case by (simp add: policies_wf_def sealPolicies_def)
  qed
  then show ?thesis
    by (auto simp: policies_wf_def listPolicies_def MAX_POLICIES_def split: option.splits)
qed

lemma policy_registry_invariant_witness:
  "\<exists>reg :: unit policy_registry. policy_reach reg \<and> card (policy_ids reg) \<le> 256 \<and>
     map policy_id (listPolicies reg ''a.b'') = [''p.q'']"
proof -
  let ?p = "\<lparr>policy_id = ''p.q'', policy_permission = ''a.b'', policy_evaluate = (\<lambda>_. Inr Allowed)\<rparr>"
  let ?reg = "\<lparr>policy_ids = {''p.q''}, byPermission = [''a.b'' \<mapsto> [?p]], policies_sealed = False\<rparr>"
  have "registerPolicy createPolicyRegistry ?p = Inr ?reg"
    by (simp add: registerPolicy_def createPolicyRegistry_def MAX_POLICIES_def)
  then have r: "policy_reach ?reg" by (rule policy_reach.registered [OF policy_reach.created])
  show ?thesis
    using r policy_registry_invariant [OF r, of "''a.b''"] by (intro exI [of _ ?reg]) (simp add: listPolicies_def)
qed

lemma sealed_refuses: "policies_sealed reg \<Longrightarrow> registerPolicy reg p = Inl POLICY_REGISTRY_SEALED"
  by (simp add: registerPolicy_def)

lemma registerPolicy_appends:
  "registerPolicy reg p = Inr reg' \<Longrightarrow>
     listPolicies reg' perm = listPolicies reg perm @ (if perm = policy_permission p then [p] else [])"
  by (auto simp: registerPolicy_def listPolicies_def split: if_splits option.splits)

text \<open>Evaluation order is registration order: a registration never changes an earlier refusal.\<close>

lemma evaluateAll_append:
  "evaluateAll (ps @ qs) context =
     (case evaluateAll ps context of Allowed \<Rightarrow> evaluateAll qs context | Denied r a \<Rightarrow> Denied r a)"
  by (induction ps) (auto split: policy_decision.splits)

lemma evaluatePolicies_list:
  "evaluatePolicies reg prin permission rec action =
     evaluateAll (listPolicies reg permission)
       \<lparr>ctx_principal = prin, ctx_permission = permission, ctx_record = rec, ctx_action = action\<rparr>"
  by (simp add: evaluatePolicies_def listPolicies_def split: option.splits)

text \<open>C38: registering one more policy can only narrow access: whatever the registry denied before is
  denied with the same reason and the same approval requirement after.\<close>

theorem registration_only_narrows:
  assumes "registerPolicy reg policy = Inr reg'"
    and "authorizeRecord reg prin permission rec action = Denied reason requirement"
  shows "authorizeRecord reg' prin permission rec action = Denied reason requirement"
  using assms(2)
  by (auto simp: authorizeRecord_def Let_def evaluatePolicies_list registerPolicy_appends [OF assms(1)]
      evaluateAll_append split: option.splits if_splits)

theorem registration_only_narrows_witness:
  "\<exists>reg'. registerPolicy (createPolicyRegistry :: unit policy_registry)
      \<lparr>policy_id = ''p.q'', policy_permission = ''a.b'', policy_evaluate = (\<lambda>_. Inr Allowed)\<rparr> = Inr reg' \<and>
     authorizeRecord reg' None ''a.b'' () None = Denied (Scope_reason Anonymous) None"
proof -
  let ?p = "\<lparr>policy_id = ''p.q'', policy_permission = ''a.b'', policy_evaluate = (\<lambda>_. Inr Allowed)\<rparr>"
  obtain reg' where r: "registerPolicy (createPolicyRegistry :: unit policy_registry) ?p = Inr reg'"
    by (simp add: registerPolicy_def createPolicyRegistry_def MAX_POLICIES_def)
  have "authorizeRecord (createPolicyRegistry :: unit policy_registry) None ''a.b'' () None =
      Denied (Scope_reason Anonymous) None"
    by (simp add: authorizeRecord_def authorize_def)
  then show ?thesis using r registration_only_narrows [OF r] by blast
qed

end
