(* ===== verification/Kernel_Lifecycle.thy ===== *)
theory Kernel_Lifecycle
  imports Flow_Prelude
begin

text \<open>
  \<open>packages/kernel/src/lifecycle.ts\<close>: a record's states and the moves between them.
  \<open>defineLifecycle\<close> refuses a malformed declaration and indexes the moves; \<open>lc_authorize\<close> guards a
  write to the status field. The refusal message is dropped, its reason and the permission it names
  are kept.
\<close>

definition MAX_STATES :: nat where
  "MAX_STATES = 64"

definition MAX_TRANSITIONS :: nat where
  "MAX_TRANSITIONS = 512"

record transition =
  tr_from :: string
  tr_to :: string
  tr_permission :: "string option"
  tr_note :: "string option"

record lifecycle_definition =
  def_id :: string
  def_field :: string
  def_states :: "string list"
  def_initial :: "string option"
  def_transitions :: "transition list"

datatype lifecycle_error = LIFECYCLE_INVALID

datatype denial_reason = STATE_UNKNOWN | TRANSITION_NOT_ALLOWED | PERMISSION_REQUIRED

record lifecycle_decision =
  dec_allowed :: bool
  dec_reason :: "denial_reason option"
  dec_permission :: "string option"

text \<open>The value \<open>defineLifecycle\<close> returns, with the sets and maps its methods close over.\<close>

record lifecycle =
  lc_id :: string
  lc_field :: string
  lc_states :: "string list"
  lc_initial :: string
  lc_transitions :: "transition list"
  lc_byFrom :: "string \<rightharpoonup> transition list"
  lc_declared :: "string set"

text \<open>The key of a move: \<open>${from} ${to}\<close>.\<close>

definition move_key :: "string \<Rightarrow> string \<Rightarrow> string" where
  "move_key a b = a @ '' '' @ b"

definition addTransition ::
    "string set \<Rightarrow> (string \<rightharpoonup> transition list) \<times> string set \<Rightarrow> transition \<Rightarrow>
     lifecycle_error + (string \<rightharpoonup> transition list) \<times> string set" where
  "addTransition known = (\<lambda>(byFrom, declared) t.
     if tr_from t \<notin> known \<or> tr_to t \<notin> known then Inl LIFECYCLE_INVALID
     else if move_key (tr_from t) (tr_to t) \<in> declared then Inl LIFECYCLE_INVALID
     else if tr_from t = tr_to t then Inr (byFrom, declared)
     else Inr (byFrom(tr_from t \<mapsto> (case byFrom (tr_from t) of None \<Rightarrow> [t] | Some ts \<Rightarrow> ts @ [t])),
               insert (move_key (tr_from t) (tr_to t)) declared))"

definition defineLifecycle ::
    "(string \<Rightarrow> string \<Rightarrow> int) \<Rightarrow> lifecycle_definition \<Rightarrow> lifecycle_error + lifecycle" where
  "defineLifecycle localeCompare d =
     (let states = def_states d; known = set states in
      if states = [] \<or> MAX_STATES < length states then Inl LIFECYCLE_INVALID
      else if card known \<noteq> length states then Inl LIFECYCLE_INVALID
      else let initial = (case def_initial d of None \<Rightarrow> states ! 0 | Some s \<Rightarrow> s) in
      if initial \<notin> known then Inl LIFECYCLE_INVALID
      else if MAX_TRANSITIONS < length (def_transitions d) then Inl LIFECYCLE_INVALID
      else and_then (for_each (addTransition known) (Map.empty, {}) (def_transitions d))
        (\<lambda>(byFrom, declared).
           Inr \<lparr>lc_id = def_id d, lc_field = def_field d, lc_states = states, lc_initial = initial,
                lc_transitions = def_transitions d,
                lc_byFrom = map_option (sort_by (\<lambda>l r. localeCompare (tr_to l) (tr_to r))) \<circ> byFrom,
                lc_declared = declared\<rparr>))"

definition movesFrom :: "lifecycle \<Rightarrow> string \<Rightarrow> transition list" where
  "movesFrom l state = (case lc_byFrom l state of None \<Rightarrow> [] | Some ts \<Rightarrow> ts)"

definition isTerminal :: "lifecycle \<Rightarrow> string \<Rightarrow> bool" where
  "isTerminal l state = (state \<in> set (lc_states l) \<and> lc_byFrom l state = None)"

definition targets :: "lifecycle \<Rightarrow> string \<Rightarrow> string list" where
  "targets l state = map tr_to (movesFrom l state)"

definition declares :: "lifecycle \<Rightarrow> string \<Rightarrow> string \<Rightarrow> bool" where
  "declares l a b = (move_key a b \<in> lc_declared l)"

definition lc_authorize :: "lifecycle \<Rightarrow> string set \<Rightarrow> string \<Rightarrow> string \<Rightarrow> lifecycle_decision" where
  "lc_authorize l perms a b =
     (if a \<notin> set (lc_states l) \<or> b \<notin> set (lc_states l)
      then \<lparr>dec_allowed = False, dec_reason = Some STATE_UNKNOWN, dec_permission = None\<rparr>
      else if a = b then \<lparr>dec_allowed = True, dec_reason = None, dec_permission = None\<rparr>
      else case find (\<lambda>t. tr_to t = b) (movesFrom l a) of
        None \<Rightarrow> \<lparr>dec_allowed = False, dec_reason = Some TRANSITION_NOT_ALLOWED, dec_permission = None\<rparr>
      | Some move \<Rightarrow>
          (case tr_permission move of
             Some p \<Rightarrow>
               if p \<notin> perms
               then \<lparr>dec_allowed = False, dec_reason = Some PERMISSION_REQUIRED, dec_permission = Some p\<rparr>
               else \<lparr>dec_allowed = True, dec_reason = None, dec_permission = None\<rparr>
           | None \<Rightarrow> \<lparr>dec_allowed = True, dec_reason = None, dec_permission = None\<rparr>))"

record spec_transition =
  spec_from :: string
  spec_to :: string
  spec_permission :: "string option"

definition lifecycleFromSpec ::
    "(string \<Rightarrow> string \<Rightarrow> int) \<Rightarrow> string \<Rightarrow> string \<Rightarrow> string list \<Rightarrow> spec_transition list option \<Rightarrow>
     lifecycle_error + lifecycle" where
  "lifecycleFromSpec localeCompare i field vals transitions =
     defineLifecycle localeCompare
       \<lparr>def_id = i, def_field = field, def_states = vals, def_initial = None,
        def_transitions = map (\<lambda>t. \<lparr>tr_from = spec_from t, tr_to = spec_to t,
            tr_permission = spec_permission t, tr_note = None\<rparr>)
          (case transitions of None \<Rightarrow> [] | Some ts \<Rightarrow> ts)\<rparr>"

section \<open>What a lifecycle was compiled from\<close>

definition moves :: "transition list \<Rightarrow> string \<Rightarrow> transition list" where
  "moves ts a = filter (\<lambda>t. tr_from t = a \<and> tr_to t \<noteq> a) ts"

lemma moves_snoc:
  "moves (ts @ [t]) a = moves ts a @ (if tr_from t = a \<and> tr_to t \<noteq> a then [t] else [])"
  by (simp add: moves_def)

lemma addTransition_loop:
  assumes "for_each (addTransition known) (byFrom0, declared0) ts = Inr (byFrom, declared)"
    and "\<And>a. byFrom0 a = (if moves done a = [] then None else Some (moves done a))"
    and "declared0 = (\<lambda>t. move_key (tr_from t) (tr_to t)) ` {t \<in> set done. tr_from t \<noteq> tr_to t}"
    and "\<And>a. distinct (map tr_to (moves done a))"
  shows "byFrom a = (if moves (done @ ts) a = [] then None else Some (moves (done @ ts) a)) \<and>
    declared = (\<lambda>t. move_key (tr_from t) (tr_to t)) ` {t \<in> set (done @ ts). tr_from t \<noteq> tr_to t} \<and>
    distinct (map tr_to (moves (done @ ts) a)) \<and>
    (\<forall>t \<in> set ts. tr_from t \<in> known \<and> tr_to t \<in> known)"
  using assms
proof (induction ts arbitrary: byFrom0 declared0 "done")
  case Nil
  have "byFrom0 = byFrom" "declared0 = declared" using Nil.prems(1) by simp_all
  then show ?case using Nil.prems(2-4) by simp
next
  case (Cons t ts)
  obtain byFrom1 declared1 where t: "addTransition known (byFrom0, declared0) t = Inr (byFrom1, declared1)"
    and rest: "for_each (addTransition known) (byFrom1, declared1) ts = Inr (byFrom, declared)"
    using Cons.prems(1) by (auto simp: and_then_Inr)
  have known: "tr_from t \<in> known" "tr_to t \<in> known" "move_key (tr_from t) (tr_to t) \<notin> declared0"
    using t by (auto simp: addTransition_def split: if_splits)
  have 1: "byFrom1 a = (if moves (done @ [t]) a = [] then None else Some (moves (done @ [t]) a))" for a
    using t Cons.prems(2) by (auto simp: addTransition_def moves_snoc split: if_splits)
  have 2: "declared1 = (\<lambda>t. move_key (tr_from t) (tr_to t)) ` {u \<in> set (done @ [t]). tr_from u \<noteq> tr_to u}"
    using t Cons.prems(3) by (auto simp: addTransition_def split: if_splits)
  have 3: "distinct (map tr_to (moves (done @ [t]) a))" for a
  proof -
    have "tr_to t \<notin> tr_to ` set (moves done a)" if "tr_from t = a"
    proof
      assume "tr_to t \<in> tr_to ` set (moves done a)"
      then obtain u where "u \<in> set done" "tr_from u = a" "tr_to u \<noteq> a" "tr_to u = tr_to t"
        by (auto simp: moves_def)
      then have "move_key (tr_from t) (tr_to t) \<in> declared0"
        using that unfolding Cons.prems(3) by (intro image_eqI [of _ _ u]) auto
      then show False using known(3) by blast
    qed
    then show ?thesis using Cons.prems(4) [of a] by (cases "tr_from t = a") (auto simp: moves_snoc)
  qed
  show ?case using Cons.IH [OF rest 1 2 3] known by simp
qed

lemma defineLifecycle_facts:
  assumes "defineLifecycle lc d = Inr l"
  shows "lc_states l = def_states d" and "lc_transitions l = def_transitions d"
    and "distinct (def_states d)" and "def_states d \<noteq> []" and "length (def_states d) \<le> MAX_STATES"
    and "length (def_transitions d) \<le> MAX_TRANSITIONS"
    and "lc_initial l \<in> set (lc_states l)"
    and "movesFrom l a = sort_by (\<lambda>l r. lc (tr_to l) (tr_to r)) (moves (def_transitions d) a)"
    and "lc_byFrom l a = None \<longleftrightarrow> moves (def_transitions d) a = []"
    and "distinct (map tr_to (moves (def_transitions d) a))"
    and "lc_declared l = (\<lambda>t. move_key (tr_from t) (tr_to t)) ` {t \<in> set (def_transitions d). tr_from t \<noteq> tr_to t}"
    and "\<forall>t \<in> set (def_transitions d). tr_from t \<in> set (def_states d) \<and> tr_to t \<in> set (def_states d)"
proof -
  from assms obtain byFrom declared where
    loop: "for_each (addTransition (set (def_states d))) (Map.empty, {}) (def_transitions d) = Inr (byFrom, declared)"
    and l: "l = \<lparr>lc_id = def_id d, lc_field = def_field d, lc_states = def_states d,
        lc_initial = (case def_initial d of None \<Rightarrow> def_states d ! 0 | Some s \<Rightarrow> s),
        lc_transitions = def_transitions d,
        lc_byFrom = map_option (sort_by (\<lambda>l r. lc (tr_to l) (tr_to r))) \<circ> byFrom,
        lc_declared = declared\<rparr>"
    and checks: "def_states d \<noteq> []" "length (def_states d) \<le> MAX_STATES"
      "card (set (def_states d)) = length (def_states d)"
      "length (def_transitions d) \<le> MAX_TRANSITIONS"
      "(case def_initial d of None \<Rightarrow> def_states d ! 0 | Some s \<Rightarrow> s) \<in> set (def_states d)"
    by (auto simp: defineLifecycle_def Let_def and_then_Inr split: if_splits)
  have L: "byFrom a = (if moves (def_transitions d) a = [] then None else Some (moves (def_transitions d) a)) \<and>
    declared = (\<lambda>t. move_key (tr_from t) (tr_to t)) ` {t \<in> set (def_transitions d). tr_from t \<noteq> tr_to t} \<and>
    distinct (map tr_to (moves (def_transitions d) a)) \<and>
    (\<forall>t \<in> set (def_transitions d). tr_from t \<in> set (def_states d) \<and> tr_to t \<in> set (def_states d))" for a
    using addTransition_loop [OF loop, of "[]"] by (simp add: moves_def)
  show "distinct (def_states d)" using checks(3) by (simp add: card_distinct)
  show "movesFrom l a = sort_by (\<lambda>l r. lc (tr_to l) (tr_to r)) (moves (def_transitions d) a)"
    using L [of a] by (simp add: movesFrom_def l)
  show "\<forall>t \<in> set (def_transitions d). tr_from t \<in> set (def_states d) \<and> tr_to t \<in> set (def_states d)"
    "distinct (map tr_to (moves (def_transitions d) a))"
    using L [of a] by blast+
  show "lc_states l = def_states d" "lc_transitions l = def_transitions d" "def_states d \<noteq> []"
    "length (def_states d) \<le> MAX_STATES" "length (def_transitions d) \<le> MAX_TRANSITIONS"
    "lc_initial l \<in> set (lc_states l)"
    using checks by (simp_all add: l)
  show "lc_byFrom l a = None \<longleftrightarrow> moves (def_transitions d) a = []"
    "lc_declared l = (\<lambda>t. move_key (tr_from t) (tr_to t)) ` {t \<in> set (def_transitions d). tr_from t \<noteq> tr_to t}"
    using L [of a] by (simp_all add: l)
qed

lemma find_unique:
  "distinct (map f xs) \<Longrightarrow> x \<in> set xs \<Longrightarrow> find (\<lambda>y. f y = f x) xs = Some x"
  by (induction xs) auto

lemma distinct_sort_by: "distinct (map f (sort_by cmp xs)) = distinct (map f xs)"
  by (metis mset_map mset_sort_by mset_eq_imp_distinct_iff)

text \<open>A compiled lifecycle allows a write exactly when both states are declared and either the
  state does not change or a declared move joins them whose permission, if it names one, the caller
  holds.\<close>

lemma lifecycle_authorize_exact:
  assumes "defineLifecycle localeCompare d = Inr l"
  shows "dec_allowed (lc_authorize l perms a b) \<longleftrightarrow>
    a \<in> set (def_states d) \<and> b \<in> set (def_states d) \<and>
    (a = b \<or> (\<exists>t \<in> set (def_transitions d). tr_from t = a \<and> tr_to t = b \<and>
       (case tr_permission t of None \<Rightarrow> True | Some p \<Rightarrow> p \<in> perms)))"
proof (cases "a \<in> set (def_states d) \<and> b \<in> set (def_states d) \<and> a \<noteq> b")
  case False
  then show ?thesis
    using defineLifecycle_facts(1) [OF assms] by (auto simp: lc_authorize_def)
next
  case True
  note facts = defineLifecycle_facts [OF assms]
  let ?ms = "movesFrom l a"
  have dist: "distinct (map tr_to ?ms)" using facts(10) [of a] by (simp add: facts(8) distinct_sort_by)
  have mem: "t \<in> set ?ms \<longleftrightarrow> t \<in> set (def_transitions d) \<and> tr_from t = a \<and> tr_to t \<noteq> a" for t
    by (auto simp: facts(8) moves_def)
  show ?thesis
  proof (cases "find (\<lambda>t. tr_to t = b) ?ms")
    case None
    then have "\<not> (\<exists>t \<in> set (def_transitions d). tr_from t = a \<and> tr_to t = b)"
      using True mem by (auto simp: find_None_iff)
    then show ?thesis using True None facts(1) by (auto simp: lc_authorize_def)
  next
    case (Some t)
    then have t: "t \<in> set ?ms" "tr_to t = b" by (auto simp: find_Some_iff)
    have only: "u = t" if "u \<in> set (def_transitions d)" "tr_from u = a" "tr_to u = b" for u
    proof -
      have "u \<in> set ?ms" using mem [of u] that True by blast
      from find_unique [OF dist this] Some that(3) show ?thesis by simp
    qed
    have t': "t \<in> set (def_transitions d)" "tr_from t = a" using t mem by auto
    have "dec_allowed (lc_authorize l perms a b) \<longleftrightarrow>
        (case tr_permission t of None \<Rightarrow> True | Some p \<Rightarrow> p \<in> perms)"
      using True Some facts(1) by (auto simp: lc_authorize_def split: option.splits)
    also have "\<dots> \<longleftrightarrow> (\<exists>u \<in> set (def_transitions d). tr_from u = a \<and> tr_to u = b \<and>
       (case tr_permission u of None \<Rightarrow> True | Some p \<Rightarrow> p \<in> perms))"
      using only t' t(2) by metis
    finally show ?thesis using True by simp
  qed
qed

definition example_lifecycle :: lifecycle_definition where
  "example_lifecycle =
     \<lparr>def_id = ''order'', def_field = ''status'', def_states = [''draft'', ''open'', ''closed''],
      def_initial = None,
      def_transitions =
        [\<lparr>tr_from = ''draft'', tr_to = ''open'', tr_permission = None, tr_note = None\<rparr>,
         \<lparr>tr_from = ''open'', tr_to = ''closed'', tr_permission = Some ''orders.close'', tr_note = None\<rparr>]\<rparr>"

lemma example_lifecycle_ok: "\<exists>l. defineLifecycle unit_compare example_lifecycle = Inr l"
  by (simp add: defineLifecycle_def example_lifecycle_def MAX_STATES_def MAX_TRANSITIONS_def
      addTransition_def move_key_def Let_def)

lemma lifecycle_authorize_exact_example:
  "\<exists>l. defineLifecycle unit_compare example_lifecycle = Inr l \<and>
     \<not> dec_allowed (lc_authorize l {} ''open'' ''closed'') \<and>
     dec_allowed (lc_authorize l {''orders.close''} ''open'' ''closed'')"
proof -
  obtain l where l: "defineLifecycle unit_compare example_lifecycle = Inr l"
    using example_lifecycle_ok by blast
  moreover have "dec_allowed (lc_authorize l {''orders.close''} ''open'' ''closed'')"
    "\<not> dec_allowed (lc_authorize l {} ''open'' ''closed'')"
    unfolding lifecycle_authorize_exact [OF l] by (simp_all add: example_lifecycle_def)
  ultimately show ?thesis by blast
qed

text \<open>A state is terminal exactly when it is declared and no declared move leaves it for another
  state, and then it has no targets.\<close>

lemma lifecycle_terminal_exact:
  assumes "defineLifecycle localeCompare d = Inr l"
  shows "(isTerminal l a \<longleftrightarrow> a \<in> set (def_states d) \<and>
      \<not> (\<exists>t \<in> set (def_transitions d). tr_from t = a \<and> tr_to t \<noteq> a)) \<and>
    set (targets l a) = {b. b \<noteq> a \<and> (\<exists>t \<in> set (def_transitions d). tr_from t = a \<and> tr_to t = b)}"
  using defineLifecycle_facts(1,8,9) [OF assms]
  by (auto simp: isTerminal_def targets_def moves_def filter_empty_conv)

lemma lifecycle_terminal_exact_example:
  "\<exists>l. defineLifecycle unit_compare example_lifecycle = Inr l \<and> isTerminal l ''closed''"
proof -
  obtain l where l: "defineLifecycle unit_compare example_lifecycle = Inr l"
    using example_lifecycle_ok by blast
  show ?thesis using l lifecycle_terminal_exact [OF l] by (auto simp: example_lifecycle_def)
qed

section \<open>The key of a move\<close>

lemma move_key_inj:
  assumes "CHR '' '' \<notin> set a" and "CHR '' '' \<notin> set c" and "move_key a b = move_key c d"
  shows "a = c \<and> b = d"
  using assms
proof (induction a arbitrary: c)
  case Nil
  then show ?case by (cases c) (auto simp: move_key_def)
next
  case (Cons x a)
  then show ?case by (cases c) (auto simp: move_key_def)
qed

text \<open>where no declared state contains a blank, \<open>declares\<close> answers whether the move is one of
  the declared ones.\<close>

lemma lifecycle_declares_exact:
  assumes "defineLifecycle localeCompare d = Inr l" and "\<forall>s \<in> set (def_states d). CHR '' '' \<notin> set s"
    and "CHR '' '' \<notin> set a"
  shows "declares l a b \<longleftrightarrow> a \<noteq> b \<and> (\<exists>t \<in> set (def_transitions d). tr_from t = a \<and> tr_to t = b)"
proof -
  have "CHR '' '' \<notin> set (tr_from t)" if "t \<in> set (def_transitions d)" for t
    using defineLifecycle_facts(12) [OF assms(1)] assms(2) that by blast
  then have "move_key a b = move_key (tr_from t) (tr_to t) \<longleftrightarrow> tr_from t = a \<and> tr_to t = b"
    if "t \<in> set (def_transitions d)" for t
    using move_key_inj [of a "tr_from t" b "tr_to t"] assms(3) that by blast
  then show ?thesis
    unfolding declares_def defineLifecycle_facts(11) [OF assms(1)] by (auto simp: image_iff)
qed

lemma lifecycle_declares_exact_witness:
  "\<exists>l. defineLifecycle unit_compare example_lifecycle = Inr l \<and> declares l ''draft'' ''open''"
proof -
  obtain l where l: "defineLifecycle unit_compare example_lifecycle = Inr l"
    using example_lifecycle_ok by blast
  show ?thesis using l lifecycle_declares_exact [OF l, of "''draft''" "''open''"]
    by (auto simp: example_lifecycle_def)
qed

text \<open>
  With a blank in a state name two moves share a key: \<open>declares\<close> then answers yes for a move nobody
  declared, and a declaration of both moves is refused as a duplicate.
\<close>

lemma declares_confuses_blanks:
  "\<exists>d l. defineLifecycle unit_compare d = Inr l \<and> declares l ''a'' ''b c'' \<and>
     \<not> dec_allowed (lc_authorize l {} ''a'' ''b c'')"
proof -
  let ?d = "\<lparr>def_id = ''x'', def_field = ''s'', def_states = [''a b'', ''c'', ''a'', ''b c''],
    def_initial = None,
    def_transitions = [\<lparr>tr_from = ''a b'', tr_to = ''c'', tr_permission = None, tr_note = None\<rparr>]\<rparr>"
  obtain l where l: "defineLifecycle unit_compare ?d = Inr l"
    by (simp add: defineLifecycle_def MAX_STATES_def MAX_TRANSITIONS_def addTransition_def Let_def)
  have "declares l ''a'' ''b c''"
    by (auto simp: declares_def defineLifecycle_facts(11) [OF l] move_key_def image_iff)
  moreover have "\<not> dec_allowed (lc_authorize l {} ''a'' ''b c'')"
    by (simp add: lifecycle_authorize_exact [OF l])
  ultimately show ?thesis using l by blast
qed

end
