(* ===== verification/Json.thy ===== *)
theory Json
  imports Flow_Prelude
begin

text \<open>
  JSON values as the sources handle them, \<open>JSON.stringify\<close> of strings and numbers, and the canonical
  text both the workflow compiler and the approval grants hash. Numbers are integers: the documents
  modelled here carry counts, bounds and revisions, and a fraction would need the host's printing of
  doubles. An object is the list of its entries in \<open>Object.entries\<close> order.
\<close>

datatype json =
  JNull
| JBool bool
| JNum int
| JStr string
| JArr "json list"
| JObj "(string \<times> json) list"

lemma json_size_entry: "(k, v) \<in> set kvs \<Longrightarrow> size v < size (JObj kvs)"
  by (induction kvs) auto

lemma json_size_element: "v \<in> set vs \<Longrightarrow> size v < size (JArr vs)"
  by (induction vs) auto

text \<open>\<open>Object.hasOwn(value, key) ? value[key] : undefined\<close>.\<close>

definition field :: "(string \<times> json) list \<Rightarrow> string \<Rightarrow> json option" where
  "field kvs k = map_of kvs k"

fun is_record :: "json \<Rightarrow> bool" where
  "is_record (JObj kvs) = True"
| "is_record _ = False"

fun entries_of :: "json \<Rightarrow> (string \<times> json) list" where
  "entries_of (JObj kvs) = kvs"
| "entries_of _ = []"

section \<open>Canonical text\<close>

definition hex_digit :: "nat \<Rightarrow> char" where
  "hex_digit d = (if d < 10 then char_of (48 + d) else char_of (87 + d))"

definition escape :: "char \<Rightarrow> string" where
  "escape c =
     (let n = code c in
      if n = 34 then [CHR 0x5C, CHR 0x22]
      else if n = 92 then [CHR 0x5C, CHR 0x5C]
      else if n = 8 then [CHR 0x5C, CHR ''b'']
      else if n = 12 then [CHR 0x5C, CHR ''f'']
      else if n = 10 then [CHR 0x5C, CHR ''n'']
      else if n = 13 then [CHR 0x5C, CHR ''r'']
      else if n = 9 then [CHR 0x5C, CHR ''t'']
      else if n < 32 then [CHR 0x5C, CHR ''u'', CHR ''0'', CHR ''0'', hex_digit (n div 16), hex_digit (n mod 16)]
      else [c])"

definition json_string :: "string \<Rightarrow> string" where
  "json_string s = [CHR 0x22] @ concat (map escape s) @ [CHR 0x22]"

definition show_int :: "int \<Rightarrow> string" where
  "show_int n = (if n < 0 then CHR ''-'' # show_nat (nat (- n)) else show_nat (nat n))"

definition sort_entries :: "(string \<Rightarrow> string \<Rightarrow> int) \<Rightarrow> (string \<times> json) list \<Rightarrow> (string \<times> json) list" where
  "sort_entries cmp kvs = sort_by (\<lambda>a b. cmp (fst a) (fst b)) kvs"

lemma set_sort_entries [simp]: "set (sort_entries cmp kvs) = set kvs"
  by (simp add: sort_entries_def)

function canonical :: "(string \<Rightarrow> string \<Rightarrow> int) \<Rightarrow> json \<Rightarrow> string" where
  "canonical cmp JNull = ''null''"
| "canonical cmp (JBool b) = (if b then ''true'' else ''false'')"
| "canonical cmp (JNum n) = show_int n"
| "canonical cmp (JStr s) = json_string s"
| "canonical cmp (JArr vs) = ''['' @ join '','' (map (canonical cmp) vs) @ '']''"
| "canonical cmp (JObj kvs) =
     ''{'' @ join '','' (map (\<lambda>(k, v). json_string k @ '':'' @ canonical cmp v) (sort_entries cmp kvs)) @ ''}''"
  by pat_completeness auto
termination
  by (relation "measure (\<lambda>(cmp, v). size v)") (auto dest: json_size_entry json_size_element)

text \<open>UTF-8 length of a text of code units below 256.\<close>

definition utf8_length :: "string \<Rightarrow> nat" where
  "utf8_length s = sum_list (map (\<lambda>c. if code c < 128 then 1 else 2) s)"

definition jsonByteSize :: "(string \<Rightarrow> string \<Rightarrow> int) \<Rightarrow> json \<Rightarrow> nat" where
  "jsonByteSize cmp v = utf8_length (canonical cmp v)"

end
