(* ===== verification/Kernel_Registries.thy ===== *)
theory Kernel_Registries
  imports Json
begin

text \<open>
  The four registries modules fill while the platform composes: capabilities
  (\<open>capability-registry.ts\<close>), agent tools (\<open>tool-registry.ts\<close>), agents (\<open>agent-registry.ts\<close>) and data
  classes (\<open>data-class-registry.ts\<close>). A registered value is a type variable. What all four promise
  their readers is one interface, the locale at the top, interpreted for each of them below.
\<close>

section \<open>The interface\<close>

text \<open>
  \<open>put\<close> is the state after one call, thrown or not; \<open>get\<close> is what a reader finds under an id;
  \<open>frozen\<close> says that registration is over.
\<close>

locale composition_registry =
  fixes put :: "'s \<Rightarrow> 'c \<Rightarrow> 's"
    and get :: "'s \<Rightarrow> string \<Rightarrow> 'v option"
    and frozen :: "'s \<Rightarrow> bool"
  assumes put_keeps: "get s k = Some v \<Longrightarrow> get (put s c) k = Some v"
    and put_frozen: "frozen s \<Longrightarrow> put s c = s"
begin

lemma run_keeps: "get s k = Some v \<Longrightarrow> get (foldl put s cs) k = Some v"
  by (induction cs arbitrary: s) (auto intro: put_keeps)

lemma run_frozen: "frozen s \<Longrightarrow> foldl put s cs = s"
  by (induction cs arbitrary: s) (auto simp: put_frozen)

end

datatype registry_failure =
  INVALID_ID | ALREADY_REGISTERED | NOT_PROVIDED | NOT_REQUIRED | AGENT_TOOL_DUPLICATE
| AGENT_TOOL_SCHEMA_MARKER_UNKNOWN | REGISTRY_SEALED | FOREIGN_OWNER | ID_REQUIRED | NEEDS_ID
| DATA_CLASS_DECLARATION_INVALID

definition after :: "'s \<Rightarrow> registry_failure + 's \<Rightarrow> 's" where
  "after s r = (case r of Inl _ \<Rightarrow> s | Inr s' \<Rightarrow> s')"

section \<open>Capabilities\<close>

type_synonym 'v capability_state = "(string \<times> 'v) list"

record capability_declaration =
  declared_provides :: "string list option"
  declared_requires :: "(string \<times> bool) list option"

text \<open>The view a module holds: the root, or one bound to a module's manifest declaration.\<close>

datatype capability_view = Root | Scoped string capability_declaration

definition PLATFORM_PREFIX :: string where
  "PLATFORM_PREFIX = ''platform.''"

definition registerCapability ::
    "'v capability_state \<Rightarrow> string \<Rightarrow> 'v \<Rightarrow> registry_failure + 'v capability_state" where
  "registerCapability caps i v =
     (if \<not> dotted_id i then Inl INVALID_ID
      else if map_of caps i \<noteq> None then Inl ALREADY_REGISTERED
      else Inr (caps @ [(i, v)]))"

definition getCapability :: "'v capability_state \<Rightarrow> string \<Rightarrow> 'v option" where
  "getCapability caps i = map_of caps i"

definition hasCapability :: "'v capability_state \<Rightarrow> string \<Rightarrow> bool" where
  "hasCapability caps i = (map_of caps i \<noteq> None)"

definition scope_provides :: "capability_declaration \<Rightarrow> string set" where
  "scope_provides d = set (case declared_provides d of None \<Rightarrow> [] | Some ps \<Rightarrow> ps)"

definition scope_requires :: "capability_declaration \<Rightarrow> string set" where
  "scope_requires d = set (map fst (case declared_requires d of None \<Rightarrow> [] | Some rs \<Rightarrow> rs))"

definition readable :: "capability_declaration \<Rightarrow> string \<Rightarrow> bool" where
  "readable d i = (i \<in> scope_requires d \<or> i \<in> scope_provides d \<or> starts_with PLATFORM_PREFIX i)"

fun view_register ::
    "capability_view \<Rightarrow> 'v capability_state \<Rightarrow> string \<Rightarrow> 'v \<Rightarrow> registry_failure + 'v capability_state" where
  "view_register Root caps i v = registerCapability caps i v"
| "view_register (Scoped m d) caps i v =
     (if i \<notin> scope_provides d \<and> \<not> starts_with PLATFORM_PREFIX i then Inl NOT_PROVIDED
      else registerCapability caps i v)"

fun view_get ::
    "capability_view \<Rightarrow> 'v capability_state \<Rightarrow> string \<Rightarrow> registry_failure + 'v option" where
  "view_get Root caps i = Inr (getCapability caps i)"
| "view_get (Scoped m d) caps i =
     (if \<not> readable d i then Inl NOT_REQUIRED else Inr (getCapability caps i))"

fun view_has :: "capability_view \<Rightarrow> 'v capability_state \<Rightarrow> string \<Rightarrow> registry_failure + bool" where
  "view_has Root caps i = Inr (hasCapability caps i)"
| "view_has (Scoped m d) caps i =
     (if \<not> readable d i then Inl NOT_REQUIRED else Inr (hasCapability caps i))"

fun view_forModule :: "capability_view \<Rightarrow> string \<Rightarrow> capability_declaration \<Rightarrow> capability_view" where
  "view_forModule _ moduleId declaration = Scoped moduleId declaration"

definition put_capability ::
    "'v capability_state \<Rightarrow> capability_view \<times> string \<times> 'v \<Rightarrow> 'v capability_state" where
  "put_capability caps = (\<lambda>(view, i, v). after caps (view_register view caps i v))"

lemma view_register_root: "view_register view caps i v = Inr caps' \<Longrightarrow> registerCapability caps i v = Inr caps'"
  by (cases view) (auto split: if_splits)

interpretation capabilities: composition_registry put_capability getCapability "\<lambda>_. False"
proof
  fix caps :: "'v capability_state" and k v and c :: "capability_view \<times> string \<times> 'v"
  assume k: "getCapability caps k = Some v"
  obtain view i w where c: "c = (view, i, w)" by (cases c)
  show "getCapability (put_capability caps c) k = Some v"
  proof (cases "view_register view caps i w")
    case (Inl e)
    then show ?thesis using k by (simp add: c put_capability_def after_def)
  next
    case (Inr caps')
    then have "caps' = caps @ [(i, w)]"
      using view_register_root [OF Inr] by (auto simp: registerCapability_def split: if_splits)
    then show ?thesis
      using k Inr by (simp add: c put_capability_def after_def getCapability_def map_add_def)
  qed
qed simp

text \<open>A capability, once registered, answers every later lookup with the same value, whatever any
  module registers afterwards, and only a module that declared it under \<open>provides\<close> registered it
  (ids under \<open>platform.\<close> are open to all); a module whose manifest does not name an id gets a refusal
  for it, never a value.\<close>

lemma capability_stable_and_scoped:
  assumes "view_register view caps i v = Inr caps'"
  shows "getCapability (foldl put_capability caps' calls) i = Some v \<and>
    (case view of Root \<Rightarrow> True
     | Scoped m d \<Rightarrow> i \<in> scope_provides d \<or> starts_with PLATFORM_PREFIX i) \<and>
    (\<forall>m d. \<not> readable d i \<longrightarrow>
       view_get (Scoped m d) (foldl put_capability caps' calls) i = Inl NOT_REQUIRED)"
proof -
  from view_register_root [OF assms] have "getCapability caps' i = Some v"
    by (auto simp: registerCapability_def getCapability_def map_add_def split: if_splits)
  then have "getCapability (foldl put_capability caps' calls) i = Some v"
    by (rule capabilities.run_keeps)
  then show ?thesis using assms by (cases view) (auto split: if_splits)
qed

lemma capability_stable_and_scoped_example:
  "getCapability (foldl put_capability [(''mail.send'', 1 :: nat)] [(Root, ''mail.send'', 2)]) ''mail.send'' =
     Some 1"
proof -
  have "view_register (Scoped ''mail'' \<lparr>declared_provides = Some [''mail.send''], declared_requires = None\<rparr>)
      [] ''mail.send'' (1 :: nat) = Inr [(''mail.send'', 1)]"
    by code_simp
  from capability_stable_and_scoped [OF this] show ?thesis by blast
qed

section \<open>Agent tools\<close>

record agent_tool =
  tool_id :: string
  inputSchema :: "json option"
  outputSchema :: "json option"

record 'n tool_state =
  tools :: "(string \<times> agent_tool) list"
  nativeTools :: "(string \<times> 'n) list"

text \<open>\<open>/^x-.+-(?:secret|read-permission)$/i\<close>.\<close>

definition ends_with :: "string \<Rightarrow> string \<Rightarrow> bool" where
  "ends_with suffix s = (length suffix \<le> length s \<and> drop (length s - length suffix) s = suffix)"

definition marker_body :: "string \<Rightarrow> string \<Rightarrow> bool" where
  "marker_body suffix s =
     (ends_with suffix s \<and>
      (let body = take (length s - length suffix) s
       in 2 < length body \<and> starts_with ''x-'' body \<and>
          \<not> list_ex (\<lambda>c. code c \<in> {10, 13}) (drop 2 body)))"

definition vendor_marker :: "string \<Rightarrow> bool" where
  "vendor_marker key =
     (marker_body ''-secret'' (lower key) \<or> marker_body ''-read-permission'' (lower key))"

definition KNOWN_MARKERS :: "string set" where
  "KNOWN_MARKERS = {''x-flowdular-secret'', ''x-flowdular-read-permission''}"

definition SCHEMA_NAME_MAPS :: "string set" where
  "SCHEMA_NAME_MAPS =
     {''properties'', ''patternProperties'', ''$defs'', ''definitions'', ''dependentSchemas''}"

definition SCHEMA_DATA_KEYS :: "string set" where
  "SCHEMA_DATA_KEYS = {''default'', ''const'', ''enum'', ''example'', ''examples''}"

fun first_some :: "('a \<Rightarrow> 'b option) \<Rightarrow> 'a list \<Rightarrow> 'b option" where
  "first_some f [] = None"
| "first_some f (x # xs) = (case f x of Some y \<Rightarrow> Some y | None \<Rightarrow> first_some f xs)"

lemma first_some_cong [fundef_cong]:
  "xs = ys \<Longrightarrow> (\<And>x. x \<in> set ys \<Longrightarrow> f x = g x) \<Longrightarrow> first_some f xs = first_some g ys"
  by (induction xs arbitrary: ys) (auto split: option.splits)

lemma first_some_None: "first_some f xs = None \<longleftrightarrow> (\<forall>x \<in> set xs. f x = None)"
  by (induction xs) (auto split: option.splits)

lemma first_some_Some: "first_some f xs = Some y \<Longrightarrow> \<exists>x \<in> set xs. f x = Some y"
  by (induction xs) (auto split: option.splits)

definition sub_schemas :: "string \<Rightarrow> json \<Rightarrow> json list" where
  "sub_schemas key child =
     (if key \<in> SCHEMA_NAME_MAPS \<and> is_record child then map snd (entries_of child) else [child])"

lemma sub_schemas_smaller:
  "(key, child) \<in> set kvs \<Longrightarrow> v \<in> set (sub_schemas key child) \<Longrightarrow> size v < size (JObj kvs)"
proof -
  assume kc: "(key, child) \<in> set kvs" and v: "v \<in> set (sub_schemas key child)"
  have "size v \<le> size child"
    using v json_size_entry [of _ v "entries_of child"]
    by (cases child) (auto simp: sub_schemas_def less_imp_le split: if_splits)
  with json_size_entry [OF kc] show ?thesis by simp
qed

text \<open>The set of objects already seen only cuts shared and cyclic objects short; a JSON tree has none.\<close>

function unknownMarker :: "json \<Rightarrow> string option" where
  "unknownMarker (JArr vs) = first_some unknownMarker vs"
| "unknownMarker (JObj kvs) =
     first_some (\<lambda>(key, child).
       if vendor_marker key \<and> key \<notin> KNOWN_MARKERS then Some key
       else if key \<in> SCHEMA_DATA_KEYS then None
       else first_some unknownMarker (sub_schemas key child)) kvs"
| "unknownMarker JNull = None"
| "unknownMarker (JBool b) = None"
| "unknownMarker (JNum n) = None"
| "unknownMarker (JStr s) = None"
  by pat_completeness auto
termination
  by (relation "measure size") (auto dest: json_size_element sub_schemas_smaller)

definition assertKnownMarkers :: "agent_tool \<Rightarrow> registry_failure + unit" where
  "assertKnownMarkers tool =
     (let schema = (\<lambda>s. case s of None \<Rightarrow> JNull | Some j \<Rightarrow> j) in
      case unknownMarker (JArr [schema (inputSchema tool), schema (outputSchema tool)]) of
        Some marker \<Rightarrow> Inl AGENT_TOOL_SCHEMA_MARKER_UNKNOWN
      | None \<Rightarrow> Inr ())"

definition has_tool :: "'n tool_state \<Rightarrow> string \<Rightarrow> bool" where
  "has_tool st i = (map_of (tools st) i \<noteq> None \<or> map_of (nativeTools st) i \<noteq> None)"

text \<open>A throw leaves the tools registered before it in place, so the state comes back either way.\<close>

fun registerTools :: "'n tool_state \<Rightarrow> agent_tool list \<Rightarrow> registry_failure option \<times> 'n tool_state" where
  "registerTools st [] = (None, st)"
| "registerTools st (tool # rest) =
     (if has_tool st (tool_id tool) then (Some AGENT_TOOL_DUPLICATE, st)
      else case assertKnownMarkers tool of
        Inl e \<Rightarrow> (Some e, st)
      | Inr _ \<Rightarrow> registerTools (st\<lparr>tools := tools st @ [(tool_id tool, tool)]\<rparr>) rest)"

definition registerNative :: "'n tool_state \<Rightarrow> string \<Rightarrow> 'n \<Rightarrow> registry_failure option \<times> 'n tool_state" where
  "registerNative st i tool =
     (if has_tool st i then (Some AGENT_TOOL_DUPLICATE, st)
      else (None, st\<lparr>nativeTools := nativeTools st @ [(i, tool)]\<rparr>))"

definition listTools :: "'n tool_state \<Rightarrow> agent_tool list" where
  "listTools st = map snd (tools st)"

definition listNative :: "'n tool_state \<Rightarrow> 'n list" where
  "listNative st = map snd (nativeTools st)"

datatype 'n tool_call = Offer "agent_tool list" | Offer_native string 'n

fun put_tools :: "'n tool_state \<Rightarrow> 'n tool_call \<Rightarrow> 'n tool_state" where
  "put_tools st (Offer ts) = snd (registerTools st ts)"
| "put_tools st (Offer_native i t) = snd (registerNative st i t)"

definition get_tool :: "'n tool_state \<Rightarrow> string \<Rightarrow> (agent_tool + 'n) option" where
  "get_tool st i =
     (case map_of (tools st) i of
        Some t \<Rightarrow> Some (Inl t)
      | None \<Rightarrow> map_option Inr (map_of (nativeTools st) i))"

lemma registerTools_keeps: "get_tool st k = Some v \<Longrightarrow> get_tool (snd (registerTools st ts)) k = Some v"
proof (induction st ts rule: registerTools.induct)
  case (2 st tool rest)
  show ?case
  proof (cases "has_tool st (tool_id tool) \<or> \<not> is_ok (assertKnownMarkers tool)")
    case True
    then show ?thesis using "2.prems" by (auto simp: not_is_ok_iff)
  next
    case False
    let ?st = "st\<lparr>tools := tools st @ [(tool_id tool, tool)]\<rparr>"
    obtain u where u: "assertKnownMarkers tool = Inr u" using False by (auto simp: is_ok_iff)
    have "get_tool ?st k = Some v"
      using "2.prems" False by (auto simp: get_tool_def has_tool_def map_add_def split: option.splits)
    then show ?thesis using "2.IH" [OF _ u] False u by auto
  qed
qed simp

interpretation agent_tools: composition_registry put_tools get_tool "\<lambda>_. False"
proof
  fix st :: "'n tool_state" and k v and c :: "'n tool_call"
  assume "get_tool st k = Some v"
  note k = this
  show "get_tool (put_tools st c) k = Some v"
  proof (cases c)
    case (Offer ts)
    then show ?thesis using k by (simp add: registerTools_keeps)
  next
    case (Offer_native i t)
    then show ?thesis
      using k by (auto simp: registerNative_def get_tool_def has_tool_def map_add_def split: option.splits)
  qed
qed simp

text \<open>What it means that a key stands where a schema keyword may stand.\<close>

inductive schema_key :: "json \<Rightarrow> string \<Rightarrow> bool" where
  element: "v \<in> set vs \<Longrightarrow> schema_key v k \<Longrightarrow> schema_key (JArr vs) k"
| here: "(k, v) \<in> set kvs \<Longrightarrow> schema_key (JObj kvs) k"
| below: "(key, child) \<in> set kvs \<Longrightarrow> key \<notin> SCHEMA_DATA_KEYS \<Longrightarrow> v \<in> set (sub_schemas key child) \<Longrightarrow>
    schema_key v k \<Longrightarrow> schema_key (JObj kvs) k"

inductive_cases schema_key_ArrE: "schema_key (JArr vs) k"
inductive_cases schema_key_ObjE: "schema_key (JObj kvs) k"
inductive_simps schema_key_atoms [simp]: "schema_key JNull k" "schema_key (JBool b) k"
  "schema_key (JNum n) k" "schema_key (JStr s) k"

lemma unknownMarker_None:
  "unknownMarker v = None \<longleftrightarrow> (\<forall>k. schema_key v k \<longrightarrow> vendor_marker k \<longrightarrow> k \<in> KNOWN_MARKERS)"
proof (induction v rule: unknownMarker.induct)
  case (1 vs)
  then show ?case
    by (auto simp: first_some_None elim!: schema_key_ArrE intro: schema_key.element)
next
  case (2 kvs)
  have "unknownMarker (JObj kvs) = None \<longleftrightarrow>
      (\<forall>(key, child) \<in> set kvs. (vendor_marker key \<longrightarrow> key \<in> KNOWN_MARKERS) \<and>
         (key \<notin> SCHEMA_DATA_KEYS \<longrightarrow> (\<forall>v \<in> set (sub_schemas key child). unknownMarker v = None)))"
    unfolding unknownMarker.simps(2) first_some_None
    by (intro ball_cong refl) (auto simp: first_some_None split: if_splits)
  also have "\<dots> \<longleftrightarrow> (\<forall>(key, child) \<in> set kvs. (vendor_marker key \<longrightarrow> key \<in> KNOWN_MARKERS) \<and>
         (key \<notin> SCHEMA_DATA_KEYS \<longrightarrow> (\<forall>v \<in> set (sub_schemas key child).
            \<forall>k. schema_key v k \<longrightarrow> vendor_marker k \<longrightarrow> k \<in> KNOWN_MARKERS)))"
  proof (intro ball_cong refl, clarify)
    fix key child assume kc: "(key, child) \<in> set kvs"
    show "((vendor_marker key \<longrightarrow> key \<in> KNOWN_MARKERS) \<and>
         (key \<notin> SCHEMA_DATA_KEYS \<longrightarrow> (\<forall>v \<in> set (sub_schemas key child). unknownMarker v = None))) =
       ((vendor_marker key \<longrightarrow> key \<in> KNOWN_MARKERS) \<and>
         (key \<notin> SCHEMA_DATA_KEYS \<longrightarrow> (\<forall>v \<in> set (sub_schemas key child).
            \<forall>k. schema_key v k \<longrightarrow> vendor_marker k \<longrightarrow> k \<in> KNOWN_MARKERS)))"
      using "2" [OF kc refl] by blast
  qed
  also have "\<dots> \<longleftrightarrow> (\<forall>k. schema_key (JObj kvs) k \<longrightarrow> vendor_marker k \<longrightarrow> k \<in> KNOWN_MARKERS)"
    by (auto elim!: schema_key_ObjE intro: schema_key.here) (metis schema_key.below)
  finally show ?case .
qed simp_all

lemma registerTools_marked:
  assumes "\<forall>t \<in> set (listTools st). assertKnownMarkers t = Inr ()"
  shows "\<forall>t \<in> set (listTools (snd (registerTools st ts))). assertKnownMarkers t = Inr ()"
  using assms
  by (induction st ts rule: registerTools.induct) (auto simp: listTools_def split: sum.splits)

text \<open>Whatever calls a tool registry served, refused ones included, every schema of every tool it
  lists carries no vendor secret or read-permission marker but the two the platform protects, at any
  place a schema keyword may stand.\<close>

lemma tool_markers_known:
  assumes "t \<in> set (listTools (foldl put_tools \<lparr>tools = [], nativeTools = []\<rparr> calls))"
    and "inputSchema t = Some s \<or> outputSchema t = Some s" and "schema_key s k" and "vendor_marker k"
  shows "k \<in> KNOWN_MARKERS"
proof -
  have "\<forall>t \<in> set (listTools (foldl put_tools st calls)). assertKnownMarkers t = Inr ()"
    if "\<forall>t \<in> set (listTools st). assertKnownMarkers t = Inr ()" for st :: "'a tool_state"
    using that
  proof (induction calls arbitrary: st)
    case (Cons c calls)
    show ?case
      using Cons.IH [of "put_tools st c"] registerTools_marked [OF Cons.prems] Cons.prems
      by (cases c) (auto simp: registerNative_def listTools_def)
  qed simp
  from this [of "\<lparr>tools = [], nativeTools = []\<rparr>"] assms(1) have "assertKnownMarkers t = Inr ()"
    by (auto simp: listTools_def)
  then have "unknownMarker s = None"
    using assms(2) by (auto simp: assertKnownMarkers_def Let_def split: option.splits)
  then show ?thesis using assms(3,4) by (simp add: unknownMarker_None)
qed

lemma tool_markers_known_example:
  "\<exists>k. vendor_marker k \<and> k \<in> KNOWN_MARKERS \<and> k = ''x-flowdular-secret''"
proof -
  let ?s = "JObj [(''properties'', JObj [(''token'', JObj [(''x-flowdular-secret'', JBool True)])])]"
  let ?t = "\<lparr>tool_id = ''mail.send'', inputSchema = Some ?s, outputSchema = None\<rparr>"
  have "unknownMarker (JArr [?s, JNull]) = None" by code_simp
  then have l: "?t \<in> set (listTools (foldl put_tools \<lparr>tools = [], nativeTools = [] :: (string \<times> unit) list\<rparr> [Offer [?t]]))"
    by (simp add: listTools_def has_tool_def assertKnownMarkers_def del: unknownMarker.simps)
  have k: "schema_key ?s ''x-flowdular-secret''"
    by (rule schema_key.below [where key = "''properties''" and
          v = "JObj [(''x-flowdular-secret'', JBool True)]"])
      (auto simp: SCHEMA_DATA_KEYS_def sub_schemas_def SCHEMA_NAME_MAPS_def intro: schema_key.here)
  have v: "vendor_marker ''x-flowdular-secret''" by code_simp
  have "''x-flowdular-secret'' \<in> KNOWN_MARKERS"
    by (rule tool_markers_known [OF l _ k v]) simp
  then show ?thesis using v by blast
qed

section \<open>Agents\<close>

text \<open>Each registry has one root and views bound to a module: \<open>None\<close> and \<open>Some m\<close>.\<close>

record 'b agent_definition =
  agent_id :: string
  agent_moduleId :: "string option"
  agent_body :: 'b

record 'b agent_state =
  definitions :: "(string \<times> 'b agent_definition) list"
  agents_sealed :: "'b agent_definition list option"

definition createPlatformAgentRegistry :: "'b agent_state" where
  "createPlatformAgentRegistry = \<lparr>definitions = [], agents_sealed = None\<rparr>"

definition checkAgent ::
    "string option \<Rightarrow> 'b agent_state \<Rightarrow> string set \<Rightarrow> 'b agent_definition \<Rightarrow> registry_failure + string set" where
  "checkAgent bound st incoming d =
     (if bound \<noteq> None \<and> agent_moduleId d \<noteq> bound then Inl FOREIGN_OWNER
      else if agent_id d = [] then Inl ID_REQUIRED
      else if map_of (definitions st) (agent_id d) \<noteq> None \<or> agent_id d \<in> incoming then Inl ALREADY_REGISTERED
      else Inr (insert (agent_id d) incoming))"

definition registerAgents ::
    "string option \<Rightarrow> 'b agent_state \<Rightarrow> 'b agent_definition list \<Rightarrow> registry_failure + 'b agent_state" where
  "registerAgents bound st entries =
     (if agents_sealed st \<noteq> None then Inl REGISTRY_SEALED
      else and_then (for_each (checkAgent bound st) {} entries) (\<lambda>_.
        Inr (st\<lparr>definitions := foldl (\<lambda>m d. m @ [(agent_id d, d)]) (definitions st) entries\<rparr>)))"

definition listAgents :: "'b agent_state \<Rightarrow> 'b agent_definition list" where
  "listAgents st = (case agents_sealed st of Some ds \<Rightarrow> ds | None \<Rightarrow> map snd (definitions st))"

definition bindModule :: "string option \<Rightarrow> string \<Rightarrow> registry_failure + string option" where
  "bindModule bound moduleId =
     (let normalized = trim moduleId in
      if normalized = [] then Inl NEEDS_ID
      else if bound \<noteq> None \<and> Some normalized \<noteq> bound then Inl FOREIGN_OWNER
      else Inr (Some normalized))"

definition sealAgents :: "(string \<Rightarrow> string \<Rightarrow> int) \<Rightarrow> 'b agent_state \<Rightarrow> 'b agent_state" where
  "sealAgents cmp st =
     (if agents_sealed st \<noteq> None then st
      else st\<lparr>agents_sealed := Some (sort_by (\<lambda>l r. cmp (agent_id l) (agent_id r)) (map snd (definitions st)))\<rparr>)"

datatype 'b agent_call = Register "string option" "'b agent_definition list" | Seal "string \<Rightarrow> string \<Rightarrow> int"

fun put_agents :: "'b agent_state \<Rightarrow> 'b agent_call \<Rightarrow> 'b agent_state" where
  "put_agents st (Register bound entries) = after st (registerAgents bound st entries)"
| "put_agents st (Seal cmp) = sealAgents cmp st"

definition get_agent :: "'b agent_state \<Rightarrow> string \<Rightarrow> 'b agent_definition option" where
  "get_agent st i = map_of (definitions st) i"

lemma append_entries: "foldl (\<lambda>m d. m @ [(f d, d)]) m ds = m @ map (\<lambda>d. (f d, d)) ds"
  by (induction ds arbitrary: m) auto

lemma checkAgent_Inr:
  "checkAgent bound st incoming d = Inr incoming' \<longleftrightarrow>
     (bound \<noteq> None \<longrightarrow> agent_moduleId d = bound) \<and> agent_id d \<noteq> [] \<and>
     map_of (definitions st) (agent_id d) = None \<and> agent_id d \<notin> incoming \<and>
     incoming' = insert (agent_id d) incoming"
  by (auto simp: checkAgent_def)

lemma fresh_insert:
  "(\<forall>x \<in> insert d S. A x \<and> B x \<and> C x \<and> f x \<notin> I) \<and> f d \<notin> f ` S \<and> D \<longleftrightarrow>
     (A d \<and> B d \<and> C d \<and> f d \<notin> I) \<and> (\<forall>x \<in> S. A x \<and> B x \<and> C x \<and> f x \<notin> insert (f d) I) \<and> D"
  by (auto, metis image_eqI)

lemma checkAgents_Inr:
  "(\<exists>r. for_each (checkAgent bound st) incoming ds = Inr r) \<longleftrightarrow>
     (\<forall>d \<in> set ds. (bound \<noteq> None \<longrightarrow> agent_moduleId d = bound) \<and> agent_id d \<noteq> [] \<and>
        agent_id d \<notin> fst ` set (definitions st) \<and> agent_id d \<notin> incoming) \<and>
     distinct (map agent_id ds)"
proof (induction ds arbitrary: incoming)
  case (Cons d ds)
  let ?ok = "(bound \<noteq> None \<longrightarrow> agent_moduleId d = bound) \<and> agent_id d \<noteq> [] \<and>
        agent_id d \<notin> fst ` set (definitions st) \<and> agent_id d \<notin> incoming"
  have "(\<exists>r. for_each (checkAgent bound st) incoming (d # ds) = Inr r) \<longleftrightarrow>
      ?ok \<and> (\<exists>r. for_each (checkAgent bound st) (insert (agent_id d) incoming) ds = Inr r)"
    unfolding for_each.simps and_then_Inr checkAgent_Inr map_of_eq_None_iff by blast
  then show ?case
    unfolding Cons.IH list.set list.map distinct.simps set_map
      fresh_insert [where f = agent_id] .
qed simp

interpretation agents: composition_registry put_agents get_agent "\<lambda>st. agents_sealed st \<noteq> None"
proof
  fix st :: "'b agent_state" and k v c
  assume k: "get_agent st k = Some v"
  show "get_agent (put_agents st c) k = Some v"
  proof (cases c)
    case (Register bound entries)
    show ?thesis
    proof (cases "registerAgents bound st entries")
      case (Inl e)
      then show ?thesis using k Register by (simp add: after_def)
    next
      case (Inr st')
      then have st': "definitions st' = definitions st @ map (\<lambda>d. (agent_id d, d)) entries"
        and "\<exists>r. for_each (checkAgent bound st) {} entries = Inr r"
        by (auto simp: registerAgents_def append_entries result_simps split: if_splits)
      then have "\<forall>d \<in> set entries. agent_id d \<notin> fst ` set (definitions st)"
        unfolding checkAgents_Inr by blast
      moreover have "k \<in> fst ` set (definitions st)"
        using k map_of_SomeD by (force simp: get_agent_def)
      ultimately have "\<forall>d \<in> set entries. agent_id d \<noteq> k" by metis
      then have "map_of (map (\<lambda>d. (agent_id d, d)) entries) k = None"
        by (auto simp: map_of_eq_None_iff image_iff)
      then show ?thesis using k Register Inr by (simp add: after_def get_agent_def st' map_add_def)
    qed
  next
    case (Seal cmp)
    then show ?thesis using k by (simp add: sealAgents_def get_agent_def)
  qed
next
  fix st :: "'b agent_state" and c
  assume "agents_sealed st \<noteq> None"
  then show "put_agents st c = st"
    by (cases c) (auto simp: after_def registerAgents_def sealAgents_def)
qed

definition agents_wf :: "'b agent_state \<Rightarrow> bool" where
  "agents_wf st = (distinct (map fst (definitions st)) \<and>
     map fst (definitions st) = map agent_id (map snd (definitions st)))"

lemma put_agents_wf: "agents_wf st \<Longrightarrow> agents_wf (put_agents st c)"
proof (cases c)
  case (Register bound entries)
  assume wf: "agents_wf st"
  show ?thesis
  proof (cases "registerAgents bound st entries")
    case (Inl e)
    then show ?thesis using wf Register by (simp add: after_def)
  next
    case (Inr st')
    then have st': "definitions st' = definitions st @ map (\<lambda>d. (agent_id d, d)) entries"
      and "\<exists>r. for_each (checkAgent bound st) {} entries = Inr r"
      by (auto simp: registerAgents_def append_entries result_simps split: if_splits)
    then have "distinct (map agent_id entries)"
      "set (map agent_id entries) \<inter> set (map fst (definitions st)) = {}"
      unfolding checkAgents_Inr by auto
    then show ?thesis
      using wf Register Inr by (auto simp: after_def comp_def st' agents_wf_def Int_commute)
  qed
next
  case (Seal cmp)
  assume "agents_wf st"
  then show ?thesis using Seal by (simp add: sealAgents_def agents_wf_def)
qed

lemma run_agents_wf: "agents_wf st \<Longrightarrow> agents_wf (foldl put_agents st cs)"
proof (induction cs arbitrary: st)
  case (Cons c cs)
  show ?case using Cons.IH [OF put_agents_wf [OF Cons.prems]] by simp
qed simp

lemma run_agents_open:
  "agents_sealed st = None \<Longrightarrow> \<forall>call \<in> set cs. \<not> (\<exists>c. call = Seal c) \<Longrightarrow>
     agents_sealed (foldl put_agents st cs) = None"
proof (induction cs arbitrary: st)
  case (Cons c cs)
  from Cons.prems have "agents_sealed (put_agents st c) = None"
    by (cases c) (auto simp: after_def registerAgents_def result_simps split: sum.splits if_splits)
  then show ?case using Cons by simp
qed simp

text \<open>A batch of agents is registered exactly when the catalogue is open, every definition is owned
  by the module the view is bound to, and all ids are non-empty, new and distinct; then the whole
  batch follows the catalogue in order, and otherwise nothing of it does.\<close>

lemma agent_batch_exact:
  "put_agents st (Register bound entries) =
     (if agents_sealed st = None \<and>
        (\<forall>d \<in> set entries. (bound = None \<or> agent_moduleId d = bound) \<and> agent_id d \<noteq> [] \<and>
           agent_id d \<notin> fst ` set (definitions st)) \<and> distinct (map agent_id entries)
      then st\<lparr>definitions := definitions st @ map (\<lambda>d. (agent_id d, d)) entries\<rparr> else st)"
proof (cases "for_each (checkAgent bound st) {} entries")
  case (Inl e)
  then have "\<not> (\<exists>r. for_each (checkAgent bound st) {} entries = Inr r)" by simp
  then show ?thesis unfolding checkAgents_Inr using Inl by (auto simp: after_def registerAgents_def)
next
  case (Inr r)
  then have "\<exists>r. for_each (checkAgent bound st) {} entries = Inr r" by simp
  then show ?thesis unfolding checkAgents_Inr using Inr
    by (auto simp: after_def registerAgents_def append_entries)
qed

lemma agent_batch_exact_example:
  "definitions (put_agents createPlatformAgentRegistry (Register (Some ''mail.box'')
     [\<lparr>agent_id = ''a'', agent_moduleId = Some ''mail.box'', agent_body = ()\<rparr>,
      \<lparr>agent_id = ''a'', agent_moduleId = Some ''mail.box'', agent_body = ()\<rparr>])) = []"
  unfolding agent_batch_exact by (simp add: createPlatformAgentRegistry_def)

text \<open>Once sealed, the agent catalogue lists the same definitions for the life of the process,
  whatever is called on any view: exactly the registered ones, each id once, in the order of their
  ids.\<close>

lemma agent_catalogue_sealed:
  assumes "comparator_order cmp" and "\<forall>call \<in> set before. \<not> (\<exists>c. call = Seal c)"
  defines "composed \<equiv> foldl put_agents createPlatformAgentRegistry before"
  shows "listAgents (foldl put_agents composed (Seal cmp # later)) =
      sort_by (\<lambda>l r. cmp (agent_id l) (agent_id r)) (map snd (definitions composed)) \<and>
    mset (listAgents (foldl put_agents composed (Seal cmp # later))) = mset (listAgents composed) \<and>
    distinct (map agent_id (listAgents (foldl put_agents composed (Seal cmp # later))))"
proof -
  have o: "agents_sealed composed = None"
    unfolding composed_def using assms(2) by (intro run_agents_open) (auto simp: createPlatformAgentRegistry_def)
  have d: "agents_wf composed"
    unfolding composed_def by (rule run_agents_wf) (simp add: createPlatformAgentRegistry_def agents_wf_def)
  have "agents_sealed (sealAgents cmp composed) \<noteq> None" by (simp add: sealAgents_def o)
  then have s: "foldl put_agents composed (Seal cmp # later) = sealAgents cmp composed"
    by (simp add: agents.run_frozen)
  have l: "listAgents (sealAgents cmp composed) =
      sort_by (\<lambda>l r. cmp (agent_id l) (agent_id r)) (map snd (definitions composed))"
    by (simp add: listAgents_def sealAgents_def o)
  have m: "mset (listAgents (sealAgents cmp composed)) = mset (listAgents composed)"
    unfolding l by (simp add: listAgents_def o)
  then have "mset (map agent_id (listAgents (sealAgents cmp composed))) = mset (map agent_id (listAgents composed))"
    by (metis mset_map)
  moreover have "distinct (map agent_id (listAgents composed))"
    using d o unfolding agents_wf_def listAgents_def by (metis option.simps(4))
  ultimately have "distinct (map agent_id (listAgents (sealAgents cmp composed)))"
    by (metis mset_eq_imp_distinct_iff)
  with l m s show ?thesis by simp
qed

lemma agent_catalogue_sealed_example:
  "map agent_id (listAgents (foldl put_agents (createPlatformAgentRegistry :: unit agent_state)
     [Register None [\<lparr>agent_id = ''b'', agent_moduleId = None, agent_body = ()\<rparr>,
        \<lparr>agent_id = ''a'', agent_moduleId = None, agent_body = ()\<rparr>], Seal unit_compare,
      Register None [\<lparr>agent_id = ''c'', agent_moduleId = None, agent_body = ()\<rparr>]])) = [''a'', ''b'']"
proof -
  let ?r = "Register None [\<lparr>agent_id = ''b'', agent_moduleId = None, agent_body = ()\<rparr>,
        \<lparr>agent_id = ''a'', agent_moduleId = None, agent_body = ()\<rparr>]"
  have "definitions (foldl put_agents (createPlatformAgentRegistry :: unit agent_state) [?r]) =
     [(''b'', \<lparr>agent_id = ''b'', agent_moduleId = None, agent_body = ()\<rparr>),
      (''a'', \<lparr>agent_id = ''a'', agent_moduleId = None, agent_body = ()\<rparr>)]"
    by (simp add: createPlatformAgentRegistry_def registerAgents_def checkAgent_def after_def)
  moreover have "map agent_id (sort_by (\<lambda>l r. unit_compare (agent_id l) (agent_id r))
     [\<lparr>agent_id = ''b'', agent_moduleId = None, agent_body = ()\<rparr>,
      \<lparr>agent_id = ''a'', agent_moduleId = None, agent_body = ()\<rparr>]) = [''a'', ''b'']"
    by code_simp
  ultimately show ?thesis
    using agent_catalogue_sealed [OF unit_order.comparator_order_axioms, of "[?r]"
        "[Register None [\<lparr>agent_id = ''c'', agent_moduleId = None, agent_body = ()\<rparr>]]"]
    by simp
qed

end
