(* ===== verification/Kernel_Data_Classes.thy ===== *)
theory Kernel_Data_Classes
  imports Kernel_Registries
begin

text \<open>
  \<open>packages/kernel/src/data-class-registry.ts\<close>: the catalogue of the data a deployment holds. The
  operations a class may carry (sweep, export, erase, count) are module code the registry stores and
  never calls: one type variable.
\<close>

record 'o data_class =
  class_key :: string
  class_label :: string
  defaultRetentionDays :: "int option"
  exportable :: bool
  excludedReason :: "string option"
  class_operations :: 'o

record 'o data_class_state =
  class_modules :: "(string \<times> 'o data_class list) list"
  owners :: "string \<rightharpoonup> string"
  classes_sealed :: "(string \<times> 'o data_class list) list option"

definition createDataClassRegistry :: "'o data_class_state" where
  "createDataClassRegistry = \<lparr>class_modules = [], owners = Map.empty, classes_sealed = None\<rparr>"

text \<open>\<open>DATA_CLASS_LIMITS\<close>.\<close>

record data_class_limits =
  limit_moduleId :: nat
  limit_key :: nat
  limit_classId :: nat
  limit_label :: nat
  limit_excludedReason :: nat
  limit_classesPerModule :: nat
  limit_retentionDays :: int

definition DATA_CLASS_LIMITS :: data_class_limits where
  "DATA_CLASS_LIMITS = \<lparr>limit_moduleId = 64, limit_key = 48, limit_classId = 96, limit_label = 120,
     limit_excludedReason = 200, limit_classesPerModule = 64, limit_retentionDays = 36500\<rparr>"

definition classId :: "string \<Rightarrow> string \<Rightarrow> string" where
  "classId moduleId key = moduleId @ ''.'' @ key"

definition validated :: "string \<Rightarrow> 'o data_class \<Rightarrow> registry_failure + string" where
  "validated moduleId d =
     (let key = class_key d; cid = classId moduleId key; refuse = Inl DATA_CLASS_DECLARATION_INVALID in
      if limit_key DATA_CLASS_LIMITS < length key \<or> \<not> kebab_id key then refuse
      else if limit_classId DATA_CLASS_LIMITS < length cid then refuse
      else if length (trim (class_label d)) < 1 \<or> limit_label DATA_CLASS_LIMITS < length (class_label d) then refuse
      else if (case defaultRetentionDays d of None \<Rightarrow> False
        | Some days \<Rightarrow> days < 1 \<or> limit_retentionDays DATA_CLASS_LIMITS < days) then refuse
      else if \<not> exportable d \<and> (case excludedReason d of None \<Rightarrow> True
        | Some reason \<Rightarrow> length (trim reason) < 1 \<or> limit_excludedReason DATA_CLASS_LIMITS < length reason) then refuse
      else Inr cid)"

definition acceptClass ::
    "'o data_class_state \<Rightarrow> string \<Rightarrow> string list \<Rightarrow> 'o data_class \<Rightarrow> registry_failure + string list" where
  "acceptClass st moduleId accepted d =
     and_then (validated moduleId d) (\<lambda>cid.
       if owners st cid \<noteq> None \<or> cid \<in> set accepted then Inl DATA_CLASS_DECLARATION_INVALID
       else Inr (accepted @ [cid]))"

definition declareClasses ::
    "'o data_class_state \<Rightarrow> string \<Rightarrow> 'o data_class list \<Rightarrow> registry_failure + 'o data_class_state" where
  "declareClasses st moduleId classes =
     (let refuse = Inl DATA_CLASS_DECLARATION_INVALID in
      if classes_sealed st \<noteq> None then refuse
      else if limit_moduleId DATA_CLASS_LIMITS < length moduleId \<or> \<not> dotted_id moduleId then refuse
      else if map_of (class_modules st) moduleId \<noteq> None then refuse
      else if limit_classesPerModule DATA_CLASS_LIMITS < length classes then refuse
      else and_then (for_each (acceptClass st moduleId) [] classes) (\<lambda>accepted.
        Inr (st\<lparr>class_modules := class_modules st @ [(moduleId, classes)],
          owners := foldl (\<lambda>m cid. m(cid \<mapsto> moduleId)) (owners st) accepted\<rparr>)))"

text \<open>\<open>declare(moduleId, classes)\<close> has \<open>Some\<close> for its first argument, \<open>declare(classes)\<close> \<open>None\<close>.\<close>

definition declareView ::
    "string option \<Rightarrow> 'o data_class_state \<Rightarrow> string option \<Rightarrow> 'o data_class list \<Rightarrow>
     registry_failure + 'o data_class_state" where
  "declareView bound st named classes =
     (case (case named of Some m \<Rightarrow> Some m | None \<Rightarrow> bound) of
        None \<Rightarrow> Inl DATA_CLASS_DECLARATION_INVALID
      | Some moduleId \<Rightarrow>
          if bound \<noteq> None \<and> Some moduleId \<noteq> bound then Inl DATA_CLASS_DECLARATION_INVALID
          else declareClasses st moduleId classes)"

definition bindDataClasses :: "string option \<Rightarrow> string \<Rightarrow> registry_failure + string option" where
  "bindDataClasses bound moduleId =
     (let normalized = trim moduleId in
      if normalized = [] then Inl DATA_CLASS_DECLARATION_INVALID
      else if bound \<noteq> None \<and> Some normalized \<noteq> bound then Inl DATA_CLASS_DECLARATION_INVALID
      else Inr (Some normalized))"

definition listDataClasses :: "'o data_class_state \<Rightarrow> (string \<times> 'o data_class list) list" where
  "listDataClasses st = (case classes_sealed st of Some s \<Rightarrow> s | None \<Rightarrow> class_modules st)"

definition sealDataClasses :: "'o data_class_state \<Rightarrow> 'o data_class_state" where
  "sealDataClasses st =
     (if classes_sealed st \<noteq> None then st else st\<lparr>classes_sealed := Some (class_modules st)\<rparr>)"

datatype 'o data_class_call = Declare "string option" "string option" "'o data_class list" | Seal_classes

fun put_classes :: "'o data_class_state \<Rightarrow> 'o data_class_call \<Rightarrow> 'o data_class_state" where
  "put_classes st (Declare bound named classes) = after st (declareView bound st named classes)"
| "put_classes st Seal_classes = sealDataClasses st"

definition get_classes :: "'o data_class_state \<Rightarrow> string \<Rightarrow> 'o data_class list option" where
  "get_classes st m = map_of (class_modules st) m"

section \<open>Class ids\<close>

text \<open>A key holds no dot, so a class id names its module and its key.\<close>

lemma kebab_no_dot: "kebab_id k \<Longrightarrow> CHR ''.'' \<notin> set k"
proof (cases k)
  case (Cons c cs)
  assume "kebab_id k"
  moreover have "\<not> is_lower CHR ''.''" "\<not> is_digit CHR ''.''" by code_simp+
  ultimately show ?thesis using Cons by (auto simp: list_all_iff)
qed simp

lemma classId_inj:
  assumes "classId m k = classId m' k'" and "CHR ''.'' \<notin> set k" and "CHR ''.'' \<notin> set k'"
  shows "m = m' \<and> k = k'"
proof -
  have split: "takeWhile (\<lambda>c. c \<noteq> CHR ''.'') (rev (classId n j)) = rev j"
    "dropWhile (\<lambda>c. c \<noteq> CHR ''.'') (rev (classId n j)) = CHR ''.'' # rev n"
    if "CHR ''.'' \<notin> set j" for n j
  proof -
    have r: "rev (classId n j) = rev j @ CHR ''.'' # rev n" by (simp add: classId_def)
    show "takeWhile (\<lambda>c. c \<noteq> CHR ''.'') (rev (classId n j)) = rev j"
      "dropWhile (\<lambda>c. c \<noteq> CHR ''.'') (rev (classId n j)) = CHR ''.'' # rev n"
      unfolding r using that by (subst takeWhile_append2 dropWhile_append2; auto)+
  qed
  show ?thesis
    using split [OF assms(2), of m] split [OF assms(3), of m'] assms(1) by simp
qed

lemma validated_Inr:
  "validated moduleId d = Inr cid \<Longrightarrow> cid = classId moduleId (class_key d) \<and> kebab_id (class_key d) \<and>
     length cid \<le> 96 \<and> (\<forall>days. defaultRetentionDays d = Some days \<longrightarrow> 1 \<le> days \<and> days \<le> 36500) \<and>
     (\<not> exportable d \<longrightarrow> (\<exists>reason. excludedReason d = Some reason \<and> trim reason \<noteq> []))"
  by (auto simp: validated_def Let_def DATA_CLASS_LIMITS_def split: if_splits option.splits)

section \<open>What every reachable catalogue satisfies\<close>

definition classes_wf :: "'o data_class_state \<Rightarrow> bool" where
  "classes_wf st \<longleftrightarrow>
     distinct (map fst (class_modules st)) \<and>
     (\<forall>(m, ds) \<in> set (class_modules st). distinct (map class_key ds) \<and> (\<forall>d \<in> set ds. is_ok (validated m d))) \<and>
     (\<forall>cid m. owners st cid = Some m \<longleftrightarrow>
        (\<exists>ds. (m, ds) \<in> set (class_modules st) \<and> cid \<in> (\<lambda>d. classId m (class_key d)) ` set ds)) \<and>
     (\<forall>s. classes_sealed st = Some s \<longrightarrow> s = class_modules st)"

lemma acceptClasses:
  "for_each (acceptClass st m) acc ds = Inr acc' \<Longrightarrow> distinct acc \<Longrightarrow>
     acc' = acc @ map (\<lambda>d. classId m (class_key d)) ds \<and> distinct acc' \<and>
     (\<forall>d \<in> set ds. is_ok (validated m d) \<and> owners st (classId m (class_key d)) = None)"
proof (induction ds arbitrary: acc)
  case (Cons d ds)
  from Cons.prems(1) obtain acc1 where a: "acceptClass st m acc d = Inr acc1"
    and r: "for_each (acceptClass st m) acc1 ds = Inr acc'"
    by (auto simp: and_then_Inr)
  from a obtain cid where v: "validated m d = Inr cid" and n: "owners st cid = None" "cid \<notin> set acc"
    and acc1: "acc1 = acc @ [cid]"
    by (auto simp: acceptClass_def and_then_Inr split: if_splits)
  then have cid: "cid = classId m (class_key d)" using validated_Inr by blast
  have "distinct acc1" using n acc1 Cons.prems(2) by simp
  note i = Cons.IH [OF r this]
  show ?case
  proof (intro conjI)
    show "acc' = acc @ map (\<lambda>d. classId m (class_key d)) (d # ds)" using i acc1 cid by simp
    show "distinct acc'" using i by blast
    show "\<forall>d \<in> set (d # ds). is_ok (validated m d) \<and> owners st (classId m (class_key d)) = None"
      using i v n cid by simp
  qed
qed simp

lemma owners_after: "foldl (\<lambda>f c. f(c \<mapsto> m)) own cids c = (if c \<in> set cids then Some m else own c)"
  by (induction cids arbitrary: own) auto

lemma declareClasses_Inr:
  assumes "declareClasses st m ds = Inr st'"
  shows "classes_sealed st = None \<and> classes_sealed st' = None \<and> m \<notin> fst ` set (class_modules st) \<and>
    class_modules st' = class_modules st @ [(m, ds)] \<and>
    distinct (map (\<lambda>d. classId m (class_key d)) ds) \<and>
    (\<forall>d \<in> set ds. is_ok (validated m d) \<and> owners st (classId m (class_key d)) = None) \<and>
    owners st' = (\<lambda>c. if c \<in> (\<lambda>d. classId m (class_key d)) ` set ds then Some m else owners st c)"
proof -
  obtain acc where f: "for_each (acceptClass st m) [] ds = Inr acc"
    and m: "map_of (class_modules st) m = None" "classes_sealed st = None"
    and st': "st' = st\<lparr>class_modules := class_modules st @ [(m, ds)],
       owners := foldl (\<lambda>f cid. f(cid \<mapsto> m)) (owners st) acc\<rparr>"
    using assms by (auto simp: declareClasses_def Let_def and_then_Inr split: if_splits)
  show ?thesis
    using acceptClasses [OF f] m by (auto simp: st' map_of_eq_None_iff fun_eq_iff owners_after)
qed

lemma declareView_Inr:
  "declareView bound st named ds = Inr st' \<Longrightarrow>
     \<exists>m. declareClasses st m ds = Inr st' \<and> (bound = None \<or> bound = Some m)"
  by (auto simp: declareView_def split: option.splits if_splits)

lemma declareClasses_wf:
  assumes "classes_wf st" and "declareClasses st m ds = Inr st'"
  shows "classes_wf st'"
proof -
  note r = declareClasses_Inr [OF assms(2)]
  then have modules: "class_modules st' = class_modules st @ [(m, ds)]" by blast
  from r have "distinct (map class_key ds)"
    by (auto simp: distinct_map classId_def inj_on_def)
  moreover have "cid \<in> (\<lambda>d. classId m (class_key d)) ` set ds \<Longrightarrow> owners st cid = None" for cid
    using r by auto
  have old: "owners st cid = Some n \<longleftrightarrow>
      (\<exists>es. (n, es) \<in> set (class_modules st) \<and> cid \<in> (\<lambda>d. classId n (class_key d)) ` set es)" for cid n
    using assms(1) unfolding classes_wf_def by blast
  have new: "(m, es) \<notin> set (class_modules st)" for es using r by force
  moreover have "owners st' cid = Some n \<longleftrightarrow>
      (\<exists>es. (n, es) \<in> set (class_modules st') \<and> cid \<in> (\<lambda>d. classId n (class_key d)) ` set es)" for cid n
  proof (cases "cid \<in> (\<lambda>d. classId m (class_key d)) ` set ds")
    case True
    then have "owners st cid = None" using r by auto
    then have "\<not> (\<exists>es. (n, es) \<in> set (class_modules st) \<and> cid \<in> (\<lambda>d. classId n (class_key d)) ` set es)"
      using old [of cid n] by simp
    then have "(\<exists>es. (n, es) \<in> set (class_modules st') \<and> cid \<in> (\<lambda>d. classId n (class_key d)) ` set es) \<longleftrightarrow>
        n = m"
      using True unfolding modules set_append list.set by blast
    moreover have "owners st' cid = Some m" using True r by simp
    ultimately show ?thesis by (simp only: option.inject) blast
  next
    case False
    then have "owners st' cid = owners st cid" using r by simp
    also note old [of cid n]
    finally show ?thesis using False unfolding modules by auto
  qed
  moreover have "distinct (map fst (class_modules st'))" using assms(1) r by (auto simp: classes_wf_def)
  moreover have "\<forall>(n, es) \<in> set (class_modules st'). distinct (map class_key es) \<and>
      (\<forall>d \<in> set es. is_ok (validated n d))"
    using assms(1) r \<open>distinct (map class_key ds)\<close> unfolding classes_wf_def by auto
  moreover have "\<forall>s. classes_sealed st' = Some s \<longrightarrow> s = class_modules st'" using r by simp
  ultimately show ?thesis unfolding classes_wf_def by blast
qed

lemma put_classes_wf: "classes_wf st \<Longrightarrow> classes_wf (put_classes st c)"
proof (cases c)
  case (Declare bound named ds)
  assume wf: "classes_wf st"
  then show ?thesis using Declare declareView_Inr declareClasses_wf
    by (cases "declareView bound st named ds") (auto simp: after_def, blast)
next
  case Seal_classes
  assume "classes_wf st"
  then show ?thesis using Seal_classes by (auto simp: sealDataClasses_def classes_wf_def)
qed

lemma run_classes_wf: "classes_wf st \<Longrightarrow> classes_wf (foldl put_classes st cs)"
proof (induction cs arbitrary: st)
  case (Cons c cs)
  show ?case using Cons.IH [OF put_classes_wf [OF Cons.prems]] by simp
qed simp

lemma created_wf: "classes_wf createDataClassRegistry"
  by (simp add: createDataClassRegistry_def classes_wf_def)

interpretation data_classes: composition_registry put_classes get_classes "\<lambda>st. classes_sealed st \<noteq> None"
proof
  fix st :: "'o data_class_state" and k v c
  assume k: "get_classes st k = Some v"
  show "get_classes (put_classes st c) k = Some v"
  proof (cases c)
    case (Declare bound named ds)
    show ?thesis
    proof (cases "declareView bound st named ds")
      case (Inl e)
      then show ?thesis using k Declare by (simp add: after_def)
    next
      case (Inr st')
      then obtain m where m: "declareClasses st m ds = Inr st'" using declareView_Inr by blast
      have "k \<in> fst ` set (class_modules st)" using k map_of_SomeD by (force simp: get_classes_def)
      then have "k \<noteq> m" using declareClasses_Inr [OF m] by blast
      then show ?thesis
        using k Declare Inr declareClasses_Inr [OF m] by (simp add: after_def get_classes_def map_add_def)
    qed
  next
    case Seal_classes
    then show ?thesis using k by (simp add: sealDataClasses_def get_classes_def)
  qed
next
  fix st :: "'o data_class_state" and c
  assume "classes_sealed st \<noteq> None"
  then show "put_classes st c = st"
    by (cases c) (auto simp: after_def declareView_def declareClasses_def sealDataClasses_def split: option.splits)
qed

text \<open>In every catalogue the calls of any views can produce, a class id has an owner exactly when
  the owner declared a class with that id, and the owner is the only module that did: the module and
  the key of a class id can be read off it.\<close>

lemma data_class_one_owner:
  fixes calls :: "'o data_class_call list"
  defines "st \<equiv> foldl put_classes createDataClassRegistry calls"
  assumes "(m, ds) \<in> set (listDataClasses st)" and "d \<in> set ds"
  shows "owners st (classId m (class_key d)) = Some m \<and>
    (\<forall>(m', ds') \<in> set (listDataClasses st). \<forall>d' \<in> set ds'.
       classId m' (class_key d') = classId m (class_key d) \<longrightarrow> m' = m \<and> ds' = ds \<and> d' = d)"
proof -
  have wf: "classes_wf st" unfolding st_def by (rule run_classes_wf) (rule created_wf)
  then have l: "listDataClasses st = class_modules st"
    by (auto simp: listDataClasses_def classes_wf_def split: option.splits)
  have key: "CHR ''.'' \<notin> set (class_key e)" "distinct (map class_key es)"
    if "(n, es) \<in> set (class_modules st)" "e \<in> set es" for n es and e :: "'o data_class"
  proof -
    have "is_ok (validated n e)" "distinct (map class_key es)" using wf that by (auto simp: classes_wf_def)
    then show "CHR ''.'' \<notin> set (class_key e)" "distinct (map class_key es)"
      by (auto simp: is_ok_iff dest: validated_Inr kebab_no_dot)
  qed
  have o: "owners st (classId m (class_key d)) = Some m"
    using wf assms(2,3) unfolding l by (auto simp: classes_wf_def)
  have "m' = m \<and> ds' = ds \<and> d' = d"
    if in': "(m', ds') \<in> set (class_modules st)" "d' \<in> set ds'"
      and eq: "classId m' (class_key d') = classId m (class_key d)" for m' ds' d'
  proof -
    have same: "m' = m \<and> class_key d' = class_key d"
      using classId_inj [OF eq] key in' assms(2,3) unfolding l by blast
    moreover have "ds' = ds"
      using wf same in'(1) assms(2) unfolding l classes_wf_def by (metis eq_key_imp_eq_value)
    moreover have "d' = d"
      using same \<open>ds' = ds\<close> key(2) [OF in'] in'(2) assms(3) by (auto simp: distinct_map inj_on_def)
    ultimately show ?thesis by simp
  qed
  then show ?thesis using o unfolding l by blast
qed

lemma data_class_one_owner_example:
  "owners (foldl put_classes createDataClassRegistry
     [Declare (Some ''mail.box'') None [\<lparr>class_key = ''drafts'', class_label = ''Drafts'',
        defaultRetentionDays = Some 30, exportable = True, excludedReason = None, class_operations = ()\<rparr>]])
     ''mail.box.drafts'' = Some ''mail.box''"
proof -
  let ?d = "\<lparr>class_key = ''drafts'', class_label = ''Drafts'', defaultRetentionDays = Some 30,
     exportable = True, excludedReason = None, class_operations = ()\<rparr>"
  let ?c = "Declare (Some ''mail.box'') None [?d]"
  have "validated ''mail.box'' ?d = Inr ''mail.box.drafts''" by code_simp
  moreover have "dotted_id ''mail.box''" by code_simp
  ultimately have "listDataClasses (foldl put_classes createDataClassRegistry [?c]) = [(''mail.box'', [?d])]"
    by (simp add: createDataClassRegistry_def declareView_def declareClasses_def acceptClass_def
        after_def listDataClasses_def DATA_CLASS_LIMITS_def)
  then show ?thesis
    using data_class_one_owner [of "''mail.box''" "[?d]" "[?c]" ?d] by (simp add: classId_def)
qed

text \<open>A declaration either leaves the catalogue exactly as it was or adds one module whose every
  class passed the limits; once sealed, no call changes what any reader sees.\<close>

lemma data_class_declaration_atomic:
  fixes st :: "'o data_class_state"
  shows "(if classes_sealed st \<noteq> None then foldl put_classes st calls = st
     else put_classes st (Declare bound named ds) = st \<or>
       (\<exists>m. class_modules (put_classes st (Declare bound named ds)) = class_modules st @ [(m, ds)] \<and>
          m \<notin> fst ` set (class_modules st) \<and> (bound = None \<or> bound = Some m) \<and>
          list_all (\<lambda>d. kebab_id (class_key d) \<and> length (classId m (class_key d)) \<le> 96 \<and>
            (case defaultRetentionDays d of None \<Rightarrow> True | Some days \<Rightarrow> 1 \<le> days \<and> days \<le> 36500) \<and>
            (exportable d \<or> (case excludedReason d of None \<Rightarrow> False | Some r \<Rightarrow> trim r \<noteq> []))) ds))"
proof (cases "classes_sealed st \<noteq> None")
  case True
  then show ?thesis using data_classes.run_frozen [of st calls] by simp
next
  case False
  show ?thesis
  proof (cases "declareView bound st named ds")
    case (Inl e)
    then show ?thesis using False by (simp add: after_def)
  next
    case (Inr st')
    then obtain m where m: "declareClasses st m ds = Inr st'" "bound = None \<or> bound = Some m"
      using declareView_Inr by blast
    note r = declareClasses_Inr [OF m(1)]
    have "list_all (\<lambda>d. kebab_id (class_key d) \<and> length (classId m (class_key d)) \<le> 96 \<and>
            (case defaultRetentionDays d of None \<Rightarrow> True | Some days \<Rightarrow> 1 \<le> days \<and> days \<le> 36500) \<and>
            (exportable d \<or> (case excludedReason d of None \<Rightarrow> False | Some r \<Rightarrow> trim r \<noteq> []))) ds"
      unfolding list_all_iff
    proof
      fix d assume "d \<in> set ds"
      then obtain cid where "validated m d = Inr cid" using r by (auto simp: is_ok_iff)
      from validated_Inr [OF this]
      show "kebab_id (class_key d) \<and> length (classId m (class_key d)) \<le> 96 \<and>
            (case defaultRetentionDays d of None \<Rightarrow> True | Some days \<Rightarrow> 1 \<le> days \<and> days \<le> 36500) \<and>
            (exportable d \<or> (case excludedReason d of None \<Rightarrow> False | Some r \<Rightarrow> trim r \<noteq> []))"
        by (auto split: option.splits)
    qed
    then show ?thesis using r m(2) Inr False by (auto simp: after_def)
  qed
qed

end
