(* ===== verification/Workflow_Values.thy ===== *)
theory Workflow_Values
  imports Json "HOL-Library.AList"
begin

text \<open>
  The part of \<open>modules/workflows/src/domain/graph.ts\<close> that handles values while a workflow runs: JSON
  pointers (\<open>validPointer\<close>, \<open>readJsonPointer\<close>, \<open>writeJsonPointer\<close>), schema validation
  (\<open>validateJsonSchema\<close>), input mappings (\<open>applyWorkflowMappings\<close>), gates (\<open>evaluateGate\<close>) and payload
  evidence (\<open>evidenceOf\<close>). A write updates an entry in place or appends it; where JavaScript lists
  integer-like keys first, no operation here reads that order. SHA-256 is a parameter.
\<close>

section \<open>Pointers\<close>

text \<open>\<open>!/~(?:[^01]|$)/.test(s)\<close>.\<close>

fun tildes_escaped :: "string \<Rightarrow> bool" where
  "tildes_escaped [] = True"
| "tildes_escaped (c # cs) =
     ((c = CHR ''~'' \<longrightarrow> (case cs of [] \<Rightarrow> False | d # _ \<Rightarrow> d = CHR ''0'' \<or> d = CHR ''1'')) \<and> tildes_escaped cs)"

definition validPointer :: "string \<Rightarrow> bool" where
  "validPointer pointer = (pointer = [] \<or> starts_with ''/'' pointer \<and> tildes_escaped pointer)"

text \<open>\<open>s.replaceAll(ab, c)\<close> for a pattern of two different characters.\<close>

fun replace_pair :: "char \<Rightarrow> char \<Rightarrow> char \<Rightarrow> string \<Rightarrow> string" where
  "replace_pair a b r (x # y # s) =
     (if x = a \<and> y = b then r # replace_pair a b r s else x # replace_pair a b r (y # s))"
| "replace_pair a b r s = s"

definition unescape :: "string \<Rightarrow> string" where
  "unescape part = replace_pair CHR ''~'' CHR ''0'' CHR ''~'' (replace_pair CHR ''~'' CHR ''1'' CHR ''/'' part)"

text \<open>\<open>pointer.slice(1).split('/').map(...)\<close>.\<close>

definition pointer_parts :: "string \<Rightarrow> string list" where
  "pointer_parts pointer = map unescape (split_on CHR ''/'' (tl pointer))"

definition FORBIDDEN_POINTER_SEGMENTS :: "string set" where
  "FORBIDDEN_POINTER_SEGMENTS = {''__proto__'', ''constructor'', ''prototype''}"

definition writableTargetPointer :: "string \<Rightarrow> bool" where
  "writableTargetPointer pointer =
     (validPointer pointer \<and> \<not> list_ex (\<lambda>part. part \<in> FORBIDDEN_POINTER_SEGMENTS) (pointer_parts pointer))"

definition read_part :: "json \<Rightarrow> string \<Rightarrow> json option" where
  "read_part current key =
     (case current of
        JArr vs \<Rightarrow>
          if \<not> is_numeral key then None
          else if int (read_nat key) \<le> MAX_SAFE_INTEGER \<and> read_nat key < length vs then Some (vs ! read_nat key)
          else None
      | JObj kvs \<Rightarrow> field kvs key
      | _ \<Rightarrow> None)"

text \<open>An \<open>undefined\<close> in the middle ends the walk the same way: neither an array nor a record.\<close>

fun read_parts :: "json \<Rightarrow> string list \<Rightarrow> json option" where
  "read_parts current [] = Some current"
| "read_parts current (key # keys) =
     (case read_part current key of None \<Rightarrow> None | Some next \<Rightarrow> read_parts next keys)"

definition readJsonPointer :: "json \<Rightarrow> string \<Rightarrow> json option" where
  "readJsonPointer v pointer =
     (if pointer = [] then Some v
      else if \<not> validPointer pointer then None
      else read_parts v (pointer_parts pointer))"

datatype workflow_error =
  WORKFLOW_MAPPING_TARGET_INVALID | WORKFLOW_MAPPING_SOURCE_INVALID | WORKFLOW_TEMPLATE_VARIABLE_MISSING
| WORKFLOW_GATE_PATH_MISSING | WORKFLOW_GATE_TYPE_MISMATCH | WORKFLOW_GATE_RESULT_INVALID

text \<open>Walking down creates an object wherever something else stands.\<close>

fun write_parts :: "(string \<times> json) list \<Rightarrow> string list \<Rightarrow> json \<Rightarrow> (string \<times> json) list" where
  "write_parts current [] v = current"
| "write_parts current [key] v = AList.update key v current"
| "write_parts current (key # next # keys) v =
     AList.update key
       (JObj (write_parts (case field current key of Some (JObj kvs) \<Rightarrow> kvs | _ \<Rightarrow> []) (next # keys) v)) current"

definition writeJsonPointer ::
    "(string \<times> json) list \<Rightarrow> string \<Rightarrow> json \<Rightarrow> workflow_error + (string \<times> json) list" where
  "writeJsonPointer target pointer v =
     (if \<not> writableTargetPointer pointer then Inl WORKFLOW_MAPPING_TARGET_INVALID
      else if pointer = [] then
        (case v of
           JObj kvs \<Rightarrow> Inr (foldl (\<lambda>t (key, entry). AList.update key entry t) [] kvs)
         | _ \<Rightarrow> Inl WORKFLOW_MAPPING_TARGET_INVALID)
      else Inr (write_parts target (pointer_parts pointer) v))"

lemma pointer_parts_nonempty [simp]: "pointer_parts pointer \<noteq> []"
  by (simp add: pointer_parts_def)

lemma field_update [simp]: "field (AList.update k v kvs) = (field kvs)(k \<mapsto> v)"
  by (auto simp: field_def update_conv)

lemma read_write_parts: "ps \<noteq> [] \<Longrightarrow> read_parts (JObj (write_parts kvs ps v)) ps = Some v"
  by (induction kvs ps v rule: write_parts.induct) (auto simp: read_part_def)

text \<open>A record read before at a part the write does not pass keeps its value.\<close>

lemma read_write_other:
  "ps \<noteq> [] \<Longrightarrow> hd qs \<noteq> hd ps \<Longrightarrow> qs \<noteq> [] \<Longrightarrow>
     read_parts (JObj (write_parts kvs ps v)) qs = read_parts (JObj kvs) qs"
  by (cases "(kvs, ps, v)" rule: write_parts.cases; cases qs) (auto simp: read_part_def)

lemma update_fresh: "k \<notin> fst ` set kvs \<Longrightarrow> AList.update k v kvs = kvs @ [(k, v)]"
  by (induction kvs) auto

lemma foldl_update_distinct:
  "distinct (map fst (acc @ kvs)) \<Longrightarrow> foldl (\<lambda>t (key, entry). AList.update key entry t) acc kvs = acc @ kvs"
proof (induction kvs arbitrary: acc)
  case (Cons kv kvs)
  obtain k v where kv: "kv = (k, v)" by (cases kv)
  have "AList.update k v acc = acc @ [(k, v)]"
    using Cons.prems by (intro update_fresh) (auto simp: kv)
  then show ?case using Cons kv by simp
qed simp

section \<open>Schema validation\<close>

datatype json_error_code =
  Type_error | Enum_error | Const_error | MinLength_error | MaxLength_error | Minimum_error | Maximum_error
| Required_error | AdditionalProperties_error

type_synonym json_validation_error = "string \<times> json_error_code"
type_synonym json_schema = "(string \<times> json) list"

fun type_matches_name :: "json \<Rightarrow> json \<Rightarrow> bool" where
  "type_matches_name v (JStr expected) =
     (expected = ''null'' \<and> v = JNull \<or>
      expected = ''string'' \<and> (case v of JStr s \<Rightarrow> True | _ \<Rightarrow> False) \<or>
      expected = ''number'' \<and> (case v of JNum n \<Rightarrow> True | _ \<Rightarrow> False) \<or>
      expected = ''integer'' \<and> (case v of JNum n \<Rightarrow> \<bar>n\<bar> \<le> MAX_SAFE_INTEGER | _ \<Rightarrow> False) \<or>
      expected = ''boolean'' \<and> (case v of JBool b \<Rightarrow> True | _ \<Rightarrow> False) \<or>
      expected = ''array'' \<and> (case v of JArr vs \<Rightarrow> True | _ \<Rightarrow> False) \<or>
      expected = ''object'' \<and> is_record v)"
| "type_matches_name v _ = False"

definition type_matches :: "json_schema \<Rightarrow> json \<Rightarrow> bool" where
  "type_matches schema v =
     (case field schema ''type'' of
        None \<Rightarrow> True
      | Some (JArr names) \<Rightarrow> list_ex (type_matches_name v) names
      | Some name \<Rightarrow> type_matches_name v name)"

text \<open>\<open>typeof schema[key] === 'number' && test(schema[key])\<close>.\<close>

definition number_bound :: "json_schema \<Rightarrow> string \<Rightarrow> (int \<Rightarrow> bool) \<Rightarrow> bool" where
  "number_bound schema key test = (case field schema key of Some (JNum n) \<Rightarrow> test n | _ \<Rightarrow> False)"

definition enum_fails :: "(string \<Rightarrow> string \<Rightarrow> int) \<Rightarrow> json_schema \<Rightarrow> json \<Rightarrow> bool" where
  "enum_fails cmp schema v =
     (case field schema ''enum'' of
        Some (JArr entries) \<Rightarrow> \<not> list_ex (\<lambda>e. canonical cmp e = canonical cmp v) entries
      | _ \<Rightarrow> False)"

definition const_fails :: "(string \<Rightarrow> string \<Rightarrow> int) \<Rightarrow> json_schema \<Rightarrow> json \<Rightarrow> bool" where
  "const_fails cmp schema v =
     (case field schema ''const'' of Some c \<Rightarrow> canonical cmp c \<noteq> canonical cmp v | None \<Rightarrow> False)"

definition value_errors ::
    "(string \<Rightarrow> string \<Rightarrow> int) \<Rightarrow> json_schema \<Rightarrow> json \<Rightarrow> string \<Rightarrow> json_validation_error list" where
  "value_errors cmp schema v path =
     map (Pair path)
       ((if enum_fails cmp schema v then [Enum_error] else []) @
        (if const_fails cmp schema v then [Const_error] else []) @
        (case v of
           JStr s \<Rightarrow>
             (if number_bound schema ''minLength'' (\<lambda>n. int (length s) < n) then [MinLength_error] else []) @
             (if number_bound schema ''maxLength'' (\<lambda>n. n < int (length s)) then [MaxLength_error] else [])
         | JNum m \<Rightarrow>
             (if number_bound schema ''minimum'' (\<lambda>n. m < n) then [Minimum_error] else []) @
             (if number_bound schema ''maximum'' (\<lambda>n. n < m) then [Maximum_error] else [])
         | _ \<Rightarrow> []))"

definition required_names :: "json_schema \<Rightarrow> string list" where
  "required_names schema =
     (case field schema ''required'' of
        Some (JArr entries) \<Rightarrow>
          rev (remdups (rev (concat (map (\<lambda>e. case e of JStr s \<Rightarrow> [s] | _ \<Rightarrow> []) entries))))
      | _ \<Rightarrow> [])"

datatype property_schema = Checked json_schema | Refused | Unchecked

definition property_schema :: "json_schema \<Rightarrow> string \<Rightarrow> property_schema" where
  "property_schema schema name =
     (let properties = (case field schema ''properties'' of Some (JObj ps) \<Rightarrow> ps | _ \<Rightarrow> []) in
      case field properties name of
        Some (JObj child) \<Rightarrow> Checked child
      | _ \<Rightarrow>
          (case field schema ''additionalProperties'' of
             Some (JObj child) \<Rightarrow> Checked child
           | Some (JBool False) \<Rightarrow> Refused
           | _ \<Rightarrow> Unchecked))"

lemma in_set_enumerate: "(i, x) \<in> set (enumerate n xs) \<Longrightarrow> x \<in> set xs"
  by (simp add: enumerate_eq_zip set_zip) (metis nth_mem)

function validateJsonSchema ::
    "(string \<Rightarrow> string \<Rightarrow> int) \<Rightarrow> json \<Rightarrow> json_schema \<Rightarrow> string \<Rightarrow> json_validation_error list" where
  "validateJsonSchema cmp v schema path =
     (if \<not> type_matches schema v then [(path, Type_error)]
      else take 100
        (value_errors cmp schema v path @
         (case v of
            JArr vs \<Rightarrow>
              (case field schema ''items'' of
                 Some (JObj items) \<Rightarrow>
                   concat (map (\<lambda>(i, entry). validateJsonSchema cmp entry items (path @ ''/'' @ show_nat i))
                     (enumerate 0 vs))
               | _ \<Rightarrow> [])
          | JObj kvs \<Rightarrow>
              concat (map (\<lambda>name. if field kvs name = None then [(path @ ''/'' @ name, Required_error)] else [])
                (required_names schema)) @
              concat (map (\<lambda>(name, entry).
                case property_schema schema name of
                  Checked child \<Rightarrow> validateJsonSchema cmp entry child (path @ ''/'' @ name)
                | Refused \<Rightarrow> [(path @ ''/'' @ name, AdditionalProperties_error)]
                | Unchecked \<Rightarrow> []) kvs)
          | _ \<Rightarrow> [])))"
  by pat_completeness auto
termination
  by (relation "measure (\<lambda>(cmp, v, schema, path). size v)")
    (auto dest!: json_size_entry json_size_element in_set_enumerate)

declare validateJsonSchema.simps [simp del]

text \<open>
  What a schema demands, said for each keyword by itself and not through the tests of the validator: the
  names of types a value has, the schema \<open>properties\<close> gives a name, and the demands of every keyword on the
  value, its elements and its entries, without paths, order or the cap of one hundred.
\<close>

fun types_of :: "json \<Rightarrow> string set" where
  "types_of JNull = {''null''}"
| "types_of (JBool b) = {''boolean''}"
| "types_of (JNum n) = (if \<bar>n\<bar> \<le> 9007199254740991 then {''number'', ''integer''} else {''number''})"
| "types_of (JStr s) = {''string''}"
| "types_of (JArr vs) = {''array''}"
| "types_of (JObj kvs) = {''object''}"

definition type_allowed :: "json_schema \<Rightarrow> json \<Rightarrow> bool" where
  "type_allowed schema v =
     (case field schema ''type'' of
        None \<Rightarrow> True
      | Some (JStr name) \<Rightarrow> name \<in> types_of v
      | Some (JArr names) \<Rightarrow> JStr ` types_of v \<inter> set names \<noteq> {}
      | Some _ \<Rightarrow> False)"

definition declared :: "json_schema \<Rightarrow> string \<Rightarrow> json_schema option" where
  "declared schema name =
     (case field schema ''properties'' of
        Some (JObj ps) \<Rightarrow> (case field ps name of Some (JObj child) \<Rightarrow> Some child | _ \<Rightarrow> None)
      | _ \<Rightarrow> None)"

inductive conforms :: "(string \<Rightarrow> string \<Rightarrow> int) \<Rightarrow> json \<Rightarrow> json_schema \<Rightarrow> bool" for cmp where
  "type_allowed schema v \<Longrightarrow>
   (\<And>entries. field schema ''enum'' = Some (JArr entries) \<Longrightarrow> canonical cmp v \<in> canonical cmp ` set entries) \<Longrightarrow>
   (\<And>c. field schema ''const'' = Some c \<Longrightarrow> canonical cmp v = canonical cmp c) \<Longrightarrow>
   (\<And>s n. v = JStr s \<Longrightarrow> field schema ''minLength'' = Some (JNum n) \<Longrightarrow> n \<le> int (length s)) \<Longrightarrow>
   (\<And>s n. v = JStr s \<Longrightarrow> field schema ''maxLength'' = Some (JNum n) \<Longrightarrow> int (length s) \<le> n) \<Longrightarrow>
   (\<And>m n. v = JNum m \<Longrightarrow> field schema ''minimum'' = Some (JNum n) \<Longrightarrow> n \<le> m) \<Longrightarrow>
   (\<And>m n. v = JNum m \<Longrightarrow> field schema ''maximum'' = Some (JNum n) \<Longrightarrow> m \<le> n) \<Longrightarrow>
   (\<And>vs items entry. v = JArr vs \<Longrightarrow> field schema ''items'' = Some (JObj items) \<Longrightarrow> entry \<in> set vs \<Longrightarrow>
      conforms cmp entry items) \<Longrightarrow>
   (\<And>kvs names name. v = JObj kvs \<Longrightarrow> field schema ''required'' = Some (JArr names) \<Longrightarrow> JStr name \<in> set names \<Longrightarrow>
      name \<in> fst ` set kvs) \<Longrightarrow>
   (\<And>kvs name entry child. v = JObj kvs \<Longrightarrow> (name, entry) \<in> set kvs \<Longrightarrow> declared schema name = Some child \<Longrightarrow>
      conforms cmp entry child) \<Longrightarrow>
   (\<And>kvs name entry. v = JObj kvs \<Longrightarrow> (name, entry) \<in> set kvs \<Longrightarrow> declared schema name = None \<Longrightarrow>
      field schema ''additionalProperties'' \<noteq> Some (JBool False)) \<Longrightarrow>
   (\<And>kvs name entry child. v = JObj kvs \<Longrightarrow> (name, entry) \<in> set kvs \<Longrightarrow> declared schema name = None \<Longrightarrow>
      field schema ''additionalProperties'' = Some (JObj child) \<Longrightarrow> conforms cmp entry child) \<Longrightarrow>
   conforms cmp v schema"

inductive_cases conformsE: "conforms cmp v schema"

text \<open>Each test of the validator against its keyword.\<close>

lemma type_name_iff: "type_matches_name v name \<longleftrightarrow> name \<in> JStr ` types_of v"
  by (cases name; cases v) (auto simp: MAX_SAFE_INTEGER_def)

lemma type_matches_allowed: "type_matches schema v \<longleftrightarrow> type_allowed schema v"
  by (auto simp: type_matches_def type_allowed_def type_name_iff list_ex_iff split: option.splits json.splits)

lemma enum_fails_iff:
  "\<not> enum_fails cmp schema v \<longleftrightarrow>
     (\<forall>entries. field schema ''enum'' = Some (JArr entries) \<longrightarrow> canonical cmp v \<in> canonical cmp ` set entries)"
proof -
  have "(canonical cmp v \<in> canonical cmp ` set es) = (\<exists>e \<in> set es. canonical cmp e = canonical cmp v)" for es
    by (auto simp: image_iff eq_commute)
  then show ?thesis unfolding enum_fails_def list_ex_iff by (auto split: option.splits json.splits)
qed

lemma const_fails_iff: "\<not> const_fails cmp schema v \<longleftrightarrow> (\<forall>c. field schema ''const'' = Some c \<longrightarrow> canonical cmp v = canonical cmp c)"
  by (auto simp: const_fails_def split: option.splits)

lemma number_bound_iff: "\<not> number_bound schema key test \<longleftrightarrow> (\<forall>n. field schema key = Some (JNum n) \<longrightarrow> \<not> test n)"
  by (auto simp: number_bound_def split: option.splits json.splits)

lemma required_names_iff:
  "name \<in> set (required_names schema) \<longleftrightarrow> (\<exists>names. field schema ''required'' = Some (JArr names) \<and> JStr name \<in> set names)"
  by (force simp: required_names_def split: option.splits json.splits)

lemma property_schema_iff:
  "property_schema schema name = Checked child \<longleftrightarrow>
     declared schema name = Some child \<or> declared schema name = None \<and> field schema ''additionalProperties'' = Some (JObj child)"
  "property_schema schema name = Refused \<longleftrightarrow>
     declared schema name = None \<and> field schema ''additionalProperties'' = Some (JBool False)"
  by (auto simp: property_schema_def declared_def Let_def field_def split: option.splits json.splits bool.splits)

lemma field_key: "field kvs name \<noteq> None \<longleftrightarrow> name \<in> fst ` set kvs"
  by (simp add: field_def map_of_eq_None_iff)

lemma conforms_tests:
  assumes "type_matches schema v" "\<not> enum_fails cmp schema v" "\<not> const_fails cmp schema v"
    and "\<And>s. v = JStr s \<Longrightarrow> \<not> number_bound schema ''minLength'' (\<lambda>n. int (length s) < n) \<and>
      \<not> number_bound schema ''maxLength'' (\<lambda>n. n < int (length s))"
    and "\<And>m. v = JNum m \<Longrightarrow> \<not> number_bound schema ''minimum'' (\<lambda>n. m < n) \<and>
      \<not> number_bound schema ''maximum'' (\<lambda>n. n < m)"
    and items: "\<And>vs items entry. v = JArr vs \<Longrightarrow> field schema ''items'' = Some (JObj items) \<Longrightarrow> entry \<in> set vs \<Longrightarrow>
      conforms cmp entry items"
    and "\<And>kvs name. v = JObj kvs \<Longrightarrow> name \<in> set (required_names schema) \<Longrightarrow> field kvs name \<noteq> None"
    and "\<And>kvs name entry. v = JObj kvs \<Longrightarrow> (name, entry) \<in> set kvs \<Longrightarrow> property_schema schema name \<noteq> Refused"
    and "\<And>kvs name entry child. v = JObj kvs \<Longrightarrow> (name, entry) \<in> set kvs \<Longrightarrow>
      property_schema schema name = Checked child \<Longrightarrow> conforms cmp entry child"
  shows "conforms cmp v schema"
proof (rule conforms.intros)
  show "type_allowed schema v" using assms(1) by (simp add: type_matches_allowed)
  show "canonical cmp v \<in> canonical cmp ` set entries" if "field schema ''enum'' = Some (JArr entries)" for entries
    using assms(2) that unfolding enum_fails_iff by blast
  show "canonical cmp v = canonical cmp c" if "field schema ''const'' = Some c" for c
    using assms(3) that unfolding const_fails_iff by blast
  show "n \<le> int (length s)" if "v = JStr s" "field schema ''minLength'' = Some (JNum n)" for s n
    using assms(4) [OF that(1)] that(2) unfolding number_bound_iff by (simp add: not_less)
  show "int (length s) \<le> n" if "v = JStr s" "field schema ''maxLength'' = Some (JNum n)" for s n
    using assms(4) [OF that(1)] that(2) unfolding number_bound_iff by (simp add: not_less)
  show "n \<le> m" if "v = JNum m" "field schema ''minimum'' = Some (JNum n)" for m n
    using assms(5) [OF that(1)] that(2) unfolding number_bound_iff by (simp add: not_less)
  show "m \<le> n" if "v = JNum m" "field schema ''maximum'' = Some (JNum n)" for m n
    using assms(5) [OF that(1)] that(2) unfolding number_bound_iff by (simp add: not_less)
  show "conforms cmp entry items" if "v = JArr vs" "field schema ''items'' = Some (JObj items)" "entry \<in> set vs" for vs items entry
    using items that .
  show "name \<in> fst ` set kvs" if "v = JObj kvs" "field schema ''required'' = Some (JArr names)" "JStr name \<in> set names"
    for kvs names name
    using assms(7) [OF that(1), of name] that(2,3) unfolding required_names_iff field_key by blast
  show "conforms cmp entry child" if "v = JObj kvs" "(name, entry) \<in> set kvs" "declared schema name = Some child"
    for kvs name entry child
    using assms(9) [OF that(1,2), of child] that(3) unfolding property_schema_iff by blast
  show "field schema ''additionalProperties'' \<noteq> Some (JBool False)"
    if "v = JObj kvs" "(name, entry) \<in> set kvs" "declared schema name = None" for kvs name entry
    using assms(8) [OF that(1,2)] that(3) unfolding property_schema_iff by blast
  show "conforms cmp entry child" if "v = JObj kvs" "(name, entry) \<in> set kvs" "declared schema name = None"
    "field schema ''additionalProperties'' = Some (JObj child)" for kvs name entry child
    using assms(9) [OF that(1,2), of child] that(3,4) unfolding property_schema_iff by blast
qed

lemma capped_Nil: "take 100 xs = [] \<longleftrightarrow> xs = []"
  by simp

lemma capped_length: "length (if b then [x] else take 100 xs) \<le> 100"
  by simp

lemma flat_Nil: "concat (map f xs) = [] \<longleftrightarrow> (\<forall>x \<in> set xs. f x = [])"
  by (induction xs) auto

lemma validate_record:
  "validateJsonSchema cmp (JObj kvs) schema path =
     (if \<not> type_matches schema (JObj kvs) then [(path, Type_error)]
      else take 100
        (value_errors cmp schema (JObj kvs) path @
         concat (map (\<lambda>name. if field kvs name = None then [(path @ ''/'' @ name, Required_error)] else [])
           (required_names schema)) @
         concat (map (\<lambda>(name, entry).
           case property_schema schema name of
             Checked child \<Rightarrow> validateJsonSchema cmp entry child (path @ ''/'' @ name)
           | Refused \<Rightarrow> [(path @ ''/'' @ name, AdditionalProperties_error)]
           | Unchecked \<Rightarrow> []) kvs)))"
  by (subst validateJsonSchema.simps) (simp only: json.case)

lemma validate_Nil:
  "validateJsonSchema cmp v schema path = [] \<longleftrightarrow>
     type_matches schema v \<and> value_errors cmp schema v path = [] \<and>
     (\<forall>vs items i entry. v = JArr vs \<longrightarrow> field schema ''items'' = Some (JObj items) \<longrightarrow>
        (i, entry) \<in> set (enumerate 0 vs) \<longrightarrow>
        validateJsonSchema cmp entry items (path @ ''/'' @ show_nat i) = []) \<and>
     (\<forall>kvs. v = JObj kvs \<longrightarrow> (\<forall>name \<in> set (required_names schema). field kvs name \<noteq> None) \<and>
        (\<forall>name entry. (name, entry) \<in> set kvs \<longrightarrow> property_schema schema name \<noteq> Refused \<and>
          (\<forall>child. property_schema schema name = Checked child \<longrightarrow>
             validateJsonSchema cmp entry child (path @ ''/'' @ name) = [])))"
proof (cases v)
  case (JArr vs)
  show ?thesis unfolding JArr
    by (subst validateJsonSchema.simps) (auto simp: flat_Nil split: option.splits json.splits)
next
  case (JObj kvs)
  have required: "(\<forall>name \<in> set (required_names schema).
      (if field kvs name = None then [(path @ ''/'' @ name, Required_error)] else []) = []) \<longleftrightarrow>
      (\<forall>name \<in> set (required_names schema). field kvs name \<noteq> None)"
    by simp
  have entries: "(\<forall>x \<in> set kvs. (case x of (name, entry) \<Rightarrow>
        case property_schema schema name of
          Checked child \<Rightarrow> validateJsonSchema cmp entry child (path @ ''/'' @ name)
        | Refused \<Rightarrow> [(path @ ''/'' @ name, AdditionalProperties_error)]
        | Unchecked \<Rightarrow> []) = []) \<longleftrightarrow>
      (\<forall>name entry. (name, entry) \<in> set kvs \<longrightarrow> property_schema schema name \<noteq> Refused \<and>
          (\<forall>child. property_schema schema name = Checked child \<longrightarrow>
             validateJsonSchema cmp entry child (path @ ''/'' @ name) = []))"
    by (fastforce split: property_schema.splits)
  show ?thesis unfolding JObj
    unfolding validate_record
    by (cases "type_matches schema (JObj kvs)")
      (simp_all only: if_True if_False not_True_eq_False not_False_eq_True capped_Nil append_is_Nil_conv
        flat_Nil required entries json.inject json.distinct simp_thms list.distinct)
qed (subst validateJsonSchema.simps, simp)+

lemma value_errors_Nil:
  "value_errors cmp schema v path = [] \<longleftrightarrow>
     \<not> enum_fails cmp schema v \<and> \<not> const_fails cmp schema v \<and>
     (\<forall>s. v = JStr s \<longrightarrow> \<not> number_bound schema ''minLength'' (\<lambda>n. int (length s) < n) \<and>
        \<not> number_bound schema ''maxLength'' (\<lambda>n. n < int (length s))) \<and>
     (\<forall>m. v = JNum m \<longrightarrow> \<not> number_bound schema ''minimum'' (\<lambda>n. m < n) \<and>
        \<not> number_bound schema ''maximum'' (\<lambda>n. n < m))"
  by (cases v) (auto simp: value_errors_def)

lemma validate_conforms: "validateJsonSchema cmp v schema path = [] \<Longrightarrow> conforms cmp v schema"
proof (induction v arbitrary: schema path rule: measure_induct_rule [where f = size])
  case (less v)
  note nil = iffD1 [OF validate_Nil less.prems] and plain = iffD1 [OF value_errors_Nil]
  show ?case
  proof (rule conforms_tests)
    fix vs items entry
    assume v: "v = JArr vs" "field schema ''items'' = Some (JObj items)" "entry \<in> set vs"
    then obtain i where "(i, entry) \<in> set (enumerate 0 vs)"
      by (auto simp: enumerate_eq_zip set_zip in_set_conv_nth)
    then show "conforms cmp entry items"
      using nil v less.IH [of entry items] json_size_element [OF v(3)] by blast
  next
    fix kvs name entry child
    assume v: "v = JObj kvs" "(name, entry) \<in> set kvs" "property_schema schema name = Checked child"
    then show "conforms cmp entry child"
      using nil less.IH [of entry child] json_size_entry [OF v(2)] by blast
  qed (use nil plain in blast)+
qed

lemma conforms_validate: "conforms cmp v schema \<Longrightarrow> validateJsonSchema cmp v schema path = []"
proof (induction arbitrary: path rule: conforms.induct)
  case (1 schema v)
  have items: "validateJsonSchema cmp entry items p = []"
    if "v = JArr vs" "field schema ''items'' = Some (JObj items)" "(i, entry) \<in> set (enumerate 0 vs)"
    for vs items i entry p
    using "1.IH"(1) [OF that(1,2) in_set_enumerate [OF that(3)]] .
  show ?case
  proof (rule iffD2 [OF validate_Nil], intro conjI allI impI ballI)
    show "type_matches schema v" using "1.hyps"(1) by (simp add: type_matches_allowed)
    show "value_errors cmp schema v path = []"
      by (rule iffD2 [OF value_errors_Nil])
        (simp add: enum_fails_iff const_fails_iff number_bound_iff not_less "1.hyps"(2-7))
  next
    fix vs items i entry
    assume "v = JArr vs" "field schema ''items'' = Some (JObj items)" "(i, entry) \<in> set (enumerate 0 vs)"
    then show "validateJsonSchema cmp entry items (path @ ''/'' @ show_nat i) = []" by (rule items)
  next
    fix kvs name
    assume "v = JObj kvs" "name \<in> set (required_names schema)"
    then show "field kvs name \<noteq> None" unfolding field_key required_names_iff using "1.hyps"(9) by blast
  next
    fix kvs name entry
    assume "v = JObj kvs" "(name, entry) \<in> set kvs"
    then show "property_schema schema name \<noteq> Refused" unfolding property_schema_iff using "1.hyps"(11) by blast
  next
    fix kvs name entry child
    assume "v = JObj kvs" "(name, entry) \<in> set kvs" "property_schema schema name = Checked child"
    then show "validateJsonSchema cmp entry child (path @ ''/'' @ name) = []"
      unfolding property_schema_iff using "1.IH"(2,3) by blast
  qed
qed

text \<open>C13: validation reports nothing exactly for the values that conform to the schema, and \<open>conforms\<close> is said
  keyword by keyword: a value has a type the schema names, is among the enumerated ones and equal to the constant (as
  canonical texts), keeps the bounds on length and value, has every required entry, and each element and entry
  conforms to the schema that speaks of it, an entry nothing speaks of being refused where additional ones are. The cap
  on the report never hides that a value fails, and no report is longer than one hundred entries.\<close>

theorem validation_exact:
  "(validateJsonSchema cmp v schema path = []) = conforms cmp v schema \<and>
     length (validateJsonSchema cmp v schema path) \<le> 100"
proof
  show "(validateJsonSchema cmp v schema path = []) = conforms cmp v schema"
    using validate_conforms conforms_validate by blast
  show "length (validateJsonSchema cmp v schema path) \<le> 100"
    by (subst validateJsonSchema.simps) (rule capped_length)
qed

section \<open>Mappings\<close>

record mapping_source =
  sourceNodeId :: string
  sourcePort :: string
  source_pointer :: string

datatype binding =
  Literal json
| Path mapping_source
| Template string "(string \<times> mapping_source) list"

record target_mapping =
  targetPointer :: string
  mapping_binding :: binding

text \<open>\<open>/{{\s*([a-z][a-z0-9.-]*)\s*}}/\<close> at the start of a text: the name and what follows.\<close>

definition name_char :: "char \<Rightarrow> bool" where
  "name_char c = (is_lower c \<or> is_digit c \<or> c = CHR ''.'' \<or> c = CHR ''-'')"

definition placeholder :: "string \<Rightarrow> (string \<times> string) option" where
  "placeholder s =
     (let t = dropWhile is_space (drop 2 s);
          name = takeWhile name_char t;
          rest = dropWhile is_space (dropWhile name_char t)
      in if starts_with ''{{'' s \<and> name \<noteq> [] \<and> is_lower (hd name) \<and> starts_with ''}}'' rest
         then Some (name, drop 2 rest) else None)"

lemma placeholder_shorter: "placeholder s = Some (name, rest) \<Longrightarrow> length rest < length s"
proof -
  assume "placeholder s = Some (name, rest)"
  then have s: "starts_with ''{{'' s"
    and r: "rest = drop 2 (dropWhile is_space (dropWhile name_char (dropWhile is_space (drop 2 s))))"
    by (auto simp: placeholder_def Let_def split: if_splits)
  from s have "s \<noteq> []" by (auto simp: starts_with_def)
  moreover have "length rest \<le> length (drop 2 s)"
    unfolding r length_drop
    by (intro order.trans [OF diff_le_self] order.trans [OF length_dropWhile_le]) (simp add: length_dropWhile_le)
  ultimately show "length rest < length s" by (cases s) auto
qed

function fill_template :: "(string \<rightharpoonup> string) \<Rightarrow> string \<Rightarrow> workflow_error + string" where
  "fill_template vals [] = Inr []"
| "fill_template vals (c # cs) =
     (case placeholder (c # cs) of
        Some (name, rest) \<Rightarrow>
          (case vals name of
             None \<Rightarrow> Inl WORKFLOW_TEMPLATE_VARIABLE_MISSING
           | Some text \<Rightarrow> and_then (fill_template vals rest) (\<lambda>t. Inr (text @ t)))
      | None \<Rightarrow> and_then (fill_template vals cs) (\<lambda>t. Inr (c # t)))"
  by pat_completeness auto
termination
  by (relation "measure (\<lambda>(vals, s). length s)") (auto dest: placeholder_shorter)

definition source_key :: "mapping_source \<Rightarrow> string" where
  "source_key source = sourceNodeId source @ '':'' @ sourcePort source"

text \<open>\<open>String(resolved)\<close> of what a template may insert.\<close>

fun template_text :: "json \<Rightarrow> string option" where
  "template_text JNull = Some []"
| "template_text (JStr s) = Some s"
| "template_text (JNum n) = Some (show_int n)"
| "template_text (JBool b) = Some (if b then ''true'' else ''false'')"
| "template_text _ = None"

definition templateValue ::
    "(string \<rightharpoonup> json) \<Rightarrow> (string \<rightharpoonup> string) \<Rightarrow> string \<times> mapping_source \<Rightarrow> workflow_error + (string \<rightharpoonup> string)" where
  "templateValue outputs vals = (\<lambda>(name, source).
     case outputs (source_key source) of
       None \<Rightarrow> Inl WORKFLOW_MAPPING_SOURCE_INVALID
     | Some out \<Rightarrow>
         (case Option.bind (readJsonPointer out (source_pointer source)) template_text of
            None \<Rightarrow> Inl WORKFLOW_MAPPING_SOURCE_INVALID
          | Some text \<Rightarrow> Inr (vals(name \<mapsto> text))))"

fun bindingValue :: "(string \<rightharpoonup> json) \<Rightarrow> binding \<Rightarrow> workflow_error + json" where
  "bindingValue outputs (Literal v) = Inr v"
| "bindingValue outputs (Path source) =
     (case outputs (source_key source) of
        None \<Rightarrow> Inl WORKFLOW_MAPPING_SOURCE_INVALID
      | Some out \<Rightarrow>
          (case readJsonPointer out (source_pointer source) of
             None \<Rightarrow> Inl WORKFLOW_MAPPING_SOURCE_INVALID
           | Some v \<Rightarrow> Inr v))"
| "bindingValue outputs (Template template variables) =
     and_then (for_each (templateValue outputs) Map.empty variables) (\<lambda>vals.
       and_then (fill_template vals template) (\<lambda>t. Inr (JStr t)))"

definition applyMapping ::
    "(string \<rightharpoonup> json) \<Rightarrow> (string \<times> json) list \<Rightarrow> target_mapping \<Rightarrow> workflow_error + (string \<times> json) list" where
  "applyMapping outputs target mapping =
     and_then (bindingValue outputs (mapping_binding mapping)) (\<lambda>v.
       writeJsonPointer target (targetPointer mapping) v)"

definition applyWorkflowMappings ::
    "json \<Rightarrow> target_mapping list \<Rightarrow> (string \<rightharpoonup> json) \<Rightarrow> workflow_error + json" where
  "applyWorkflowMappings input mappings outputs =
     (if mappings = [] then Inr input
      else and_then (for_each (applyMapping outputs) [] mappings) (\<lambda>target. Inr (JObj target)))"

lemma readJsonPointer_parts:
  "validPointer p \<Longrightarrow> p \<noteq> [] \<Longrightarrow> readJsonPointer v p = read_parts v (pointer_parts p)"
  by (simp add: readJsonPointer_def)

lemma write_then_read:
  "writeJsonPointer target p v = Inr target' \<Longrightarrow> p \<noteq> [] \<Longrightarrow> readJsonPointer (JObj target') p = Some v"
  by (auto simp: writeJsonPointer_def writableTargetPointer_def readJsonPointer_parts read_write_parts
      split: if_splits)

lemma write_other:
  assumes "writeJsonPointer target p v = Inr target'" and "p \<noteq> []" and "q \<noteq> []"
    and "hd (pointer_parts q) \<noteq> hd (pointer_parts p)"
  shows "readJsonPointer (JObj target') q = readJsonPointer (JObj target) q"
  using assms
  by (auto simp: writeJsonPointer_def readJsonPointer_def read_write_other split: if_splits)

text \<open>C16: a node input built by mappings that write below pairwise different top-level names carries,
  at every target pointer, exactly the value its binding resolved to from the recorded outputs;
  no later mapping overwrites it.\<close>

theorem mapped_values_read_back:
  assumes "applyWorkflowMappings input ms outputs = Inr v" and "m \<in> set ms"
    and "\<forall>m \<in> set ms. targetPointer m \<noteq> []"
    and "distinct (map (\<lambda>m. hd (pointer_parts (targetPointer m))) ms)"
  shows "\<exists>w. bindingValue outputs (mapping_binding m) = Inr w \<and> readJsonPointer v (targetPointer m) = Some w"
proof -
  from assms(1,2) obtain target where f: "for_each (applyMapping outputs) [] ms = Inr target" and v: "v = JObj target"
    by (cases "ms = []") (auto simp: applyWorkflowMappings_def and_then_Inr)
  have "\<forall>m \<in> set ms. \<exists>w. bindingValue outputs (mapping_binding m) = Inr w \<and>
      readJsonPointer (JObj target) (targetPointer m) = Some w"
    using f assms(3,4)
  proof (induction ms arbitrary: target rule: rev_induct)
    case (snoc m' ms)
    from snoc.prems(1) obtain t where t: "for_each (applyMapping outputs) [] ms = Inr t"
      and "applyMapping outputs t m' = Inr target"
      by (auto simp: for_each_append and_then_Inr)
    then obtain w where w: "bindingValue outputs (mapping_binding m') = Inr w"
      "writeJsonPointer t (targetPointer m') w = Inr target"
      by (auto simp: applyMapping_def and_then_Inr)
    have "readJsonPointer (JObj target) (targetPointer m'') = readJsonPointer (JObj t) (targetPointer m'')"
      if "m'' \<in> set ms" for m''
      using that snoc.prems(2,3) by (intro write_other [OF w(2)]) (auto simp: rev_image_eqI)
    then show ?case
      using snoc.IH [OF t] snoc.prems(2,3) w write_then_read [OF w(2)] by auto
  qed simp
  then show ?thesis using assms(2) v by blast
qed

definition example_mappings :: "target_mapping list" where
  "example_mappings =
     [\<lparr>targetPointer = ''/customer/name'', mapping_binding =
         Path \<lparr>sourceNodeId = ''in'', sourcePort = ''data'', source_pointer = ''/name''\<rparr>\<rparr>,
      \<lparr>targetPointer = ''/greeting'', mapping_binding =
         Template ''Hi {{ who }}!'' [(''who'', \<lparr>sourceNodeId = ''in'', sourcePort = ''data'', source_pointer = ''/name''\<rparr>)]\<rparr>]"

theorem mapped_values_read_back_witness:
  "\<exists>v. applyWorkflowMappings JNull example_mappings [''in:data'' \<mapsto> JObj [(''name'', JStr ''Ada'')]] = Inr v \<and>
     readJsonPointer v ''/greeting'' = Some (JStr ''Hi Ada!'')"
proof -
  let ?o = "[''in:data'' \<mapsto> JObj [(''name'', JStr ''Ada'')]]"
  let ?v = "JObj [(''customer'', JObj [(''name'', JStr ''Ada'')]), (''greeting'', JStr ''Hi Ada!'')]"
  have a: "applyWorkflowMappings JNull example_mappings ?o = Inr ?v" by code_simp
  have b: "bindingValue ?o (mapping_binding (example_mappings ! 1)) = Inr (JStr ''Hi Ada!'')" by code_simp
  have d: "distinct (map (\<lambda>m. hd (pointer_parts (targetPointer m))) example_mappings)"
    "targetPointer (example_mappings ! 1) = ''/greeting''" by code_simp+
  have "readJsonPointer ?v ''/greeting'' = Some (JStr ''Hi Ada!'')"
    using mapped_values_read_back [OF a, of "example_mappings ! 1"] b d
    by (auto simp: example_mappings_def)
  with a show ?thesis by blast
qed

end
