(* ===== verification/Workflow_Gates.thy ===== *)
theory Workflow_Gates
  imports Workflow_Values
begin

text \<open>
  Gates of \<open>modules/workflows/src/domain/graph.ts\<close>: the expression type of \<open>types.ts\<close>, the check a gate
  passes before it is published (\<open>validateGateExpression\<close>), its evaluation on a node input with every
  throw (\<open>evaluateGate\<close>), and the evidence kept of a payload (\<open>evidenceOf\<close>). Expressions are typed,
  so the branches for an unknown operator or a field of another type are out of the model.
\<close>

datatype gate_op = Eq | Gt | Gte | Lt | Lte | In

datatype gate_expression =
  Gate_literal json
| Gate_path string
| Gate_exists gate_expression
| Gate_not gate_expression
| Gate_and "gate_expression list"
| Gate_or "gate_expression list"
| Gate_binary gate_op gate_expression gate_expression

section \<open>Validation\<close>

text \<open>\<open>isJson\<close> on a JSON value is its depth check; the limit of 24 levels counts from the depth given.\<close>

fun isJson :: "json \<Rightarrow> nat \<Rightarrow> bool" where
  "isJson (JArr vs) depth = (depth \<le> 24 \<and> list_all (\<lambda>entry. isJson entry (depth + 1)) vs)"
| "isJson (JObj kvs) depth = (depth \<le> 24 \<and> list_all (\<lambda>(key, entry). isJson entry (depth + 1)) kvs)"
| "isJson _ depth = (depth \<le> 24)"

datatype gate_issue = Gate_too_deep | Gate_literal_not_json | Gate_path_invalid | Gate_no_operand

fun validateGateExpression :: "gate_expression \<Rightarrow> nat \<Rightarrow> gate_issue list" where
  "validateGateExpression e depth =
     (if 16 < depth then [Gate_too_deep]
      else case e of
        Gate_literal v \<Rightarrow> if isJson v 0 then [] else [Gate_literal_not_json]
      | Gate_path pointer \<Rightarrow> if validPointer pointer then [] else [Gate_path_invalid]
      | Gate_exists a \<Rightarrow> validateGateExpression a (depth + 1)
      | Gate_not a \<Rightarrow> validateGateExpression a (depth + 1)
      | Gate_and es \<Rightarrow>
          if es \<noteq> [] then concat (map (\<lambda>a. validateGateExpression a (depth + 1)) es) else [Gate_no_operand]
      | Gate_or es \<Rightarrow>
          if es \<noteq> [] then concat (map (\<lambda>a. validateGateExpression a (depth + 1)) es) else [Gate_no_operand]
      | Gate_binary op l r \<Rightarrow> validateGateExpression l (depth + 1) @ validateGateExpression r (depth + 1))"

declare validateGateExpression.simps [simp del]

section \<open>Evaluation\<close>

definition required :: "json option \<Rightarrow> workflow_error + json" where
  "required v = (case v of None \<Rightarrow> Inl WORKFLOW_GATE_PATH_MISSING | Some j \<Rightarrow> Inr j)"

definition boolean :: "json option \<Rightarrow> workflow_error + bool" where
  "boolean v =
     and_then (required v) (\<lambda>j. case j of JBool b \<Rightarrow> Inr b | _ \<Rightarrow> Inl WORKFLOW_GATE_TYPE_MISMATCH)"

fun compare_numbers :: "gate_op \<Rightarrow> int \<Rightarrow> int \<Rightarrow> bool" where
  "compare_numbers Gt l r = (r < l)"
| "compare_numbers Gte l r = (r \<le> l)"
| "compare_numbers Lt l r = (l < r)"
| "compare_numbers op l r = (l \<le> r)"

fun compare_operands :: "gate_op \<Rightarrow> json option \<Rightarrow> json option \<Rightarrow> workflow_error + json option" where
  "compare_operands op (Some (JNum m)) (Some (JNum n)) = Inr (Some (JBool (compare_numbers op m n)))"
| "compare_operands op _ _ = Inl WORKFLOW_GATE_TYPE_MISMATCH"

fun member_operands :: "(string \<Rightarrow> string \<Rightarrow> int) \<Rightarrow> json \<Rightarrow> json \<Rightarrow> workflow_error + json option" where
  "member_operands cmp l (JArr vs) = Inr (Some (JBool (list_ex (\<lambda>v. canonical cmp v = canonical cmp l) vs)))"
| "member_operands cmp l _ = Inl WORKFLOW_GATE_TYPE_MISMATCH"

text \<open>\<open>every\<close> and \<open>some\<close> stop at the first operand that decides, so a later throw is not seen.\<close>

fun evaluate :: "(string \<Rightarrow> string \<Rightarrow> int) \<Rightarrow> json \<Rightarrow> gate_expression \<Rightarrow> workflow_error + json option"
and evaluate_every :: "(string \<Rightarrow> string \<Rightarrow> int) \<Rightarrow> json \<Rightarrow> gate_expression list \<Rightarrow> workflow_error + bool"
and evaluate_some :: "(string \<Rightarrow> string \<Rightarrow> int) \<Rightarrow> json \<Rightarrow> gate_expression list \<Rightarrow> workflow_error + bool" where
  "evaluate cmp input (Gate_literal v) = Inr (Some v)"
| "evaluate cmp input (Gate_path pointer) = Inr (readJsonPointer input pointer)"
| "evaluate cmp input (Gate_exists a) =
     and_then (evaluate cmp input a) (\<lambda>v. Inr (Some (JBool (v \<noteq> None))))"
| "evaluate cmp input (Gate_not a) =
     and_then (and_then (evaluate cmp input a) boolean) (\<lambda>b. Inr (Some (JBool (\<not> b))))"
| "evaluate cmp input (Gate_and es) =
     and_then (evaluate_every cmp input es) (\<lambda>b. Inr (Some (JBool b)))"
| "evaluate cmp input (Gate_or es) =
     and_then (evaluate_some cmp input es) (\<lambda>b. Inr (Some (JBool b)))"
| "evaluate cmp input (Gate_binary op left right) =
     (case op of
        Eq \<Rightarrow>
          and_then (and_then (evaluate cmp input left) required) (\<lambda>l.
            and_then (and_then (evaluate cmp input right) required) (\<lambda>r.
              Inr (Some (JBool (canonical cmp l = canonical cmp r)))))
      | In \<Rightarrow>
          and_then (and_then (evaluate cmp input right) required) (\<lambda>r.
            and_then (and_then (evaluate cmp input left) required) (\<lambda>l.
              member_operands cmp l r))
      | _ \<Rightarrow>
          and_then (evaluate cmp input left) (\<lambda>l.
            and_then (evaluate cmp input right) (\<lambda>r. compare_operands op l r)))"
| "evaluate_every cmp input [] = Inr True"
| "evaluate_every cmp input (e # es) =
     and_then (and_then (evaluate cmp input e) boolean) (\<lambda>b.
       if b then evaluate_every cmp input es else Inr False)"
| "evaluate_some cmp input [] = Inr False"
| "evaluate_some cmp input (e # es) =
     and_then (and_then (evaluate cmp input e) boolean) (\<lambda>b.
       if b then Inr True else evaluate_some cmp input es)"

definition evaluateGate ::
    "(string \<Rightarrow> string \<Rightarrow> int) \<Rightarrow> gate_expression \<Rightarrow> json \<Rightarrow> workflow_error + bool" where
  "evaluateGate cmp expression input =
     and_then (evaluate cmp input expression) (\<lambda>result.
       case result of Some (JBool b) \<Rightarrow> Inr b | _ \<Rightarrow> Inl WORKFLOW_GATE_RESULT_INVALID)"

section \<open>The meaning of a gate\<close>

text \<open>
  The value of an expression in plain logic: no order of evaluation, no throw. An operand of the wrong
  kind counts as false.
\<close>

fun operands_hold :: "(string \<Rightarrow> string \<Rightarrow> int) \<Rightarrow> gate_op \<Rightarrow> json option \<Rightarrow> json option \<Rightarrow> bool" where
  "operands_hold cmp Eq (Some a) (Some b) = (canonical cmp a = canonical cmp b)"
| "operands_hold cmp In (Some a) (Some (JArr vs)) = list_ex (\<lambda>v. canonical cmp v = canonical cmp a) vs"
| "operands_hold cmp op (Some (JNum m)) (Some (JNum n)) = (op \<noteq> In \<and> compare_numbers op m n)"
| "operands_hold cmp op _ _ = False"

fun gate_value :: "(string \<Rightarrow> string \<Rightarrow> int) \<Rightarrow> json \<Rightarrow> gate_expression \<Rightarrow> json option" where
  "gate_value cmp input (Gate_literal v) = Some v"
| "gate_value cmp input (Gate_path pointer) = readJsonPointer input pointer"
| "gate_value cmp input (Gate_exists a) = Some (JBool (gate_value cmp input a \<noteq> None))"
| "gate_value cmp input (Gate_not a) = Some (JBool (gate_value cmp input a \<noteq> Some (JBool True)))"
| "gate_value cmp input (Gate_and es) =
     Some (JBool (list_all (\<lambda>a. gate_value cmp input a = Some (JBool True)) es))"
| "gate_value cmp input (Gate_or es) =
     Some (JBool (list_ex (\<lambda>a. gate_value cmp input a = Some (JBool True)) es))"
| "gate_value cmp input (Gate_binary op l r) =
     Some (JBool (operands_hold cmp op (gate_value cmp input l) (gate_value cmp input r)))"

lemma boolean_Inr [simp]: "boolean v = Inr b \<longleftrightarrow> v = Some (JBool b)"
  by (auto simp: boolean_def required_def result_simps split: option.splits json.splits)

lemma required_Inr [simp]: "required v = Inr j \<longleftrightarrow> v = Some j"
  by (auto simp: required_def split: option.splits)

lemma compare_operands_Inr:
  "op \<notin> {Eq, In} \<Longrightarrow> compare_operands op l r = Inr v \<Longrightarrow> v = Some (JBool (operands_hold cmp op l r))"
  by (cases "(op, l, r)" rule: compare_operands.cases) (cases op; auto)+

lemma member_operands_Inr:
  "member_operands cmp l r = Inr v \<Longrightarrow> v = Some (JBool (operands_hold cmp In (Some l) (Some r)))"
  by (cases r) auto

lemma operands_no_result_error:
  "compare_operands op l r \<noteq> Inl WORKFLOW_GATE_RESULT_INVALID"
  "member_operands cmp a b \<noteq> Inl WORKFLOW_GATE_RESULT_INVALID"
  by (cases "(op, l, r)" rule: compare_operands.cases; simp) (cases b; simp)

lemma evaluate_sound:
  "evaluate cmp input e = Inr v \<Longrightarrow> gate_value cmp input e = v"
  "evaluate_every cmp input es = Inr b \<Longrightarrow> b = list_all (\<lambda>a. gate_value cmp input a = Some (JBool True)) es"
  "evaluate_some cmp input es = Inr b \<Longrightarrow> b = list_ex (\<lambda>a. gate_value cmp input a = Some (JBool True)) es"
proof (induction cmp input e and cmp input es and cmp input es arbitrary: v and b and b
    rule: evaluate_evaluate_every_evaluate_some.induct)
  case (7 cmp input op left right)
  then show ?case
    by (cases op) (auto simp: result_simps dest!: compare_operands_Inr [where cmp = cmp, rotated] member_operands_Inr)
next
  case (9 cmp input e es)
  then show ?case by (auto simp: result_simps split: if_splits)
next
  case (11 cmp input e es)
  from "11.prems" obtain c where c: "evaluate cmp input e = Inr (Some (JBool c))"
    "if c then b else evaluate_some cmp input es = Inr b"
    by (auto simp: result_simps split: if_splits)
  show ?case
  proof (cases c)
    case True
    then show ?thesis using c "11.IH"(1) [OF c(1)] by simp
  next
    case False
    then have "b = list_ex (\<lambda>a. gate_value cmp input a = Some (JBool True)) es"
      using c "11.IH"(2) [of c] by simp
    then show ?thesis using "11.IH"(1) [OF c(1)] False by simp
  qed
qed (auto simp: result_simps)

lemma boolean_error: "boolean v = Inl err \<Longrightarrow> err \<noteq> WORKFLOW_GATE_RESULT_INVALID"
  by (auto simp: boolean_def required_def result_simps split: option.splits json.splits)

lemma required_error: "required v = Inl err \<Longrightarrow> err \<noteq> WORKFLOW_GATE_RESULT_INVALID"
  by (auto simp: required_def split: option.splits)

lemma evaluate_no_result_error:
  "evaluate cmp input e = Inl err \<Longrightarrow> err \<noteq> WORKFLOW_GATE_RESULT_INVALID"
  "evaluate_every cmp input es = Inl err \<Longrightarrow> err \<noteq> WORKFLOW_GATE_RESULT_INVALID"
  "evaluate_some cmp input es = Inl err \<Longrightarrow> err \<noteq> WORKFLOW_GATE_RESULT_INVALID"
proof (induction cmp input e and cmp input es and cmp input es arbitrary: err and err and err
    rule: evaluate_evaluate_every_evaluate_some.induct)
  case (7 cmp input op left right)
  then show ?case
    by (cases op) (auto simp: result_simps operands_no_result_error dest: required_error)
next
  case (11 cmp input e es)
  from "11.prems" consider "evaluate cmp input e = Inl err"
    | v where "boolean v = Inl err"
    | "and_then (evaluate cmp input e) boolean = Inr False" "evaluate_some cmp input es = Inl err"
    by (auto simp: result_simps split: if_splits)
  then show ?case using "11.IH"(1) "11.IH"(2) [of False] by cases (auto dest: boolean_error)
qed (auto simp: result_simps dest: boolean_error split: if_splits)

lemma result_boolean:
  "(case v of Some (JBool b) \<Rightarrow> Inr b | _ \<Rightarrow> Inl err) = Inr b \<Longrightarrow> v = Some (JBool b)"
  by (simp split: option.splits json.splits)

text \<open>Which expressions yield a boolean whatever the input holds.\<close>

fun boolean_valued :: "gate_expression \<Rightarrow> bool" where
  "boolean_valued (Gate_literal v) = (case v of JBool b \<Rightarrow> True | _ \<Rightarrow> False)"
| "boolean_valued (Gate_path pointer) = False"
| "boolean_valued _ = True"

lemma evaluate_boolean_valued:
  "boolean_valued e \<Longrightarrow> evaluate cmp input e = Inr v \<Longrightarrow> \<exists>b. v = Some (JBool b)"
proof (cases e)
  case (Gate_binary op l r)
  assume "evaluate cmp input e = Inr v"
  then show ?thesis using Gate_binary
    by (cases op) (auto simp: result_simps dest!: compare_operands_Inr [where cmp = cmp, rotated] member_operands_Inr)
qed (auto simp: result_simps split: json.splits)

text \<open>C15: a gate that answers, answers the truth of its expression in plain logic, so neither the order
  of evaluation nor the operands a decided \<open>and\<close> or \<open>or\<close> skips can change a verdict; and a gate whose
  root is a test or a connective never fails for want of a boolean result.\<close>

theorem gate_verdict_sound:
  "(case evaluateGate cmp e input of
      Inr b \<Rightarrow> gate_value cmp input e = Some (JBool b)
    | Inl err \<Rightarrow> \<not> (boolean_valued e \<and> err = WORKFLOW_GATE_RESULT_INVALID))"
proof (cases "evaluateGate cmp e input")
  case (Inl err)
  have "err \<noteq> WORKFLOW_GATE_RESULT_INVALID" if b: "boolean_valued e"
  proof (cases "evaluate cmp input e")
    case (Inl err')
    have "evaluate cmp input e = Inl err' \<Longrightarrow> err' \<noteq> WORKFLOW_GATE_RESULT_INVALID"
      by (rule evaluate_no_result_error)
    then show ?thesis using Inl \<open>evaluateGate cmp e input = Inl err\<close> by (simp add: evaluateGate_def)
  next
    case (Inr v)
    then obtain c where "v = Some (JBool c)" using evaluate_boolean_valued [OF b] by blast
    then show ?thesis using Inr \<open>evaluateGate cmp e input = Inl err\<close> by (simp add: evaluateGate_def)
  qed
  then show ?thesis using Inl by auto
next
  case (Inr b)
  then have "evaluate cmp input e = Inr (Some (JBool b))"
    by (auto simp: evaluateGate_def and_then_Inr dest!: result_boolean)
  then show ?thesis using Inr evaluate_sound(1) by fastforce
qed

section \<open>Payload evidence\<close>

datatype payload_evidence =
  Absent string string
| Truncated string string nat
| Available string string nat json

definition MAX_ENVELOPE_BYTES :: nat where
  "MAX_ENVELOPE_BYTES = 64 * 1024"

definition jsonHash :: "(string \<Rightarrow> string) \<Rightarrow> (string \<Rightarrow> string \<Rightarrow> int) \<Rightarrow> json \<Rightarrow> string" where
  "jsonHash sha256 cmp v = ''sha256:'' @ sha256 (canonical cmp v)"

definition evidenceOf ::
    "(string \<Rightarrow> string) \<Rightarrow> (string \<Rightarrow> string \<Rightarrow> int) \<Rightarrow> json option \<Rightarrow> string \<Rightarrow> payload_evidence" where
  "evidenceOf sha256 cmp v schemaId =
     (case v of
        None \<Rightarrow> Absent schemaId (jsonHash sha256 cmp JNull)
      | Some j \<Rightarrow>
          (let originalByteSize = jsonByteSize cmp j; hash = jsonHash sha256 cmp j in
           if MAX_ENVELOPE_BYTES < originalByteSize then Truncated schemaId hash originalByteSize
           else Available schemaId hash originalByteSize j))"

end
