(* ===== verification/Workflow_Types.thy ===== *)
theory Workflow_Types
  imports Workflow_Gates
begin

text \<open>
  The published graph of \<open>modules/workflows/src/domain/types.ts\<close>: ports, nodes, edges and their limits.
  A node keeps, beside its typed fields, the JSON object it was parsed from (\<open>node_raw\<close>), which is what
  the checksum, the size limit and the scan for executable configuration read; an edge is its fields. A
  confidence threshold is counted in thousandths.
\<close>

section \<open>Limits\<close>

definition maxNodes :: nat where "maxNodes = 100"
definition maxEdges :: nat where "maxEdges = 200"
definition maxSchemas :: nat where "maxSchemas = 32"
definition maxGraphBytes :: nat where "maxGraphBytes = 64 * 1024"
definition maxAttemptsPerNode :: int where "maxAttemptsPerNode = 5"
definition maxApprovalDecisions :: int where "maxApprovalDecisions = 16"
definition maxApprovalExpiryDays :: int where "maxApprovalExpiryDays = 90"
definition approvalTitleLimit :: nat where "approvalTitleLimit = 200"

text \<open>\<open>TYPED_DECISION_LIMITS\<close>.\<close>

definition maxQuestions :: nat where "maxQuestions = 8"
definition maxAnswers :: nat where "maxAnswers = 32"
definition maxInstructionLength :: nat where "maxInstructionLength = 2000"
definition maxAnswerLength :: nat where "maxAnswerLength = 200"

section \<open>Nodes and edges\<close>

record port =
  port_name :: string
  port_schemaId :: string

datatype backoff_kind = Fixed | Exponential
datatype exhausted_action = Emit_failure | Fail_run

record failure_policy =
  maxAttempts :: int
  retryOn :: "string list"
  backoff_kind :: backoff_kind
  initialMs :: int
  maximumMs :: int
  onExhausted :: exhausted_action

record agent_reference =
  agentId :: string
  agent_revision :: int

record action_reference =
  actionId :: string
  contractVersion :: int
  descriptorDigest :: "string option"

datatype question_kind = Choice | Noul | Score

record decision_question =
  question_key :: string
  question_kind :: question_kind
  instruction :: string
  question_answers :: "string list option"

record decision_config =
  decidingQuestion :: string
  questions :: "decision_question list"
  passAnswer :: string
  confidenceThreshold :: int
  statePaths :: "string list"

text \<open>
  The ten kinds of nodes. A graph that names another one gets \<open>WORKFLOW_NODE_TYPE_INVALID\<close>, whatever else it
  holds; such graphs are not values of this type.
\<close>

datatype node_kind =
  Input_node
| Agent_node agent_reference "string list" string
| Agent_decision_node agent_reference "string list" string string
| Typed_decision_node decision_config
| Gate_node gate_expression
| Validator_node string
| Action_node action_reference
| Human_approval_node "(string \<times> json) list option" "string option"
| Merge_node
| Output_node

record workflow_node =
  node_id :: string
  node_label :: string
  inputPorts :: "port list"
  outputPorts :: "port list"
  node_mappings :: "target_mapping list"
  failurePolicy :: "failure_policy option"
  node_kind :: node_kind
  node_raw :: "(string \<times> json) list"

record workflow_edge =
  edge_id :: string
  edge_source :: string
  edge_sourcePort :: string
  edge_target :: string
  edge_targetPort :: string
  edge_label :: "string option"

record workflow_graph =
  schemaVersion :: int
  nodes :: "workflow_node list"
  edges :: "workflow_edge list"
  schemas :: "(string \<times> json_schema) list"
  layout :: json

definition is_input :: "workflow_node \<Rightarrow> bool" where
  "is_input node = (node_kind node = Input_node)"

definition is_output :: "workflow_node \<Rightarrow> bool" where
  "is_output node = (node_kind node = Output_node)"

text \<open>
  \<open>graph.schemas[id]\<close> of own properties; an identifier that names a property every object inherits, such as
  \<open>constructor\<close>, would find that one in the source.
\<close>

definition graph_schema :: "workflow_graph \<Rightarrow> string \<Rightarrow> json_schema option" where
  "graph_schema graph schemaId = map_of (schemas graph) schemaId"

definition find_port :: "port list \<Rightarrow> string \<Rightarrow> port option" where
  "find_port ports name = find (\<lambda>p. port_name p = name) ports"

text \<open>\<open>binding.kind === 'path' ? [binding] : binding.variables\<close>.\<close>

fun binding_sources :: "binding \<Rightarrow> mapping_source list" where
  "binding_sources (Literal v) = []"
| "binding_sources (Path source) = [source]"
| "binding_sources (Template template variables) = map snd variables"

end
