(* ===== verification/Workflow_Security.thy ===== *)
theory Workflow_Security
  imports Workflow_Types
begin

text \<open>
  \<open>modules/workflows/src/domain/graph-security.ts\<close>: which schema places a workflow may copy from or
  bind to, and the projection that takes secret-marked examples and unsafe bindings out of a graph
  before it is shown. Objects visited by the reference search are told apart by their place in the
  schema, as the source tells them apart by identity.
\<close>

section \<open>Markers\<close>

definition has_key :: "json_schema \<Rightarrow> string \<Rightarrow> bool" where
  "has_key schema key = (field schema key \<noteq> None)"

definition markedSecret :: "json_schema \<Rightarrow> bool" where
  "markedSecret schema =
     (field schema ''writeOnly'' = Some (JBool True) \<or> field schema ''x-flowdular-secret'' = Some (JBool True))"

definition SCHEMA_VALUE_KEYS :: "string list" where
  "SCHEMA_VALUE_KEYS = [''default'', ''const'', ''enum'', ''example'', ''examples'']"

definition SCHEMA_MAP_KEYS :: "string list" where
  "SCHEMA_MAP_KEYS = [''properties'', ''patternProperties'', ''$defs'', ''definitions'', ''dependentSchemas'']"

text \<open>\<open>value.replaceAll('~', '~0').replaceAll('/', '~1')\<close>.\<close>

definition pointerPart :: "string \<Rightarrow> string" where
  "pointerPart s =
     concat (map (\<lambda>c. if c = CHR ''/'' then ''~1'' else [c])
       (concat (map (\<lambda>c. if c = CHR ''~'' then ''~0'' else [c]) s)))"

definition path_of :: "string list \<Rightarrow> string" where
  "path_of keys = concat (map (\<lambda>k. ''/'' @ pointerPart k) keys)"

datatype diagnostic =
  ACTION_SECRET_BINDING string string
| ACTION_SCHEMA_UNAVAILABLE string string
| MAPPING_TARGET_UNSAFE string string
| SECRET_SCHEMA_VALUE string string

section \<open>References\<close>

text \<open>The place a reference names and what stands there.\<close>

fun follow_reference :: "json \<Rightarrow> string list \<Rightarrow> string list \<Rightarrow> (string list \<times> json) option" where
  "follow_reference current loc [] = Some (loc, current)"
| "follow_reference current loc (encoded # rest) =
     (if \<not> is_record current \<or> \<not> tildes_escaped encoded then None
      else let key = unescape encoded in
        (case field (entries_of current) key of
           None \<Rightarrow> None
         | Some next \<Rightarrow> follow_reference next (loc @ [key]) rest))"

definition localSchemaReference :: "json \<Rightarrow> json \<Rightarrow> (string list \<times> json) option" where
  "localSchemaReference root reference =
     (case reference of
        JStr r \<Rightarrow>
          if starts_with ''#/'' r then follow_reference root [] (split_on CHR ''/'' (drop 2 r)) else None
      | _ \<Rightarrow> None)"

text \<open>\<open>Inl ()\<close> is the answer true, which stops every search; otherwise the places seen so far.\<close>

function referencedSchemaIsRestricted ::
    "json \<Rightarrow> nat \<Rightarrow> string list \<Rightarrow> json \<Rightarrow> string list set \<Rightarrow> unit + string list set" where
  "referencedSchemaIsRestricted root depth loc v seen =
     (if 24 < depth then Inl ()
      else case v of
        JArr vs \<Rightarrow>
          for_each (\<lambda>seen (i, child). referencedSchemaIsRestricted root (depth + 1) (loc @ [show_nat i]) child seen)
            seen (enumerate 0 vs)
      | JObj kvs \<Rightarrow>
          if loc \<in> seen then Inl ()
          else if markedSecret kvs \<or> has_key kvs ''$dynamicRef'' \<or> has_key kvs ''$recursiveRef'' then Inl ()
          else and_then
            (case field kvs ''$ref'' of
               None \<Rightarrow> Inr (insert loc seen)
             | Some reference \<Rightarrow>
                 (case localSchemaReference root reference of
                    Some (place, JObj target) \<Rightarrow>
                      referencedSchemaIsRestricted root (depth + 1) place (JObj target) (insert loc seen)
                  | _ \<Rightarrow> Inl ()))
            (\<lambda>seen. for_each (\<lambda>seen (key, child).
               if key \<in> set SCHEMA_VALUE_KEYS \<or> key = ''$ref'' then Inr seen
               else referencedSchemaIsRestricted root (depth + 1) (loc @ [key]) child seen) seen kvs)
      | _ \<Rightarrow> Inr seen)"
  by pat_completeness auto
termination
  by (relation "measure (\<lambda>(root, depth, loc, v, seen). 25 - depth)") auto

declare referencedSchemaIsRestricted.simps [simp del]

section \<open>Projection\<close>

record projection =
  projected :: json
  containsSecret :: bool
  diagnostics :: "diagnostic list"

definition own_secret :: "json \<Rightarrow> string list \<Rightarrow> json_schema \<Rightarrow> bool" where
  "own_secret root loc kvs =
     (markedSecret kvs \<or>
      list_ex (has_key kvs) [''$ref'', ''$dynamicRef'', ''$recursiveRef''] \<and>
      \<not> is_ok (referencedSchemaIsRestricted root 0 loc (JObj kvs) {}))"

text \<open>One entry of a schema object after its children are projected.\<close>

record projected_entry =
  entry_key :: string
  entry_value :: json
  entry_secret :: bool
  entry_diagnostics :: "diagnostic list"

definition keep_entry :: "string \<Rightarrow> json \<Rightarrow> projected_entry" where
  "keep_entry key child = \<lparr>entry_key = key, entry_value = child, entry_secret = False, entry_diagnostics = []\<rparr>"

definition collect_entry :: "string \<Rightarrow> json \<Rightarrow> projection list \<Rightarrow> projected_entry" where
  "collect_entry key v results =
     \<lparr>entry_key = key, entry_value = v, entry_secret = list_ex containsSecret results,
      entry_diagnostics = concat (map diagnostics results)\<rparr>"

definition assemble :: "string \<Rightarrow> string list \<Rightarrow> bool \<Rightarrow> projected_entry list \<Rightarrow> projection" where
  "assemble schemaId loc own results =
     (let secret = own \<or> list_ex entry_secret results;
          drops = (\<lambda>e. entry_key e \<in> set SCHEMA_VALUE_KEYS \<and> secret)
      in \<lparr>projected = JObj (map (\<lambda>e. (entry_key e, entry_value e)) (filter (\<lambda>e. \<not> drops e) results)),
          containsSecret = secret,
          diagnostics = concat (map entry_diagnostics results) @
            map (\<lambda>e. SECRET_SCHEMA_VALUE schemaId (path_of (loc @ [entry_key e]))) (filter drops results)\<rparr>)"

function projectSchemaValue ::
    "string \<Rightarrow> json \<Rightarrow> nat \<Rightarrow> string list \<Rightarrow> json \<Rightarrow> projection" where
  "projectSchemaValue schemaId root depth loc v =
     (if 24 < depth
      then \<lparr>projected = JObj [], containsSecret = True, diagnostics = [SECRET_SCHEMA_VALUE schemaId (path_of loc)]\<rparr>
      else case v of
        JObj kvs \<Rightarrow>
          assemble schemaId loc (own_secret root loc kvs)
            (map (\<lambda>(key, child).
              if key \<in> set SCHEMA_VALUE_KEYS then keep_entry key child
              else case child of
                JObj nested \<Rightarrow>
                  if key \<in> set SCHEMA_MAP_KEYS then
                    (let results = map (\<lambda>(name, sub).
                           (name, projectSchemaValue schemaId root (depth + 1) (loc @ [key, name]) sub)) nested
                     in collect_entry key (JObj (map (\<lambda>(name, r). (name, projected r)) results)) (map snd results))
                  else
                    (let result = projectSchemaValue schemaId root (depth + 1) (loc @ [key]) child
                     in collect_entry key (projected result) [result])
              | JArr vs \<Rightarrow>
                  (let results = map (\<lambda>(i, sub).
                         projectSchemaValue schemaId root (depth + 1) (loc @ [key, show_nat i]) sub) (enumerate 0 vs)
                   in collect_entry key (JArr (map projected results)) results)
              | _ \<Rightarrow> keep_entry key child) kvs)
      | _ \<Rightarrow> \<lparr>projected = v, containsSecret = False, diagnostics = []\<rparr>)"
  by pat_completeness auto
termination
  by (relation "measure (\<lambda>(schemaId, root, depth, loc, v). 25 - depth)") auto

declare projectSchemaValue.simps [simp del]

definition projectGraphSchemas :: "workflow_graph \<Rightarrow> (string \<times> json_schema) list \<times> diagnostic list" where
  "projectGraphSchemas graph =
     (let results = map (\<lambda>(schemaId, schema).
            (schemaId, projectSchemaValue schemaId (JObj schema) 0 [] (JObj schema))) (schemas graph)
      in (map (\<lambda>(schemaId, r). (schemaId, entries_of (projected r))) results,
          concat (map (\<lambda>(schemaId, r). diagnostics r) results)))"

definition secretSchemaValueDiagnostics :: "workflow_graph \<Rightarrow> diagnostic list" where
  "secretSchemaValueDiagnostics graph = snd (projectGraphSchemas graph)"

section \<open>Schema places\<close>

fun descendantSecret :: "json \<Rightarrow> nat \<Rightarrow> bool" where
  "descendantSecret (JArr vs) depth = (24 < depth \<or> list_ex (\<lambda>child. descendantSecret child (depth + 1)) vs)"
| "descendantSecret (JObj kvs) depth =
     (24 < depth \<or> markedSecret kvs \<or> list_ex (\<lambda>(key, child). descendantSecret child (depth + 1)) kvs)"
| "descendantSecret v depth = (24 < depth)"

definition OPAQUE_KEYS :: "string list" where
  "OPAQUE_KEYS =
     [''$ref'', ''$dynamicRef'', ''$recursiveRef'', ''oneOf'', ''anyOf'', ''allOf'', ''not'', ''if'', ''then'',
      ''else'', ''patternProperties'', ''unevaluatedProperties'', ''unevaluatedItems'', ''contains'',
      ''prefixItems'', ''additionalItems'', ''propertyNames'', ''contentSchema'', ''$defs'', ''definitions'',
      ''dependentSchemas'']"

definition AMBIGUOUS_KEYS :: "string list" where
  "AMBIGUOUS_KEYS =
     [''$ref'', ''$dynamicRef'', ''$recursiveRef'', ''oneOf'', ''anyOf'', ''allOf'', ''not'', ''if'', ''then'',
      ''else'', ''patternProperties'', ''unevaluatedProperties'', ''unevaluatedItems'', ''contains'',
      ''prefixItems'', ''additionalItems'', ''propertyNames'', ''contentSchema'', ''dependentSchemas'']"

definition schema_properties :: "json_schema \<Rightarrow> (string \<times> json) list" where
  "schema_properties schema = (case field schema ''properties'' of Some (JObj ps) \<Rightarrow> ps | _ \<Rightarrow> [])"

function opaqueSchema :: "json \<Rightarrow> nat \<Rightarrow> bool" where
  "opaqueSchema v depth =
     (if 24 < depth then True
      else case v of
        JObj kvs \<Rightarrow>
          list_ex (has_key kvs) OPAQUE_KEYS \<or> field kvs ''additionalProperties'' = Some (JBool True) \<or>
          list_ex (\<lambda>(key, child). opaqueSchema child (depth + 1)) (schema_properties kvs) \<or>
          list_ex (\<lambda>key. case field kvs key of
              None \<Rightarrow> False
            | Some (JBool b) \<Rightarrow> False
            | Some child \<Rightarrow> opaqueSchema child (depth + 1)) [''items'', ''additionalProperties'']
      | _ \<Rightarrow> True)"
  by pat_completeness auto
termination
  by (relation "measure (\<lambda>(v, depth). 25 - depth)") auto

declare opaqueSchema.simps [simp del]

definition protectedSource :: "json_schema \<Rightarrow> bool" where
  "protectedSource schema = (markedSecret schema \<or> has_key schema ''x-flowdular-read-permission'')"

definition ambiguousSourceSchema :: "json_schema \<Rightarrow> bool" where
  "ambiguousSourceSchema schema = list_ex (has_key schema) AMBIGUOUS_KEYS"

definition pointerSchemaChild :: "json_schema \<Rightarrow> string \<Rightarrow> json option" where
  "pointerSchemaChild schema key =
     (if field schema ''type'' = Some (JStr ''object'') then
        (case field (schema_properties schema) key of
           Some child \<Rightarrow> Some child
         | None \<Rightarrow> field schema ''additionalProperties'')
      else if field schema ''type'' = Some (JStr ''array'') \<and> is_numeral key then field schema ''items''
      else None)"

definition SCALAR_TYPES :: "string list" where
  "SCALAR_TYPES = [''string'', ''number'', ''integer'', ''boolean'', ''null'']"

text \<open>An absent child is no record, so it is not safe.\<close>

definition schema_kind :: "json_schema \<Rightarrow> string option" where
  "schema_kind schema = (case field schema ''type'' of Some (JStr kind) \<Rightarrow> Some kind | _ \<Rightarrow> None)"

function sourceSubtreeSafe :: "json option \<Rightarrow> nat \<Rightarrow> bool" where
  "sourceSubtreeSafe v depth =
     (if 24 < depth then False
      else case v of
        Some (JObj kvs) \<Rightarrow>
          if protectedSource kvs \<or> ambiguousSourceSchema kvs then False
          else if schema_kind kvs \<in> Some ` set SCALAR_TYPES then True
          else if schema_kind kvs = Some ''array'' then sourceSubtreeSafe (field kvs ''items'') (depth + 1)
          else if schema_kind kvs \<noteq> Some ''object'' then False
          else if list_ex (\<lambda>(key, child). \<not> sourceSubtreeSafe (Some child) (depth + 1)) (schema_properties kvs)
          then False
          else if field kvs ''additionalProperties'' = Some (JBool False) then True
          else sourceSubtreeSafe (field kvs ''additionalProperties'') (depth + 1)
      | _ \<Rightarrow> False)"
  by pat_completeness auto
termination
  by (relation "measure (\<lambda>(v, depth). 25 - depth)") auto

declare sourceSubtreeSafe.simps [simp del]

fun source_walk :: "json_schema \<Rightarrow> string list \<Rightarrow> bool" where
  "source_walk current [] = sourceSubtreeSafe (Some (JObj current)) 0"
| "source_walk current (key # keys) =
     (if protectedSource current \<or> ambiguousSourceSchema current then False
      else case pointerSchemaChild current key of
        Some (JObj child) \<Rightarrow> source_walk child keys
      | _ \<Rightarrow> False)"

definition schema_segments :: "string \<Rightarrow> string list" where
  "schema_segments pointer = (if pointer = [] then [] else pointer_parts pointer)"

definition sourcePointerIsSafe :: "json_schema option \<Rightarrow> string \<Rightarrow> bool" where
  "sourcePointerIsSafe schema pointer =
     (case schema of
        None \<Rightarrow> False
      | Some s \<Rightarrow> validPointer pointer \<and> source_walk s (schema_segments pointer))"

fun schema_walk :: "json_schema \<Rightarrow> string list \<Rightarrow> json_schema option" where
  "schema_walk current [] = Some current"
| "schema_walk current (key # keys) =
     (case pointerSchemaChild current key of
        Some (JObj child) \<Rightarrow> schema_walk child keys
      | _ \<Rightarrow> None)"

definition sourcePointerIsObject :: "json_schema option \<Rightarrow> string \<Rightarrow> bool" where
  "sourcePointerIsObject schema pointer =
     (sourcePointerIsSafe schema pointer \<and>
      (case Option.bind schema (\<lambda>s. schema_walk s (schema_segments pointer)) of
         None \<Rightarrow> False
       | Some current \<Rightarrow> field current ''type'' = Some (JStr ''object'')))"

datatype safety = Safe | Secret | Unknown

fun binding_walk :: "json_schema \<Rightarrow> string list \<Rightarrow> safety" where
  "binding_walk current [] =
     (if descendantSecret (JObj current) 0 then Secret
      else if opaqueSchema (JObj current) 0 then Unknown else Safe)"
| "binding_walk current (key # keys) =
     (if markedSecret current then Secret
      else if ambiguousSourceSchema current then
        (if descendantSecret (JObj current) 0 then Secret else Unknown)
      else case pointerSchemaChild current key of
        Some (JObj child) \<Rightarrow> binding_walk child keys
      | _ \<Rightarrow> if descendantSecret (JObj current) 0 then Secret else Unknown)"

definition bindingSafety :: "json_schema option \<Rightarrow> string \<Rightarrow> safety" where
  "bindingSafety schema pointer =
     (case schema of
        None \<Rightarrow> Unknown
      | Some s \<Rightarrow>
          if pointer \<noteq> [] \<and> \<not> starts_with ''/'' pointer then Unknown
          else binding_walk s (schema_segments pointer))"

section \<open>Findings of a graph\<close>

type_synonym action_schemas = "string \<Rightarrow> int \<Rightarrow> json_schema option"

definition input_schema :: "workflow_graph \<Rightarrow> workflow_node \<Rightarrow> json_schema option" where
  "input_schema graph node =
     Option.bind (find_port (inputPorts node) ''input'') (\<lambda>p.
       if port_schemaId p = [] then None else graph_schema graph (port_schemaId p))"

definition binding_diagnostic ::
    "workflow_graph \<Rightarrow> workflow_node \<Rightarrow> action_reference \<Rightarrow> target_mapping \<Rightarrow> action_schemas \<Rightarrow> diagnostic option" where
  "binding_diagnostic graph node action mapping lookup =
     (let descriptorSafety = bindingSafety (lookup (actionId action) (contractVersion action)) (targetPointer mapping);
          snapshotSafety = bindingSafety (input_schema graph node) (targetPointer mapping)
      in if snapshotSafety = Secret \<or> descriptorSafety = Secret
         then Some (ACTION_SECRET_BINDING (node_id node) (targetPointer mapping))
         else if snapshotSafety = Safe \<and> descriptorSafety = Safe then None
         else Some (ACTION_SCHEMA_UNAVAILABLE (node_id node) (targetPointer mapping)))"

definition actionBindingDiagnostics :: "workflow_graph \<Rightarrow> action_schemas \<Rightarrow> diagnostic list" where
  "actionBindingDiagnostics graph lookup =
     concat (map (\<lambda>node. case node_kind node of
         Action_node action \<Rightarrow>
           concat (map (\<lambda>mapping.
             case binding_diagnostic graph node action mapping lookup of None \<Rightarrow> [] | Some d \<Rightarrow> [d])
             (node_mappings node))
       | _ \<Rightarrow> []) (nodes graph))"

fun target_walk :: "json_schema \<Rightarrow> string list \<Rightarrow> bool" where
  "target_walk current [] =
     (markedSecret current \<or> ambiguousSourceSchema current \<or> descendantSecret (JObj current) 0)"
| "target_walk current (key # keys) =
     (if markedSecret current \<or> ambiguousSourceSchema current then True
      else case pointerSchemaChild current key of
        Some (JObj child) \<Rightarrow> target_walk child keys
      | _ \<Rightarrow>
          if field current ''type'' \<noteq> Some (JStr ''object'') \<and> field current ''type'' \<noteq> Some (JStr ''array'')
          then descendantSecret (JObj current) 0 else False)"

definition mappingTargetUnsafe :: "json_schema option \<Rightarrow> string \<Rightarrow> bool" where
  "mappingTargetUnsafe schema pointer =
     (case schema of
        None \<Rightarrow> True
      | Some s \<Rightarrow>
          if pointer \<noteq> [] \<and> \<not> starts_with ''/'' pointer then True
          else target_walk s (schema_segments pointer))"

definition target_schema :: "workflow_graph \<Rightarrow> workflow_node \<Rightarrow> json_schema option" where
  "target_schema graph node =
     (case (if is_input node then outputPorts node else inputPorts node) of
        [] \<Rightarrow> None
      | p # ps \<Rightarrow> if port_schemaId p = [] then None else graph_schema graph (port_schemaId p))"

definition is_action :: "workflow_node \<Rightarrow> bool" where
  "is_action node = (case node_kind node of Action_node action \<Rightarrow> True | _ \<Rightarrow> False)"

definition mappingTargetDiagnostics :: "workflow_graph \<Rightarrow> diagnostic list" where
  "mappingTargetDiagnostics graph =
     concat (map (\<lambda>node.
       if is_action node then []
       else concat (map (\<lambda>mapping.
         if mappingTargetUnsafe (target_schema graph node) (targetPointer mapping)
         then [MAPPING_TARGET_UNSAFE (node_id node) (targetPointer mapping)] else []) (node_mappings node)))
       (nodes graph))"

fun affected_place :: "diagnostic \<Rightarrow> string \<times> string" where
  "affected_place (ACTION_SECRET_BINDING n t) = (n, t)"
| "affected_place (ACTION_SCHEMA_UNAVAILABLE n t) = (n, t)"
| "affected_place (MAPPING_TARGET_UNSAFE n t) = (n, t)"
| "affected_place (SECRET_SCHEMA_VALUE s p) = (s, p)"

definition redacted :: binding where
  "redacted = Literal (JStr ''[redacted]'')"

definition source_json :: "mapping_source \<Rightarrow> (string \<times> json) list" where
  "source_json source = [(''sourceNodeId'', JStr (sourceNodeId source)),
     (''sourcePort'', JStr (sourcePort source)), (''pointer'', JStr (source_pointer source))]"

fun binding_json :: "binding \<Rightarrow> json" where
  "binding_json (Literal v) = JObj [(''kind'', JStr ''literal''), (''value'', v)]"
| "binding_json (Path source) = JObj ((''kind'', JStr ''path'') # source_json source)"
| "binding_json (Template template variables) =
     JObj [(''kind'', JStr ''template''), (''template'', JStr template),
       (''variables'', JArr (map (\<lambda>(name, source). JObj ((''name'', JStr name) # source_json source)) variables))]"

definition mapping_json :: "target_mapping \<Rightarrow> json" where
  "mapping_json m =
     JObj [(''targetPointer'', JStr (targetPointer m)), (''binding'', binding_json (mapping_binding m))]"

definition redact_node :: "(string \<times> string) set \<Rightarrow> workflow_node \<Rightarrow> workflow_node" where
  "redact_node affected node =
     (let ms = map (\<lambda>m. if (node_id node, targetPointer m) \<in> affected then m\<lparr>mapping_binding := redacted\<rparr> else m)
            (node_mappings node)
      in if node_mappings node = [] then node
         else node\<lparr>node_mappings := ms,
           node_raw := AList.update ''mappings'' (JArr (map mapping_json ms)) (node_raw node)\<rparr>)"

definition projectSafeGraph :: "workflow_graph \<Rightarrow> action_schemas \<Rightarrow> workflow_graph \<times> diagnostic list" where
  "projectSafeGraph graph lookup =
     (let bindings = actionBindingDiagnostics graph lookup @ mappingTargetDiagnostics graph;
          all = bindings @ snd (projectGraphSchemas graph)
      in if all = [] then (graph, all)
         else (graph\<lparr>schemas := fst (projectGraphSchemas graph),
             nodes := map (redact_node (set (map affected_place bindings))) (nodes graph)\<rparr>, all))"

section \<open>What a safe source can copy\<close>

lemma field_in_set: "field kvs k = Some v \<Longrightarrow> (k, v) \<in> set kvs"
  by (simp add: field_def map_of_SomeD)

lemma conforms_type: "conforms cmp v schema \<Longrightarrow> field schema ''type'' = Some (JStr kind) \<Longrightarrow> type_matches_name v (JStr kind)"
  by (erule conformsE) (auto simp: type_allowed_def type_name_iff)

lemma type_object: "type_matches_name v (JStr ''object'') \<Longrightarrow> \<exists>kvs. v = JObj kvs"
  by (cases v) auto

lemma type_array: "type_matches_name v (JStr ''array'') \<Longrightarrow> \<exists>vs. v = JArr vs"
  by (cases v) auto

lemma type_scalar: "type_matches_name v (JStr kind) \<Longrightarrow> kind \<in> set SCALAR_TYPES \<Longrightarrow> read_part v k = None"
  by (cases v) (auto simp: SCALAR_TYPES_def read_part_def)

lemma property_schema_child:
  "field schema ''type'' = Some (JStr ''object'') \<Longrightarrow>
     (property_schema schema k = Checked c \<and> field (schema_properties schema) k = None \<or>
      field (schema_properties schema) k = Some (JObj c)) \<Longrightarrow>
     pointerSchemaChild schema k = Some (JObj c)"
  by (auto simp: pointerSchemaChild_def property_schema_def schema_properties_def Let_def
      split: option.splits json.splits if_splits bool.splits)

lemma read_array: "read_part (JArr vs) k = Some w \<Longrightarrow> is_numeral k \<and> w \<in> set vs"
  by (auto simp: read_part_def split: if_splits)

lemma conforms_items:
  assumes "conforms cmp (JArr vs) schema" and "field schema ''items'' = Some (JObj items)" and "entry \<in> set vs"
  shows "conforms cmp entry items"
proof -
  obtain i where i: "(i, entry) \<in> set (enumerate 0 vs)"
    using assms(3) by (auto simp: enumerate_eq_zip set_zip in_set_conv_nth)
  have "validateJsonSchema cmp entry items (''/'' @ show_nat i) = []"
    using iffD1 [OF validate_Nil conforms_validate [OF assms(1), of "[]"]] i assms(2) by force
  then show ?thesis by (rule validate_conforms)
qed

lemma conforms_entry:
  assumes "conforms cmp (JObj kvs) schema" and "field kvs k = Some w"
  shows "property_schema schema k \<noteq> Refused \<and> (\<forall>c. property_schema schema k = Checked c \<longrightarrow> conforms cmp w c)"
proof -
  have "property_schema schema k \<noteq> Refused \<and> (\<forall>c. property_schema schema k = Checked c \<longrightarrow>
      validateJsonSchema cmp w c (''/'' @ k) = [])"
    using iffD1 [OF validate_Nil conforms_validate [OF assms(1), of "[]"]] field_in_set [OF assms(2)] by simp
  then show ?thesis using validate_conforms by blast
qed

lemma property_schema_record:
  "field (schema_properties schema) k = Some (JObj c) \<Longrightarrow> property_schema schema k = Checked c"
  "field (schema_properties schema) k = None \<Longrightarrow> field schema ''additionalProperties'' = Some (JObj c) \<Longrightarrow>
     property_schema schema k = Checked c"
  "field (schema_properties schema) k = None \<Longrightarrow> field schema ''additionalProperties'' = Some (JBool False) \<Longrightarrow>
     property_schema schema k = Refused"
  by (simp_all add: property_schema_def schema_properties_def Let_def)

text \<open>A part of a conforming value conforms to the child schema the pointer rules name.\<close>

lemma conforms_child:
  assumes c: "conforms cmp v schema" and child: "pointerSchemaChild schema k = Some (JObj s)"
    and r: "read_part v k = Some w"
  shows "conforms cmp w s"
proof (cases "field schema ''type'' = Some (JStr ''object'')")
  case True
  then obtain kvs where v: "v = JObj kvs" using conforms_type [OF c] type_object by blast
  then have "field kvs k = Some w" using r by (simp add: read_part_def)
  moreover have "property_schema schema k = Checked s"
    using child True by (auto simp: pointerSchemaChild_def property_schema_record split: option.splits)
  ultimately show ?thesis using conforms_entry c v by blast
next
  case False
  then have t: "field schema ''type'' = Some (JStr ''array'')" and i: "field schema ''items'' = Some (JObj s)"
    using child by (auto simp: pointerSchemaChild_def split: if_splits)
  then obtain vs where v: "v = JArr vs" using conforms_type [OF c] type_array by blast
  then have "w \<in> set vs" using r read_array by blast
  then show ?thesis using conforms_items c v i by blast
qed

lemma safe_record: "sourceSubtreeSafe v depth \<Longrightarrow> \<exists>c. v = Some (JObj c)"
  by (subst (asm) sourceSubtreeSafe.simps) (auto split: if_splits option.splits json.splits)

lemma safe_unprotected: "sourceSubtreeSafe (Some (JObj s)) depth \<Longrightarrow> \<not> protectedSource s"
  by (subst (asm) sourceSubtreeSafe.simps) (auto split: if_splits)

lemma kind_field: "schema_kind s = Some kind \<longleftrightarrow> field s ''type'' = Some (JStr kind)"
  by (auto simp: schema_kind_def split: option.splits json.splits)

lemma safe_kind:
  assumes "sourceSubtreeSafe (Some (JObj s)) depth"
  obtains kind where "field s ''type'' = Some (JStr kind)" "kind \<in> set SCALAR_TYPES"
  | "field s ''type'' = Some (JStr ''array'')" "sourceSubtreeSafe (field s ''items'') (depth + 1)"
  | "field s ''type'' = Some (JStr ''object'')"
    "\<forall>(key, child) \<in> set (schema_properties s). sourceSubtreeSafe (Some child) (depth + 1)"
    "field s ''additionalProperties'' = Some (JBool False) \<or>
     sourceSubtreeSafe (field s ''additionalProperties'') (depth + 1)"
  using assms
  by (subst (asm) sourceSubtreeSafe.simps) (auto simp: list_ex_iff kind_field split: if_splits)

lemma safe_child:
  assumes s: "sourceSubtreeSafe (Some (JObj schema)) depth" and c: "conforms cmp v schema"
    and r: "read_part v k = Some w"
  shows "\<exists>child. pointerSchemaChild schema k = Some (JObj child) \<and> sourceSubtreeSafe (Some (JObj child)) (depth + 1)"
  using s
proof (cases rule: safe_kind)
  case (1 kind)
  then show ?thesis using conforms_type [OF c] type_scalar r by fastforce
next
  case 2
  then obtain vs where "v = JArr vs" using conforms_type [OF c] type_array by blast
  then have "is_numeral k" using r read_array by blast
  moreover obtain child where "field schema ''items'' = Some (JObj child)" using safe_record [OF 2(2)] by blast
  ultimately show ?thesis using 2 by (simp add: pointerSchemaChild_def)
next
  case 3
  then obtain kvs where v: "v = JObj kvs" using conforms_type [OF c] type_object by blast
  then have f: "field kvs k = Some w" using r by (simp add: read_part_def)
  show ?thesis
  proof (cases "field (schema_properties schema) k")
    case (Some child)
    then have "sourceSubtreeSafe (Some child) (depth + 1)" using 3(2) field_in_set by fastforce
    moreover from safe_record [OF this] obtain c where "child = JObj c" by blast
    ultimately show ?thesis using Some 3(1) by (simp add: pointerSchemaChild_def)
  next
    case None
    have "property_schema schema k \<noteq> Refused" using conforms_entry [OF _ f] c v by blast
    then have safe: "sourceSubtreeSafe (field schema ''additionalProperties'') (depth + 1)"
      using 3(3) None property_schema_record(3) by blast
    then obtain c where "field schema ''additionalProperties'' = Some (JObj c)" using safe_record by blast
    then show ?thesis using None 3(1) safe by (simp add: pointerSchemaChild_def)
  qed
qed

lemma safe_subtree:
  "sourceSubtreeSafe (Some (JObj schema)) depth \<Longrightarrow> conforms cmp v schema \<Longrightarrow> read_parts v keys = Some u \<Longrightarrow>
     \<exists>t. schema_walk schema keys = Some t \<and> conforms cmp u t \<and> \<not> protectedSource t"
proof (induction keys arbitrary: schema depth v)
  case Nil
  then show ?case using safe_unprotected by auto
next
  case (Cons k keys)
  then obtain w where w: "read_part v k = Some w" "read_parts w keys = Some u" by (auto split: option.splits)
  obtain child where child: "pointerSchemaChild schema k = Some (JObj child)"
    "sourceSubtreeSafe (Some (JObj child)) (depth + 1)"
    using safe_child [OF Cons.prems(1,2) w(1)] by blast
  from Cons.IH [OF child(2) conforms_child [OF Cons.prems(2) child(1) w(1)] w(2)] child(1)
  show ?case by simp
qed

lemma safe_walk:
  "source_walk schema keys \<Longrightarrow> conforms cmp v schema \<Longrightarrow> read_parts v keys = Some w \<Longrightarrow>
     \<exists>s. schema_walk schema keys = Some s \<and> conforms cmp w s \<and> sourceSubtreeSafe (Some (JObj s)) 0"
proof (induction keys arbitrary: schema v)
  case (Cons k keys)
  then obtain x where x: "read_part v k = Some x" "read_parts x keys = Some w" by (auto split: option.splits)
  obtain child where child: "pointerSchemaChild schema k = Some (JObj child)" "source_walk child keys"
    using Cons.prems(1) by (auto split: if_splits option.splits json.splits)
  from Cons.IH [OF child(2) conforms_child [OF Cons.prems(2) child(1) x(1)] x(2)] child(1)
  show ?case by simp
qed auto

lemma schema_walk_append:
  "schema_walk s (ks @ ls) = Option.bind (schema_walk s ks) (\<lambda>t. schema_walk t ls)"
  by (induction ks arbitrary: s) (auto split: option.splits json.splits)

lemma read_segments: "validPointer p \<Longrightarrow> readJsonPointer v p = read_parts v (schema_segments p)"
  by (simp add: readJsonPointer_def schema_segments_def)

lemma disclosure_safe:
  assumes "sourcePointerIsSafe (Some schema) pointer" and "validateJsonSchema cmp v schema path = []"
    and "readJsonPointer v pointer = Some copied" and "read_parts copied keys = Some part"
  shows "\<exists>s. schema_walk schema (schema_segments pointer @ keys) = Some s \<and> conforms cmp part s \<and>
    \<not> protectedSource s"
proof -
  have p: "validPointer pointer" "source_walk schema (schema_segments pointer)"
    using assms(1) by (auto simp: sourcePointerIsSafe_def)
  have "read_parts v (schema_segments pointer) = Some copied"
    using assms(3) read_segments [OF p(1)] by simp
  from safe_walk [OF p(2) validate_conforms [OF assms(2)] this]
  obtain s where s: "schema_walk schema (schema_segments pointer) = Some s" "conforms cmp copied s"
    "sourceSubtreeSafe (Some (JObj s)) 0" by blast
  from safe_subtree [OF s(3,2) assms(4)] s(1) show ?thesis by (auto simp: schema_walk_append)
qed

text \<open>C4: when the compiler lets a mapping copy from a place of an output schema, then whatever part of
  whatever value the node emits under that schema is copied, the schema describing the part is not
  marked secret, write-only or restricted to a read permission.\<close>

theorem safe_source_discloses_nothing:
  assumes "sourcePointerIsSafe (Some schema) pointer" and "validateJsonSchema cmp v schema path = []"
    and "readJsonPointer v pointer = Some copied" and "read_parts copied keys = Some part"
  shows "\<exists>s. schema_walk schema (schema_segments pointer @ keys) = Some s \<and> conforms cmp part s \<and>
    \<not> protectedSource s"
  using assms by (rule disclosure_safe)

definition example_schema :: json_schema where
  "example_schema =
     [(''type'', JStr ''object''), (''additionalProperties'', JBool False),
      (''properties'', JObj [(''id'', JObj [(''type'', JStr ''string'')])])]"

theorem safe_source_discloses_nothing_witness:
  "\<exists>s. schema_walk example_schema [''id''] = Some s \<and> \<not> protectedSource s"
proof -
  let ?v = "JObj [(''id'', JStr ''a'')]"
  have 1: "sourcePointerIsSafe (Some example_schema) ''''" by code_simp
  have 2: "validateJsonSchema unit_compare ?v example_schema '''' = []" by code_simp
  have 3: "readJsonPointer ?v '''' = Some ?v" "read_parts ?v [''id''] = Some (JStr ''a'')" by code_simp+
  have "schema_segments '''' @ [''id''] = [''id'']" by (simp add: schema_segments_def)
  then show ?thesis
    using safe_source_discloses_nothing [OF 1 2 3] by auto
qed

section \<open>What a projected graph still binds\<close>

lemma binding_reported:
  assumes "n \<in> set (nodes graph)" "m \<in> set (node_mappings n)"
  shows "(case node_kind n of
      Action_node action \<Rightarrow>
        bindingSafety (input_schema graph n) (targetPointer m) = Safe \<and>
        bindingSafety (lookup (actionId action) (contractVersion action)) (targetPointer m) = Safe
    | _ \<Rightarrow> \<not> mappingTargetUnsafe (target_schema graph n) (targetPointer m)) \<or>
    (node_id n, targetPointer m) \<in> affected_place ` set (actionBindingDiagnostics graph lookup @ mappingTargetDiagnostics graph)"
proof (cases "node_kind n")
  case (Action_node action)
  show ?thesis
  proof (cases "binding_diagnostic graph n action m lookup")
    case None
    then show ?thesis using Action_node by (auto simp: binding_diagnostic_def Let_def split: if_splits)
  next
    case (Some d)
    then have "d \<in> set (actionBindingDiagnostics graph lookup)"
      using assms Action_node by (auto simp: actionBindingDiagnostics_def intro!: bexI [of _ n] bexI [of _ m])
    moreover have "affected_place d = (node_id n, targetPointer m)"
      using Some by (auto simp: binding_diagnostic_def Let_def split: if_splits)
    ultimately show ?thesis by force
  qed
qed (use assms in \<open>force simp: mappingTargetDiagnostics_def is_action_def\<close>)+

text \<open>C12: in the graph that is shown after projection, every mapping still bound to anything but the
  redaction marker writes to a place both the node's own schema and the action's current descriptor
  call safe, or, for other nodes, to a place that is not secret.\<close>

theorem projected_bindings_safe:
  assumes "projectSafeGraph graph lookup = (shown, found)"
    and "node \<in> set (nodes shown)" and "m \<in> set (node_mappings node)" and "mapping_binding m \<noteq> redacted"
  shows "case node_kind node of
      Action_node action \<Rightarrow>
        bindingSafety (input_schema graph node) (targetPointer m) = Safe \<and>
        bindingSafety (lookup (actionId action) (contractVersion action)) (targetPointer m) = Safe
    | _ \<Rightarrow> \<not> mappingTargetUnsafe (target_schema graph node) (targetPointer m)"
proof -
  let ?b = "actionBindingDiagnostics graph lookup @ mappingTargetDiagnostics graph"
  let ?a = "set (map affected_place ?b)"
  obtain old where old: "old \<in> set (nodes graph)" "m \<in> set (node_mappings old)"
    "(node_id old, targetPointer m) \<notin> ?a" "node_kind old = node_kind node"
    "inputPorts old = inputPorts node" "outputPorts old = outputPorts node"
  proof (cases "?b @ snd (projectGraphSchemas graph) = []")
    case True
    then have "shown = graph" using assms(1) by (auto simp: projectSafeGraph_def Let_def)
    then show thesis using True assms(2,3) that by auto
  next
    case False
    then have "nodes shown = map (redact_node ?a) (nodes graph)"
      using assms(1) by (auto simp: projectSafeGraph_def Let_def)
    then obtain old where o: "old \<in> set (nodes graph)" "node = redact_node ?a old" using assms(2) by auto
    then have "m \<in> set (node_mappings old) \<and> (node_id old, targetPointer m) \<notin> ?a"
      using assms(3,4) by (auto simp: redact_node_def Let_def split: if_splits)
    then show thesis using o that by (auto simp: redact_node_def Let_def split: if_splits)
  qed
  have schemas: "input_schema graph old = input_schema graph node" "target_schema graph old = target_schema graph node"
    using old(4-6) by (simp_all add: input_schema_def target_schema_def is_input_def)
  from binding_reported [OF old(1,2), of lookup] old(3) show ?thesis unfolding old(4) schemas by auto
qed

definition example_output :: workflow_node where
  "example_output =
     \<lparr>node_id = ''out.node'', node_label = ''Out'', inputPorts = [\<lparr>port_name = ''input'', port_schemaId = ''s''\<rparr>],
      outputPorts = [], node_mappings = [\<lparr>targetPointer = ''/id'', mapping_binding = Literal (JStr ''x'')\<rparr>],
      failurePolicy = None, node_kind = Output_node, node_raw = []\<rparr>"

definition example_graph :: workflow_graph where
  "example_graph =
     \<lparr>schemaVersion = 1, nodes = [example_output], edges = [], schemas = [(''s'', example_schema)], layout = JObj []\<rparr>"

theorem projected_bindings_safe_witness:
  "\<not> mappingTargetUnsafe (target_schema example_graph example_output) ''/id''"
proof -
  have "actionBindingDiagnostics example_graph (\<lambda>_ _. None) = []"
    "mappingTargetDiagnostics example_graph = []" "snd (projectGraphSchemas example_graph) = []"
    by code_simp+
  then have p: "projectSafeGraph example_graph (\<lambda>_ _. None) = (example_graph, [])"
    by (simp add: projectSafeGraph_def)
  have "example_output \<in> set (nodes example_graph)" by (simp add: example_graph_def)
  from projected_bindings_safe [OF p this, of "\<lparr>targetPointer = ''/id'', mapping_binding = Literal (JStr ''x'')\<rparr>"]
  show ?thesis by (simp add: example_output_def redacted_def)
qed

end
