(* ===== verification/Workflow_Order.thy ===== *)
theory Workflow_Order
  imports Flow_Prelude "HOL-Library.AList"
begin

text \<open>
  The graph walks of \<open>modules/workflows/src/domain/graph.ts\<close>: \<open>isUpstream\<close> (a stack, walked against
  the edges), the reachability walk of \<open>compileWorkflowGraph\<close> (a queue, walked along them) and
  \<open>stableTopologicalOrder\<close>. An edge is the pair of its source and target node id. The stack is written
  with its top first.
\<close>

type_synonym flow_edge = "string \<times> string"

section \<open>The walks\<close>

definition preds :: "flow_edge list \<Rightarrow> string \<Rightarrow> string list" where
  "preds es x = map fst (filter (\<lambda>e. snd e = x) es)"

definition succs :: "flow_edge list \<Rightarrow> string \<Rightarrow> string list" where
  "succs es x = map snd (filter (\<lambda>e. fst e = x) es)"

definition endpoints :: "flow_edge list \<Rightarrow> string set" where
  "endpoints es = fst ` set es \<union> snd ` set es"

lemma finite_endpoints [simp]: "finite (endpoints es)"
  by (simp add: endpoints_def)

lemma visit_measure:
  assumes "x \<notin> visited" and "x \<notin> endpoints es \<Longrightarrow> length pending' < length pending"
  shows "card (endpoints es - insert x visited) < card (endpoints es - visited) \<or>
    card (endpoints es - insert x visited) = card (endpoints es - visited) \<and> length pending' < length pending"
proof (cases "x \<in> endpoints es")
  case True
  then have "endpoints es - insert x visited \<subset> endpoints es - visited" using assms(1) by blast
  then show ?thesis by (simp add: psubset_card_mono)
next
  case False
  then have "endpoints es - insert x visited = endpoints es - visited" by blast
  then show ?thesis using False assms(2) by simp
qed

lemma no_neighbours: "x \<notin> endpoints es \<Longrightarrow> preds es x = []" "x \<notin> endpoints es \<Longrightarrow> succs es x = []"
  by (force simp: endpoints_def preds_def succs_def filter_empty_conv)+

lemma visit_preds:
  "x \<notin> visited \<Longrightarrow> card (endpoints es - insert x visited) < card (endpoints es - visited) \<or>
    card (endpoints es - insert x visited) = card (endpoints es - visited) \<and>
    length (preds es x) + length (pending :: string list) < Suc (length pending)"
  using visit_measure [of x visited es "preds es x @ pending" "x # pending"] by (simp add: no_neighbours)

lemma visit_succs:
  "x \<notin> visited \<Longrightarrow> card (endpoints es - insert x visited) < card (endpoints es - visited) \<or>
    card (endpoints es - insert x visited) = card (endpoints es - visited) \<and>
    length (pending :: string list) + length (succs es x) < Suc (length pending)"
  using visit_measure [of x visited es "pending @ succs es x" "x # pending"] by (simp add: no_neighbours)

text \<open>\<open>isUpstream\<close> returns at the first edge that comes from the source it looks for.\<close>

function upstream_search :: "flow_edge list \<Rightarrow> string \<Rightarrow> string list \<Rightarrow> string set \<Rightarrow> bool" where
  "upstream_search es source [] visited = False"
| "upstream_search es source (x # pending) visited =
     (if x \<in> visited then upstream_search es source pending visited
      else if list_ex (\<lambda>p. p = source) (preds es x) then True
      else upstream_search es source (rev (preds es x) @ pending) (insert x visited))"
  by pat_completeness auto
termination
  by (relation "measures [\<lambda>(es, source, pending, visited). card (endpoints es - visited),
      \<lambda>(es, source, pending, visited). length pending]")
    (use visit_preds in \<open>simp_all\<close>)

definition isUpstream :: "flow_edge list \<Rightarrow> string \<Rightarrow> string \<Rightarrow> bool" where
  "isUpstream es source target = upstream_search es source [target] {}"

function reach_search :: "flow_edge list \<Rightarrow> string list \<Rightarrow> string set \<Rightarrow> string set" where
  "reach_search es [] reachable = reachable"
| "reach_search es (current # queue) reachable =
     (if current \<in> reachable then reach_search es queue reachable
      else reach_search es (queue @ succs es current) (insert current reachable))"
  by pat_completeness auto
termination
  by (relation "measures [\<lambda>(es, queue, reachable). card (endpoints es - reachable),
      \<lambda>(es, queue, reachable). length queue]")
    (use visit_succs in \<open>simp_all\<close>)

definition reachableFrom :: "flow_edge list \<Rightarrow> string option \<Rightarrow> string set" where
  "reachableFrom es root = (case root of None \<Rightarrow> {} | Some r \<Rightarrow> reach_search es [r] {})"

section \<open>What a walk visits\<close>

text \<open>
  The contract of a walk along \<open>next\<close> from \<open>root\<close>: everything visited or waiting can be reached, and a
  visited node's neighbours are visited or waiting. Taking a waiting node keeps it, and when nothing
  waits the visited nodes are all that can be reached.
\<close>

locale walk =
  fixes "next" :: "'a \<Rightarrow> 'a list" and root :: 'a
begin

definition walk_rel :: "('a \<times> 'a) set" where
  "walk_rel = {(x, y). y \<in> set (next x)}"

definition walking :: "'a list \<Rightarrow> 'a set \<Rightarrow> bool" where
  "walking pending visited \<longleftrightarrow>
     root \<in> visited \<union> set pending \<and> visited \<union> set pending \<subseteq> walk_rel\<^sup>* `` {root} \<and>
     (\<forall>x \<in> visited. set (next x) \<subseteq> visited \<union> set pending)"

lemma walking_start: "walking [root] {}"
  by (simp add: walking_def)

lemma walking_skip: "walking (x # pending) visited \<Longrightarrow> x \<in> visited \<Longrightarrow> walking pending visited"
  unfolding walking_def by auto

lemma walking_visit:
  assumes "walking (x # pending) visited" and "set pending' = set pending \<union> set (next x)"
  shows "walking pending' (insert x visited)"
proof -
  have x: "(root, x) \<in> walk_rel\<^sup>*" using assms(1) by (auto simp: walking_def)
  have "(root, y) \<in> walk_rel\<^sup>*" if "y \<in> set (next x)" for y
    using x that by (auto simp: walk_rel_def intro: rtrancl.rtrancl_into_rtrancl)
  then show ?thesis using assms unfolding walking_def by auto
qed

lemma walking_done: "walking [] visited \<Longrightarrow> visited = walk_rel\<^sup>* `` {root}"
proof
  assume w: "walking [] visited"
  then show "visited \<subseteq> walk_rel\<^sup>* `` {root}" by (simp add: walking_def)
  show "walk_rel\<^sup>* `` {root} \<subseteq> visited"
  proof
    fix y assume "y \<in> walk_rel\<^sup>* `` {root}"
    then have "(root, y) \<in> walk_rel\<^sup>*" by simp
    then show "y \<in> visited"
      by induction (use w in \<open>auto simp: walking_def walk_rel_def\<close>)
  qed
qed

end

definition edge_rel :: "flow_edge list \<Rightarrow> flow_edge set" where
  "edge_rel es = set es"

lemma set_succs [simp]: "set (succs es x) = {y. (x, y) \<in> set es}"
  by (force simp: succs_def)

lemma set_preds [simp]: "set (preds es x) = {y. (y, x) \<in> set es}"
  by (force simp: preds_def)

interpretation forward: walk "succs es" root for es root .
interpretation backward: walk "preds es" root for es root .

lemma forward_rel: "forward.walk_rel es = edge_rel es"
  by (auto simp: forward.walk_rel_def edge_rel_def)

lemma backward_rel: "backward.walk_rel es = (edge_rel es)\<inverse>"
  by (auto simp: backward.walk_rel_def edge_rel_def)

lemma reach_search_exact:
  "forward.walking es root queue reachable \<Longrightarrow>
     reach_search es queue reachable = (edge_rel es)\<^sup>* `` {root}"
proof (induction es queue reachable rule: reach_search.induct)
  case (1 es reachable)
  then show ?case using forward.walking_done by (simp add: forward_rel)
next
  case (2 es current queue reachable)
  show ?case
  proof (cases "current \<in> reachable")
    case True
    then show ?thesis using "2.IH"(1) "2.prems" by (simp add: forward.walking_skip)
  next
    case False
    have "forward.walking es root (queue @ succs es current) (insert current reachable)"
      by (rule forward.walking_visit [OF "2.prems"]) simp
    then show ?thesis using "2.IH"(2) False by simp
  qed
qed

lemma upstream_search_exact:
  "backward.walking es root pending visited \<Longrightarrow> (\<forall>x \<in> visited. source \<notin> set (preds es x)) \<Longrightarrow>
     upstream_search es source pending visited \<longleftrightarrow> (source, root) \<in> (edge_rel es)\<^sup>+"
proof (induction es source pending visited rule: upstream_search.induct)
  case (1 es source visited)
  then have v: "visited = ((edge_rel es)\<inverse>)\<^sup>* `` {root}" using backward.walking_done by (simp add: backward_rel)
  have "(source, root) \<notin> (edge_rel es)\<^sup>+"
  proof
    assume "(source, root) \<in> (edge_rel es)\<^sup>+"
    then obtain x where "(source, x) \<in> edge_rel es" "(x, root) \<in> (edge_rel es)\<^sup>*" by (metis tranclD)
    then have "x \<in> visited" by (simp add: v rtrancl_converse)
    then show False using \<open>(source, x) \<in> edge_rel es\<close> "1.prems"(2) by (simp add: edge_rel_def)
  qed
  then show ?case by simp
next
  case (2 es source x pending visited)
  show ?case
  proof (cases "x \<in> visited")
    case True
    then show ?thesis using "2.IH"(1) "2.prems" by (simp add: backward.walking_skip)
  next
    case False
    have w: "backward.walking es root (rev (preds es x) @ pending) (insert x visited)"
      by (rule backward.walking_visit [OF "2.prems"(1)]) auto
    show ?thesis
    proof (cases "list_ex (\<lambda>p. p = source) (preds es x)")
      case found: True
      then have e: "(source, x) \<in> edge_rel es" by (auto simp: list_ex_iff edge_rel_def)
      have "(x, root) \<in> (edge_rel es)\<^sup>*"
        using "2.prems"(1) by (simp add: backward.walking_def backward_rel rtrancl_converse)
      with e have "(source, root) \<in> (edge_rel es)\<^sup>+" by (rule rtrancl_into_trancl2)
      then show ?thesis using False found by simp
    next
      case absent: False
      then have "\<forall>y \<in> insert x visited. source \<notin> set (preds es y)"
        using "2.prems"(2) by (auto simp: list_ex_iff)
      then show ?thesis using "2.IH"(2) [OF False absent w] False absent by simp
    qed
  qed
qed

lemma reachableFrom_exact: "reachableFrom es (Some root) = (edge_rel es)\<^sup>* `` {root}"
  unfolding reachableFrom_def option.case by (rule reach_search_exact) (rule forward.walking_start)

lemma upstream_tranclp: "isUpstream es source target \<longleftrightarrow> (source, target) \<in> (edge_rel es)\<^sup>+"
  unfolding isUpstream_def by (rule upstream_search_exact) (simp_all add: backward.walking_start)

text \<open>The stack search over a workflow's edges, with its early return, answers exactly whether the
  source lies strictly upstream of the target, on every graph, cyclic ones included.\<close>

lemma upstream_exact:
  "isUpstream es source target \<longleftrightarrow> (source, target) \<in> (edge_rel es)\<^sup>+"
  by (rule upstream_tranclp)

section \<open>Topological order\<close>

text \<open>The two maps Kahn's algorithm starts from: an edge with an unknown end is skipped.\<close>

definition countEdge ::
    "(string \<rightharpoonup> int) \<times> (string \<times> string list) list \<Rightarrow> flow_edge \<Rightarrow>
     (string \<rightharpoonup> int) \<times> (string \<times> string list) list" where
  "countEdge = (\<lambda>(incoming, outgoing) (source, target).
     case (incoming target, map_of outgoing source) of
       (Some n, Some targets) \<Rightarrow>
         (incoming(target \<mapsto> n + 1), AList.update source (targets @ [target]) outgoing)
     | _ \<Rightarrow> (incoming, outgoing))"

definition degrees :: "string list \<Rightarrow> flow_edge list \<Rightarrow> (string \<rightharpoonup> int) \<times> (string \<times> string list) list" where
  "degrees ids es =
     foldl countEdge (\<lambda>x. if x \<in> set ids then Some 0 else None, map (\<lambda>x. (x, [])) (remdups ids)) es"

text \<open>One step of the inner loop: count down, and queue the target when nothing is left before it.\<close>

definition release :: "string list \<times> (string \<rightharpoonup> int) \<Rightarrow> string \<Rightarrow> string list \<times> (string \<rightharpoonup> int)" where
  "release = (\<lambda>(ready, incoming) target.
     let count = (case incoming target of Some n \<Rightarrow> n | None \<Rightarrow> 1) - 1
     in (if count = 0 then sort_by unit_compare (ready @ [target]) else ready, incoming(target \<mapsto> count)))"

definition targets_of :: "(string \<times> string list) list \<Rightarrow> string \<Rightarrow> string list" where
  "targets_of outgoing x = (case map_of outgoing x of Some ts \<Rightarrow> ts | None \<Rightarrow> [])"

definition open_targets :: "(string \<times> string list) list \<Rightarrow> (string \<rightharpoonup> int) \<Rightarrow> string set" where
  "open_targets outgoing incoming =
     {t \<in> \<Union> (set ` snd ` set outgoing). case incoming t of Some n \<Rightarrow> 0 < n | None \<Rightarrow> True}"

lemma finite_open_targets [simp]: "finite (open_targets outgoing incoming)"
  by (simp add: open_targets_def)

lemma release_measure:
  assumes "set ts \<subseteq> \<Union> (set ` snd ` set outgoing)" and "foldl release (ready, incoming) ts = (ready', incoming')"
  shows "length ready' + card (open_targets outgoing incoming') \<le> length ready + card (open_targets outgoing incoming)"
  using assms
proof (induction ts arbitrary: ready incoming)
  case (Cons t ts)
  obtain r i where ri: "release (ready, incoming) t = (r, i)" by fastforce
  let ?c = "(case incoming t of Some n \<Rightarrow> n | None \<Rightarrow> 1) - 1"
  have i: "i = incoming(t \<mapsto> ?c)" and r: "length r = length ready + (if ?c = 0 then 1 else 0)"
    using ri by (auto simp: release_def Let_def split: if_splits)
  have step: "length r + card (open_targets outgoing i) \<le> length ready + card (open_targets outgoing incoming)"
  proof (cases "?c = 0")
    case True
    then have "t \<in> open_targets outgoing incoming" "t \<notin> open_targets outgoing i"
      using Cons.prems(1) by (auto simp: open_targets_def i split: option.splits)
    moreover have "open_targets outgoing i \<subseteq> open_targets outgoing incoming"
      using True by (auto simp: open_targets_def i split: if_splits)
    ultimately have "open_targets outgoing i \<subset> open_targets outgoing incoming" by blast
    then have "card (open_targets outgoing i) < card (open_targets outgoing incoming)"
      by (simp add: psubset_card_mono)
    then show ?thesis using r by simp
  next
    case False
    have "open_targets outgoing i \<subseteq> open_targets outgoing incoming"
      by (auto simp: open_targets_def i split: if_splits option.splits)
    then show ?thesis using r False by (simp add: card_mono)
  qed
  have "length ready' + card (open_targets outgoing incoming') \<le> length r + card (open_targets outgoing i)"
    using Cons.IH [of r i] Cons.prems ri by simp
  then show ?case using step by linarith
qed simp

lemma kahn_measure:
  assumes "foldl release (ready, incoming) (sort_by unit_compare (targets_of outgoing x)) = (ready', incoming')"
  shows "length ready' + card (open_targets outgoing incoming') < Suc (length ready + card (open_targets outgoing incoming))"
proof -
  have "set (targets_of outgoing x) \<subseteq> \<Union> (set ` snd ` set outgoing)"
  proof (cases "map_of outgoing x")
    case (Some ts)
    then have "ts \<in> snd ` set outgoing" by (metis map_of_SomeD snd_conv image_eqI)
    then show ?thesis using Some by (auto simp: targets_of_def)
  qed (simp add: targets_of_def)
  then show ?thesis
    using release_measure [OF _ assms, of outgoing] by simp
qed

function kahn ::
    "(string \<times> string list) list \<Rightarrow> string list \<Rightarrow> (string \<rightharpoonup> int) \<Rightarrow> string list \<Rightarrow> string list" where
  "kahn outgoing [] incoming order = order"
| "kahn outgoing (x # ready) incoming order =
     (case foldl release (ready, incoming) (sort_by unit_compare (targets_of outgoing x)) of
        (ready', incoming') \<Rightarrow> kahn outgoing ready' incoming' (order @ [x]))"
  by pat_completeness auto
termination
  by (relation "measure (\<lambda>(outgoing, ready, incoming, order). length ready + card (open_targets outgoing incoming))")
    (auto dest: kahn_measure [OF sym])

definition stableTopologicalOrder :: "string list \<Rightarrow> flow_edge list \<Rightarrow> string list \<times> bool" where
  "stableTopologicalOrder ids es =
     (case degrees ids es of (incoming, outgoing) \<Rightarrow>
        let order = kahn outgoing
              (sort_by unit_compare (filter (\<lambda>x. incoming x = Some 0) (remdups ids))) incoming []
        in (order, length order \<noteq> length ids))"

section \<open>Correctness of the order\<close>

definition inner_edges :: "string list \<Rightarrow> flow_edge list \<Rightarrow> flow_edge list" where
  "inner_edges ids es = filter (\<lambda>e. fst e \<in> set ids \<and> snd e \<in> set ids) es"

definition open_count :: "flow_edge list \<Rightarrow> string set \<Rightarrow> string \<Rightarrow> nat" where
  "open_count es S v = length (filter (\<lambda>e. snd e = v \<and> fst e \<notin> S) es)"

lemma edges_snoc:
  "inner_edges ids (es @ [e]) =
     inner_edges ids es @ (if fst e \<in> set ids \<and> snd e \<in> set ids then [e] else [])"
  "succs (es @ [e]) x = succs es x @ (if fst e = x then [snd e] else [])"
  "open_count (es @ [e]) {} x = open_count es {} x + (if snd e = x then 1 else 0)"
  by (simp_all add: inner_edges_def succs_def open_count_def)

lemma degrees_start:
  "fst (degrees ids []) v = (if v \<in> set ids then Some 0 else None)"
  "map_of (snd (degrees ids [])) v = (if v \<in> set ids then Some [] else None)"
  by (simp_all add: degrees_def map_of_map_restrict restrict_map_def)

lemma degrees_both:
  "(\<forall>v. fst (degrees ids es) v =
      (if v \<in> set ids then Some (int (open_count (inner_edges ids es) {} v)) else None)) \<and>
   (\<forall>v. map_of (snd (degrees ids es)) v =
      (if v \<in> set ids then Some (succs (inner_edges ids es) v) else None))"
proof (induction es rule: rev_induct)
  case Nil
  show ?case by (simp add: degrees_start inner_edges_def open_count_def succs_def)
next
  case (snoc e es)
  obtain u w where e: "e = (u, w)" by (cases e)
  obtain i ou where d: "degrees ids es = (i, ou)" by fastforce
  have step: "degrees ids (es @ [e]) = countEdge (i, ou) (u, w)"
    using d by (simp add: degrees_def e)
  show ?case
  proof (cases "u \<in> set ids \<and> w \<in> set ids")
    case True
    then have "degrees ids (es @ [e]) =
        (i(w \<mapsto> int (open_count (inner_edges ids es) {} w) + 1),
         AList.update u (succs (inner_edges ids es) u @ [w]) ou)"
      using snoc.IH d by (simp add: step countEdge_def)
    then show ?thesis using True snoc.IH d by (auto simp: e edges_snoc update_conv')
  next
    case False
    then have "degrees ids (es @ [e]) = (i, ou)"
      using snoc.IH d by (auto simp: step countEdge_def split: option.splits)
    moreover have "inner_edges ids (es @ [e]) = inner_edges ids es" using False by (simp add: e edges_snoc)
    ultimately show ?thesis using snoc.IH d by simp
  qed
qed

lemma degrees_exact:
  assumes "degrees ids es = (incoming, outgoing)"
  shows "(\<forall>v. incoming v = (if v \<in> set ids then Some (int (open_count (inner_edges ids es) {} v)) else None)) \<and>
    (\<forall>u. map_of outgoing u = (if u \<in> set ids then Some (succs (inner_edges ids es) u) else None))"
  using degrees_both [of ids es] assms by simp

lemma open_count_insert:
  "x \<notin> S \<Longrightarrow> open_count es (insert x S) v + count (mset (succs es x)) v = open_count es S v"
  by (induction es) (auto simp: open_count_def succs_def)

lemma open_count_0: "open_count es S v = 0 \<longleftrightarrow> (\<forall>u. (u, v) \<in> set es \<longrightarrow> u \<in> S)"
  by (auto simp: open_count_def filter_empty_conv)

text \<open>Between two steps of the inner loop: the targets \<open>ts\<close> are still to be counted down.\<close>

definition counting ::
    "string set \<Rightarrow> flow_edge list \<Rightarrow> string set \<Rightarrow> string list \<Rightarrow> string list \<Rightarrow> (string \<rightharpoonup> int) \<Rightarrow> bool" where
  "counting V es done ts ready incoming \<longleftrightarrow>
     distinct ready \<and> set ready \<subseteq> V \<and> done \<inter> set ready = {} \<and>
     (\<forall>v \<in> V. incoming v = Some (int (open_count es done v + count (mset ts) v))) \<and>
     (\<forall>v \<in> V. v \<in> done \<union> set ready \<longleftrightarrow> incoming v = Some 0)"

lemma release_counting:
  assumes c: "counting V es done (t # ts) ready incoming" and t: "t \<in> V"
    and r: "release (ready, incoming) t = (ready', incoming')"
  shows "counting V es done ts ready' incoming'"
proof -
  let ?n = "int (open_count es done t + count (mset ts) t)"
  have i: "incoming t = Some (?n + 1)" using c t by (simp add: counting_def)
  then have i': "incoming' = incoming(t \<mapsto> ?n)" and
    r': "ready' = (if ?n = 0 then sort_by unit_compare (ready @ [t]) else ready)"
    using r by (auto simp: release_def Let_def)
  have fresh: "t \<notin> done \<union> set ready" using c t i by (simp add: counting_def)
  have "distinct (sort_by unit_compare (ready @ [t]))"
    using c fresh by (simp add: counting_def mset_eq_imp_distinct_iff [OF mset_sort_by])
  then show ?thesis
    using c t fresh unfolding counting_def i' r' by auto
qed

lemma releases_counting:
  "counting V es done ts ready incoming \<Longrightarrow> set ts \<subseteq> V \<Longrightarrow>
     foldl release (ready, incoming) ts = (ready', incoming') \<Longrightarrow> counting V es done [] ready' incoming'"
proof (induction ts arbitrary: ready incoming)
  case (Cons t ts)
  obtain r i where ri: "release (ready, incoming) t = (r, i)" by fastforce
  show ?case
    using Cons.IH [OF release_counting [OF Cons.prems(1) _ ri]] Cons.prems(2,3) ri by simp
qed simp

text \<open>Between two steps of the outer loop.\<close>

definition ordered :: "flow_edge list \<Rightarrow> string list \<Rightarrow> bool" where
  "ordered es order \<longleftrightarrow> (\<forall>i < length order. \<forall>u. (u, order ! i) \<in> set es \<longrightarrow> u \<in> set (take i order))"

definition kahn_inv ::
    "string set \<Rightarrow> flow_edge list \<Rightarrow> string list \<Rightarrow> string list \<Rightarrow> (string \<rightharpoonup> int) \<Rightarrow> bool" where
  "kahn_inv V es order ready incoming \<longleftrightarrow>
     distinct order \<and> set order \<subseteq> V \<and> ordered es order \<and> counting V es (set order) [] ready incoming"

lemma ordered_snoc:
  "ordered es order \<Longrightarrow> (\<forall>u. (u, x) \<in> set es \<longrightarrow> u \<in> set order) \<Longrightarrow> ordered es (order @ [x])"
  by (auto simp: ordered_def nth_append less_Suc_eq)

lemma kahn_step:
  assumes k: "kahn_inv V es order (x # ready) incoming" and es: "\<forall>(u, v) \<in> set es. u \<in> V \<and> v \<in> V"
    and f: "foldl release (ready, incoming) (sort_by unit_compare (succs es x)) = (ready', incoming')"
  shows "kahn_inv V es (order @ [x]) ready' incoming'"
proof -
  from k have c: "counting V es (set order) [] (x # ready) incoming" by (simp add: kahn_inv_def)
  then have x: "x \<in> V" "x \<notin> set order" "incoming x = Some 0" by (auto simp: counting_def)
  have "counting V es (insert x (set order)) (sort_by unit_compare (succs es x)) ready incoming"
    unfolding counting_def
  proof (intro conjI ballI)
    fix v assume "v \<in> V"
    then have "incoming v = Some (int (open_count es (set order) v))" using c by (simp add: counting_def)
    then show "incoming v = Some (int (open_count es (insert x (set order)) v +
        count (mset (sort_by unit_compare (succs es x))) v))"
      using open_count_insert [OF x(2), of es v] by simp
  qed (use c x in \<open>auto simp: counting_def\<close>)
  then have "counting V es (set (order @ [x])) [] ready' incoming'"
    using releases_counting [OF _ _ f] es by fastforce
  moreover have "open_count es (set order) x = 0" using c x by (simp add: counting_def)
  then have "ordered es (order @ [x])"
    using k by (intro ordered_snoc) (auto simp: kahn_inv_def open_count_0)
  ultimately show ?thesis using k x by (simp add: kahn_inv_def)
qed

lemma kahn_exact:
  assumes "kahn_inv V es order ready incoming" and "\<forall>(u, v) \<in> set es. u \<in> V \<and> v \<in> V"
    and "targets_of outgoing = succs es"
  shows "\<exists>incoming'. kahn_inv V es (kahn outgoing ready incoming order) [] incoming'"
  using assms
proof (induction outgoing ready incoming order rule: kahn.induct)
  case (2 outgoing x ready incoming order)
  obtain r i where ri: "foldl release (ready, incoming) (sort_by unit_compare (succs es x)) = (r, i)" by fastforce
  show ?case
    using "2.IH" [OF _ kahn_step [OF "2.prems"(1,2) ri]] "2.prems"(2,3) ri by simp
qed auto

lemma order_invariant:
  "\<exists>incoming. kahn_inv (set ids) (inner_edges ids es) (fst (stableTopologicalOrder ids es)) [] incoming"
proof -
  obtain i ou where d: "degrees ids es = (i, ou)" by fastforce
  note de = degrees_exact [OF d]
  let ?E = "inner_edges ids es" and ?r = "sort_by unit_compare (filter (\<lambda>x. i x = Some 0) (remdups ids))"
  have E: "\<forall>(u, v) \<in> set ?E. u \<in> set ids \<and> v \<in> set ids" by (auto simp: inner_edges_def)
  have out: "targets_of ou = succs ?E"
    using de no_neighbours(2) by (fastforce simp: targets_of_def inner_edges_def succs_def filter_empty_conv)
  have "distinct ?r" by (simp add: mset_eq_imp_distinct_iff [OF mset_sort_by])
  then have "kahn_inv (set ids) ?E [] ?r i"
    using de by (auto simp: kahn_inv_def ordered_def counting_def)
  from kahn_exact [OF this E out] show ?thesis
    by (simp add: stableTopologicalOrder_def d Let_def)
qed

lemma flow_order_acyclic:
  assumes "distinct order" and "ordered es order" and "\<forall>(u, v) \<in> R. (u, v) \<in> set es \<and> v \<in> set order"
  shows "acyclic R"
proof -
  let ?pos = "the_inv_into {..< length order} (nth order)"
  have pos: "?pos (order ! i) = i" if "i < length order" for i
    using that assms(1) by (intro the_inv_into_f_f) (auto intro: inj_on_nth)
  have "?pos u < ?pos v" if uv: "(u, v) \<in> R" for u v
  proof -
    obtain j where j: "j < length order" "order ! j = v" using assms(3) uv by (auto simp: in_set_conv_nth)
    then have "u \<in> set (take j order)" using assms(2,3) uv by (auto simp: ordered_def)
    then obtain i where "i < j" "order ! i = u" using j(1) by (auto simp: in_set_conv_nth)
    then show ?thesis using j pos [of i] pos [of j] by simp
  qed
  then have "R \<subseteq> measure ?pos" by auto
  then show ?thesis by (intro wf_acyclic wf_subset [OF wf_measure])
qed

lemma topological_correct:
  defines "order ids es \<equiv> fst (stableTopologicalOrder ids es)"
    and "inner ids es \<equiv> {(u, v). (u, v) \<in> set es \<and> u \<in> set ids \<and> v \<in> set ids}"
  shows "distinct (order ids es) \<and> set (order ids es) \<subseteq> set ids \<and>
    (\<forall>i < length (order ids es). \<forall>u. (u, order ids es ! i) \<in> inner ids es \<longrightarrow> u \<in> set (take i (order ids es))) \<and>
    (snd (stableTopologicalOrder ids es) = (\<not> (distinct ids \<and> acyclic (inner ids es)))) \<and>
    (snd (stableTopologicalOrder ids es) \<or> set (order ids es) = set ids)"
proof -
  let ?E = "inner_edges ids es" and ?o = "order ids es"
  have E: "set ?E = inner ids es" by (auto simp: inner_edges_def inner_def)
  obtain i where k: "kahn_inv (set ids) ?E ?o [] i" using order_invariant by (auto simp: order_def)
  then have d: "distinct ?o" and sub: "set ?o \<subseteq> set ids" and ord: "ordered ?E ?o"
    and c: "counting (set ids) ?E (set ?o) [] [] i"
    by (auto simp: kahn_inv_def)
  have cyc: "snd (stableTopologicalOrder ids es) = (length ?o \<noteq> length ids)"
    by (simp add: order_def stableTopologicalOrder_def Let_def split: prod.splits)
  have full: "length ?o = length ids \<longleftrightarrow> distinct ids \<and> set ?o = set ids"
    using d sub by (metis card_distinct card_length card_subset_eq card_mono distinct_card finite_set le_antisym)
  have "set ?o = set ids \<longleftrightarrow> acyclic (inner ids es)"
  proof
    assume all: "set ?o = set ids"
    show "acyclic (inner ids es)"
      using flow_order_acyclic [OF d ord] all E by (auto simp: inner_def)
  next
    assume "acyclic (inner ids es)"
    then have wf: "wf (inner ids es)"
      using E by (metis finite_acyclic_wf List.finite_set)
    show "set ?o = set ids"
    proof (rule ccontr)
      assume "set ?o \<noteq> set ids"
      then obtain v where "v \<in> set ids - set ?o" using sub by blast
      from wfE_min [OF wf this] obtain z where z: "z \<in> set ids - set ?o"
        "\<And>u. (u, z) \<in> inner ids es \<Longrightarrow> u \<notin> set ids - set ?o" by blast
      then have "open_count ?E (set ?o) z \<noteq> 0" using c by (auto simp: counting_def)
      then obtain u where "(u, z) \<in> inner ids es" "u \<notin> set ?o" using E by (auto simp: open_count_0)
      then show False using z by (auto simp: inner_def)
    qed
  qed
  then show ?thesis using d sub ord cyc full E by (auto simp: ordered_def)
qed

text \<open>C14: the compiled order lists every node at most once and each after all its predecessors, and the
  graph is called cyclic exactly when a node id is repeated or the edges between its nodes have a
  cycle; so an order that is accepted is a topological order of all nodes.\<close>

theorem topological_order_exact:
  defines "order ids es \<equiv> fst (stableTopologicalOrder ids es)"
    and "inner ids es \<equiv> {(u, v). (u, v) \<in> set es \<and> u \<in> set ids \<and> v \<in> set ids}"
  shows "distinct (order ids es) \<and> set (order ids es) \<subseteq> set ids \<and>
    (\<forall>i < length (order ids es). \<forall>u. (u, order ids es ! i) \<in> inner ids es \<longrightarrow> u \<in> set (take i (order ids es))) \<and>
    (snd (stableTopologicalOrder ids es) = (\<not> (distinct ids \<and> acyclic (inner ids es)))) \<and>
    (snd (stableTopologicalOrder ids es) \<or> set (order ids es) = set ids)"
  unfolding assms by (rule topological_correct)

theorem topological_order_exact_witness:
  "set (fst (stableTopologicalOrder [''b'', ''a''] [(''a'', ''b'')])) = {''a'', ''b''} \<and>
     \<not> snd (stableTopologicalOrder [''b'', ''a''] [(''a'', ''b'')])"
proof -
  have "{(u, v). (u, v) \<in> set [(''a'', ''b'')] \<and> u \<in> set [''b'', ''a''] \<and> v \<in> set [''b'', ''a'']} = {(''a'', ''b'')}"
    by auto
  moreover have "acyclic {(''a'', ''b'')}" by (auto simp: acyclic_def trancl_insert2)
  ultimately show ?thesis
    using topological_order_exact [of "[''b'', ''a'']" "[(''a'', ''b'')]"] by (auto simp: insert_commute)
qed

end
