(* ===== verification/Workflow_Issues.thy ===== *)
theory Workflow_Issues
  imports Workflow_Security Workflow_Order
begin

text \<open>
  The checks \<open>compileWorkflowGraph\<close> runs on one node, schema or mapping: \<open>typedDecisionIssues\<close>,
  \<open>configurationIssues\<close>, \<open>schemaIssues\<close>, \<open>approvalIssues\<close>, \<open>mappingIssues\<close> and
  \<open>schemaAtTargetPointer\<close> of \<open>modules/workflows/src/domain/graph.ts\<close>, with the reference catalog they
  ask. Every issue is an error; its message is dropped, its code and location kept.
\<close>

section \<open>Issues and the catalog\<close>

datatype issue_code =
  WORKFLOW_DECISION_NODE_INVALID | WORKFLOW_LIMIT_EXCEEDED | WORKFLOW_EXECUTABLE_CONFIGURATION_FORBIDDEN
| WORKFLOW_SCHEMA_ID_INVALID | WORKFLOW_SCHEMA_KEY_UNSUPPORTED | WORKFLOW_GATE_INVALID
| WORKFLOW_MAPPING_POINTER_INVALID | WORKFLOW_MAPPING_TARGET_ISSUE | WORKFLOW_MAPPING_SOURCE_ISSUE
| WORKFLOW_MAPPING_SOURCE_UNSAFE | WORKFLOW_APPROVAL_CAPABILITY_UNAVAILABLE
| WORKFLOW_APPROVAL_REQUIREMENT_INVALID | WORKFLOW_APPROVAL_ROLE_UNKNOWN | WORKFLOW_GRAPH_VERSION_UNSUPPORTED
| WORKFLOW_SECRET_SCHEMA_VALUE | WORKFLOW_NODE_ID_INVALID | WORKFLOW_NODE_DUPLICATE | WORKFLOW_PORT_INVALID
| WORKFLOW_SCHEMA_MISSING | WORKFLOW_PORT_CONTRACT_INVALID | WORKFLOW_RETRY_POLICY_INVALID
| WORKFLOW_AGENT_TOOL_GRANTS_INVALID | WORKFLOW_AGENT_TOOL_GRANT_NOT_ALLOWED | WORKFLOW_ACTION_VERSION_UNSAFE
| WORKFLOW_ACTION_CONTRACT_DRIFT | WORKFLOW_ACTION_SCHEMA_MISMATCH | WORKFLOW_ACTION_IDEMPOTENCY_UNSAFE
| WORKFLOW_ACTION_RISK_DENIED | WORKFLOW_ACTION_SECRET_BINDING | WORKFLOW_ACTION_SCHEMA_UNAVAILABLE
| WORKFLOW_MAPPING_TARGET_UNSAFE | WORKFLOW_EDGE_ID_INVALID | WORKFLOW_EDGE_DUPLICATE | WORKFLOW_EDGE_DANGLING
| WORKFLOW_EDGE_PORT_MISSING | WORKFLOW_EDGE_SCHEMA_INCOMPATIBLE | WORKFLOW_INPUT_UNCONNECTED
| WORKFLOW_INPUT_CARDINALITY | WORKFLOW_TERMINAL_OUTPUT_MISSING | WORKFLOW_INPUT_COUNT_INVALID
| WORKFLOW_OUTPUT_MISSING | WORKFLOW_GRAPH_CYCLE | WORKFLOW_NODE_UNREACHABLE | WORKFLOW_ACTION_LITERAL_INVALID
| WORKFLOW_CONNECTOR_OUTPUT_UNSTABLE | WORKFLOW_AGENT_REVISION_MISSING | WORKFLOW_ACTION_VERSION_MISSING

datatype issue_location =
  At_graph
| At_node string "string option"
| At_edge string

type_synonym issue = "issue_code \<times> issue_location"

datatype agent_answer = Known bool | Described bool "string list"

datatype template_effect = Local | Connector_egress
datatype action_risk = Read | Workspace_write | External | Destructive
datatype action_idempotency = Required | No_idempotency

record action_descriptor =
  action_available :: bool
  requiredPermissions :: "string list"
  inputSchema_of :: "json_schema option"
  outputSchema_of :: "json_schema option"
  digest_of :: "string option"
  workflowTemplateEffect :: "template_effect option"
  target_ledger :: bool
  risk :: "action_risk option"
  idempotency :: "action_idempotency option"

record reference_catalog =
  cat_agent :: "string \<Rightarrow> int \<Rightarrow> agent_answer"
  cat_action :: "string \<Rightarrow> int \<Rightarrow> action_descriptor"
  cat_approval :: "(bool \<times> string list) option"

section \<open>Typed decisions\<close>

text \<open>\<open>/^[a-z][a-z0-9_]{0,63}$/\<close> and \<open>/^[a-zA-Z0-9_.-]{1,200}$/\<close>.\<close>

definition is_question_key :: "string \<Rightarrow> bool" where
  "is_question_key s =
     (s \<noteq> [] \<and> is_lower (hd s) \<and> length s \<le> 64 \<and>
      list_all (\<lambda>c. is_lower c \<or> is_digit c \<or> c = CHR ''_'') (tl s))"

definition is_state_path :: "string \<Rightarrow> bool" where
  "is_state_path s =
     (1 \<le> length s \<and> length s \<le> 200 \<and>
      list_all (\<lambda>c. is_lower c \<or> is_upper c \<or> is_digit c \<or> c \<in> set ''_.-'') s)"

definition decision_issue :: "string \<Rightarrow> string \<Rightarrow> issue" where
  "decision_issue nodeId path = (WORKFLOW_DECISION_NODE_INVALID, At_node nodeId (Some path))"

definition issue_if :: "bool \<Rightarrow> 'i \<Rightarrow> 'i list" where
  "issue_if c i = (if c then [i] else [])"

lemma issue_if_Nil [simp]: "issue_if c i = [] \<longleftrightarrow> \<not> c"
  by (simp add: issue_if_def)

definition answers_of :: "decision_question \<Rightarrow> string list" where
  "answers_of q = (case question_answers q of None \<Rightarrow> [] | Some as \<Rightarrow> as)"

fun question_issues :: "string \<Rightarrow> string set \<Rightarrow> decision_question list \<Rightarrow> issue list" where
  "question_issues nodeId keys [] = []"
| "question_issues nodeId keys (q # qs) =
     (let at = decision_issue nodeId ''/questions'' in
      if \<not> is_question_key (question_key q) \<or> question_key q \<in> keys
      then at # question_issues nodeId keys qs
      else
        issue_if (trim (instruction q) = [] \<or> maxInstructionLength < length (instruction q)) at @
        (if question_kind q = Choice \<or> question_kind q = Score then
           issue_if (length (answers_of q) < 2 \<or> maxAnswers < length (answers_of q)) at @
           issue_if (list_ex (\<lambda>a. a = [] \<or> maxAnswerLength < length a) (answers_of q)) at
         else []) @
        question_issues nodeId (insert (question_key q) keys) qs)"

definition typedDecisionIssues :: "string \<Rightarrow> decision_config \<Rightarrow> issue list" where
  "typedDecisionIssues nodeId cfg =
     (let at = decision_issue nodeId in
      issue_if (length (questions cfg) < 1 \<or> maxQuestions < length (questions cfg)) (at ''/questions'') @
      question_issues nodeId {} (questions cfg) @
      (case find (\<lambda>q. question_key q = decidingQuestion cfg) (questions cfg) of
         None \<Rightarrow> [at ''/decidingQuestion'']
       | Some deciding \<Rightarrow>
           if question_kind deciding = Noul then [at ''/decidingQuestion'']
           else issue_if (passAnswer cfg \<notin> set (answers_of deciding)) (at ''/passAnswer'')) @
      issue_if (confidenceThreshold cfg < 0 \<or> 1000 < confidenceThreshold cfg) (at ''/confidenceThreshold'') @
      issue_if (length (statePaths cfg) < 1 \<or> 32 < length (statePaths cfg)) (at ''/statePaths'') @
      issue_if (list_ex (\<lambda>p. \<not> is_state_path p) (statePaths cfg)) (at ''/statePaths''))"

section \<open>Configuration and schemas\<close>

definition FORBIDDEN_CONFIGURATION_KEYS :: "string set" where
  "FORBIDDEN_CONFIGURATION_KEYS =
     {''eval'', ''javascript'', ''script'', ''sourceCode'', ''shell'', ''dynamicImport''}"

function inspect_configuration :: "string \<Rightarrow> json \<Rightarrow> string \<Rightarrow> nat \<Rightarrow> issue list" where
  "inspect_configuration nodeId v path depth =
     (if 24 < depth then [(WORKFLOW_LIMIT_EXCEEDED, At_node nodeId (Some path))]
      else case v of
        JArr vs \<Rightarrow>
          concat (map (\<lambda>(i, entry). inspect_configuration nodeId entry (path @ ''/'' @ show_nat i) (depth + 1))
            (enumerate 0 vs))
      | JObj kvs \<Rightarrow>
          concat (map (\<lambda>(key, entry).
            issue_if (key \<in> FORBIDDEN_CONFIGURATION_KEYS)
              (WORKFLOW_EXECUTABLE_CONFIGURATION_FORBIDDEN, At_node nodeId (Some (path @ ''/'' @ key))) @
            inspect_configuration nodeId entry (path @ ''/'' @ key) (depth + 1)) kvs)
      | _ \<Rightarrow> [])"
  by pat_completeness auto
termination
  by (relation "measure (\<lambda>(nodeId, v, path, depth). 25 - depth)") auto

declare inspect_configuration.simps [simp del]

definition configurationIssues :: "workflow_node \<Rightarrow> issue list" where
  "configurationIssues node = inspect_configuration (node_id node) (JObj (node_raw node)) [] 0"

definition SCHEMA_KEYWORDS :: "string list" where
  "SCHEMA_KEYWORDS =
     [''$id'', ''title'', ''description'', ''type'', ''properties'', ''required'', ''additionalProperties'',
      ''items'', ''enum'', ''const'', ''minLength'', ''maxLength'', ''minimum'', ''maximum'']"

function walk_schema :: "json \<Rightarrow> nat \<Rightarrow> issue list" where
  "walk_schema v depth =
     (if 12 < depth then [(WORKFLOW_LIMIT_EXCEEDED, At_graph)]
      else case v of
        JArr vs \<Rightarrow> concat (map (\<lambda>entry. walk_schema entry (depth + 1)) vs)
      | JObj kvs \<Rightarrow>
          concat (map (\<lambda>(key, entry).
            issue_if (depth = 0 \<and> key \<notin> set SCHEMA_KEYWORDS) (WORKFLOW_SCHEMA_KEY_UNSUPPORTED, At_graph) @
            walk_schema entry (depth + 1)) kvs)
      | _ \<Rightarrow> [])"
  by pat_completeness auto
termination
  by (relation "measure (\<lambda>(v, depth). 13 - depth)") auto

declare walk_schema.simps [simp del]

definition schemaIssues :: "(string \<Rightarrow> string \<Rightarrow> int) \<Rightarrow> string \<Rightarrow> json_schema \<Rightarrow> issue list" where
  "schemaIssues cmp schemaId schema =
     issue_if (\<not> dotted_id schemaId) (WORKFLOW_SCHEMA_ID_INVALID, At_graph) @
     issue_if (16 * 1024 < jsonByteSize cmp (JObj schema)) (WORKFLOW_LIMIT_EXCEEDED, At_graph) @
     walk_schema (JObj schema) 0"

section \<open>Approvals\<close>

definition bound_issue :: "string \<Rightarrow> json option \<Rightarrow> string \<Rightarrow> int \<Rightarrow> issue list" where
  "bound_issue nodeId v name limit =
     (case v of
        None \<Rightarrow> []
      | Some j \<Rightarrow>
          issue_if (case j of JNum n \<Rightarrow> MAX_SAFE_INTEGER < \<bar>n\<bar> \<or> n < 1 \<or> limit < n | _ \<Rightarrow> True)
            (WORKFLOW_APPROVAL_REQUIREMENT_INVALID, At_node nodeId (Some (''/requirement/'' @ name))))"

fun named_text :: "json option \<Rightarrow> string option" where
  "named_text (Some (JStr s)) = (if s = [] then None else Some s)"
| "named_text _ = None"

definition approvalIssues ::
    "workflow_node \<Rightarrow> (string \<times> json) list option \<Rightarrow> string option \<Rightarrow> reference_catalog option \<Rightarrow> issue list" where
  "approvalIssues node requirement prompt catalog =
     (let nodeId = node_id node; approval = Option.bind catalog cat_approval in
      issue_if (case approval of None \<Rightarrow> True | Some (available, roles) \<Rightarrow> \<not> available)
        (WORKFLOW_APPROVAL_CAPABILITY_UNAVAILABLE, At_node nodeId None) @
      issue_if (case prompt of None \<Rightarrow> False | Some p \<Rightarrow> approvalTitleLimit < length p)
        (WORKFLOW_LIMIT_EXCEEDED, At_node nodeId (Some ''/prompt'')) @
      issue_if (approvalTitleLimit < length (node_label node))
        (WORKFLOW_LIMIT_EXCEEDED, At_node nodeId (Some ''/label'')) @
      (case requirement of
         None \<Rightarrow> [(WORKFLOW_APPROVAL_REQUIREMENT_INVALID, At_node nodeId (Some ''/requirement''))]
       | Some r \<Rightarrow>
           issue_if (named_text (field r ''roleKey'') = None \<and> named_text (field r ''scope'') = None)
             (WORKFLOW_APPROVAL_REQUIREMENT_INVALID, At_node nodeId (Some ''/requirement'')) @
           bound_issue nodeId (field r ''decisions'') ''decisions'' maxApprovalDecisions @
           bound_issue nodeId (field r ''expiresInDays'') ''expiresInDays'' maxApprovalExpiryDays @
           (case (named_text (field r ''roleKey''), approval) of
              (Some role, Some (available, roles)) \<Rightarrow>
                issue_if (role \<notin> set roles)
                  (WORKFLOW_APPROVAL_ROLE_UNKNOWN, At_node nodeId (Some ''/requirement/roleKey''))
            | _ \<Rightarrow> [])))"

section \<open>Mappings\<close>

text \<open>Walks the target's schema; a missing child ends the walk without an answer.\<close>

datatype target_place = Forbidden | Described_by json_schema | Undescribed

fun target_place_at :: "json_schema \<Rightarrow> string list \<Rightarrow> target_place" where
  "target_place_at current [] = Described_by current"
| "target_place_at current (part # parts) =
     (let child =
        (if field current ''type'' = Some (JStr ''object'') then
           (case field (schema_properties current) part of
              Some c \<Rightarrow> Some c
            | None \<Rightarrow> field current ''additionalProperties'')
         else if field current ''type'' = Some (JStr ''array'') \<and> is_numeral part then field current ''items''
         else None)
      in if field current ''type'' = Some (JStr ''object'') \<and> child = Some (JBool False) then Forbidden
         else case child of
           Some (JObj c) \<Rightarrow> target_place_at c parts
         | _ \<Rightarrow> Undescribed)"

definition schemaAtTargetPointer :: "json_schema option \<Rightarrow> string \<Rightarrow> target_place" where
  "schemaAtTargetPointer schema pointer =
     (case schema of
        None \<Rightarrow> Undescribed
      | Some s \<Rightarrow>
          if \<not> writableTargetPointer pointer then Undescribed
          else target_place_at s (schema_segments pointer))"

record graph_index =
  index_of :: "string \<rightharpoonup> nat"
  node_by_id :: "string \<rightharpoonup> workflow_node"

definition flow_edges :: "workflow_graph \<Rightarrow> flow_edge list" where
  "flow_edges graph = map (\<lambda>e. (edge_source e, edge_target e)) (edges graph)"

definition source_port_of :: "graph_index \<Rightarrow> mapping_source \<Rightarrow> port option" where
  "source_port_of index source =
     Option.bind (node_by_id index (sourceNodeId source)) (\<lambda>n. find_port (outputPorts n) (sourcePort source))"

definition source_misplaced :: "workflow_graph \<Rightarrow> graph_index \<Rightarrow> workflow_node \<Rightarrow> mapping_source \<Rightarrow> bool" where
  "source_misplaced graph index node source =
     ((case (index_of index (sourceNodeId source), index_of index (node_id node)) of
         (Some i, Some j) \<Rightarrow> j \<le> i
       | _ \<Rightarrow> True) \<or>
      source_port_of index source = None \<or>
      \<not> isUpstream (flow_edges graph) (sourceNodeId source) (node_id node))"

definition source_issues ::
    "workflow_graph \<Rightarrow> graph_index \<Rightarrow> workflow_node \<Rightarrow> string \<Rightarrow> mapping_source \<Rightarrow> issue list" where
  "source_issues graph index node target source =
     issue_if (\<not> validPointer (source_pointer source)) (WORKFLOW_MAPPING_POINTER_INVALID, At_node (node_id node) None) @
     issue_if (source_misplaced graph index node source) (WORKFLOW_MAPPING_SOURCE_ISSUE, At_node (node_id node) None) @
     (case source_port_of index source of
        None \<Rightarrow> []
      | Some port \<Rightarrow>
          let schema = graph_schema graph (port_schemaId port) in
          issue_if (validPointer (source_pointer source) \<and> \<not> sourcePointerIsSafe schema (source_pointer source))
            (WORKFLOW_MAPPING_SOURCE_UNSAFE, At_node (node_id node) (Some ''/mappings'')) @
          issue_if (target = [] \<and> validPointer (source_pointer source) \<and>
              \<not> sourcePointerIsObject schema (source_pointer source))
            (WORKFLOW_MAPPING_TARGET_ISSUE, At_node (node_id node) None))"

definition mappingIssues ::
    "workflow_graph \<Rightarrow> graph_index \<Rightarrow> workflow_node \<Rightarrow> target_mapping \<Rightarrow> issue list" where
  "mappingIssues graph index node mapping =
     issue_if (\<not> writableTargetPointer (targetPointer mapping))
       (WORKFLOW_MAPPING_POINTER_INVALID, At_node (node_id node) None) @
     issue_if (targetPointer mapping = [] \<and>
         (case mapping_binding mapping of
            Literal v \<Rightarrow> \<not> is_record v | Path s \<Rightarrow> False | Template t vs \<Rightarrow> True))
       (WORKFLOW_MAPPING_TARGET_ISSUE, At_node (node_id node) None) @
     (case mapping_binding mapping of
        Template t vs \<Rightarrow>
          issue_if (8 * 1024 < utf8_length t) (WORKFLOW_LIMIT_EXCEEDED, At_node (node_id node) None)
      | _ \<Rightarrow> []) @
     concat (map (source_issues graph index node (targetPointer mapping)) (binding_sources (mapping_binding mapping)))"

end
