(* ===== verification/Workflow_Compile.thy ===== *)
theory Workflow_Compile
  imports Workflow_Issues
begin

text \<open>
  \<open>compileWorkflowGraph\<close> of \<open>modules/workflows/src/domain/graph.ts\<close>, loop by loop, and what a valid
  report guarantees of the graph. SHA-256 and \<open>localeCompare\<close> are parameters.
\<close>

section \<open>The checksum\<close>

definition port_json :: "port \<Rightarrow> json" where
  "port_json p = JObj [(''name'', JStr (port_name p)), (''schemaId'', JStr (port_schemaId p))]"

definition end_json :: "string \<Rightarrow> string \<Rightarrow> json" where
  "end_json node port = JObj [(''nodeId'', JStr node), (''port'', JStr port)]"

definition edge_json :: "workflow_edge \<Rightarrow> json" where
  "edge_json e =
     JObj ([(''id'', JStr (edge_id e)), (''source'', end_json (edge_source e) (edge_sourcePort e)),
       (''target'', end_json (edge_target e) (edge_targetPort e))] @
       (case edge_label e of None \<Rightarrow> [] | Some l \<Rightarrow> [(''label'', JStr l)]))"

definition semantic_fields :: "workflow_graph \<Rightarrow> (string \<times> json) list" where
  "semantic_fields graph =
     [(''schemaVersion'', JNum (schemaVersion graph)),
      (''nodes'', JArr (map (\<lambda>n. JObj (node_raw n)) (nodes graph))),
      (''edges'', JArr (map edge_json (edges graph))),
      (''schemas'', JObj (map (\<lambda>(i, s). (i, JObj s)) (schemas graph)))]"

definition graph_json :: "workflow_graph \<Rightarrow> json" where
  "graph_json graph = JObj (semantic_fields graph @ [(''layout'', layout graph)])"

definition workflowGraphChecksum ::
    "(string \<Rightarrow> string) \<Rightarrow> (string \<Rightarrow> string \<Rightarrow> int) \<Rightarrow> workflow_graph \<Rightarrow> string" where
  "workflowGraphChecksum sha256 cmp graph = ''sha256:'' @ sha256 (canonical cmp (JObj (semantic_fields graph)))"

section \<open>Ports\<close>

fun expected_ports :: "node_kind \<Rightarrow> string list \<times> string list" where
  "expected_ports Input_node = ([], [''data''])"
| "expected_ports (Agent_node a g sid) = ([''input''], [''success'', ''failure''])"
| "expected_ports (Agent_decision_node a g sid fid) = ([''input''], [''pass'', ''fail'', ''failure''])"
| "expected_ports (Typed_decision_node c) = ([''input''], [''pass'', ''fail'', ''failure''])"
| "expected_ports (Gate_node e) = ([''input''], [''pass'', ''fail''])"
| "expected_ports (Validator_node s) = ([''input''], [''pass'', ''fail''])"
| "expected_ports (Action_node a) = ([''input''], [''success'', ''failure''])"
| "expected_ports (Human_approval_node r p) = ([''input''], [''approved''])"
| "expected_ports Merge_node = ([''items''], [''data''])"
| "expected_ports Output_node = ([''input''], [])"

definition sorted_names :: "string list \<Rightarrow> string" where
  "sorted_names names = join ''|'' (sort_by unit_compare names)"

definition side_issues :: "workflow_graph \<Rightarrow> string \<Rightarrow> port list \<Rightarrow> issue list" where
  "side_issues graph nodeId ports =
     issue_if (\<not> distinct (map port_name ports) \<or> list_ex (\<lambda>p. \<not> kebab_id (port_name p)) ports)
       (WORKFLOW_PORT_INVALID, At_node nodeId None) @
     concat (map (\<lambda>p. issue_if (graph_schema graph (port_schemaId p) = None)
       (WORKFLOW_SCHEMA_MISSING, At_node nodeId None)) ports)"

definition port_issues :: "workflow_graph \<Rightarrow> workflow_node \<Rightarrow> issue list" where
  "port_issues graph node =
     (let (ins, outs) = expected_ports (node_kind node) in
      side_issues graph (node_id node) (inputPorts node) @ side_issues graph (node_id node) (outputPorts node) @
      issue_if (sorted_names ins \<noteq> sorted_names (map port_name (inputPorts node)) \<or>
          sorted_names outs \<noteq> sorted_names (map port_name (outputPorts node)))
        (WORKFLOW_PORT_CONTRACT_INVALID, At_node (node_id node) None))"

definition policy_issues :: "workflow_node \<Rightarrow> issue list" where
  "policy_issues node =
     (case failurePolicy node of
        None \<Rightarrow> []
      | Some p \<Rightarrow>
          issue_if (maxAttempts p < 1 \<or> maxAttemptsPerNode < maxAttempts p \<or> initialMs p < 0 \<or>
              maximumMs p < initialMs p \<or> 3600000 < maximumMs p)
            (WORKFLOW_RETRY_POLICY_INVALID, At_node (node_id node) None))"

section \<open>Agents and actions\<close>

datatype reference_kind = Schema_ref | Agent_ref | Action_ref | Approval_ref

record reference =
  ref_kind :: reference_kind
  ref_id :: string
  ref_version :: string
  ref_available :: bool

definition agent_answer_of :: "reference_catalog option \<Rightarrow> agent_reference \<Rightarrow> agent_answer" where
  "agent_answer_of catalog a =
     (case catalog of None \<Rightarrow> Known False | Some c \<Rightarrow> cat_agent c (agentId a) (agent_revision a))"

fun answer_available :: "agent_answer \<Rightarrow> bool" where
  "answer_available (Known b) = b"
| "answer_available (Described b tools) = b"

definition agent_issues ::
    "workflow_node \<Rightarrow> agent_reference \<Rightarrow> string list \<Rightarrow> reference_catalog option \<Rightarrow> issue list" where
  "agent_issues node a grants catalog =
     (if 32 < length grants \<or> \<not> distinct grants \<or> list_ex (\<lambda>tool. \<not> dotted_id tool) grants
      then [(WORKFLOW_AGENT_TOOL_GRANTS_INVALID, At_node (node_id node) (Some ''/toolGrants''))]
      else case agent_answer_of catalog a of
        Known b \<Rightarrow> []
      | Described available allowed \<Rightarrow>
          issue_if (list_ex (\<lambda>tool. tool \<notin> set allowed) grants)
            (WORKFLOW_AGENT_TOOL_GRANT_NOT_ALLOWED, At_node (node_id node) (Some ''/toolGrants'')))"

definition missing_action :: action_descriptor where
  "missing_action =
     \<lparr>action_available = False, requiredPermissions = [], inputSchema_of = None, outputSchema_of = None,
      digest_of = None, workflowTemplateEffect = None, target_ledger = False, risk = None, idempotency = None\<rparr>"

definition action_descriptor_of :: "reference_catalog option \<Rightarrow> action_reference \<Rightarrow> action_descriptor" where
  "action_descriptor_of catalog a =
     (case catalog of None \<Rightarrow> missing_action | Some c \<Rightarrow> cat_action c (actionId a) (contractVersion a))"

text \<open>\<open>/^sha256:[a-f0-9]{64}$/\<close>.\<close>

definition is_digest :: "string \<Rightarrow> bool" where
  "is_digest s =
     (starts_with ''sha256:'' s \<and> length s = 71 \<and>
      list_all (\<lambda>c. is_digit c \<or> 97 \<le> code c \<and> code c \<le> 102) (drop 7 s))"

definition schema_text :: "(string \<Rightarrow> string \<Rightarrow> int) \<Rightarrow> json_schema option \<Rightarrow> string option" where
  "schema_text cmp schema = map_option (\<lambda>s. canonical cmp (JObj s)) schema"

text \<open>\<open>action.inputSchema && inputId && canonical(graph.schemas[inputId]) !== canonical(...)\<close>.\<close>

definition schema_drifted ::
    "(string \<Rightarrow> string \<Rightarrow> int) \<Rightarrow> workflow_graph \<Rightarrow> json_schema option \<Rightarrow> port option \<Rightarrow> bool" where
  "schema_drifted cmp graph expected port =
     (case (expected, port) of
        (Some e, Some p) \<Rightarrow>
          port_schemaId p \<noteq> [] \<and> schema_text cmp (graph_schema graph (port_schemaId p)) \<noteq> schema_text cmp (Some e)
      | _ \<Rightarrow> False)"

definition pinned_issues ::
    "(string \<Rightarrow> string \<Rightarrow> int) \<Rightarrow> workflow_graph \<Rightarrow> workflow_node \<Rightarrow> action_reference \<Rightarrow> action_descriptor \<Rightarrow> issue list" where
  "pinned_issues cmp graph node a action =
     (case descriptorDigest a of
        None \<Rightarrow> []
      | Some d \<Rightarrow>
          issue_if (\<not> is_digest d \<or> action_available action \<and> Some d \<noteq> digest_of action)
            (WORKFLOW_ACTION_CONTRACT_DRIFT, At_node (node_id node) (Some ''/action/descriptorDigest'')) @
          issue_if (schema_drifted cmp graph (inputSchema_of action) (find_port (inputPorts node) ''input'') \<or>
              schema_drifted cmp graph (outputSchema_of action) (find_port (outputPorts node) ''success''))
            (WORKFLOW_ACTION_SCHEMA_MISMATCH, At_node (node_id node) None))"

definition action_issues ::
    "(string \<Rightarrow> string \<Rightarrow> int) \<Rightarrow> workflow_graph \<Rightarrow> workflow_node \<Rightarrow> action_reference \<Rightarrow> reference_catalog option \<Rightarrow> issue list" where
  "action_issues cmp graph node a catalog =
     (let action = action_descriptor_of catalog a in
      issue_if (actionId a = ''connectors.call'' \<and> contractVersion a \<noteq> 2)
        (WORKFLOW_ACTION_VERSION_UNSAFE, At_node (node_id node) (Some ''/action/contractVersion'')) @
      pinned_issues cmp graph node a action @
      issue_if (workflowTemplateEffect action = Some Connector_egress \<and> risk action = Some Workspace_write \<and>
          \<not> target_ledger action)
        (WORKFLOW_ACTION_IDEMPOTENCY_UNSAFE, At_node (node_id node) None) @
      issue_if (risk action = Some External \<or> risk action = Some Destructive)
        (WORKFLOW_ACTION_RISK_DENIED, At_node (node_id node) None))"

definition action_usable :: "action_descriptor \<Rightarrow> bool" where
  "action_usable action =
     (action_available action \<and>
      (risk action = None \<or> risk action = Some Read \<or> risk action = Some Workspace_write) \<and>
      (idempotency action = None \<or> idempotency action = Some Required))"

definition kind_issues ::
    "(string \<Rightarrow> string \<Rightarrow> int) \<Rightarrow> workflow_graph \<Rightarrow> reference_catalog option \<Rightarrow> workflow_node \<Rightarrow> issue list" where
  "kind_issues cmp graph catalog node =
     (case node_kind node of
        Agent_node a grants sid \<Rightarrow> agent_issues node a grants catalog
      | Agent_decision_node a grants sid fid \<Rightarrow> agent_issues node a grants catalog
      | Typed_decision_node cfg \<Rightarrow> typedDecisionIssues (node_id node) cfg
      | Human_approval_node requirement prompt \<Rightarrow> approvalIssues node requirement prompt catalog
      | Action_node a \<Rightarrow> action_issues cmp graph node a catalog
      | _ \<Rightarrow> [])"

text \<open>\<open>requirement.roleKey ?? requirement.scope\<close>, when it is a string.\<close>

definition approval_name :: "(string \<times> json) list option \<Rightarrow> string" where
  "approval_name requirement =
     (case Option.bind requirement (\<lambda>r.
         case field r ''roleKey'' of
           None \<Rightarrow> field r ''scope'' | Some JNull \<Rightarrow> field r ''scope'' | Some j \<Rightarrow> Some j) of
        Some (JStr s) \<Rightarrow> s
      | _ \<Rightarrow> [])"

definition node_references :: "reference_catalog option \<Rightarrow> workflow_node \<Rightarrow> reference list" where
  "node_references catalog node =
     (case node_kind node of
        Agent_node a grants sid \<Rightarrow>
          [\<lparr>ref_kind = Agent_ref, ref_id = agentId a, ref_version = show_int (agent_revision a),
            ref_available = answer_available (agent_answer_of catalog a)\<rparr>]
      | Agent_decision_node a grants sid fid \<Rightarrow>
          [\<lparr>ref_kind = Agent_ref, ref_id = agentId a, ref_version = show_int (agent_revision a),
            ref_available = answer_available (agent_answer_of catalog a)\<rparr>]
      | Human_approval_node requirement prompt \<Rightarrow>
          [\<lparr>ref_kind = Approval_ref, ref_id = approval_name requirement, ref_version = ''1'',
            ref_available = (case Option.bind catalog cat_approval of None \<Rightarrow> False | Some (b, roles) \<Rightarrow> b)\<rparr>]
      | Action_node a \<Rightarrow>
          [\<lparr>ref_kind = Action_ref, ref_id = actionId a, ref_version = show_int (contractVersion a),
            ref_available = action_usable (action_descriptor_of catalog a)\<rparr>]
      | _ \<Rightarrow> [])"

definition node_permissions :: "reference_catalog option \<Rightarrow> workflow_node \<Rightarrow> string list" where
  "node_permissions catalog node =
     (case node_kind node of
        Action_node a \<Rightarrow> requiredPermissions (action_descriptor_of catalog a) | _ \<Rightarrow> [])"

section \<open>The loops of the compiler\<close>

definition limit_issues :: "(string \<Rightarrow> string \<Rightarrow> int) \<Rightarrow> workflow_graph \<Rightarrow> issue list" where
  "limit_issues cmp graph =
     issue_if (schemaVersion graph \<noteq> 1) (WORKFLOW_GRAPH_VERSION_UNSUPPORTED, At_graph) @
     issue_if (maxGraphBytes < jsonByteSize cmp (graph_json graph)) (WORKFLOW_LIMIT_EXCEEDED, At_graph) @
     issue_if (maxNodes < length (nodes graph)) (WORKFLOW_LIMIT_EXCEEDED, At_graph) @
     issue_if (maxEdges < length (edges graph)) (WORKFLOW_LIMIT_EXCEEDED, At_graph) @
     issue_if (maxSchemas < length (schemas graph)) (WORKFLOW_LIMIT_EXCEEDED, At_graph)"

fun node_issues ::
    "(string \<Rightarrow> string \<Rightarrow> int) \<Rightarrow> workflow_graph \<Rightarrow> reference_catalog option \<Rightarrow> string set \<Rightarrow> workflow_node list \<Rightarrow> issue list" where
  "node_issues cmp graph catalog known [] = []"
| "node_issues cmp graph catalog known (node # rest) =
     issue_if (\<not> dotted_id (node_id node)) (WORKFLOW_NODE_ID_INVALID, At_node (node_id node) None) @
     issue_if (node_id node \<in> known) (WORKFLOW_NODE_DUPLICATE, At_node (node_id node) None) @
     configurationIssues node @ port_issues graph node @ policy_issues node @ kind_issues cmp graph catalog node @
     node_issues cmp graph catalog (insert (node_id node) known) rest"

fun diagnostic_issue :: "diagnostic \<Rightarrow> issue" where
  "diagnostic_issue (ACTION_SECRET_BINDING n t) =
     (WORKFLOW_ACTION_SECRET_BINDING, At_node n (Some (''/mappings'' @ t)))"
| "diagnostic_issue (ACTION_SCHEMA_UNAVAILABLE n t) =
     (WORKFLOW_ACTION_SCHEMA_UNAVAILABLE, At_node n (Some (''/mappings'' @ t)))"
| "diagnostic_issue (MAPPING_TARGET_UNSAFE n t) =
     (WORKFLOW_MAPPING_TARGET_UNSAFE, At_node n (Some (''/mappings'' @ t)))"
| "diagnostic_issue (SECRET_SCHEMA_VALUE s p) = (WORKFLOW_SECRET_SCHEMA_VALUE, At_graph)"

definition node_map :: "workflow_graph \<Rightarrow> string \<rightharpoonup> workflow_node" where
  "node_map graph = map_of (rev (map (\<lambda>n. (node_id n, n)) (nodes graph)))"

record edge_state =
  edge_ids :: "string set"
  incoming :: "string \<Rightarrow> nat"
  outgoing :: "string \<Rightarrow> nat"

definition target_key :: "string \<Rightarrow> string \<Rightarrow> string" where
  "target_key node port = node @ '':'' @ port"

definition join_issues :: "workflow_node \<Rightarrow> workflow_node \<Rightarrow> workflow_edge \<Rightarrow> issue list" where
  "join_issues source target e =
     (case (find_port (outputPorts source) (edge_sourcePort e), find_port (inputPorts target) (edge_targetPort e)) of
        (Some p, Some q) \<Rightarrow>
          issue_if (port_schemaId p \<noteq> port_schemaId q) (WORKFLOW_EDGE_SCHEMA_INCOMPATIBLE, At_edge (edge_id e))
      | _ \<Rightarrow> [(WORKFLOW_EDGE_PORT_MISSING, At_edge (edge_id e))])"

definition edge_step ::
    "workflow_graph \<Rightarrow> edge_state \<times> issue list \<Rightarrow> workflow_edge \<Rightarrow> edge_state \<times> issue list" where
  "edge_step graph = (\<lambda>(st, issues) e.
     let own = issue_if (\<not> dotted_id (edge_id e)) (WORKFLOW_EDGE_ID_INVALID, At_edge (edge_id e)) @
           issue_if (edge_id e \<in> edge_ids st) (WORKFLOW_EDGE_DUPLICATE, At_edge (edge_id e));
         st1 = st\<lparr>edge_ids := insert (edge_id e) (edge_ids st)\<rparr>
     in case (node_map graph (edge_source e), node_map graph (edge_target e)) of
          (Some source, Some target) \<Rightarrow>
            (let key = target_key (edge_target e) (edge_targetPort e) in
             (st1\<lparr>incoming := (incoming st1)(key := incoming st1 key + 1),
                outgoing := (outgoing st1)(edge_source e := outgoing st1 (edge_source e) + 1)\<rparr>,
              issues @ own @ join_issues source target e))
        | _ \<Rightarrow> (st1, issues @ own @ [(WORKFLOW_EDGE_DANGLING, At_edge (edge_id e))]))"

definition edge_loop :: "workflow_graph \<Rightarrow> edge_state \<times> issue list" where
  "edge_loop graph =
     foldl (edge_step graph) (\<lparr>edge_ids = {}, incoming = (\<lambda>_. 0), outgoing = (\<lambda>_. 0)\<rparr>, []) (edges graph)"

definition connection_issues :: "edge_state \<Rightarrow> workflow_node \<Rightarrow> issue list" where
  "connection_issues st node =
     concat (map (\<lambda>p. let count = incoming st (target_key (node_id node) (port_name p)) in
       issue_if (count = 0) (WORKFLOW_INPUT_UNCONNECTED, At_node (node_id node) None) @
       issue_if (1 < count \<and> \<not> (node_kind node = Merge_node \<and> port_name p = ''items''))
         (WORKFLOW_INPUT_CARDINALITY, At_node (node_id node) None)) (inputPorts node)) @
     issue_if (\<not> is_output node \<and> outgoing st (node_id node) = 0)
       (WORKFLOW_TERMINAL_OUTPUT_MISSING, At_node (node_id node) None)"

definition shape_issues :: "workflow_graph \<Rightarrow> issue list" where
  "shape_issues graph =
     (let ids = map node_id (nodes graph);
          inputs = filter is_input (nodes graph);
          reachable = reachableFrom (flow_edges graph) (case inputs of [] \<Rightarrow> None | n # ns \<Rightarrow> Some (node_id n))
      in issue_if (length inputs \<noteq> 1) (WORKFLOW_INPUT_COUNT_INVALID, At_graph) @
         issue_if (filter is_output (nodes graph) = []) (WORKFLOW_OUTPUT_MISSING, At_graph) @
         issue_if (snd (stableTopologicalOrder ids (flow_edges graph))) (WORKFLOW_GRAPH_CYCLE, At_graph) @
         concat (map (\<lambda>n. issue_if (node_id n \<notin> reachable) (WORKFLOW_NODE_UNREACHABLE, At_node (node_id n) None))
           (nodes graph)))"

definition order_index :: "string list \<Rightarrow> string \<rightharpoonup> nat" where
  "order_index order = map_of (rev (zip order [0..<length order]))"

definition graph_index_of :: "workflow_graph \<Rightarrow> graph_index" where
  "graph_index_of graph =
     \<lparr>index_of = order_index (fst (stableTopologicalOrder (map node_id (nodes graph)) (flow_edges graph))),
      node_by_id = node_map graph\<rparr>"

definition literal_issues ::
    "(string \<Rightarrow> string \<Rightarrow> int) \<Rightarrow> workflow_graph \<Rightarrow> workflow_node \<Rightarrow> nat \<Rightarrow> target_mapping \<Rightarrow> issue list" where
  "literal_issues cmp graph node i mapping =
     (case mapping_binding mapping of
        Literal v \<Rightarrow>
          if is_action node then
            issue_if (case schemaAtTargetPointer
                  (graph_schema graph (case find_port (inputPorts node) ''input'' of None \<Rightarrow> [] | Some p \<Rightarrow> port_schemaId p))
                  (targetPointer mapping) of
                Forbidden \<Rightarrow> True
              | Described_by s \<Rightarrow> validateJsonSchema cmp v s [] \<noteq> []
              | Undescribed \<Rightarrow> False)
              (WORKFLOW_ACTION_LITERAL_INVALID, At_node (node_id node) (Some (''/mappings/'' @ show_nat i)))
          else []
      | _ \<Rightarrow> [])"

definition unstable_source :: "workflow_graph \<Rightarrow> mapping_source \<Rightarrow> bool" where
  "unstable_source graph source =
     (case node_map graph (sourceNodeId source) of
        None \<Rightarrow> False
      | Some owner \<Rightarrow>
          (case node_kind owner of
             Action_node a \<Rightarrow>
               actionId a = ''connectors.call'' \<and> source_pointer source \<notin> {''/callId'', ''/outcome''}
           | _ \<Rightarrow> False))"

definition gate_issue :: "string \<Rightarrow> gate_issue \<Rightarrow> issue" where
  "gate_issue nodeId g =
     (WORKFLOW_GATE_INVALID, At_node nodeId (if g = Gate_too_deep then Some ''/expression'' else None))"

definition dataflow_issues ::
    "(string \<Rightarrow> string \<Rightarrow> int) \<Rightarrow> workflow_graph \<Rightarrow> workflow_node \<Rightarrow> issue list" where
  "dataflow_issues cmp graph node =
     (case node_kind node of
        Gate_node e \<Rightarrow> map (gate_issue (node_id node)) (validateGateExpression e 0) | _ \<Rightarrow> []) @
     concat (map (\<lambda>(i, mapping).
       mappingIssues graph (graph_index_of graph) node mapping @ literal_issues cmp graph node i mapping @
       issue_if (list_ex (unstable_source graph) (binding_sources (mapping_binding mapping)))
         (WORKFLOW_CONNECTOR_OUTPUT_UNSTABLE, At_node (node_id node) (Some ''/mappings'')))
       (enumerate 0 (node_mappings node)))"

definition reference_issues :: "reference list \<Rightarrow> issue list" where
  "reference_issues refs =
     concat (map (\<lambda>r. issue_if (ref_kind r \<noteq> Schema_ref \<and> \<not> ref_available r)
       (if ref_kind r = Agent_ref then WORKFLOW_AGENT_REVISION_MISSING else WORKFLOW_ACTION_VERSION_MISSING,
        At_graph)) refs)"

record compile_report =
  graphChecksum :: string
  valid :: bool
  report_issues :: "issue list"
  compiledOrder :: "string list"
  report_references :: "reference list"
  report_permissions :: "string list"

definition action_inputs :: "reference_catalog option \<Rightarrow> action_schemas" where
  "action_inputs catalog i v =
     (case catalog of None \<Rightarrow> None | Some c \<Rightarrow> inputSchema_of (cat_action c i v))"

definition compile_references :: "workflow_graph \<Rightarrow> reference_catalog option \<Rightarrow> reference list" where
  "compile_references graph catalog =
     map (\<lambda>(i, s). \<lparr>ref_kind = Schema_ref, ref_id = i, ref_version = ''1'', ref_available = True\<rparr>) (schemas graph) @
     concat (map (node_references catalog) (nodes graph))"

definition compile_issues ::
    "(string \<Rightarrow> string \<Rightarrow> int) \<Rightarrow> workflow_graph \<Rightarrow> reference_catalog option \<Rightarrow> issue list" where
  "compile_issues cmp graph catalog =
     limit_issues cmp graph @
     concat (map (\<lambda>(i, s). schemaIssues cmp i s) (schemas graph)) @
     map diagnostic_issue (secretSchemaValueDiagnostics graph) @
     node_issues cmp graph catalog {} (nodes graph) @
     map diagnostic_issue (actionBindingDiagnostics graph (action_inputs catalog)) @
     map diagnostic_issue (mappingTargetDiagnostics graph) @
     snd (edge_loop graph) @
     concat (map (connection_issues (fst (edge_loop graph))) (nodes graph)) @
     shape_issues graph @
     concat (map (dataflow_issues cmp graph) (nodes graph)) @
     reference_issues (compile_references graph catalog)"

definition compileWorkflowGraph ::
    "(string \<Rightarrow> string) \<Rightarrow> (string \<Rightarrow> string \<Rightarrow> int) \<Rightarrow> workflow_graph \<Rightarrow> reference_catalog option \<Rightarrow> compile_report" where
  "compileWorkflowGraph sha256 cmp graph catalog =
     (let issues = compile_issues cmp graph catalog;
          topological = stableTopologicalOrder (map node_id (nodes graph)) (flow_edges graph)
      in \<lparr>graphChecksum = workflowGraphChecksum sha256 cmp graph,
          valid = (issues = []),
          report_issues = issues,
          compiledOrder = (if snd topological then [] else fst topological),
          report_references = compile_references graph catalog,
          report_permissions = sort_by unit_compare
            (remdups (concat (map (node_permissions catalog) (nodes graph))))\<rparr>)"

section \<open>What a valid report says\<close>

lemma concat_Nil [simp]: "concat (map f xs) = [] \<longleftrightarrow> (\<forall>x \<in> set xs. f x = [])"
  by (induction xs) auto

lemma valid_issues:
  assumes "valid (compileWorkflowGraph sha256 cmp graph catalog)"
  shows "node_issues cmp graph catalog {} (nodes graph) = []" and "snd (edge_loop graph) = []"
    and "\<forall>n \<in> set (nodes graph). connection_issues (fst (edge_loop graph)) n = []"
    and "shape_issues graph = []" and "\<forall>n \<in> set (nodes graph). dataflow_issues cmp graph n = []"
    and "reference_issues (compile_references graph catalog) = []"
    and "actionBindingDiagnostics graph (action_inputs catalog) = []" and "mappingTargetDiagnostics graph = []"
  using assms unfolding compileWorkflowGraph_def compile_issues_def Let_def
  by (simp_all del: concat_eq_Nil_conv)

lemma node_issues_Nil:
  "node_issues cmp graph catalog known ns = [] \<Longrightarrow>
     distinct (map node_id ns) \<and> (\<forall>n \<in> set ns. node_id n \<notin> known \<and> dotted_id (node_id n) \<and>
       configurationIssues n = [] \<and> port_issues graph n = [] \<and> policy_issues n = [] \<and>
       kind_issues cmp graph catalog n = [])"
proof (induction ns arbitrary: known)
  case (Cons n ns)
  have "node_issues cmp graph catalog (insert (node_id n) known) ns = []" using Cons.prems by simp
  from Cons.IH [OF this] Cons.prems show ?case by auto
qed simp

lemma node_map_Some:
  "distinct (map node_id (nodes graph)) \<Longrightarrow>
     node_map graph i = Some n \<longleftrightarrow> n \<in> set (nodes graph) \<and> node_id n = i"
  unfolding node_map_def by (subst map_of_eq_Some_iff) (auto simp: rev_map [symmetric] comp_def)

lemma node_map_member: "node_map graph i = Some n \<Longrightarrow> n \<in> set (nodes graph) \<and> node_id n = i"
  unfolding node_map_def by (auto dest!: map_of_SomeD)

definition joins :: "workflow_graph \<Rightarrow> workflow_edge \<Rightarrow> bool" where
  "joins graph e \<longleftrightarrow>
     (\<exists>source target p q. node_map graph (edge_source e) = Some source \<and> node_map graph (edge_target e) = Some target \<and>
        find_port (outputPorts source) (edge_sourcePort e) = Some p \<and>
        find_port (inputPorts target) (edge_targetPort e) = Some q \<and> port_schemaId p = port_schemaId q)"

lemma join_issues_Nil:
  "join_issues source target e = [] \<longleftrightarrow>
     (\<exists>p q. find_port (outputPorts source) (edge_sourcePort e) = Some p \<and>
        find_port (inputPorts target) (edge_targetPort e) = Some q \<and> port_schemaId p = port_schemaId q)"
  by (auto simp: join_issues_def split: option.splits)

lemma edge_step_Nil:
  assumes "snd (edge_step graph (st, issues) e) = []"
  shows "issues = [] \<and> joins graph e \<and> edge_id e \<notin> edge_ids st \<and>
    fst (edge_step graph (st, issues) e) =
      st\<lparr>edge_ids := insert (edge_id e) (edge_ids st),
        incoming := (incoming st)(target_key (edge_target e) (edge_targetPort e) :=
          incoming st (target_key (edge_target e) (edge_targetPort e)) + 1),
        outgoing := (outgoing st)(edge_source e := outgoing st (edge_source e) + 1)\<rparr>"
  using assms
  by (auto simp: edge_step_def joins_def Let_def join_issues_Nil split: option.splits)

definition edge_key :: "workflow_edge \<Rightarrow> string" where
  "edge_key e = target_key (edge_target e) (edge_targetPort e)"

lemma edges_Nil:
  "snd (foldl (edge_step graph) (\<lparr>edge_ids = {}, incoming = (\<lambda>_. 0), outgoing = (\<lambda>_. 0)\<rparr>, []) es) = [] \<Longrightarrow>
   (\<forall>e \<in> set es. joins graph e) \<and> distinct (map edge_id es) \<and>
   fst (foldl (edge_step graph) (\<lparr>edge_ids = {}, incoming = (\<lambda>_. 0), outgoing = (\<lambda>_. 0)\<rparr>, []) es) =
     \<lparr>edge_ids = edge_id ` set es, incoming = (\<lambda>k. length (filter (\<lambda>e. edge_key e = k) es)),
      outgoing = (\<lambda>n. length (filter (\<lambda>e. edge_source e = n) es))\<rparr>"
proof (induction es rule: rev_induct)
  case (snoc e es)
  let ?f = "foldl (edge_step graph) (\<lparr>edge_ids = {}, incoming = (\<lambda>_. 0), outgoing = (\<lambda>_. 0)\<rparr>, []) es"
  have s: "snd (edge_step graph (fst ?f, snd ?f) e) = []" using snoc.prems by simp
  note n = edge_step_Nil [OF s]
  then have IH: "(\<forall>e \<in> set es. joins graph e) \<and> distinct (map edge_id es) \<and> fst ?f =
     \<lparr>edge_ids = edge_id ` set es, incoming = (\<lambda>k. length (filter (\<lambda>e. edge_key e = k) es)),
      outgoing = (\<lambda>n. length (filter (\<lambda>e. edge_source e = n) es))\<rparr>"
    using snoc.IH by blast
  have "fst (edge_step graph ?f e) = fst (edge_step graph (fst ?f, snd ?f) e)" by simp
  then show ?case using n IH by (auto simp: edge_key_def fun_eq_iff)
qed simp

lemma edge_loop_Nil:
  assumes "snd (edge_loop graph) = []"
  shows "\<forall>e \<in> set (edges graph). joins graph e"
    and "incoming (fst (edge_loop graph)) k = length (filter (\<lambda>e. edge_key e = k) (edges graph))"
    and "outgoing (fst (edge_loop graph)) n = length (filter (\<lambda>e. edge_source e = n) (edges graph))"
  using edges_Nil [of graph "edges graph"] assms unfolding edge_loop_def by simp_all

lemma joins_ends:
  "joins graph e \<Longrightarrow> edge_source e \<in> node_id ` set (nodes graph) \<and> edge_target e \<in> node_id ` set (nodes graph)"
  unfolding joins_def by (metis image_eqI node_map_member)

lemma flow_edges_inner:
  assumes "\<forall>e \<in> set (edges graph). joins graph e"
  shows "{(u, v). (u, v) \<in> set (flow_edges graph) \<and> u \<in> set (map node_id (nodes graph)) \<and>
      v \<in> set (map node_id (nodes graph))} = edge_rel (flow_edges graph)"
  using assms joins_ends by (fastforce simp: flow_edges_def edge_rel_def)

lemma shape_Nil:
  assumes "shape_issues graph = []"
  shows "\<exists>input. filter is_input (nodes graph) = [input] \<and>
      (\<forall>n \<in> set (nodes graph). (node_id input, node_id n) \<in> (edge_rel (flow_edges graph))\<^sup>*)"
    and "\<not> snd (stableTopologicalOrder (map node_id (nodes graph)) (flow_edges graph))"
proof -
  from assms have one: "length (filter is_input (nodes graph)) = 1" by (simp add: shape_issues_def Let_def)
  then obtain input where i: "filter is_input (nodes graph) = [input]"
    by (metis One_nat_def length_0_conv length_Suc_conv)
  with assms have "\<forall>n \<in> set (nodes graph). node_id n \<in> reachableFrom (flow_edges graph) (Some (node_id input))"
    by (simp add: shape_issues_def Let_def)
  then show "\<exists>input. filter is_input (nodes graph) = [input] \<and>
      (\<forall>n \<in> set (nodes graph). (node_id input, node_id n) \<in> (edge_rel (flow_edges graph))\<^sup>*)"
    using i by (auto simp: reachableFrom_exact)
  show "\<not> snd (stableTopologicalOrder (map node_id (nodes graph)) (flow_edges graph))"
    using assms by (simp add: shape_issues_def Let_def)
qed

text \<open>
  Every node but an output has an outgoing edge, which looks one step ahead only; with no cycle that is
  enough for an output on some path from every node.
\<close>

lemma reaches_output:
  assumes ac: "acyclic R" and fin: "finite R"
    and out: "\<forall>n \<in> N. ok n \<or> (\<exists>m \<in> N. (f n, f m) \<in> R)" and n: "n \<in> N"
  shows "\<exists>m \<in> N. ok m \<and> (f n, f m) \<in> R\<^sup>*"
proof -
  have "wf (R\<inverse>)" using ac fin by (simp add: finite_acyclic_wf_converse)
  then show ?thesis using n
  proof (induction "f n" arbitrary: n rule: wf_induct_rule)
    case less
    show ?case
    proof (cases "ok n")
      case True
      then show ?thesis using less.prems by blast
    next
      case False
      then obtain m where m: "m \<in> N" "(f n, f m) \<in> R" using out less.prems by blast
      then have "(f m, f n) \<in> R\<inverse>" by simp
      from less.hyps [OF this m(1)] m(2) show ?thesis by (meson converse_rtrancl_into_rtrancl)
    qed
  qed
qed

text \<open>C1: a graph the compiler reports valid has distinct nodes and no cycle; one input node from which
  every node is reached; an output node reached from every node; and a compiled order that lists
  exactly the nodes, each after all nodes with an edge to it.\<close>

theorem valid_graph_shape:
  assumes "valid (compileWorkflowGraph sha256 cmp graph catalog)"
  defines "R \<equiv> edge_rel (flow_edges graph)" and "order \<equiv> compiledOrder (compileWorkflowGraph sha256 cmp graph catalog)"
  shows "distinct (map node_id (nodes graph)) \<and> acyclic R \<and>
    (\<exists>input. filter is_input (nodes graph) = [input] \<and> (\<forall>n \<in> set (nodes graph). (node_id input, node_id n) \<in> R\<^sup>*)) \<and>
    (\<forall>n \<in> set (nodes graph). \<exists>out \<in> set (nodes graph). is_output out \<and> (node_id n, node_id out) \<in> R\<^sup>*) \<and>
    distinct order \<and> set order = node_id ` set (nodes graph) \<and>
    (\<forall>i < length order. \<forall>u. (u, order ! i) \<in> R \<longrightarrow> u \<in> set (take i order))"
proof -
  note v = valid_issues [OF assms(1)]
  let ?ids = "map node_id (nodes graph)" and ?es = "flow_edges graph"
  have cyc: "\<not> snd (stableTopologicalOrder ?ids ?es)" by (rule shape_Nil(2) [OF v(4)])
  have order: "order = fst (stableTopologicalOrder ?ids ?es)"
    using cyc by (simp add: order_def compileWorkflowGraph_def Let_def)
  have R: "{(u, v). (u, v) \<in> set ?es \<and> u \<in> set ?ids \<and> v \<in> set ?ids} = R"
    unfolding R_def by (rule flow_edges_inner [OF edge_loop_Nil(1) [OF v(2)]])
  note t = topological_correct [of ?ids ?es, unfolded R, folded order]
  have ac: "distinct ?ids" "acyclic R" using t cyc by auto
  have step: "is_output n \<or> (\<exists>m \<in> set (nodes graph). (node_id n, node_id m) \<in> R)" if n: "n \<in> set (nodes graph)" for n
  proof (rule disjCI)
    assume "\<not> (\<exists>m \<in> set (nodes graph). (node_id n, node_id m) \<in> R)"
    note no = this
    have none: "edge_source e \<noteq> node_id n" if e: "e \<in> set (edges graph)" for e
    proof
      assume s: "edge_source e = node_id n"
      have "joins graph e" using edge_loop_Nil(1) [OF v(2)] e by blast
      then obtain m where m: "m \<in> set (nodes graph)" "edge_target e = node_id m" using joins_ends by blast
      have "(edge_source e, edge_target e) \<in> R" using e by (auto simp: R_def edge_rel_def flow_edges_def)
      then show False using no m s by auto
    qed
    then have "outgoing (fst (edge_loop graph)) (node_id n) = 0"
      by (auto simp: edge_loop_Nil(3) [OF v(2)] filter_empty_conv)
    then show "is_output n" using v(3) n by (auto simp: connection_issues_def)
  qed
  have "finite R" by (simp add: R_def edge_rel_def)
  then have "\<forall>n \<in> set (nodes graph). \<exists>out \<in> set (nodes graph). is_output out \<and> (node_id n, node_id out) \<in> R\<^sup>*"
    using reaches_output [OF ac(2), of "set (nodes graph)" is_output node_id] step by blast
  then show ?thesis
    using t cyc ac shape_Nil(1) [OF v(4)] by (auto simp: R_def)
qed

section \<open>How a valid graph is wired\<close>

lemma split_on_covers: "c \<in> set s \<Longrightarrow> c = sep \<or> (\<exists>p \<in> set (split_on sep s). c \<in> set p)"
proof (induction s)
  case (Cons x s)
  then show ?case by (cases "split_on sep s") auto
qed simp

lemma dotted_no_colon: "dotted_id s \<Longrightarrow> CHR '':'' \<notin> set s"
proof
  assume d: "dotted_id s" and "CHR '':'' \<in> set s"
  then obtain p where p: "p \<in> set (split_on CHR ''.'' s)" "CHR '':'' \<in> set p"
    using split_on_covers [of "CHR '':''" s "CHR ''.''"] by auto
  then have k: "kebab_id p" using d by (simp add: dotted_id_def Let_def list_all_iff)
  have "\<not> is_lower CHR '':''" "\<not> is_digit CHR '':''" by code_simp+
  then show False using k p(2) by (cases p) (auto simp: list_all_iff)
qed

lemma target_key_inj:
  assumes "CHR '':'' \<notin> set n" and "CHR '':'' \<notin> set n'" and "target_key n p = target_key n' p'"
  shows "n = n' \<and> p = p'"
proof -
  have "split_on CHR '':'' (n @ CHR '':'' # p) = split_on CHR '':'' (n' @ CHR '':'' # p')"
    using assms(3) by (simp add: target_key_def)
  then have "n = n'" using assms(1,2) by (simp add: split_on_append)
  then show ?thesis using assms(3) by (simp add: target_key_def)
qed

definition edges_into :: "workflow_graph \<Rightarrow> string \<Rightarrow> string \<Rightarrow> workflow_edge list" where
  "edges_into graph node port = filter (\<lambda>e. edge_target e = node \<and> edge_targetPort e = port) (edges graph)"

text \<open>C3: in a valid graph every edge joins an output port to an input port of existing nodes under the
  same schema, and every input port is fed by exactly one edge, the items of a merge by at least one.\<close>

theorem valid_graph_wired:
  assumes "valid (compileWorkflowGraph sha256 cmp graph catalog)"
  shows "(\<forall>e \<in> set (edges graph). \<exists>source \<in> set (nodes graph). \<exists>target \<in> set (nodes graph). \<exists>p q.
      node_id source = edge_source e \<and> node_id target = edge_target e \<and>
      find_port (outputPorts source) (edge_sourcePort e) = Some p \<and>
      find_port (inputPorts target) (edge_targetPort e) = Some q \<and> port_schemaId p = port_schemaId q) \<and>
    (\<forall>n \<in> set (nodes graph). \<forall>p \<in> set (inputPorts n).
      let count = length (edges_into graph (node_id n) (port_name p)) in
      if node_kind n = Merge_node \<and> port_name p = ''items'' then 1 \<le> count else count = 1)"
proof (intro conjI ballI)
  note v = valid_issues [OF assms]
  fix e assume "e \<in> set (edges graph)"
  then have "joins graph e" using edge_loop_Nil(1) [OF v(2)] by blast
  then show "\<exists>source \<in> set (nodes graph). \<exists>target \<in> set (nodes graph). \<exists>p q.
      node_id source = edge_source e \<and> node_id target = edge_target e \<and>
      find_port (outputPorts source) (edge_sourcePort e) = Some p \<and>
      find_port (inputPorts target) (edge_targetPort e) = Some q \<and> port_schemaId p = port_schemaId q"
    unfolding joins_def by (blast dest: node_map_member)
next
  note v = valid_issues [OF assms]
  fix n p assume n: "n \<in> set (nodes graph)" and p: "p \<in> set (inputPorts n)"
  note ids = node_issues_Nil [OF v(1)]
  have colon: "CHR '':'' \<notin> set (node_id m)" if "m \<in> set (nodes graph)" for m
    using ids that dotted_no_colon by blast
  have key: "edge_key e = target_key (node_id n) (port_name p) \<longleftrightarrow>
      edge_target e = node_id n \<and> edge_targetPort e = port_name p" if "e \<in> set (edges graph)" for e
  proof
    assume k: "edge_key e = target_key (node_id n) (port_name p)"
    have "edge_target e \<in> node_id ` set (nodes graph)"
      using edge_loop_Nil(1) [OF v(2)] that joins_ends by blast
    then have "CHR '':'' \<notin> set (edge_target e)" using colon by auto
    from target_key_inj [OF this colon [OF n]] k
    show "edge_target e = node_id n \<and> edge_targetPort e = port_name p" by (simp add: edge_key_def)
  qed (simp add: edge_key_def)
  have "filter (\<lambda>e. edge_key e = target_key (node_id n) (port_name p)) (edges graph) =
      edges_into graph (node_id n) (port_name p)"
    unfolding edges_into_def by (rule filter_cong) (simp_all add: key)
  then have count: "incoming (fst (edge_loop graph)) (target_key (node_id n) (port_name p)) =
      length (edges_into graph (node_id n) (port_name p))"
    by (simp add: edge_loop_Nil(2) [OF v(2)])
  have "connection_issues (fst (edge_loop graph)) n = []" using v(3) n by blast
  then have "let count = length (edges_into graph (node_id n) (port_name p)) in
      count \<noteq> 0 \<and> (1 < count \<longrightarrow> node_kind n = Merge_node \<and> port_name p = ''items'')"
    using p by (auto simp: connection_issues_def Let_def count [symmetric])
  then show "let count = length (edges_into graph (node_id n) (port_name p)) in
      if node_kind n = Merge_node \<and> port_name p = ''items'' then 1 \<le> count else count = 1"
    by (auto simp: Let_def Suc_le_eq intro: Suc_lessI)
qed

section \<open>What a valid graph may copy\<close>

lemma dataflow_Nil:
  assumes "dataflow_issues cmp graph n = []" and "m \<in> set (node_mappings n)"
  shows "mappingIssues graph (graph_index_of graph) n m = []"
proof -
  obtain i where "(i, m) \<in> set (enumerate 0 (node_mappings n))"
    using assms(2) by (auto simp: enumerate_eq_zip set_zip in_set_conv_nth)
  then show ?thesis using assms(1) by (force simp: dataflow_issues_def)
qed

lemma mapping_Nil:
  assumes "mappingIssues graph index n m = []" and "s \<in> set (binding_sources (mapping_binding m))"
  shows "writableTargetPointer (targetPointer m)" and "validPointer (source_pointer s)"
    and "\<exists>p. source_port_of index s = Some p \<and>
      sourcePointerIsSafe (graph_schema graph (port_schemaId p)) (source_pointer s)"
    and "isUpstream (flow_edges graph) (sourceNodeId s) (node_id n)"
proof -
  from assms(1) show "writableTargetPointer (targetPointer m)" by (simp add: mappingIssues_def)
  from assms have "source_issues graph index n (targetPointer m) s = []" by (simp add: mappingIssues_def)
  then show "validPointer (source_pointer s)" "isUpstream (flow_edges graph) (sourceNodeId s) (node_id n)"
    and "\<exists>p. source_port_of index s = Some p \<and>
      sourcePointerIsSafe (graph_schema graph (port_schemaId p)) (source_pointer s)"
    by (auto simp: source_issues_def source_misplaced_def Let_def split: option.splits)
qed

text \<open>C2: in a valid graph every mapping, whatever it binds, writes to a place its own node may take a value at: for an
  action node one that both the schema of its input port and the schema of the action in the catalog call safe to bind,
  for any other node one that is not secret. What a mapping reads, it reads from an output port of a node strictly
  upstream of its own, and whatever conforming value that port carries at run time, no part of what is copied is
  described by a schema marked secret, write-only or restricted to a read permission.\<close>

theorem valid_graph_copies_safely:
  assumes "valid (compileWorkflowGraph sha256 cmp graph catalog)"
    and "n \<in> set (nodes graph)" and "m \<in> set (node_mappings n)"
  shows "(case node_kind n of
      Action_node action \<Rightarrow>
        bindingSafety (input_schema graph n) (targetPointer m) = Safe \<and>
        bindingSafety (action_inputs catalog (actionId action) (contractVersion action)) (targetPointer m) = Safe
    | _ \<Rightarrow> \<not> mappingTargetUnsafe (target_schema graph n) (targetPointer m)) \<and>
    (\<forall>s \<in> set (binding_sources (mapping_binding m)).
      \<exists>owner p schema. owner \<in> set (nodes graph) \<and> node_id owner = sourceNodeId s \<and>
      (node_id owner, node_id n) \<in> (edge_rel (flow_edges graph))\<^sup>+ \<and>
      find_port (outputPorts owner) (sourcePort s) = Some p \<and> graph_schema graph (port_schemaId p) = Some schema \<and>
      (\<forall>v copied keys part. validateJsonSchema cmp v schema [] = [] \<and>
         readJsonPointer v (source_pointer s) = Some copied \<and> read_parts copied keys = Some part \<longrightarrow>
         (\<exists>t. schema_walk schema (schema_segments (source_pointer s) @ keys) = Some t \<and> conforms cmp part t \<and>
            \<not> protectedSource t)))"
proof (intro conjI ballI)
  note v = valid_issues [OF assms(1)]
  show "case node_kind n of
      Action_node action \<Rightarrow>
        bindingSafety (input_schema graph n) (targetPointer m) = Safe \<and>
        bindingSafety (action_inputs catalog (actionId action) (contractVersion action)) (targetPointer m) = Safe
    | _ \<Rightarrow> \<not> mappingTargetUnsafe (target_schema graph n) (targetPointer m)"
    using binding_reported [OF assms(2,3), of "action_inputs catalog"] v(7,8) by simp
  fix s
  assume s: "s \<in> set (binding_sources (mapping_binding m))"
  have "dataflow_issues cmp graph n = []" using v(5) assms(2) by blast
  note mi = mapping_Nil [OF dataflow_Nil [OF this assms(3)] s]
  obtain p where p: "source_port_of (graph_index_of graph) s = Some p"
    "sourcePointerIsSafe (graph_schema graph (port_schemaId p)) (source_pointer s)" using mi(3) by blast
  then obtain schema where schema: "graph_schema graph (port_schemaId p) = Some schema"
    by (auto simp: sourcePointerIsSafe_def split: option.splits)
  obtain owner where o: "owner \<in> set (nodes graph)" "node_id owner = sourceNodeId s"
    "find_port (outputPorts owner) (sourcePort s) = Some p"
    using p(1) node_map_member by (auto simp: source_port_of_def graph_index_of_def split: bind_splits)
  have up: "(node_id owner, node_id n) \<in> (edge_rel (flow_edges graph))\<^sup>+"
    using mi(4) o(2) by (simp add: upstream_tranclp)
  have disclosed: "\<forall>v copied keys part. validateJsonSchema cmp v schema [] = [] \<and>
      readJsonPointer v (source_pointer s) = Some copied \<and> read_parts copied keys = Some part \<longrightarrow>
      (\<exists>t. schema_walk schema (schema_segments (source_pointer s) @ keys) = Some t \<and> conforms cmp part t \<and>
         \<not> protectedSource t)"
    using disclosure_safe [OF p(2) [unfolded schema]] by blast
  show "\<exists>owner p schema. owner \<in> set (nodes graph) \<and> node_id owner = sourceNodeId s \<and>
      (node_id owner, node_id n) \<in> (edge_rel (flow_edges graph))\<^sup>+ \<and>
      find_port (outputPorts owner) (sourcePort s) = Some p \<and> graph_schema graph (port_schemaId p) = Some schema \<and>
      (\<forall>v copied keys part. validateJsonSchema cmp v schema [] = [] \<and>
         readJsonPointer v (source_pointer s) = Some copied \<and> read_parts copied keys = Some part \<longrightarrow>
         (\<exists>t. schema_walk schema (schema_segments (source_pointer s) @ keys) = Some t \<and> conforms cmp part t \<and>
            \<not> protectedSource t))"
    using o up schema disclosed by blast
qed

section \<open>A valid graph\<close>

definition sample_schema :: json_schema where
  "sample_schema =
     [(''type'', JStr ''object''), (''additionalProperties'', JBool False),
      (''properties'', JObj [(''id'', JObj [(''type'', JStr ''string'')])])]"

definition sample_input :: workflow_node where
  "sample_input =
     \<lparr>node_id = ''a.in'', node_label = ''In'', inputPorts = [],
      outputPorts = [\<lparr>port_name = ''data'', port_schemaId = ''s.x''\<rparr>], node_mappings = [],
      failurePolicy = None, node_kind = Input_node, node_raw = []\<rparr>"

definition sample_source :: mapping_source where
  "sample_source = \<lparr>sourceNodeId = ''a.in'', sourcePort = ''data'', source_pointer = ''/id''\<rparr>"

definition sample_mapping :: target_mapping where
  "sample_mapping = \<lparr>targetPointer = ''/id'', mapping_binding = Path sample_source\<rparr>"

definition sample_output :: workflow_node where
  "sample_output =
     \<lparr>node_id = ''a.out'', node_label = ''Out'', inputPorts = [\<lparr>port_name = ''input'', port_schemaId = ''s.x''\<rparr>],
      outputPorts = [], node_mappings = [sample_mapping], failurePolicy = None, node_kind = Output_node, node_raw = []\<rparr>"

definition sample_edge :: workflow_edge where
  "sample_edge =
     \<lparr>edge_id = ''e.x'', edge_source = ''a.in'', edge_sourcePort = ''data'', edge_target = ''a.out'',
      edge_targetPort = ''input'', edge_label = None\<rparr>"

definition sample_graph :: workflow_graph where
  "sample_graph =
     \<lparr>schemaVersion = 1, nodes = [sample_input, sample_output], edges = [sample_edge],
      schemas = [(''s.x'', sample_schema)], layout = JObj []\<rparr>"

lemma sample_limits: "limit_issues unit_compare sample_graph = []"
  by code_simp

lemma sample_schemas:
  "schemaIssues unit_compare ''s.x'' sample_schema = []" "secretSchemaValueDiagnostics sample_graph = []"
  by code_simp+

lemma sample_nodes: "node_issues unit_compare sample_graph None {} (nodes sample_graph) = []"
  by code_simp

lemma sample_diagnostics:
  "actionBindingDiagnostics sample_graph (action_inputs None) = []" "mappingTargetDiagnostics sample_graph = []"
  by code_simp+

lemma sample_edges:
  "snd (edge_loop sample_graph) = []"
  "concat (map (connection_issues (fst (edge_loop sample_graph))) (nodes sample_graph)) = []"
  by code_simp+

lemma sample_dataflow:
  "shape_issues sample_graph = []" "concat (map (dataflow_issues unit_compare sample_graph) (nodes sample_graph)) = []"
  "reference_issues (compile_references sample_graph None) = []"
  by code_simp+

lemma sample_issues: "compile_issues unit_compare sample_graph None = []"
proof -
  have "schemas sample_graph = [(''s.x'', sample_schema)]" by (simp add: sample_graph_def)
  then show ?thesis
    unfolding compile_issues_def sample_limits sample_nodes sample_diagnostics sample_edges sample_dataflow
    by (simp add: sample_schemas)
qed

lemma sample_valid: "valid (compileWorkflowGraph (\<lambda>_. []) unit_compare sample_graph None)"
  by (simp add: compileWorkflowGraph_def Let_def sample_issues)

theorem valid_graph_shape_witness:
  "acyclic (edge_rel (flow_edges sample_graph)) \<and>
     set (compiledOrder (compileWorkflowGraph (\<lambda>_. []) unit_compare sample_graph None)) = {''a.in'', ''a.out''}"
  using valid_graph_shape [OF sample_valid] by (simp add: sample_graph_def sample_input_def sample_output_def)

theorem valid_graph_wired_witness:
  "length (edges_into sample_graph ''a.out'' ''input'') = 1"
proof -
  have "sample_output \<in> set (nodes sample_graph)" "\<lparr>port_name = ''input'', port_schemaId = ''s.x''\<rparr> \<in> set (inputPorts sample_output)"
    by (simp_all add: sample_graph_def sample_output_def)
  then show ?thesis
    using valid_graph_wired [OF sample_valid] by (fastforce simp: Let_def sample_output_def)
qed

theorem valid_graph_copies_safely_witness:
  "(''a.in'', ''a.out'') \<in> (edge_rel (flow_edges sample_graph))\<^sup>+ \<and>
     \<not> mappingTargetUnsafe (target_schema sample_graph sample_output) ''/id''"
proof -
  have "sample_output \<in> set (nodes sample_graph)" "sample_mapping \<in> set (node_mappings sample_output)"
    "sample_source \<in> set (binding_sources (mapping_binding sample_mapping))"
    by (simp_all add: sample_graph_def sample_output_def sample_mapping_def)
  from valid_graph_copies_safely [OF sample_valid this(1,2)] this(3)
  show ?thesis
    by (auto simp: sample_source_def sample_output_def sample_mapping_def)
qed

end
