(* ===== verification/Csv.thy ===== *)
theory Csv
  imports Flow_Prelude "HOL-Library.Word"
begin

text \<open>
  CSV in and out: the reader of \<open>modules/import/src/domain/csv.ts\<close> and the writer of
  \<open>packages/server/src/export/csv.ts\<close>. A text is the list of its UTF-16 code units, a body the list of
  the chunks its stream yields; \<open>TextDecoder\<close> is a parameter that answers \<open>None\<close> where it throws. The
  reader keeps the offsets of the source: a cell is cut out of the text, and \<open>pending\<close> holds only the
  pieces before a doubled or closing quote.
\<close>

type_synonym unit16 = "16 word"
type_synonym text16 = "unit16 list"
type_synonym octet = "8 word"

datatype csv_error =
  CSV_EMPTY | CSV_HEADER_BLANK | CSV_HEADER_DUPLICATE | CSV_NOT_UTF8 | CSV_QUOTE_UNTERMINATED
| CSV_QUOTE_UNEXPECTED | CSV_TOO_LARGE | CSV_TOO_MANY_ROWS

definition QUOTE :: unit16 where "QUOTE = 0x22"
definition COMMA :: unit16 where "COMMA = 0x2C"
definition CR :: unit16 where "CR = 0x0D"
definition LF :: unit16 where "LF = 0x0A"
definition BOM :: text16 where "BOM = [0xFEFF]"

lemmas csv_units = QUOTE_def COMMA_def CR_def LF_def

lemma csv_units_distinct [simp]:
  "QUOTE \<noteq> COMMA" "QUOTE \<noteq> CR" "QUOTE \<noteq> LF" "COMMA \<noteq> QUOTE" "COMMA \<noteq> CR" "COMMA \<noteq> LF"
  "CR \<noteq> QUOTE" "CR \<noteq> COMMA" "CR \<noteq> LF" "LF \<noteq> QUOTE" "LF \<noteq> COMMA" "LF \<noteq> CR"
  by (simp_all add: csv_units)

record csv_limits =
  maxBytes :: nat
  maxRows :: nat

section \<open>Reading the body\<close>

text \<open>The stream is abandoned at the first chunk that passes the limit.\<close>

fun collect_chunks :: "nat \<Rightarrow> octet list list \<Rightarrow> nat \<Rightarrow> octet list list \<Rightarrow> csv_error + octet list list" where
  "collect_chunks limit chunks held [] = Inr chunks"
| "collect_chunks limit chunks held (v # body) =
     (if limit < held + length v then Inl CSV_TOO_LARGE
      else collect_chunks limit (chunks @ [v]) (held + length v) body)"

definition readCsvBody :: "octet list list \<Rightarrow> nat \<Rightarrow> csv_error + octet list" where
  "readCsvBody body limit = and_then (collect_chunks limit [] 0 body) (\<lambda>chunks. Inr (concat chunks))"

definition decodeCsv :: "(octet list \<Rightarrow> text16 option) \<Rightarrow> octet list \<Rightarrow> csv_error + text16" where
  "decodeCsv decode bytes =
     (case decode bytes of
        None \<Rightarrow> Inl CSV_NOT_UTF8
      | Some t \<Rightarrow> Inr (if take (length BOM) t = BOM then drop (length BOM) t else t))"

section \<open>The record reader\<close>

record csv_state =
  csv_records :: "text16 list list"
  csv_cells :: "text16 list"
  csv_start :: nat
  csv_pending :: text16
  csv_quoted :: bool
  csv_started :: bool
  csv_index :: nat

definition csv_begin :: csv_state where
  "csv_begin = \<lparr>csv_records = [], csv_cells = [], csv_start = 0, csv_pending = [], csv_quoted = False,
     csv_started = False, csv_index = 0\<rparr>"

text \<open>\<open>text.slice(i, j)\<close>.\<close>

definition slice :: "text16 \<Rightarrow> nat \<Rightarrow> nat \<Rightarrow> text16" where
  "slice t i j = take (j - i) (drop i t)"

definition unit_at :: "text16 \<Rightarrow> nat \<Rightarrow> unit16 option" where
  "unit_at t i = (if i < length t then Some (t ! i) else None)"

definition cell_empty :: "csv_state \<Rightarrow> bool" where
  "cell_empty st = (csv_pending st = [] \<and> csv_start st = csv_index st)"

definition endField :: "text16 \<Rightarrow> csv_state \<Rightarrow> csv_state" where
  "endField t st =
     st\<lparr>csv_cells := csv_cells st @
         [if csv_pending st = [] then slice t (csv_start st) (csv_index st)
          else csv_pending st @ slice t (csv_start st) (csv_index st)],
       csv_pending := [], csv_started := True\<rparr>"

definition endRecord :: "text16 \<Rightarrow> nat \<Rightarrow> csv_state \<Rightarrow> csv_error + csv_state" where
  "endRecord t limit st =
     (let st1 = endField t st;
          st2 = st1\<lparr>csv_records := csv_records st1 @ [csv_cells st1], csv_cells := [], csv_started := False\<rparr>
      in if limit + 1 < length (csv_records st2) then Inl CSV_TOO_MANY_ROWS else Inr st2)"

definition move_to :: "nat \<Rightarrow> csv_state \<Rightarrow> csv_state" where
  "move_to i st = st\<lparr>csv_index := i, csv_start := i\<rparr>"

definition quoted_step :: "text16 \<Rightarrow> csv_state \<Rightarrow> csv_error + csv_state" where
  "quoted_step t st =
     (let i = csv_index st in
      if t ! i \<noteq> QUOTE then Inr (st\<lparr>csv_index := i + 1\<rparr>)
      else if unit_at t (i + 1) = Some QUOTE then
        Inr (move_to (i + 2) (st\<lparr>csv_pending := csv_pending st @ slice t (csv_start st) (i + 1)\<rparr>))
      else
        let st1 = move_to (i + 1) (st\<lparr>csv_pending :=
              (if csv_pending st = [] then slice t (csv_start st) i
               else csv_pending st @ slice t (csv_start st) i), csv_quoted := False\<rparr>)
        in case unit_at t (i + 1) of
             None \<Rightarrow> Inr st1
           | Some next \<Rightarrow>
               if next \<noteq> COMMA \<and> next \<noteq> LF \<and> next \<noteq> CR then Inl CSV_QUOTE_UNEXPECTED else Inr st1)"

definition plain_step :: "text16 \<Rightarrow> nat \<Rightarrow> csv_state \<Rightarrow> csv_error + csv_state" where
  "plain_step t limit st =
     (let i = csv_index st; c = t ! i in
      if c = QUOTE then
        (if \<not> cell_empty st then Inl CSV_QUOTE_UNEXPECTED
         else Inr (move_to (i + 1) (st\<lparr>csv_quoted := True, csv_started := True\<rparr>)))
      else if c = COMMA then Inr (move_to (i + 1) (endField t st))
      else if c = CR \<or> c = LF then
        and_then (endRecord t limit st) (\<lambda>st1.
          Inr (move_to (i + (if c = CR \<and> unit_at t (i + 1) = Some LF then 2 else 1)) st1))
      else Inr (st\<lparr>csv_started := True, csv_index := i + 1\<rparr>))"

definition csv_step :: "text16 \<Rightarrow> nat \<Rightarrow> csv_state \<Rightarrow> csv_error + csv_state" where
  "csv_step t limit st = (if csv_quoted st then quoted_step t st else plain_step t limit st)"

lemma csv_step_moves: "csv_step t limit st = Inr st' \<Longrightarrow> csv_index st < csv_index st'"
  by (auto simp: csv_step_def quoted_step_def plain_step_def move_to_def endField_def endRecord_def Let_def
      result_simps split: if_splits option.splits)

function csv_loop :: "text16 \<Rightarrow> nat \<Rightarrow> csv_state \<Rightarrow> csv_error + csv_state" where
  "csv_loop t limit st =
     (if csv_index st < length t then and_then (csv_step t limit st) (csv_loop t limit) else Inr st)"
  by pat_completeness auto
termination
  by (relation "measure (\<lambda>(t, limit, st). length t - csv_index st)") (auto dest: csv_step_moves)

declare csv_loop.simps [simp del]

definition parseRecords :: "text16 \<Rightarrow> nat \<Rightarrow> csv_error + text16 list list" where
  "parseRecords t limit =
     and_then (csv_loop t limit csv_begin) (\<lambda>st.
       if csv_quoted st then Inl CSV_QUOTE_UNTERMINATED
       else if csv_started st \<or> \<not> cell_empty st \<or> csv_cells st \<noteq> []
       then and_then (endRecord t limit st) (\<lambda>st1. Inr (csv_records st1))
       else Inr (csv_records st))"

section \<open>The document\<close>

text \<open>What \<open>String.prototype.trim\<close> takes off: white space and line terminators.\<close>

definition space16 :: "unit16 \<Rightarrow> bool" where
  "space16 c =
     (let n = unat c in
      9 \<le> n \<and> n \<le> 13 \<or> n \<in> {0x20, 0xA0, 0x1680, 0x2028, 0x2029, 0x202F, 0x205F, 0x3000, 0xFEFF} \<or>
      0x2000 \<le> n \<and> n \<le> 0x200A)"

definition trim16 :: "text16 \<Rightarrow> text16" where
  "trim16 s = rev (dropWhile space16 (rev (dropWhile space16 s)))"

fun checkHeader :: "text16 set \<Rightarrow> text16 list \<Rightarrow> csv_error + unit" where
  "checkHeader known [] = Inr ()"
| "checkHeader known (name # names) =
     (if name = [] then Inl CSV_HEADER_BLANK
      else if name \<in> known then Inl CSV_HEADER_DUPLICATE
      else checkHeader (insert name known) names)"

record csv_row =
  row_number :: nat
  row_cells :: "text16 list"

record csv_document =
  csv_header :: "text16 list"
  csv_rows :: "csv_row list"

definition number_rows :: "text16 list list \<Rightarrow> csv_row list" where
  "number_rows records = map (\<lambda>i. \<lparr>row_number = i, row_cells = records ! i\<rparr>) [1..<length records]"

definition parseCsv :: "text16 \<Rightarrow> csv_limits \<Rightarrow> csv_error + csv_document" where
  "parseCsv t limits =
     and_then (parseRecords t (maxRows limits)) (\<lambda>records.
       case records of
         [] \<Rightarrow> Inl CSV_EMPTY
       | headerRecord # _ \<Rightarrow>
           if length headerRecord = 1 \<and> headerRecord ! 0 = [] then Inl CSV_EMPTY
           else let header = map trim16 headerRecord in
             and_then (checkHeader {} header) (\<lambda>_.
               Inr \<lparr>csv_header = header, csv_rows = number_rows records\<rparr>))"

definition readCsv ::
    "(octet list \<Rightarrow> text16 option) \<Rightarrow> octet list list \<Rightarrow> csv_limits \<Rightarrow> csv_error + csv_document" where
  "readCsv decode body limits =
     and_then (readCsvBody body (maxBytes limits)) (\<lambda>bytes.
       and_then (decodeCsv decode bytes) (\<lambda>t. parseCsv t limits))"

section \<open>The writer\<close>

definition needs_quoting :: "text16 \<Rightarrow> bool" where
  "needs_quoting v = list_ex (\<lambda>c. c \<in> {QUOTE, CR, LF, COMMA}) v"

definition double_quotes :: "text16 \<Rightarrow> text16" where
  "double_quotes v = concat (map (\<lambda>c. if c = QUOTE then [QUOTE, QUOTE] else [c]) v)"

definition csvField :: "text16 \<Rightarrow> text16" where
  "csvField v = (if \<not> needs_quoting v then v else [QUOTE] @ double_quotes v @ [QUOTE])"

fun join_fields :: "text16 list \<Rightarrow> text16" where
  "join_fields [] = []"
| "join_fields [v] = csvField v"
| "join_fields (v # w # vs) = csvField v @ [COMMA] @ join_fields (w # vs)"

definition CSV_RECORD_SEPARATOR :: text16 where
  "CSV_RECORD_SEPARATOR = [CR, LF]"

definition csvRecord :: "text16 list \<Rightarrow> text16" where
  "csvRecord vs = join_fields vs @ CSV_RECORD_SEPARATOR"

section \<open>The reader without offsets\<close>

text \<open>
  The same reader as a function of the units that are left: a cell is the list of the units it has taken
  so far. The offsets, the slices and \<open>pending\<close> are a representation of it.
\<close>

record reader =
  rd_records :: "text16 list list"
  rd_cells :: "text16 list"
  rd_cell :: text16
  rd_quoted :: bool
  rd_started :: bool

definition separator :: "unit16 \<Rightarrow> bool" where
  "separator c = (c = COMMA \<or> c = LF \<or> c = CR)"

definition close_field :: "reader \<Rightarrow> reader" where
  "close_field r = r\<lparr>rd_cells := rd_cells r @ [rd_cell r], rd_cell := [], rd_started := True\<rparr>"

definition close_record :: "nat \<Rightarrow> reader \<Rightarrow> csv_error + reader" where
  "close_record limit r =
     (let recs = rd_records r @ [rd_cells r @ [rd_cell r]]
      in if limit + 1 < length recs then Inl CSV_TOO_MANY_ROWS
         else Inr \<lparr>rd_records = recs, rd_cells = [], rd_cell = [], rd_quoted = rd_quoted r,
                rd_started = False\<rparr>)"

fun read_units :: "nat \<Rightarrow> text16 \<Rightarrow> reader \<Rightarrow> csv_error + reader" where
  "read_units limit [] r = Inr r"
| "read_units limit (c # cs) r =
     (if rd_quoted r then
        if c \<noteq> QUOTE then read_units limit cs (r\<lparr>rd_cell := rd_cell r @ [c]\<rparr>)
        else (case cs of
                [] \<Rightarrow> Inr (r\<lparr>rd_quoted := False\<rparr>)
              | d # ds \<Rightarrow>
                  if d = QUOTE then read_units limit ds (r\<lparr>rd_cell := rd_cell r @ [QUOTE]\<rparr>)
                  else if \<not> separator d then Inl CSV_QUOTE_UNEXPECTED
                  else read_units limit cs (r\<lparr>rd_quoted := False\<rparr>))
      else if c = QUOTE then
        if rd_cell r \<noteq> [] then Inl CSV_QUOTE_UNEXPECTED
        else read_units limit cs (r\<lparr>rd_quoted := True, rd_started := True\<rparr>)
      else if c = COMMA then read_units limit cs (close_field r)
      else if c = CR \<or> c = LF then
        and_then (close_record limit r)
          (read_units limit (if c = CR \<and> cs \<noteq> [] \<and> hd cs = LF then tl cs else cs))
      else read_units limit cs (r\<lparr>rd_cell := rd_cell r @ [c], rd_started := True\<rparr>))"

declare read_units.simps(2) [simp del]

definition finish_records :: "nat \<Rightarrow> reader \<Rightarrow> csv_error + text16 list list" where
  "finish_records limit r =
     (if rd_quoted r then Inl CSV_QUOTE_UNTERMINATED
      else if rd_started r \<or> rd_cell r \<noteq> [] \<or> rd_cells r \<noteq> []
      then and_then (close_record limit r) (\<lambda>r1. Inr (rd_records r1))
      else Inr (rd_records r))"

definition fresh_reader :: "text16 list list \<Rightarrow> reader" where
  "fresh_reader recs = \<lparr>rd_records = recs, rd_cells = [], rd_cell = [], rd_quoted = False,
     rd_started = False\<rparr>"

definition read_of :: "text16 \<Rightarrow> csv_state \<Rightarrow> reader" where
  "read_of t st = \<lparr>rd_records = csv_records st, rd_cells = csv_cells st,
     rd_cell = csv_pending st @ slice t (csv_start st) (csv_index st),
     rd_quoted = csv_quoted st, rd_started = csv_started st\<rparr>"

definition csv_ok :: "text16 \<Rightarrow> csv_state \<Rightarrow> bool" where
  "csv_ok t st = (csv_start st \<le> csv_index st \<and> csv_index st \<le> length t)"

text \<open>The step relation of the two: one step of the source is one unfolding of the reader.\<close>

lemma slice_Suc: "i \<le> j \<Longrightarrow> j < length t \<Longrightarrow> slice t i (Suc j) = slice t i j @ [t ! j]"
  by (simp add: slice_def Suc_diff_le take_Suc_conv_app_nth)

lemma slice_self [simp]: "slice t i i = []"
  by (simp add: slice_def)

lemma slice_nil: "i \<le> j \<Longrightarrow> j \<le> length t \<Longrightarrow> slice t i j = [] \<longleftrightarrow> i = j"
  by (auto simp: slice_def)

lemma cell_empty_read_of: "csv_ok t st \<Longrightarrow> cell_empty st \<longleftrightarrow> rd_cell (read_of t st) = []"
  by (auto simp: cell_empty_def csv_ok_def read_of_def slice_nil)

lemma unit_at_drop: "unit_at t i = (case drop i t of [] \<Rightarrow> None | d # ds \<Rightarrow> Some d)"
  by (cases "i < length t") (auto simp: unit_at_def Cons_nth_drop_Suc [symmetric])

lemma csv_step_ok: "csv_ok t st \<Longrightarrow> csv_index st < length t \<Longrightarrow> csv_step t limit st = Inr st' \<Longrightarrow> csv_ok t st'"
  by (auto simp: csv_step_def quoted_step_def plain_step_def move_to_def endField_def endRecord_def Let_def
      result_simps csv_ok_def unit_at_def split: if_splits option.splits)

lemma endRecord_read_of:
  "csv_ok t st \<Longrightarrow> map_sum id (read_of t) (and_then (endRecord t limit st) (\<lambda>st1. Inr (move_to i st1))) =
     close_record limit (read_of t st)"
  by (auto simp: endRecord_def endField_def close_record_def read_of_def Let_def move_to_def csv_ok_def)

lemma drop_at: "i < length t \<Longrightarrow> drop i t = t ! i # drop (Suc i) t"
  by (simp add: Cons_nth_drop_Suc)

lemma unit_at_Some: "unit_at t i = Some d \<Longrightarrow> i < length t \<and> drop i t = d # drop (Suc i) t"
  by (auto simp: unit_at_def drop_at split: if_splits)

lemma unit_at_None: "unit_at t i = None \<Longrightarrow> drop i t = []"
  by (auto simp: unit_at_def split: if_splits)

lemma rd_quoted_read_of [simp]: "rd_quoted (read_of t st) = csv_quoted st"
  by (simp add: read_of_def)

lemma quoted_step_read:
  assumes "csv_ok t st" "csv_index st < length t" "csv_quoted st"
  shows "read_units limit (drop (csv_index st) t) (read_of t st) =
     and_then (quoted_step t st) (\<lambda>st'. read_units limit (drop (csv_index st') t) (read_of t st'))"
proof -
  let ?i = "csv_index st"
  have le: "csv_start st \<le> ?i" using assms by (simp add: csv_ok_def)
  note d = drop_at [OF assms(2)]
  note s = slice_Suc [OF le assms(2)]
  show ?thesis
  proof (cases "t ! ?i = QUOTE")
    case False
    then show ?thesis
      using assms by (simp add: d read_units.simps quoted_step_def read_of_def Let_def s)
  next
    case True
    show ?thesis
    proof (cases "unit_at t (Suc ?i)")
      case None
      with True assms show ?thesis
        by (simp add: d unit_at_None read_units.simps quoted_step_def read_of_def Let_def move_to_def)
    next
      case (Some c)
      with True assms unit_at_Some [OF Some] show ?thesis
        by (cases "c = QUOTE") (auto simp: d s read_units.simps(2) [of _ QUOTE] quoted_step_def read_of_def Let_def move_to_def separator_def)
    qed
  qed
qed

lemma close_record_endRecord:
  "close_record limit (read_of t st) = Inl e \<longleftrightarrow> endRecord t limit st = Inl e"
  by (auto simp: endRecord_def endField_def close_record_def read_of_def Let_def)

lemma plain_step_read:
  assumes "csv_ok t st" "csv_index st < length t" "\<not> csv_quoted st"
  shows "read_units limit (drop (csv_index st) t) (read_of t st) =
     and_then (plain_step t limit st) (\<lambda>st'. read_units limit (drop (csv_index st') t) (read_of t st'))"
proof -
  let ?i = "csv_index st"
  have le: "csv_start st \<le> ?i" using assms by (simp add: csv_ok_def)
  note d = drop_at [OF assms(2)]
  note s = slice_Suc [OF le assms(2)]
  note e = cell_empty_read_of [OF assms(1)]
  consider "t ! ?i = QUOTE" | "t ! ?i = COMMA" | "t ! ?i = CR \<or> t ! ?i = LF"
    | "t ! ?i \<noteq> QUOTE" "t ! ?i \<noteq> COMMA" "t ! ?i \<noteq> CR" "t ! ?i \<noteq> LF" by blast
  then show ?thesis
  proof cases
    case 1
    with assms show ?thesis
      by (auto simp: d read_units.simps(2) plain_step_def e Let_def move_to_def) (auto simp: read_of_def)
  next
    case 2
    with assms show ?thesis
      by (simp add: d read_units.simps(2) plain_step_def Let_def move_to_def endField_def close_field_def read_of_def)
  next
    case 3
    let ?n = "if t ! ?i = CR \<and> unit_at t (Suc ?i) = Some LF then Suc (Suc ?i) else Suc ?i"
    let ?ds = "drop (Suc ?i) t"
    have n: "(if t ! ?i = CR \<and> ?ds \<noteq> [] \<and> hd ?ds = LF then tl ?ds else ?ds) = drop ?n t"
      by (cases "unit_at t (Suc ?i)") (auto simp: unit_at_None dest: unit_at_Some)
    have "t ! ?i \<noteq> QUOTE" "t ! ?i \<noteq> COMMA" using 3 by auto
    with 3 assms(3) have l: "read_units limit (drop ?i t) (read_of t st) =
        and_then (close_record limit (read_of t st)) (read_units limit (drop ?n t))"
      unfolding d read_units.simps(2) n by simp
    have p: "plain_step t limit st = and_then (endRecord t limit st) (\<lambda>st1. Inr (move_to ?n st1))"
      using 3 by (auto simp: plain_step_def Let_def)
    show ?thesis
    proof (cases "endRecord t limit st")
      case (Inl er)
      then show ?thesis by (simp add: l p close_record_endRecord [THEN iffD2])
    next
      case (Inr st1)
      have "close_record limit (read_of t st) = Inr (read_of t (move_to ?n st1))"
        using Inr assms by (auto simp: endRecord_def endField_def close_record_def read_of_def Let_def move_to_def split: if_splits)
      then show ?thesis unfolding l p Inr by (simp add: move_to_def)
    qed
  next
    case 4
    with assms show ?thesis
      by (simp add: d read_units.simps(2) plain_step_def Let_def read_of_def s)
  qed
qed
lemma csv_loop_read:
  "csv_ok t st \<Longrightarrow>
     read_units limit (drop (csv_index st) t) (read_of t st) = map_sum id (read_of t) (csv_loop t limit st)"
proof (induction t limit st rule: csv_loop.induct)
  case (1 t limit st)
  show ?case
  proof (cases "csv_index st < length t")
    case True
    have "read_units limit (drop (csv_index st) t) (read_of t st) =
       and_then (csv_step t limit st) (\<lambda>st'. read_units limit (drop (csv_index st') t) (read_of t st'))"
      using quoted_step_read [OF 1(2) True] plain_step_read [OF 1(2) True] by (simp add: csv_step_def)
    also have "\<dots> = map_sum id (read_of t) (and_then (csv_step t limit st) (csv_loop t limit))"
      using 1(1) [OF True] csv_step_ok [OF 1(2) True] by (cases "csv_step t limit st") (auto simp: id_def)
    finally show ?thesis using True by (simp add: csv_loop.simps [of t limit st] id_def)
  next
    case False
    then show ?thesis by (simp add: csv_loop.simps [of t limit st])
  qed
qed

lemma csv_loop_ok: "csv_ok t st \<Longrightarrow> csv_loop t limit st = Inr st' \<Longrightarrow> csv_ok t st'"
proof (induction t limit st rule: csv_loop.induct)
  case (1 t limit st)
  show ?case
  proof (cases "csv_index st < length t")
    case True
    with 1(3) obtain st1 where "csv_step t limit st = Inr st1" "csv_loop t limit st1 = Inr st'"
      by (auto simp: csv_loop.simps [of t limit st] result_simps)
    with 1 True show ?thesis by (blast dest: csv_step_ok)
  next
    case False
    with 1 show ?thesis by (simp add: csv_loop.simps [of t limit st])
  qed
qed

lemma close_record_read_of:
  "map_sum id rd_records (close_record limit (read_of t st)) = map_sum id csv_records (endRecord t limit st)"
  by (auto simp: endRecord_def endField_def close_record_def read_of_def Let_def)

lemma parseRecords_read:
  "parseRecords t limit = and_then (read_units limit t (fresh_reader [])) (finish_records limit)"
proof -
  have ok: "csv_ok t csv_begin" by (simp add: csv_ok_def csv_begin_def)
  have i: "csv_index csv_begin = 0" by (simp add: csv_begin_def)
  have r: "read_of t csv_begin = fresh_reader []" by (simp add: read_of_def csv_begin_def fresh_reader_def)
  have m: "map_sum id f r = and_then r (\<lambda>x. Inr (f x))" for f :: "'a \<Rightarrow> 'b" and r :: "csv_error + 'a"
    by (cases r) auto
  have fin: "(if csv_quoted st then Inl CSV_QUOTE_UNTERMINATED
       else if csv_started st \<or> \<not> cell_empty st \<or> csv_cells st \<noteq> []
       then and_then (endRecord t limit st) (\<lambda>st1. Inr (csv_records st1))
       else Inr (csv_records st)) = finish_records limit (read_of t st)" if "csv_ok t st" for st
    using cell_empty_read_of [OF that] close_record_read_of [of limit t st]
    by (simp add: finish_records_def m) (simp add: read_of_def)
  show ?thesis
    using csv_loop_read [OF ok, of limit] csv_loop_ok [OF ok, of limit]
    by (cases "csv_loop t limit csv_begin") (auto simp: parseRecords_def r fin i)
qed
section \<open>What the writer writes\<close>

lemma read_plain:
  "\<not> needs_quoting v \<Longrightarrow> \<not> rd_quoted r \<Longrightarrow>
     read_units limit (v @ rest) r =
       read_units limit rest (r\<lparr>rd_cell := rd_cell r @ v, rd_started := (rd_started r \<or> v \<noteq> [])\<rparr>)"
  by (induction v arbitrary: r) (auto simp: needs_quoting_def read_units.simps(2))

lemma read_double_quotes:
  "rd_quoted r \<Longrightarrow>
     read_units limit (double_quotes v @ rest) r = read_units limit rest (r\<lparr>rd_cell := rd_cell r @ v\<rparr>)"
  by (induction v arbitrary: r) (auto simp: double_quotes_def read_units.simps(2))

lemma read_csvField:
  assumes "\<not> rd_quoted r" "rd_cell r = []" "separator d"
  shows "read_units limit (csvField v @ d # rest) r =
     read_units limit (d # rest)
       (r\<lparr>rd_cell := v, rd_started := (rd_started r \<or> v \<noteq> [])\<rparr>)"
proof (cases "needs_quoting v")
  case True
  then have "v \<noteq> []" by (auto simp: needs_quoting_def)
  moreover have "d \<noteq> QUOTE" using assms by (auto simp: separator_def)
  ultimately show ?thesis
    using True assms
    by (cases r) (simp add: csvField_def read_units.simps(2) [of _ QUOTE] read_double_quotes)
next
  case False
  then show ?thesis using assms by (simp add: csvField_def read_plain)
qed

lemma read_join_fields:
  assumes "vs \<noteq> []" "separator d" "\<not> rd_quoted r" "rd_cell r = []" "d \<noteq> COMMA"
  shows "\<exists>s. read_units limit (join_fields vs @ d # rest) r =
     read_units limit (d # rest) (r\<lparr>rd_cells := rd_cells r @ butlast vs, rd_cell := last vs, rd_started := s\<rparr>)"
  using assms
proof (induction vs arbitrary: r rule: join_fields.induct)
  case (2 v)
  then show ?case by (auto simp: read_csvField)
next
  case (3 v w vs)
  have c: "separator COMMA" by (simp add: separator_def)
  let ?r = "r\<lparr>rd_cells := rd_cells r @ [v], rd_cell := [], rd_started := True\<rparr>"
  have "read_units limit (join_fields (v # w # vs) @ d # rest) r = read_units limit (join_fields (w # vs) @ d # rest) ?r"
    using 3 c by (simp add: read_csvField read_units.simps(2) [of _ COMMA] close_field_def)
  then show ?case using 3(1) [of ?r] 3(2-) by simp
qed simp

lemma read_csvRecord:
  assumes "vs \<noteq> []"
  shows "read_units limit (csvRecord vs @ rest) (fresh_reader recs) =
     (if limit < length recs then Inl CSV_TOO_MANY_ROWS
      else read_units limit rest (fresh_reader (recs @ [vs])))"
proof -
  have s: "separator CR" by (simp add: separator_def)
  have r: "\<not> rd_quoted (fresh_reader recs)" "rd_cell (fresh_reader recs) = []" by (simp_all add: fresh_reader_def)
  obtain b where b: "read_units limit (join_fields vs @ CR # LF # rest) (fresh_reader recs) =
      read_units limit (CR # LF # rest)
        (fresh_reader recs\<lparr>rd_cells := rd_cells (fresh_reader recs) @ butlast vs, rd_cell := last vs, rd_started := b\<rparr>)"
    using read_join_fields [OF assms s r, of limit "LF # rest"] by auto
  then show ?thesis
    using assms by (auto simp: csvRecord_def CSV_RECORD_SEPARATOR_def read_units.simps(2) [of _ CR] close_record_def fresh_reader_def)
qed

lemma read_csvRecords:
  "list_all (\<lambda>vs. vs \<noteq> []) rows \<Longrightarrow> length recs \<le> limit + 1 \<Longrightarrow>
   read_units limit (concat (map csvRecord rows)) (fresh_reader recs) =
     (if limit + 1 < length recs + length rows then Inl CSV_TOO_MANY_ROWS else Inr (fresh_reader (recs @ rows)))"
proof (induction rows arbitrary: recs)
  case (Cons vs rows)
  then show ?case using Cons.IH [of "recs @ [vs]"] by (auto simp: read_csvRecord)
qed simp

lemma parse_written:
  "list_all (\<lambda>vs. vs \<noteq> []) rows \<Longrightarrow>
   parseRecords (concat (map csvRecord rows)) limit =
     (if limit + 1 < length rows then Inl CSV_TOO_MANY_ROWS else Inr rows)"
  by (simp add: parseRecords_read read_csvRecords) (simp add: finish_records_def fresh_reader_def)


section \<open>What a document is\<close>

lemma close_record_bound:
  "close_record limit r = Inr r' \<Longrightarrow> length (rd_records r') \<le> limit + 1 \<and>
     ([] \<notin> set (rd_records r) \<longrightarrow> [] \<notin> set (rd_records r'))"
  by (auto simp: close_record_def Let_def split: if_splits)

lemma read_units_bound:
  "read_units limit t r = Inr r' \<Longrightarrow> length (rd_records r) \<le> limit + 1 \<Longrightarrow> [] \<notin> set (rd_records r) \<Longrightarrow>
     length (rd_records r') \<le> limit + 1 \<and> [] \<notin> set (rd_records r')"
proof (induction limit t r rule: read_units.induct)
  case (2 limit c cs r)
  note u = 2(8) [unfolded read_units.simps(2)]
  show ?case
    using u 2(1-7,9,10) close_record_bound [of limit r]
    by (auto simp: result_simps close_field_def split: if_splits list.splits)
qed simp

lemma parseRecords_bound:
  assumes "parseRecords t limit = Inr records"
  shows "length records \<le> limit + 1 \<and> [] \<notin> set records"
proof -
  from assms obtain r where "read_units limit t (fresh_reader []) = Inr r" "finish_records limit r = Inr records"
    by (auto simp: parseRecords_read result_simps)
  then show ?thesis
    using read_units_bound [of limit t "fresh_reader []" r] close_record_bound [of limit r]
    by (auto simp: fresh_reader_def finish_records_def result_simps split: if_splits)
qed

lemma checkHeader_ok:
  "checkHeader known names = Inr u \<longleftrightarrow> distinct names \<and> [] \<notin> set names \<and> set names \<inter> known = {}"
  by (induction names arbitrary: known) auto

lemma collect_chunks_ok:
  "collect_chunks limit chunks held body = (if limit < held + length (concat body) \<and> body \<noteq> []
     then Inl CSV_TOO_LARGE else Inr (chunks @ body))" if "held \<le> limit"
  using that by (induction body arbitrary: chunks held) auto

lemma readCsvBody_exact:
  "readCsvBody body limit =
     (if limit < length (concat body) then Inl CSV_TOO_LARGE else Inr (concat body))"
  by (cases body) (simp_all add: readCsvBody_def collect_chunks_ok)

lemma number_rows_cells:
  "length (number_rows records) = length records - 1" "map row_cells (number_rows records) = tl records"
  "map row_number (number_rows records) = [1..<length records]"
proof -
  show "map row_cells (number_rows records) = tl records"
    by (rule nth_equalityI) (auto simp: number_rows_def nth_tl)
qed (simp_all add: number_rows_def o_def)

lemma parseCsv_ok:
  "parseCsv t limits = Inr d \<longleftrightarrow>
     (\<exists>records. parseRecords t (maxRows limits) = Inr records \<and> records \<noteq> [] \<and> hd records \<noteq> [[]] \<and>
        checkHeader {} (map trim16 (hd records)) = Inr () \<and>
        d = \<lparr>csv_header = map trim16 (hd records), csv_rows = number_rows records\<rparr>)"
proof -
  have one: "length xs = Suc 0 \<and> xs ! 0 = [] \<longleftrightarrow> xs = [[]]" for xs :: "text16 list"
    by (cases xs) auto
  show ?thesis
  proof (cases "parseRecords t (maxRows limits)")
    case (Inr records)
    then show ?thesis
      by (cases records; cases "checkHeader {} (map trim16 (hd records))")
         (auto simp: parseCsv_def Let_def one)
  qed (simp add: parseCsv_def)
qed

lemma trim16_first: "trim16 n = n \<Longrightarrow> n \<noteq> [] \<Longrightarrow> \<not> space16 (hd n)"
proof
  assume n: "trim16 n = n" "n \<noteq> []" "space16 (hd n)"
  have "length (trim16 n) \<le> length (dropWhile space16 n)"
    unfolding trim16_def using length_dropWhile_le [of space16 "rev (dropWhile space16 n)"] by simp
  also have "\<dots> < length n"
    using n(2,3) length_dropWhile_le [of space16 "tl n"] by (cases n) auto
  finally show False using n(1) by simp
qed

lemma written_no_bom:
  assumes "header \<noteq> []" "list_all (\<lambda>n. n \<noteq> [] \<and> trim16 n = n) header"
  shows "take (length BOM) (concat (map csvRecord (header # rows))) \<noteq> BOM"
proof -
  obtain v vs where h: "header = v # vs" using assms(1) by (cases header) auto
  with assms(2) have v: "v \<noteq> []" "\<not> space16 (hd v)" using trim16_first by auto
  have "hd (csvField v) \<noteq> 0xFEFF \<and> csvField v \<noteq> []"
  proof (cases "needs_quoting v")
    case True
    then show ?thesis by (simp add: csvField_def QUOTE_def)
  next
    case False
    have "space16 0xFEFF" by (simp add: space16_def)
    with v False show ?thesis by (auto simp: csvField_def)
  qed
  moreover obtain rest where r: "concat (map csvRecord (header # rows)) = csvField v @ rest"
    by (cases vs) (auto simp: h csvRecord_def)
  ultimately show ?thesis unfolding r by (cases "csvField v") (auto simp: BOM_def)
qed

lemma readCsv_written:
  assumes "decode (concat body) = Some t \<or> decode (concat body) = Some (BOM @ t)"
    and "t = concat (map csvRecord (header # rows))"
    and "length (concat body) \<le> maxBytes limits" "length rows \<le> maxRows limits"
    and "header \<noteq> []" "list_all (\<lambda>vs. vs \<noteq> []) rows"
    and "distinct header" "list_all (\<lambda>n. n \<noteq> [] \<and> trim16 n = n) header"
  shows "readCsv decode body limits =
     Inr \<lparr>csv_header = header, csv_rows = number_rows (header # rows)\<rparr>"
proof -
  have h: "map trim16 header = header" using assms(8) by (simp add: list_all_iff map_idI)
  have "header \<noteq> [[]]" "checkHeader {} header = Inr ()"
    using assms(7,8) by (auto simp: checkHeader_ok list_all_iff)
  then have p: "parseCsv t limits =
      Inr \<lparr>csv_header = header, csv_rows = number_rows (header # rows)\<rparr>"
    using parse_written [of "header # rows" "maxRows limits"] assms h unfolding parseCsv_ok by simp
  have "decodeCsv decode (concat body) = Inr t"
    using assms(1) written_no_bom [OF assms(5,8), of rows] by (auto simp: decodeCsv_def assms(2))
  then show ?thesis
    using assms(3) p by (simp add: readCsv_def readCsvBody_exact)
qed

lemma readCsv_ok:
  assumes "readCsv decode body limits = Inr d"
  shows "length (concat body) \<le> maxBytes limits" "length (csv_rows d) \<le> maxRows limits"
    "map row_number (csv_rows d) = [1..<Suc (length (csv_rows d))]"
    "[] \<notin> set (map row_cells (csv_rows d))"
    "csv_header d \<noteq> []" "distinct (csv_header d)" "[] \<notin> set (csv_header d)"
proof -
  from assms obtain t where b: "length (concat body) \<le> maxBytes limits" and p: "parseCsv t limits = Inr d"
    by (auto simp: readCsv_def readCsvBody_exact result_simps split: if_splits)
  then show "length (concat body) \<le> maxBytes limits" by simp
  from p obtain records where r: "parseRecords t (maxRows limits) = Inr records" "records \<noteq> []"
      "checkHeader {} (map trim16 (hd records)) = Inr ()"
      "d = \<lparr>csv_header = map trim16 (hd records), csv_rows = number_rows records\<rparr>"
    by (auto simp: parseCsv_ok)
  note n = number_rows_cells [of records] and bd = parseRecords_bound [OF r(1)]
  have ne: "hd records \<noteq> []" using bd r(2) by (metis hd_in_set)
  have len: "Suc (length (number_rows records)) = length records" using r(2) by (simp add: n(1))
  show "length (csv_rows d) \<le> maxRows limits" using bd by (simp add: r(4) n(1) le_diff_conv)
  show "map row_number (csv_rows d) = [1..<Suc (length (csv_rows d))]"
    unfolding len r(4) csv_document.select_convs n(3) by simp
  show "[] \<notin> set (map row_cells (csv_rows d))"
    unfolding r(4) csv_document.select_convs n(2) using bd r(2) by (cases records) auto
  show "csv_header d \<noteq> []" "distinct (csv_header d)" "[] \<notin> set (csv_header d)"
    using r(3) ne by (auto simp: checkHeader_ok r(4))
qed

text \<open>C30: A file the export writer wrote reads back as it was. Whatever chunks the bytes arrive in, and whether or
  not the decoder keeps the byte order mark, a header of distinct, trimmed, non-blank names followed by rows of any
  text (quotes, commas and line breaks included) within both limits is read as that header and those rows, in order
  and numbered from 1. The bytes are decoded by the platform, which is the parameter.\<close>

theorem written_csv_reads_back:
  assumes "decode (concat body) = Some t \<or> decode (concat body) = Some (BOM @ t)"
    and "t = concat (map csvRecord (header # rows))"
    and "length (concat body) \<le> maxBytes limits" "length rows \<le> maxRows limits"
    and "header \<noteq> []" "list_all (\<lambda>vs. vs \<noteq> []) rows"
    and "distinct header" "list_all (\<lambda>n. n \<noteq> [] \<and> trim16 n = n) header"
  shows "\<exists>d. readCsv decode body limits = Inr d \<and> csv_header d = header \<and>
     map row_cells (csv_rows d) = rows \<and> map row_number (csv_rows d) = [1..<Suc (length rows)]"
  using readCsv_written [where decode = decode and body = body and t = t and header = header and rows = rows and limits = limits]
    assms number_rows_cells [of "header # rows"] by simp

text \<open>A decoder for the ASCII part of UTF-8, for the sample file.\<close>

definition decode_ascii :: "octet list \<Rightarrow> text16 option" where
  "decode_ascii bs = (if list_all (\<lambda>b. unat b < 128) bs then Some (map (\<lambda>b. word_of_nat (unat b)) bs) else None)"

lemma sample_csv_file:
  "decode_ascii (concat [[0x61, 0x2C, 0x62, 0x0D], [0x0A, 0x22, 0x22, 0x22, 0x22, 0x2C, 0x0D, 0x0A]]) =
     Some (concat (map csvRecord ([[0x61], [0x62]] # [[[0x22], []]])))"
  "list_all (\<lambda>n. n \<noteq> [] \<and> trim16 n = n) [[0x61], [0x62]]"
  by (simp_all add: decode_ascii_def csvRecord_def csvField_def needs_quoting_def double_quotes_def
        CSV_RECORD_SEPARATOR_def csv_units trim16_def space16_def)

theorem written_csv_reads_back_witness:
  "\<exists>d. readCsv decode_ascii [[0x61, 0x2C, 0x62, 0x0D], [0x0A, 0x22, 0x22, 0x22, 0x22, 0x2C, 0x0D, 0x0A]]
       \<lparr>maxBytes = 100, maxRows = 1\<rparr> = Inr d \<and> csv_header d = [[0x61], [0x62]] \<and>
     map row_cells (csv_rows d) = [[[0x22], []]] \<and> map row_number (csv_rows d) = [1..<Suc (length [[[0x22::unit16], []]])]"
proof (rule written_csv_reads_back [OF _ refl])
  show "decode_ascii (concat [[0x61, 0x2C, 0x62, 0x0D], [0x0A, 0x22, 0x22, 0x22, 0x22, 0x2C, 0x0D, 0x0A]]) =
      Some (concat (map csvRecord ([[0x61], [0x62]] # [[[0x22], []]]))) \<or>
    decode_ascii (concat [[0x61, 0x2C, 0x62, 0x0D], [0x0A, 0x22, 0x22, 0x22, 0x22, 0x2C, 0x0D, 0x0A]]) =
      Some (BOM @ concat (map csvRecord ([[0x61], [0x62]] # [[[0x22], []]])))"
    by (rule disjI1 [OF sample_csv_file(1)])
qed (use sample_csv_file(2) in simp_all)

text \<open>What a successful read guarantees the importer: the bytes and the data rows keep within the limits, the
  rows are numbered from 1 without gaps and each has a cell, and the header has at least one column, no blank name
  and no name twice; a body past the byte limit is refused whatever it holds.\<close>

lemma csv_read_bounds:
  "(maxBytes limits < length (concat body) \<longrightarrow> readCsv decode body limits = Inl CSV_TOO_LARGE) \<and>
   (\<forall>d. readCsv decode body limits = Inr d \<longrightarrow>
     length (concat body) \<le> maxBytes limits \<and> length (csv_rows d) \<le> maxRows limits \<and>
     map row_number (csv_rows d) = [1..<Suc (length (csv_rows d))] \<and>
     [] \<notin> set (map row_cells (csv_rows d)) \<and>
     csv_header d \<noteq> [] \<and> distinct (csv_header d) \<and> [] \<notin> set (csv_header d))"
proof (intro conjI)
  show "maxBytes limits < length (concat body) \<longrightarrow> readCsv decode body limits = Inl CSV_TOO_LARGE"
    by (simp add: readCsv_def readCsvBody_exact)
qed (blast dest: readCsv_ok)

lemma sample_csv_read:
  "\<exists>d. readCsv decode_ascii [[0x61, 0x2C, 0x62, 0x0D], [0x0A, 0x22, 0x22, 0x22, 0x22, 0x2C, 0x0D, 0x0A]]
       \<lparr>maxBytes = 12, maxRows = 1\<rparr> = Inr d \<and> csv_header d = [[0x61], [0x62]]"
  using readCsv_written [where decode = decode_ascii and header = "[[0x61], [0x62]]" and rows = "[[[0x22], []]]"
      and body = "[[0x61, 0x2C, 0x62, 0x0D], [0x0A, 0x22, 0x22, 0x22, 0x22, 0x2C, 0x0D, 0x0A]]"
      and limits = "\<lparr>maxBytes = 12, maxRows = 1\<rparr>"] sample_csv_file
  by simp

lemma csv_read_bounds_example:
  "readCsv decode_ascii [[0x61], [0x0A, 0x62]] \<lparr>maxBytes = 2, maxRows = 1\<rparr> = Inl CSV_TOO_LARGE \<and>
   (\<exists>d. readCsv decode_ascii [[0x61, 0x2C, 0x62, 0x0D], [0x0A, 0x22, 0x22, 0x22, 0x22, 0x2C, 0x0D, 0x0A]]
      \<lparr>maxBytes = 12, maxRows = 1\<rparr> = Inr d \<and> length (csv_rows d) \<le> 1)"
  using csv_read_bounds [of "\<lparr>maxBytes = 2, maxRows = 1\<rparr>" "[[0x61], [0x0A, 0x62]]" decode_ascii]
    csv_read_bounds [of "\<lparr>maxBytes = 12, maxRows = 1\<rparr>"
      "[[0x61, 0x2C, 0x62, 0x0D], [0x0A, 0x22, 0x22, 0x22, 0x22, 0x2C, 0x0D, 0x0A]]" decode_ascii]
    sample_csv_read
  by auto

end
