(* ===== verification/Rate_Limits.thy ===== *)
theory Rate_Limits
  imports Flow_Prelude "HOL-Library.AList"
begin

text \<open>
  The two fixed-window limiters: the API token limiter of \<open>modules/auth/src/middleware/rate-limit.ts\<close>
  and the SCIM limiter of \<open>modules/directory/src/services/rate-limiter.ts\<close>. A JavaScript \<open>Map\<close> is an
  association list in insertion order: setting a key that is present keeps its place, deleting and
  setting it again moves it to the end. Both give the contract \<open>fixed_window\<close>, under which exactly
  \<open>limit\<close> of the requests of a key are admitted in a window. Times are integers (milliseconds).
\<close>

record window =
  win_count :: nat
  win_started :: int

type_synonym windows = "(string \<times> window) list"

section \<open>The API token limiter\<close>

definition API_TOKEN_RATE_WINDOW_MS :: int where "API_TOKEN_RATE_WINDOW_MS = 60000"
definition CAPACITY :: nat where "CAPACITY = 4096"

record rate_decision =
  rd_allowed :: bool
  rd_limit :: int
  rd_remaining :: int
  rd_resetSeconds :: int

definition UNLIMITED :: rate_decision where
  "UNLIMITED = \<lparr>rd_allowed = True, rd_limit = 0, rd_remaining = 0, rd_resetSeconds = 0\<rparr>"

definition window_over :: "int \<Rightarrow> int \<Rightarrow> window \<Rightarrow> bool" where
  "window_over windowMs now w = (windowMs \<le> now - win_started w)"

fun drop_oldest :: "windows \<Rightarrow> windows" where
  "drop_oldest [] = []"
| "drop_oldest (e # ws) = (if CAPACITY \<le> length (e # ws) then drop_oldest ws else e # ws)"

definition evict_windows :: "int \<Rightarrow> int \<Rightarrow> windows \<Rightarrow> windows" where
  "evict_windows windowMs now ws = drop_oldest (filter (\<lambda>(k, w). \<not> window_over windowMs now w) ws)"

text \<open>\<open>Math.ceil(ms / 1000)\<close>.\<close>

definition ceil_seconds :: "int \<Rightarrow> int" where
  "ceil_seconds ms = - ((- ms) div 1000)"

text \<open>The window a request is counted in, and the map once it is there.\<close>

definition open_window :: "int \<Rightarrow> windows \<Rightarrow> string \<Rightarrow> int \<Rightarrow> window \<times> windows" where
  "open_window windowMs ws key now =
     (let fresh = \<lparr>win_count = 0, win_started = now\<rparr> in
      case map_of ws key of
        None \<Rightarrow>
          let ws1 = (if CAPACITY \<le> length ws then evict_windows windowMs now ws else ws)
          in (fresh, AList.update key fresh ws1)
      | Some w \<Rightarrow> if window_over windowMs now w then (fresh, AList.update key fresh ws) else (w, ws))"

text \<open>A limit that is not finite is \<open>None\<close>.\<close>

definition consume :: "int \<Rightarrow> windows \<Rightarrow> string \<Rightarrow> int option \<Rightarrow> int \<Rightarrow> rate_decision \<times> windows" where
  "consume windowMs ws key limit now =
     (case limit of
        None \<Rightarrow> (UNLIMITED, ws)
      | Some l \<Rightarrow>
          if l \<le> 0 then (UNLIMITED, ws)
          else let (w0, ws1) = open_window windowMs ws key now;
                   w = w0\<lparr>win_count := win_count w0 + 1\<rparr>
               in (\<lparr>rd_allowed = int (win_count w) \<le> l, rd_limit = l,
                    rd_remaining = max 0 (l - int (win_count w)),
                    rd_resetSeconds = max 1 (ceil_seconds (win_started w + windowMs - now))\<rparr>,
                   AList.update key w ws1))"

section \<open>The SCIM limiter\<close>

record scim_limits =
  scim_limit :: nat
  scim_windowMs :: int
  scim_capacity :: nat
  scim_refusalLimit :: nat

definition default_scim_limits :: scim_limits where
  "default_scim_limits = \<lparr>scim_limit = 600, scim_windowMs = 60000, scim_capacity = 1000, scim_refusalLimit = 60\<rparr>"

definition EVICTION_BATCH :: nat where "EVICTION_BATCH = 64"

definition live_window :: "scim_limits \<Rightarrow> windows \<Rightarrow> string \<Rightarrow> int \<Rightarrow> window option \<times> windows" where
  "live_window lim ws key now =
     (case map_of ws key of
        None \<Rightarrow> (None, ws)
      | Some w \<Rightarrow>
          let ws1 = AList.delete key ws in
          if window_over (scim_windowMs lim) now w then (None, ws1)
          else (Some w, AList.update key w ws1))"

text \<open>The pass over the entries; the result says whether the batch was filled by expired windows.\<close>

fun evict_expired ::
    "int \<Rightarrow> int \<Rightarrow> (string \<times> window) list \<Rightarrow> windows \<Rightarrow> nat \<Rightarrow> string list \<Rightarrow> windows \<times> nat \<times> string list \<times> bool" where
  "evict_expired windowMs now [] ws dropped idle = (ws, dropped, idle, False)"
| "evict_expired windowMs now ((key, w) # es) ws dropped idle =
     (if window_over windowMs now w then
        if EVICTION_BATCH \<le> dropped + 1 then (AList.delete key ws, dropped + 1, idle, True)
        else evict_expired windowMs now es (AList.delete key ws) (dropped + 1) idle
      else if length idle < EVICTION_BATCH then evict_expired windowMs now es ws dropped (idle @ [key])
      else evict_expired windowMs now es ws dropped idle)"

fun evict_idle :: "string list \<Rightarrow> windows \<Rightarrow> nat \<Rightarrow> windows" where
  "evict_idle [] ws dropped = ws"
| "evict_idle (key # keys) ws dropped =
     (if EVICTION_BATCH \<le> dropped \<or> length ws \<le> 1 then ws
      else evict_idle keys (AList.delete key ws) (dropped + 1))"

definition scim_evict :: "scim_limits \<Rightarrow> int \<Rightarrow> windows \<Rightarrow> windows" where
  "scim_evict lim now ws =
     (case evict_expired (scim_windowMs lim) now ws ws 0 [] of
        (ws1, dropped, idle, full) \<Rightarrow> if full then ws1 else evict_idle idle ws1 dropped)"

definition start_window :: "scim_limits \<Rightarrow> windows \<Rightarrow> string \<Rightarrow> int \<Rightarrow> windows" where
  "start_window lim ws key now =
     AList.update key \<lparr>win_count = 1, win_started = now\<rparr>
       (if scim_capacity lim \<le> length ws then scim_evict lim now ws else ws)"

definition allow :: "scim_limits \<Rightarrow> windows \<Rightarrow> string \<Rightarrow> int \<Rightarrow> bool \<times> windows" where
  "allow lim ws key now =
     (case live_window lim ws key now of
        (None, ws1) \<Rightarrow> (True, start_window lim ws1 key now)
      | (Some w, ws1) \<Rightarrow>
          let w1 = w\<lparr>win_count := win_count w + 1\<rparr>
          in (win_count w1 \<le> scim_limit lim, AList.update key w1 ws1))"

definition withinRefusalBudget :: "scim_limits \<Rightarrow> windows \<Rightarrow> string \<Rightarrow> int \<Rightarrow> bool \<times> windows" where
  "withinRefusalBudget lim ws key now =
     (case live_window lim ws key now of
        (None, ws1) \<Rightarrow> (0 < scim_refusalLimit lim, ws1)
      | (Some w, ws1) \<Rightarrow> (win_count w < scim_refusalLimit lim, ws1))"

definition recordRefusal :: "scim_limits \<Rightarrow> windows \<Rightarrow> string \<Rightarrow> int \<Rightarrow> windows" where
  "recordRefusal lim ws key now =
     (case live_window lim ws key now of
        (None, ws1) \<Rightarrow> start_window lim ws1 key now
      | (Some w, ws1) \<Rightarrow> AList.update key (w\<lparr>win_count := win_count w + 1\<rparr>) ws1)"

text \<open>
  What \<open>authenticate\<close> of \<open>scim-endpoints.ts\<close> does with the limiter. The fingerprint, the workspace
  lookup and the token store are parameters; an address that is empty is one no trusted proxy named.
\<close>

datatype scim_refusal = Refused string | Unauthorized | Caller_limited | Token_limited

definition scim_refuse ::
    "scim_limits \<Rightarrow> windows \<Rightarrow> string \<Rightarrow> string \<Rightarrow> int \<Rightarrow> string \<Rightarrow> scim_refusal \<times> windows" where
  "scim_refuse lim ws caller address now reason =
     (case withinRefusalBudget lim (recordRefusal lim ws caller now) caller now of
        (ok, ws1) \<Rightarrow> (if ok then Refused reason else if address = [] then Unauthorized else Caller_limited, ws1))"

definition caller_key :: "string \<Rightarrow> string \<Rightarrow> string" where
  "caller_key workspace address = ''caller:'' @ take 128 workspace @ ''|'' @ address"

definition token_key :: "string \<Rightarrow> string" where
  "token_key fingerprint = ''token:'' @ fingerprint"

definition scim_authenticate ::
    "(string \<Rightarrow> string) \<Rightarrow> (string \<Rightarrow> string option) \<Rightarrow> (string \<Rightarrow> string \<Rightarrow> 'token option) \<Rightarrow> scim_limits \<Rightarrow>
     windows \<Rightarrow> string option \<Rightarrow> string \<Rightarrow> string \<Rightarrow> int \<Rightarrow> (scim_refusal + string \<times> 'token) \<times> windows" where
  "scim_authenticate fingerprint findTenantId authenticate lim ws presented workspace address now =
     (let caller = caller_key workspace address;
          refuse = (\<lambda>ws reason. case scim_refuse lim ws caller address now reason of (e, ws1) \<Rightarrow> (Inl e, ws1))
      in case presented of
           None \<Rightarrow> refuse ws ''missing-credential''
         | Some credential \<Rightarrow>
             if credential = [] \<or> 256 < length credential then refuse ws ''missing-credential''
             else case allow lim ws (token_key (fingerprint credential)) now of
               (False, ws1) \<Rightarrow> (Inl Token_limited, ws1)
             | (True, ws1) \<Rightarrow>
                 (case (if 0 < length workspace \<and> length workspace \<le> 128 then findTenantId workspace else None) of
                    None \<Rightarrow> refuse ws1 ''unknown-workspace''
                  | Some tenantId \<Rightarrow>
                      (case authenticate tenantId credential of
                         None \<Rightarrow> refuse ws1 ''rejected-credential''
                       | Some token \<Rightarrow> (Inr (tenantId, token), ws1))))"

section \<open>The contract of a fixed window\<close>

text \<open>The answers a sequence of requests gets, in order, and the state it leaves.\<close>

fun charge_all :: "(string \<Rightarrow> int \<Rightarrow> 's \<Rightarrow> bool \<times> 's) \<Rightarrow> (string \<times> int) list \<Rightarrow> 's \<Rightarrow> (string \<times> bool) list \<times> 's" where
  "charge_all touch [] s = ([], s)"
| "charge_all touch ((k, now) # rs) s =
     (case touch k now s of (ok, s1) \<Rightarrow> case charge_all touch rs s1 of (answers, s2) \<Rightarrow> ((k, ok) # answers, s2))"

definition admitted :: "string \<Rightarrow> (string \<times> bool) list \<Rightarrow> nat" where
  "admitted k answers = length (filter (\<lambda>(j, ok). j = k \<and> ok) answers)"

lemma charge_all_keeps:
  assumes "\<And>k now s. P s \<Longrightarrow> P (snd (touch k now s))"
  shows "P s \<Longrightarrow> P (snd (charge_all touch rs s))"
  by (induction rs arbitrary: s) (auto simp: case_prod_unfold assms)

locale fixed_window =
  fixes windows_of :: "'s \<Rightarrow> string \<Rightarrow> window option"
    and good :: "'s \<Rightarrow> bool"
    and touch :: "string \<Rightarrow> int \<Rightarrow> 's \<Rightarrow> bool \<times> 's"
    and limit :: "string \<Rightarrow> nat"
    and capacity :: nat
    and windowMs :: int
  assumes touch_good: "good s \<Longrightarrow> good (snd (touch k now s))"
    and windows_finite: "good s \<Longrightarrow> finite (dom (windows_of s))"
    and touch_open: "good s \<Longrightarrow> windows_of s k = Some w \<Longrightarrow> \<not> window_over windowMs now w \<Longrightarrow>
       windows_of (snd (touch k now s)) = (windows_of s)(k \<mapsto> w\<lparr>win_count := win_count w + 1\<rparr>) \<and>
       fst (touch k now s) = (win_count w < limit k)"
    and touch_first: "good s \<Longrightarrow> windows_of s k = None \<Longrightarrow> card (dom (windows_of s)) < capacity \<Longrightarrow>
       0 < windowMs \<Longrightarrow>
       windows_of (snd (touch k now s)) = (windows_of s)(k \<mapsto> \<lparr>win_count = 1, win_started = now\<rparr>) \<and>
       fst (touch k now s) = (0 < limit k)"
begin

definition count_in :: "'s \<Rightarrow> string \<Rightarrow> nat" where
  "count_in s k = (case windows_of s k of None \<Rightarrow> 0 | Some w \<Rightarrow> win_count w)"

definition within :: "int \<Rightarrow> 's \<Rightarrow> bool" where
  "within t0 s = (\<forall>k w. windows_of s k = Some w \<longrightarrow> t0 \<le> win_started w)"

lemma touch_within:
  assumes "good s" "within t0 s" "t0 \<le> now" "now < t0 + windowMs"
    and "card (insert k (dom (windows_of s))) \<le> capacity"
  shows "within t0 (snd (touch k now s)) \<and> dom (windows_of (snd (touch k now s))) = insert k (dom (windows_of s)) \<and>
     count_in (snd (touch k now s)) = (count_in s)(k := count_in s k + 1) \<and>
     fst (touch k now s) = (count_in s k < limit k)"
proof (cases "windows_of s k")
  case None
  then have "card (dom (windows_of s)) < capacity"
    using assms(1,5) windows_finite by (simp add: domIff card_insert_if)
  with None assms touch_first [OF assms(1) None] show ?thesis
    by (auto simp: within_def count_in_def fun_eq_iff)
next
  case (Some w)
  with assms have "\<not> window_over windowMs now w" by (fastforce simp: within_def window_over_def)
  with Some assms touch_open [OF assms(1) Some] show ?thesis
    by (auto simp: within_def count_in_def fun_eq_iff)
qed

lemma admitted_exactly:
  assumes "good s" "within t0 s" "\<And>k now. (k, now) \<in> set rs \<Longrightarrow> t0 \<le> now \<and> now < t0 + windowMs"
    and "card (dom (windows_of s) \<union> fst ` set rs) \<le> capacity"
  shows "admitted k (fst (charge_all touch rs s)) = min (length (filter (\<lambda>r. fst r = k) rs)) (limit k - count_in s k)"
  using assms
proof (induction rs arbitrary: s)
  case (Cons r rs)
  obtain j now where r: "r = (j, now)" by (cases r)
  let ?s = "snd (touch j now s)"
  have "card (insert j (dom (windows_of s))) \<le> card (dom (windows_of s) \<union> fst ` set (r # rs))"
    using windows_finite [OF Cons.prems(1)] by (intro card_mono) (auto simp: r)
  also note Cons.prems(4)
  finally have w: "within t0 ?s \<and> dom (windows_of ?s) = insert j (dom (windows_of s)) \<and>
     count_in ?s = (count_in s)(j := count_in s j + 1) \<and> fst (touch j now s) = (count_in s j < limit j)"
    using touch_within [OF Cons.prems(1,2), of now j] Cons.prems(3) [of j now] by (simp add: r)
  have d: "dom (windows_of ?s) \<union> fst ` set rs = dom (windows_of s) \<union> fst ` set (r # rs)"
    using w by (auto simp: r)
  have "admitted k (fst (charge_all touch rs ?s)) = min (length (filter (\<lambda>r. fst r = k) rs)) (limit k - count_in ?s k)"
    by (rule Cons.IH [OF touch_good [OF Cons.prems(1)]]) (use w Cons.prems(3,4) d in auto)
  with w show ?case by (auto simp: r admitted_def case_prod_unfold)
qed (simp add: admitted_def)

lemma charged_state:
  assumes "good s" "within t0 s" "\<And>k now. (k, now) \<in> set rs \<Longrightarrow> t0 \<le> now \<and> now < t0 + windowMs"
    and "card (dom (windows_of s) \<union> fst ` set rs) \<le> capacity"
  defines "s' \<equiv> snd (charge_all touch rs s)"
  shows "good s' \<and> within t0 s' \<and> dom (windows_of s') = dom (windows_of s) \<union> fst ` set rs \<and>
    count_in s' k = count_in s k + length (filter (\<lambda>r. fst r = k) rs)"
  using assms(1-4) unfolding s'_def
proof (induction rs arbitrary: s)
  case (Cons r rs)
  obtain j now where r: "r = (j, now)" by (cases r)
  let ?s = "snd (touch j now s)"
  have "card (insert j (dom (windows_of s))) \<le> card (dom (windows_of s) \<union> fst ` set (r # rs))"
    using windows_finite [OF Cons.prems(1)] by (intro card_mono) (auto simp: r)
  also note Cons.prems(4)
  finally have w: "within t0 ?s \<and> dom (windows_of ?s) = insert j (dom (windows_of s)) \<and>
     count_in ?s = (count_in s)(j := count_in s j + 1) \<and> fst (touch j now s) = (count_in s j < limit j)"
    using touch_within [OF Cons.prems(1,2), of now j] Cons.prems(3) [of j now] by (simp add: r)
  have d: "dom (windows_of ?s) \<union> fst ` set rs = dom (windows_of s) \<union> fst ` set (r # rs)"
    using w by (auto simp: r)
  have t: "\<And>k now. (k, now) \<in> set rs \<Longrightarrow> t0 \<le> now \<and> now < t0 + windowMs" using Cons.prems(3) by auto
  have "within t0 ?s" "card (dom (windows_of ?s) \<union> fst ` set rs) \<le> capacity" using w Cons.prems(4) d by auto
  note IH = Cons.IH [OF touch_good [OF Cons.prems(1)] this(1) t this(2)]
  have "snd (charge_all touch (r # rs) s) = snd (charge_all touch rs ?s)" by (simp add: r case_prod_unfold)
  then show ?case using IH d w by (simp add: r)
qed simp

lemma next_answer:
  assumes "good s" "within t0 s" "\<And>k now. (k, now) \<in> set (rs @ [(j, at_ms)]) \<Longrightarrow> t0 \<le> now \<and> now < t0 + windowMs"
    and "card (dom (windows_of s) \<union> fst ` set (rs @ [(j, at_ms)])) \<le> capacity"
  shows "fst (touch j at_ms (snd (charge_all touch rs s))) =
    (count_in s j + length (filter (\<lambda>r. fst r = j) rs) < limit j)"
proof -
  have "card (dom (windows_of s) \<union> fst ` set rs) \<le> card (dom (windows_of s) \<union> fst ` set (rs @ [(j, at_ms)]))"
    using windows_finite [OF assms(1)] by (intro card_mono) auto
  with assms(4) have c: "card (dom (windows_of s) \<union> fst ` set rs) \<le> capacity" by simp
  have t: "\<And>k now. (k, now) \<in> set rs \<Longrightarrow> t0 \<le> now \<and> now < t0 + windowMs" using assms(3) by auto
  note s' = charged_state [OF assms(1,2) t c, where k = j]
  have "insert j (dom (windows_of (snd (charge_all touch rs s)))) = dom (windows_of s) \<union> fst ` set (rs @ [(j, at_ms)])"
    using s' by auto
  then have "card (insert j (dom (windows_of (snd (charge_all touch rs s))))) \<le> capacity" using assms(4) by simp
  then show ?thesis using touch_within [of "snd (charge_all touch rs s)" t0 at_ms j] s' assms(3) [of j at_ms] by simp
qed

end


lemma in_dom_map_of: "k \<in> dom (map_of ws) \<longleftrightarrow> k \<in> fst ` set ws"
  by (simp add: dom_map_of_conv_image_fst)

lemma card_dom_map_of: "distinct (map fst ws) \<Longrightarrow> card (dom (map_of ws)) = length ws"
  by (metis distinct_card dom_map_of_conv_image_fst length_map list.set_map)

lemma in_keys: "(k, w) \<in> set ws \<Longrightarrow> k \<in> fst ` set ws"
  by force

lemma keys_delete: "fst ` set (AList.delete k ws) = fst ` set ws - {k}"
  by (metis delete_keys list.set_map set_removeAll)

lemma length_update:
  "length (AList.update k v ws) = (if map_of ws k = None then Suc (length ws) else length ws)"
  by (induction ws) auto

section \<open>The API token limiter keeps the contract\<close>

definition api_good :: "windows \<Rightarrow> bool" where
  "api_good ws = (distinct (map fst ws) \<and> length ws \<le> CAPACITY)"

lemma drop_oldest_sub: "\<exists>old. ws = old @ drop_oldest ws \<and> length (drop_oldest ws) < CAPACITY"
proof (induction ws)
  case Nil
  then show ?case by (simp add: CAPACITY_def)
next
  case (Cons e ws)
  then obtain old where "ws = old @ drop_oldest ws \<and> length (drop_oldest ws) < CAPACITY" by blast
  then show ?case by (intro exI [of _ "if CAPACITY \<le> length (e # ws) then e # old else []"]) auto
qed

lemma evict_windows_good:
  assumes "api_good ws"
  shows "distinct (map fst (evict_windows windowMs now ws)) \<and> length (evict_windows windowMs now ws) < CAPACITY"
proof -
  let ?f = "filter (\<lambda>(k, w). \<not> window_over windowMs now w) ws"
  from drop_oldest_sub [of ?f] obtain old
    where o: "?f = old @ drop_oldest ?f" "length (drop_oldest ?f) < CAPACITY" by blast
  have "distinct (map fst ?f)" using assms by (simp add: api_good_def distinct_map_filter)
  with o(1) have "distinct (map fst (drop_oldest ?f))" by (metis distinct_append map_append)
  with o(2) show ?thesis by (simp add: evict_windows_def)
qed

lemma open_window_good: "api_good ws \<Longrightarrow> api_good (snd (open_window windowMs ws key now))"
proof (cases "map_of ws key")
  case None
  assume g: "api_good ws"
  let ?ws = "if CAPACITY \<le> length ws then evict_windows windowMs now ws else ws"
  have "distinct (map fst ?ws) \<and> length ?ws < CAPACITY"
    using g evict_windows_good [OF g, of windowMs now] by (simp add: api_good_def)
  then have "api_good (AList.update key w ?ws)" for w
    by (simp add: api_good_def distinct_update length_update)
  then show ?thesis using None by (simp add: open_window_def Let_def)
next
  case (Some w)
  assume "api_good ws"
  with Some show ?thesis by (simp add: open_window_def Let_def api_good_def distinct_update length_update)
qed

lemma open_window_in: "map_of (snd (open_window windowMs ws key now)) key = Some (fst (open_window windowMs ws key now))"
  by (auto simp: open_window_def Let_def update_conv' split: option.splits)

lemma consume_good: "api_good ws \<Longrightarrow> api_good (snd (consume windowMs ws key limit now))"
  using open_window_good [of ws windowMs key now] open_window_in [of windowMs ws key now]
  by (auto simp: consume_def api_good_def Let_def case_prod_unfold length_update distinct_update
      split: option.splits)

definition api_request :: "int \<Rightarrow> (string \<Rightarrow> nat) \<Rightarrow> string \<Rightarrow> int \<Rightarrow> windows \<Rightarrow> bool \<times> windows" where
  "api_request windowMs limit key now ws =
     (case consume windowMs ws key (Some (int (limit key))) now of (d, ws1) \<Rightarrow> (rd_allowed d, ws1))"




section \<open>The SCIM limiter keeps the contract\<close>

definition scim_good :: "windows \<Rightarrow> bool" where
  "scim_good ws = (distinct (map fst ws) \<and> list_all (\<lambda>(k, w). 0 < win_count w) ws)"

lemma scim_good_iff:
  "scim_good ws \<longleftrightarrow> distinct (map fst ws) \<and> (\<forall>k w. map_of ws k = Some w \<longrightarrow> 0 < win_count w)"
  by (auto simp: scim_good_def list_all_iff)

lemma scim_good_update: "scim_good ws \<Longrightarrow> 0 < win_count w \<Longrightarrow> scim_good (AList.update k w ws)"
  by (auto simp: scim_good_iff distinct_update update_conv')

lemma scim_good_sub: "scim_good ws \<Longrightarrow> distinct (map fst ws1) \<Longrightarrow> set ws1 \<subseteq> set ws \<Longrightarrow> scim_good ws1"
  by (auto simp: scim_good_def list_all_iff)

lemma delete_sub: "set (AList.delete k ws) \<subseteq> set ws"
  by (auto simp: AList.delete_eq)

lemma scim_good_delete: "scim_good ws \<Longrightarrow> scim_good (AList.delete k ws)"
  using scim_good_sub [of ws "AList.delete k ws"] delete_sub [of k ws] by (simp add: scim_good_def distinct_delete)

lemma length_delete:
  "distinct (map fst ws) \<Longrightarrow> k \<in> fst ` set ws \<Longrightarrow> Suc (length (AList.delete k ws)) = length ws"
proof (induction ws)
  case (Cons e ws)
  show ?case
  proof (cases "fst e = k")
    case True
    with Cons.prems have "k \<notin> fst ` set ws" by auto
    then have "AList.delete k ws = ws" by (rule delete_id)
    with True show ?thesis by (cases e) simp
  next
    case False
    with Cons show ?thesis by (cases e) auto
  qed
qed simp

lemma evict_expired_sub:
  "evict_expired windowMs now es ws dropped idle = (ws1, dropped1, idle1, full) \<Longrightarrow> distinct (map fst ws) \<Longrightarrow>
     distinct (map fst ws1) \<and> set ws1 \<subseteq> set ws \<and> length ws1 \<le> length ws"
proof (induction windowMs now es ws dropped idle rule: evict_expired.induct)
  case (2 windowMs now key w es ws dropped idle)
  have "distinct (map fst (AList.delete key ws))" using 2 by (simp add: distinct_delete)
  with 2 delete_sub [of key ws] length_delete_le [of key ws] show ?case
    by (auto split: if_splits)
qed simp

lemma evict_idle_sub:
  "distinct (map fst ws) \<Longrightarrow> distinct (map fst (evict_idle keys ws dropped)) \<and>
     set (evict_idle keys ws dropped) \<subseteq> set ws \<and> length (evict_idle keys ws dropped) \<le> length ws"
proof (induction keys ws dropped rule: evict_idle.induct)
  case (2 key keys ws dropped)
  have "distinct (map fst (AList.delete key ws))" using 2 by (simp add: distinct_delete)
  with 2 delete_sub [of key ws] length_delete_le [of key ws] show ?case by auto
qed simp

lemma scim_evict_sub:
  assumes "distinct (map fst ws)"
  shows "distinct (map fst (scim_evict lim now ws)) \<and> set (scim_evict lim now ws) \<subseteq> set ws \<and>
     length (scim_evict lim now ws) \<le> length ws"
proof -
  obtain ws1 d idle full where e: "evict_expired (scim_windowMs lim) now ws ws 0 [] = (ws1, d, idle, full)"
    by (metis prod.exhaust)
  from evict_expired_sub [OF e assms] evict_idle_sub [of ws1 idle d] show ?thesis
    by (auto simp: scim_evict_def e)
qed

lemma evict_expired_count:
  "evict_expired windowMs now es ws dropped idle = (ws1, dropped1, idle1, full) \<Longrightarrow> distinct (map fst ws) \<Longrightarrow>
     distinct (map fst es) \<Longrightarrow> fst ` set es \<subseteq> fst ` set ws \<Longrightarrow>
     length ws1 + dropped1 = length ws + dropped \<and> (full \<longrightarrow> EVICTION_BATCH \<le> dropped1)"
proof (induction windowMs now es ws dropped idle rule: evict_expired.induct)
  case (2 windowMs now key w es ws dropped idle)
  have "distinct (map fst (AList.delete key ws))" using 2 by (simp add: distinct_delete)
  moreover have "fst ` set es \<subseteq> fst ` set (AList.delete key ws)"
  proof
    fix j assume j: "j \<in> fst ` set es"
    with 2(6,7) have "j \<noteq> key" "j \<in> fst ` set ws" by (auto dest: in_keys)
    then show "j \<in> fst ` set (AList.delete key ws)" by (simp add: keys_delete)
  qed
  moreover have "Suc (length (AList.delete key ws)) = length ws"
    using 2(5,7) by (intro length_delete) auto
  ultimately show ?case using 2 by (auto split: if_splits)
qed simp

lemma evict_expired_keeps:
  "evict_expired windowMs now es ws dropped idle = (ws1, dropped1, idle1, full) \<Longrightarrow>
     list_all (\<lambda>(j, w). j = k \<longrightarrow> \<not> window_over windowMs now w) es \<Longrightarrow> map_of ws1 k = map_of ws k"
  by (induction windowMs now es ws dropped idle rule: evict_expired.induct)
     (auto simp: delete_conv' split: if_splits)

lemma evict_expired_idle:
  "evict_expired windowMs now es ws dropped idle = (ws1, dropped1, idle1, False) \<Longrightarrow>
     idle1 = idle @ take (EVICTION_BATCH - length idle)
       (map fst (filter (\<lambda>(k, w). \<not> window_over windowMs now w) es))"
  by (induction windowMs now es ws dropped idle rule: evict_expired.induct)
     (auto split: if_splits simp: Suc_diff_le take_Cons' not_less)

lemma evict_idle_keeps: "k \<notin> set keys \<Longrightarrow> map_of (evict_idle keys ws dropped) k = map_of ws k"
  by (induction keys ws dropped rule: evict_idle.induct) (auto simp: delete_conv')

text \<open>One eviction makes room as soon as there are two windows.\<close>

lemma scim_evict_shrinks:
  assumes "distinct (map fst ws)" "2 \<le> length ws"
  shows "length (scim_evict lim now ws) < length ws"
proof -
  obtain k w es where ws: "ws = (k, w) # es" using assms(2) by (cases ws) auto
  obtain ws1 dr idle full where e: "evict_expired (scim_windowMs lim) now ws ws 0 [] = (ws1, dr, idle, full)"
    by (metis prod.exhaust)
  note c = evict_expired_count [OF e assms(1) assms(1) subset_refl]
  note s = evict_expired_sub [OF e assms(1)]
  show ?thesis
  proof (cases "0 < dr")
    case True
    then show ?thesis using c evict_idle_sub [of ws1 idle dr] s by (auto simp: scim_evict_def e)
  next
    case False
    with c have nf: "\<not> full" by (auto simp: EVICTION_BATCH_def)
    have live: "\<not> window_over (scim_windowMs lim) now w"
    proof
      assume "window_over (scim_windowMs lim) now w"
      then have e1: "evict_expired (scim_windowMs lim) now es (AList.delete k ws) 1 [] = (ws1, dr, idle, full)"
        using e by (simp add: ws EVICTION_BATCH_def)
      have "length ws1 \<le> length (AList.delete k ws)"
        using evict_expired_sub [OF e1] assms(1) by (simp add: distinct_delete)
      also have "\<dots> < length ws" using length_delete [OF assms(1), of k] by (simp add: ws)
      finally show False using c False by simp
    qed
    have "evict_expired (scim_windowMs lim) now ws ws 0 [] = (ws1, dr, idle, False)" using e nf by simp
    from evict_expired_idle [OF this] live have idle: "idle = k # tl idle"
      by (simp add: ws EVICTION_BATCH_def)
    have "map_of ws1 k = map_of ws k"
      using live assms(1) by (intro evict_expired_keeps [OF e]) (auto simp: ws list_all_iff dest: in_keys)
    then have "k \<in> fst ` set ws1" by (metis map_of_eq_None_iff option.distinct(1) map_of_Cons_code(2) ws)
    then have "length (AList.delete k ws1) < length ws1" using length_delete [of ws1 k] s by simp
    moreover have "length ws1 = length ws" using c False by simp
    ultimately have "length (evict_idle idle ws1 dr) < length ws"
      using False assms(2) evict_idle_sub [of "AList.delete k ws1" "tl idle" 1] s
      by (subst idle) (simp add: EVICTION_BATCH_def distinct_delete)
    then show ?thesis using nf by (simp add: scim_evict_def e)
  qed
qed

text \<open>A window survives an eviction when it is open and 64 open windows were used less recently.\<close>

lemma scim_evict_spares:
  assumes "distinct (map fst ws)" "map_of ws k = Some w" "\<not> window_over (scim_windowMs lim) now w"
    and "k \<notin> set (take EVICTION_BATCH (map fst (filter (\<lambda>(k, w). \<not> window_over (scim_windowMs lim) now w) ws)))"
  shows "map_of (scim_evict lim now ws) k = Some w"
proof -
  obtain ws1 dr idle full where e: "evict_expired (scim_windowMs lim) now ws ws 0 [] = (ws1, dr, idle, full)"
    by (metis prod.exhaust)
  have "map_of ws1 k = Some w"
    using assms(1,2,3) by (subst evict_expired_keeps [OF e]) (auto simp: list_all_iff dest: eq_key_imp_eq_value)
  moreover have "\<not> full \<Longrightarrow> k \<notin> set idle"
    using evict_expired_idle [of "scim_windowMs lim" now ws ws 0 "[]" ws1 dr idle] e assms(4) by simp
  ultimately show ?thesis by (simp add: scim_evict_def e evict_idle_keeps)
qed

lemma live_window_good:
  assumes "scim_good ws"
  shows "scim_good (snd (live_window lim ws k now)) \<and> length (snd (live_window lim ws k now)) \<le> length ws \<and>
     (case fst (live_window lim ws k now) of
        None \<Rightarrow> map_of (snd (live_window lim ws k now)) k = None
      | Some w \<Rightarrow> map_of (snd (live_window lim ws k now)) k = Some w \<and> 0 < win_count w)"
proof (cases "map_of ws k")
  case None
  then show ?thesis using assms by (simp add: live_window_def)
next
  case (Some w)
  then have "k \<in> fst ` set ws" by (metis map_of_eq_None_iff option.distinct(1))
  then have "Suc (length (AList.delete k ws)) = length ws"
    using assms by (intro length_delete) (auto simp: scim_good_def)
  moreover have "0 < win_count w" using assms Some by (auto simp: scim_good_iff)
  ultimately show ?thesis
    using Some scim_good_delete [OF assms, of k]
    by (simp add: live_window_def Let_def length_update delete_conv' update_conv' scim_good_update)
qed

lemma start_window_good:
  assumes "scim_good ws" "map_of ws k = None"
  shows "scim_good (start_window lim ws k now)"
    "2 \<le> scim_capacity lim \<Longrightarrow> length ws \<le> scim_capacity lim \<Longrightarrow> length (start_window lim ws k now) \<le> scim_capacity lim"
proof -
  have d: "distinct (map fst ws)" using assms by (simp add: scim_good_def)
  note s = scim_evict_sub [OF d, of lim now]
  have "scim_good (scim_evict lim now ws)" using scim_good_sub [OF assms(1)] s by blast
  then show "scim_good (start_window lim ws k now)" using assms(1) by (simp add: start_window_def scim_good_update)
  show "length (start_window lim ws k now) \<le> scim_capacity lim" if "2 \<le> scim_capacity lim" "length ws \<le> scim_capacity lim"
    using that scim_evict_shrinks [OF d, of lim now] by (auto simp: start_window_def length_update)
qed


lemma allow_good:
  assumes "scim_good ws"
  shows "scim_good (snd (allow lim ws k now))"
    "2 \<le> scim_capacity lim \<Longrightarrow> length ws \<le> scim_capacity lim \<Longrightarrow> length (snd (allow lim ws k now)) \<le> scim_capacity lim"
  using live_window_good [OF assms, of lim k now] start_window_good [of "snd (live_window lim ws k now)" k lim now]
  by (auto simp: allow_def case_prod_unfold Let_def scim_good_update length_update split: option.splits)

lemma recordRefusal_good:
  assumes "scim_good ws"
  shows "scim_good (recordRefusal lim ws k now)"
    "2 \<le> scim_capacity lim \<Longrightarrow> length ws \<le> scim_capacity lim \<Longrightarrow> length (recordRefusal lim ws k now) \<le> scim_capacity lim"
  using live_window_good [OF assms, of lim k now] start_window_good [of "snd (live_window lim ws k now)" k lim now]
  by (auto simp: recordRefusal_def case_prod_unfold Let_def scim_good_update length_update split: option.splits)

lemma withinRefusalBudget_good:
  assumes "scim_good ws"
  shows "scim_good (snd (withinRefusalBudget lim ws k now)) \<and> length (snd (withinRefusalBudget lim ws k now)) \<le> length ws"
  using live_window_good [OF assms, of lim k now]
  by (auto simp: withinRefusalBudget_def case_prod_unfold split: option.splits)

text \<open>One charge of the limiter: a token is allowed or not, a caller is refused within its budget or cut off.\<close>

definition is_token_key :: "string \<Rightarrow> bool" where
  "is_token_key k = (take 6 k = ''token:'')"

definition scim_charge :: "scim_limits \<Rightarrow> string \<Rightarrow> int \<Rightarrow> windows \<Rightarrow> bool \<times> windows" where
  "scim_charge lim k now ws =
     (if is_token_key k then allow lim ws k now
      else withinRefusalBudget lim (recordRefusal lim ws k now) k now)"

definition scim_budget :: "scim_limits \<Rightarrow> string \<Rightarrow> nat" where
  "scim_budget lim k = (if is_token_key k then max 1 (scim_limit lim) else scim_refusalLimit lim - 1)"

lemma scim_charge_open:
  assumes "scim_good ws" "map_of ws k = Some w" "\<not> window_over (scim_windowMs lim) now w"
  shows "map_of (snd (scim_charge lim k now ws)) = (map_of ws)(k \<mapsto> w\<lparr>win_count := win_count w + 1\<rparr>) \<and>
    fst (scim_charge lim k now ws) = (win_count w < scim_budget lim k)"
proof -
  have "0 < win_count w" using assms by (auto simp: scim_good_iff)
  with assms(2,3) show ?thesis
    by (auto simp: scim_charge_def scim_budget_def allow_def recordRefusal_def withinRefusalBudget_def live_window_def
        Let_def update_conv' delete_conv' window_over_def)
qed

lemma scim_charge_first:
  assumes "map_of ws k = None" "length ws < scim_capacity lim" "0 < scim_windowMs lim"
  shows "map_of (snd (scim_charge lim k now ws)) = (map_of ws)(k \<mapsto> \<lparr>win_count = 1, win_started = now\<rparr>) \<and>
    fst (scim_charge lim k now ws) = (0 < scim_budget lim k)"
  using assms
  by (auto simp: scim_charge_def scim_budget_def allow_def recordRefusal_def withinRefusalBudget_def live_window_def
      start_window_def Let_def update_conv' delete_conv' window_over_def)

interpretation scim: fixed_window map_of scim_good "scim_charge lim" "scim_budget lim" "scim_capacity lim" "scim_windowMs lim"
  for lim
proof unfold_locales
  fix s k w now
  assume good: "scim_good s"
  show "scim_good (snd (scim_charge lim k now s))"
    using allow_good(1) [OF good] recordRefusal_good(1) [OF good] withinRefusalBudget_good
    by (simp add: scim_charge_def)
  show "finite (dom (map_of s))" by (rule finite_dom_map_of)
  show "map_of (snd (scim_charge lim k now s)) = (map_of s)(k \<mapsto> w\<lparr>win_count := win_count w + 1\<rparr>) \<and>
       fst (scim_charge lim k now s) = (win_count w < scim_budget lim k)"
    if "map_of s k = Some w" "\<not> window_over (scim_windowMs lim) now w"
    using scim_charge_open [OF good that] .
  show "map_of (snd (scim_charge lim k now s)) = (map_of s)(k \<mapsto> \<lparr>win_count = 1, win_started = now\<rparr>) \<and>
       fst (scim_charge lim k now s) = (0 < scim_budget lim k)"
    if "map_of s k = None" "card (dom (map_of s)) < scim_capacity lim" "0 < scim_windowMs lim"
    using that good by (intro scim_charge_first) (simp_all add: card_dom_map_of scim_good_def)
qed




lemma scim_charge_good:
  assumes "scim_good ws" "2 \<le> scim_capacity lim" "length ws \<le> scim_capacity lim"
  shows "scim_good (snd (scim_charge lim k now ws)) \<and> length (snd (scim_charge lim k now ws)) \<le> scim_capacity lim"
  using allow_good [OF assms(1), of lim k now] recordRefusal_good [OF assms(1), of lim k now] assms
    withinRefusalBudget_good [of "recordRefusal lim ws k now" lim k now]
  by (auto simp: scim_charge_def)

lemma live_filter:
  "scim_good ws \<Longrightarrow> fst (live_window lim ws j now) = None \<Longrightarrow>
   filter (\<lambda>(k, w). \<not> window_over (scim_windowMs lim) now w) (snd (live_window lim ws j now)) =
   filter (\<lambda>(k, w). \<not> window_over (scim_windowMs lim) now w) ws"
  by (auto simp: live_window_def Let_def AList.delete_eq scim_good_def intro!: filter_cong
      dest: eq_key_imp_eq_value map_of_SomeD split: option.splits if_splits)

lemma start_window_spares:
  assumes "scim_good ws" "map_of ws k = Some w" "\<not> window_over (scim_windowMs lim) now w" "j \<noteq> k"
    and "k \<notin> set (take EVICTION_BATCH (map fst (filter (\<lambda>(k, w). \<not> window_over (scim_windowMs lim) now w) ws)))"
    and "fst (live_window lim ws j now) = None"
  shows "map_of (start_window lim (snd (live_window lim ws j now)) j now) k = Some w"
proof -
  let ?ws = "snd (live_window lim ws j now)"
  have k: "map_of ?ws k = Some w"
    using assms(2,4) by (auto simp: live_window_def Let_def delete_conv' update_conv' split: option.splits)
  have "scim_good ?ws" using live_window_good [OF assms(1)] by blast
  then have "map_of (scim_evict lim now ?ws) k = Some w"
    using assms(5) live_filter [OF assms(1,6)] k
    by (intro scim_evict_spares [OF _ k assms(3)]) (simp_all add: scim_good_def)
  with k assms(4) show ?thesis by (simp add: start_window_def update_conv')
qed

lemma scim_charge_spares:
  assumes "scim_good ws" "map_of ws k = Some w" "\<not> window_over (scim_windowMs lim) now w" "j \<noteq> k"
    and "k \<notin> set (take EVICTION_BATCH (map fst (filter (\<lambda>(k, w). \<not> window_over (scim_windowMs lim) now w) ws)))"
  shows "map_of (snd (scim_charge lim j now ws)) k = Some w"
proof -
  have l: "map_of (snd (live_window lim ws j now)) k = map_of ws k" for ws
    using assms(4) by (auto simp: live_window_def Let_def delete_conv' update_conv' split: option.splits)
  have a: "map_of (snd (allow lim ws j now)) k = Some w"
    using start_window_spares [OF assms] l [of ws] assms(2,4)
    by (auto simp: allow_def case_prod_unfold Let_def update_conv' split: option.splits)
  have "map_of (recordRefusal lim ws j now) k = Some w"
    using start_window_spares [OF assms] l [of ws] assms(2,4)
    by (auto simp: recordRefusal_def case_prod_unfold Let_def update_conv' split: option.splits)
  then have "map_of (snd (withinRefusalBudget lim (recordRefusal lim ws j now) j now)) k = Some w"
    using l by (auto simp: withinRefusalBudget_def case_prod_unfold split: option.splits)
  with a show ?thesis by (simp add: scim_charge_def)
qed

section \<open>What the limiters guarantee\<close>




text \<open>Neither limiter's map grows past its capacity, whatever keys it is charged for and at whatever times: the
  API limiter holds at most 4096 windows, the SCIM limiter at most its capacity, once that is at least two.\<close>

lemma rate_limit_maps_bounded:
  "length (snd (charge_all (api_request windowMs limit) rs [])) \<le> CAPACITY \<and>
   (2 \<le> scim_capacity lim \<longrightarrow> length (snd (charge_all (scim_charge lim) rs [])) \<le> scim_capacity lim)"
proof
  have "api_good (snd (charge_all (api_request windowMs limit) rs []))"
  proof (rule charge_all_keeps)
    show "api_good (snd (api_request windowMs limit k now s))" if "api_good s" for k now s
      using consume_good [OF that] by (simp add: api_request_def case_prod_unfold)
  qed (simp add: api_good_def)
  then show "length (snd (charge_all (api_request windowMs limit) rs [])) \<le> CAPACITY" by (simp add: api_good_def)
  show "2 \<le> scim_capacity lim \<longrightarrow> length (snd (charge_all (scim_charge lim) rs [])) \<le> scim_capacity lim"
  proof
    assume c: "2 \<le> scim_capacity lim"
    let ?P = "\<lambda>ws. scim_good ws \<and> length ws \<le> scim_capacity lim"
    have "?P (snd (charge_all (scim_charge lim) rs []))"
    proof (rule charge_all_keeps [where P = ?P])
      show "?P (snd (scim_charge lim k now s))" if "?P s" for k now s using scim_charge_good that c by blast
    qed (simp add: scim_good_def)
    then show "length (snd (charge_all (scim_charge lim) rs [])) \<le> scim_capacity lim" by simp
  qed
qed

lemma rate_limit_maps_bounded_example:
  "length (snd (charge_all (scim_charge default_scim_limits) [(''token:a'', 5)] [])) \<le> 1000"
  using rate_limit_maps_bounded [of 0 "\<lambda>_. 0" "[(''token:a'', 5)]" default_scim_limits]
  by (simp add: default_scim_limits_def)

text \<open>A flood of invented credentials cannot take the budget of a window in use. In any state the SCIM limiter
  reaches, an open window that 64 other open windows were used less recently than keeps its count, whatever other key
  is charged next and even when the map is full.\<close>

lemma scim_window_in_use_survives:
  assumes "ws = snd (charge_all (scim_charge lim) rs [])" "map_of ws k = Some w"
    and "\<not> window_over (scim_windowMs lim) now w" "j \<noteq> k"
    and "k \<notin> set (take EVICTION_BATCH (map fst (filter (\<lambda>(k, w). \<not> window_over (scim_windowMs lim) now w) ws)))"
  shows "map_of (snd (scim_charge lim j now ws)) k = Some w"
proof -
  have "scim_good ws"
    unfolding assms(1)
  proof (rule charge_all_keeps)
    show "scim_good (snd (scim_charge lim k now s))" if "scim_good s" for k now s
      using scim.touch_good [OF that] .
  qed (simp add: scim_good_def)
  then show ?thesis using assms(2-5) by (rule scim_charge_spares)
qed


definition sample_flood :: "(string \<times> int) list" where
  "sample_flood = map (\<lambda>i. (''token:'' @ [char_of i], 5)) [0..<66]"

definition small_scim_limits :: scim_limits where
  "small_scim_limits = default_scim_limits\<lparr>scim_capacity := 66\<rparr>"

lemma sample_flood_full:
  "let ws = snd (charge_all (scim_charge small_scim_limits) sample_flood []) in
     map_of ws (''token:'' @ [char_of (65 :: nat)]) = Some \<lparr>win_count = 1, win_started = 5\<rparr> \<and> length ws = 66 \<and>
     ''token:'' @ [char_of (65 :: nat)] \<notin> set (take EVICTION_BATCH (map fst
        (filter (\<lambda>(k, w). \<not> window_over (scim_windowMs small_scim_limits) 6 w) ws)))"
  by code_simp

lemma scim_window_in_use_survives_example:
  "map_of (snd (scim_charge small_scim_limits ''caller:'' 6
       (snd (charge_all (scim_charge small_scim_limits) sample_flood [])))) (''token:'' @ [char_of (65 :: nat)]) =
     Some \<lparr>win_count = 1, win_started = 5\<rparr>"
  by (rule scim_window_in_use_survives [OF refl])
     (use sample_flood_full in \<open>simp_all add: Let_def window_over_def small_scim_limits_def default_scim_limits_def\<close>)

end
