(* ===== verification/Calendar.thy ===== *)
theory Calendar
  imports Flow_Prelude
begin

text \<open>
  Wall clock times and the calendar \<open>modules/automations/src/domain/cron.ts\<close> computes with
  (\<open>modules/adapters/src/domain/cron.ts\<close> is the same file). \<open>Date.UTC\<close> is written out as the language
  defines it, with the two-digit years it moves to the twentieth century; times are integers in
  milliseconds, without the limits of \<open>Date\<close>. The section on minutes numbers the minutes of the
  calendar: stepping the wall clock is stepping that number.
\<close>

record wall_time =
  wall_year :: int
  wall_month :: int
  wall_day :: int
  wall_hour :: int
  wall_minute :: int

section \<open>\<open>Date.UTC\<close>\<close>

definition full_year :: "int \<Rightarrow> int" where
  "full_year y = (if 0 \<le> y \<and> y \<le> 99 then 1900 + y else y)"

definition leap_year :: "int \<Rightarrow> bool" where
  "leap_year y = (y mod 4 = 0 \<and> (y mod 100 \<noteq> 0 \<or> y mod 400 = 0))"

definition days_before_year :: "int \<Rightarrow> int" where
  "days_before_year y = 365 * (y - 1970) + (y - 1) div 4 - (y - 1) div 100 + (y - 1) div 400 - 477"

definition days_before_month :: "bool \<Rightarrow> int \<Rightarrow> int" where
  "days_before_month leap m =
     [0, 31, 59, 90, 120, 151, 181, 212, 243, 273, 304, 334] ! nat m + (if leap \<and> 2 \<le> m then 1 else 0)"

text \<open>The first day of a month counted from January of year 0, in days since 1970.\<close>

definition first_day :: "int \<Rightarrow> int" where
  "first_day mi =
     days_before_year (mi div 12) + days_before_month (leap_year (mi div 12)) (mi mod 12)"

text \<open>Months count from 0 here and may overflow either way.\<close>

definition utc_days :: "int \<Rightarrow> int \<Rightarrow> int \<Rightarrow> int" where
  "utc_days year month day = first_day (12 * full_year year + month) + day - 1"

definition date_UTC :: "int \<Rightarrow> int \<Rightarrow> int \<Rightarrow> int \<Rightarrow> int \<Rightarrow> int \<Rightarrow> int" where
  "date_UTC year month day hour minute second =
     ((utc_days year month day * 24 + hour) * 60 + minute) * 60000 + second * 1000"

text \<open>The date of day 0 of the following month is the length of the month.\<close>

definition daysInMonth :: "int \<Rightarrow> int \<Rightarrow> int" where
  "daysInMonth year month = utc_days year month 1 - utc_days year (month - 1) 1"

text \<open>Day 0 was a Thursday.\<close>

definition weekdayOf :: "wall_time \<Rightarrow> int" where
  "weekdayOf w = (utc_days (wall_year w) (wall_month w - 1) (wall_day w) + 4) mod 7"

definition asUtc :: "wall_time \<Rightarrow> int \<Rightarrow> int" where
  "asUtc w second = date_UTC (wall_year w) (wall_month w - 1) (wall_day w) (wall_hour w) (wall_minute w) second"

section \<open>Stepping the wall clock\<close>

definition nextMonth :: "wall_time \<Rightarrow> wall_time" where
  "nextMonth w =
     (let w1 = w\<lparr>wall_month := wall_month w + 1\<rparr>;
          w2 = (if 12 < wall_month w1 then w1\<lparr>wall_month := 1, wall_year := wall_year w1 + 1\<rparr> else w1)
      in w2\<lparr>wall_day := 1, wall_hour := 0, wall_minute := 0\<rparr>)"

definition nextDay :: "wall_time \<Rightarrow> wall_time" where
  "nextDay w =
     (let w1 = w\<lparr>wall_day := wall_day w + 1, wall_hour := 0, wall_minute := 0\<rparr> in
      if daysInMonth (wall_year w1) (wall_month w1) < wall_day w1 then
        let w2 = w1\<lparr>wall_day := 1, wall_month := wall_month w1 + 1\<rparr>
        in if 12 < wall_month w2 then w2\<lparr>wall_month := 1, wall_year := wall_year w2 + 1\<rparr> else w2
      else w1)"

definition nextHour :: "wall_time \<Rightarrow> wall_time" where
  "nextHour w =
     (if 23 \<le> wall_hour w then nextDay w else w\<lparr>wall_hour := wall_hour w + 1, wall_minute := 0\<rparr>)"

definition nextMinute :: "wall_time \<Rightarrow> wall_time" where
  "nextMinute w =
     (let w1 = w\<lparr>wall_minute := wall_minute w + 1\<rparr>
      in if 59 < wall_minute w1 then nextHour (w1\<lparr>wall_minute := 0\<rparr>) else w1)"

section \<open>The length of a month\<close>

lemma div_step:
  fixes n :: int
  assumes "0 < n"
  shows "z div n - (z - 1) div n = (if z mod n = 0 then 1 else 0)"
proof -
  have z: "z = n * (z div n) + z mod n" and r: "0 \<le> z mod n" "z mod n < n"
    using assms by (simp_all add: pos_mod_bound)
  show ?thesis
  proof (cases "z mod n = 0")
    case True
    have "(z - 1) div n = z div n - 1"
      by (rule int_div_pos_eq [where r = "n - 1"]) (use z True assms in \<open>simp_all add: algebra_simps\<close>)
    then show ?thesis using True by simp
  next
    case False
    have "(z - 1) div n = z div n"
      by (rule int_div_pos_eq [where r = "z mod n - 1"]) (use z False r in \<open>simp_all add: algebra_simps\<close>)
    then show ?thesis using False by simp
  qed
qed

lemma leap_sum:
  "(b \<Longrightarrow> a) \<Longrightarrow> (c \<Longrightarrow> b) \<Longrightarrow>
   365 + (if a then 1 else 0) - (if b then 1 else 0) + (if c then 1 else 0) = (if a \<and> (\<not> b \<or> c) then 366 else 365 :: int)"
  by (cases a; cases b; cases c) simp_all

lemma days_before_next_year: "days_before_year (y + 1) - days_before_year y = (if leap_year y then 366 else 365)"
proof -
  have "(4::int) dvd 100" "(100::int) dvd 400" by simp_all
  then have m: "y mod 100 = 0 \<Longrightarrow> y mod 4 = 0" "y mod 400 = 0 \<Longrightarrow> y mod 100 = 0"
    using dvd_trans by (simp_all only: mod_eq_0_iff_dvd) blast+
  have d: "y div n - (y - 1) div n = (if y mod n = 0 then 1 else 0)" if "0 < n" for n
    using that by (rule div_step)
  have "365 * (y + 1 - 1970) + a - b + c - 477 - (365 * (y - 1970) + a' - b' + c' - 477) =
      365 + (a - a') - (b - b') + (c - c')" for a b c a' b' c'
    by simp
  then have "days_before_year (y + 1) - days_before_year y = 365 + (y div 4 - (y - 1) div 4) -
      (y div 100 - (y - 1) div 100) + (y div 400 - (y - 1) div 400)"
    by (simp only: days_before_year_def add_diff_cancel_right')
  also have "\<dots> = (if leap_year y then 366 else 365)"
    unfolding d [OF zero_less_numeral] leap_year_def by (rule leap_sum [OF m])
  finally show ?thesis .
qed

definition month_length :: "bool \<Rightarrow> int \<Rightarrow> int" where
  "month_length leap m = (if m = 1 then if leap then 29 else 28 else if m \<in> {3, 5, 8, 10} then 30 else 31)"

lemma days_before_next_month:
  "0 \<le> m \<Longrightarrow> m < 11 \<Longrightarrow> days_before_month leap (m + 1) - days_before_month leap m = month_length leap m"
proof -
  assume "0 \<le> m" "m < 11"
  then have "m = 0 \<or> m = 1 \<or> m = 2 \<or> m = 3 \<or> m = 4 \<or> m = 5 \<or> m = 6 \<or> m = 7 \<or> m = 8 \<or> m = 9 \<or> m = 10"
    by presburger
  then show ?thesis
    by (elim disjE) (simp_all add: days_before_month_def month_length_def)
qed

lemma days_in_year:
  "(if leap then 366 else 365) + days_before_month leap' 0 - days_before_month leap 11 = month_length leap 11"
  by (simp add: days_before_month_def month_length_def)

lemma first_day_next: "first_day (mi + 1) - first_day mi = month_length (leap_year (mi div 12)) (mi mod 12)"
proof (cases "mi mod 12 = 11")
  case True
  have n: "(mi + 1) div 12 = mi div 12 + 1" "(mi + 1) mod 12 = 0" using True by presburger+
  have "b + s0 - (a + s11) = month_length (leap_year y) 11"
    if "b - a = (if leap_year y then 366 else 365)"
      "(if leap_year y then 366 else 365) + s0 - s11 = month_length (leap_year y) 11" for a b s0 s11 y
    using that by linarith
  from this [OF days_before_next_year days_in_year] show ?thesis unfolding first_day_def n True .
next
  case False
  obtain q r where mi: "mi = 12 * q + r" "0 \<le> r" "r < 12"
    by (metis mult_div_mod_eq pos_mod_bound pos_mod_sign zero_less_numeral)
  have qr: "mi div 12 = q" "mi mod 12 = r"
    using mi by (simp_all only: int_div_pos_eq int_mod_pos_eq)
  have r: "r < 11" using mi(3) False qr(2) by simp
  then have s: "mi + 1 = 12 * q + (r + 1)" "0 \<le> r + 1" "r + 1 < 12" using mi by simp_all
  have n: "(mi + 1) div 12 = q" "(mi + 1) mod 12 = r + 1"
    by (rule int_div_pos_eq [OF s], rule int_mod_pos_eq [OF s])
  have "days_before_month (leap_year q) (r + 1) - days_before_month (leap_year q) r = month_length (leap_year q) r"
    using mi(2) r by (rule days_before_next_month)
  then show ?thesis unfolding first_day_def n qr by (simp only: add_diff_cancel_left)
qed

lemma month_length_bounds: "28 \<le> month_length leap m" "month_length leap m \<le> 31"
  by (simp_all add: month_length_def)

lemma first_day_less: "mi < mi' \<Longrightarrow> first_day (mi + 1) \<le> first_day mi'"
proof (induction "nat (mi' - mi - 1)" arbitrary: mi')
  case 0
  then have "mi' = mi + 1" by simp
  then show ?case by simp
next
  case (Suc n)
  then have "first_day (mi + 1) \<le> first_day (mi' - 1)" by (intro Suc(1)) simp_all
  moreover have "first_day (mi' - 1) \<le> first_day mi'"
    using first_day_next [of "mi' - 1"] month_length_bounds(1) [of "leap_year ((mi' - 1) div 12)" "(mi' - 1) mod 12"]
    by simp
  ultimately show ?case by simp
qed


section \<open>Minutes of the calendar\<close>

text \<open>A wall clock time that is a minute of the calendar, from the year 100 on.\<close>

definition valid_wall :: "wall_time \<Rightarrow> bool" where
  "valid_wall w =
     (100 \<le> wall_year w \<and> 1 \<le> wall_month w \<and> wall_month w \<le> 12 \<and> 1 \<le> wall_day w \<and>
      wall_day w \<le> daysInMonth (wall_year w) (wall_month w) \<and>
      0 \<le> wall_hour w \<and> wall_hour w \<le> 23 \<and> 0 \<le> wall_minute w \<and> wall_minute w \<le> 59)"

definition month_no :: "wall_time \<Rightarrow> int" where
  "month_no w = 12 * wall_year w + (wall_month w - 1)"

definition day_no :: "wall_time \<Rightarrow> int" where
  "day_no w = first_day (month_no w) + wall_day w - 1"

definition minute_no :: "wall_time \<Rightarrow> int" where
  "minute_no w = (day_no w * 24 + wall_hour w) * 60 + wall_minute w"

lemma daysInMonth_first_day:
  "100 \<le> y \<Longrightarrow> daysInMonth y m = first_day (12 * y + (m - 1) + 1) - first_day (12 * y + (m - 1))"
  by (simp add: daysInMonth_def utc_days_def full_year_def)

lemma daysInMonth_bounds: "28 \<le> daysInMonth y m" "daysInMonth y m \<le> 31"
proof -
  have "daysInMonth y m = first_day (12 * full_year y + (m - 1) + 1) - first_day (12 * full_year y + (m - 1))"
    by (simp add: daysInMonth_def utc_days_def)
  then show "28 \<le> daysInMonth y m" "daysInMonth y m \<le> 31"
    unfolding first_day_next using month_length_bounds by simp_all
qed

lemma valid_day_no: "valid_wall w \<Longrightarrow> utc_days (wall_year w) (wall_month w - 1) (wall_day w) = day_no w"
  by (simp add: valid_wall_def utc_days_def full_year_def day_no_def month_no_def)

lemma valid_asUtc: "valid_wall w \<Longrightarrow> asUtc w s = minute_no w * 60000 + s * 1000"
  using valid_day_no [of w] by (simp add: asUtc_def date_UTC_def minute_no_def)

lemma valid_month:
  "valid_wall w \<Longrightarrow> first_day (month_no w) \<le> day_no w \<and> day_no w < first_day (month_no w + 1)"
  using daysInMonth_first_day [of "wall_year w" "wall_month w"]
  by (simp add: valid_wall_def day_no_def month_no_def)

lemma same_month:
  assumes "valid_wall w" "first_day mi \<le> day_no w" "day_no w < first_day (mi + 1)"
  shows "month_no w = mi"
  using first_day_less [of mi "month_no w"] first_day_less [of "month_no w" mi] valid_month [OF assms(1)] assms(2,3)
  by (cases "month_no w" mi rule: linorder_cases) auto

lemma month_no_eq:
  assumes "valid_wall w" "valid_wall w'" "month_no w = month_no w'"
  shows "wall_year w = wall_year w' \<and> wall_month w = wall_month w'"
  using assms
  by (cases "wall_year w" "wall_year w'" rule: linorder_cases) (auto simp: valid_wall_def month_no_def)

lemma day_no_eq:
  assumes "valid_wall w" "valid_wall w'" "day_no w = day_no w'"
  shows "wall_year w = wall_year w' \<and> wall_month w = wall_month w' \<and> wall_day w = wall_day w'"
proof -
  have "month_no w' = month_no w"
    using valid_month [OF assms(1)] assms(2,3) by (intro same_month) auto
  then show ?thesis using month_no_eq [OF assms(1,2)] assms(3) by (simp add: day_no_def)
qed

lemma minute_no_parts:
  assumes "valid_wall w"
  shows "minute_no w div 1440 = day_no w" "minute_no w mod 1440 = wall_hour w * 60 + wall_minute w"
proof -
  have e: "minute_no w = 1440 * day_no w + (wall_hour w * 60 + wall_minute w)" by (simp add: minute_no_def)
  have b: "0 \<le> wall_hour w * 60 + wall_minute w" "wall_hour w * 60 + wall_minute w < 1440"
    using assms by (auto simp: valid_wall_def)
  show "minute_no w div 1440 = day_no w" by (rule int_div_pos_eq [OF e b])
  show "minute_no w mod 1440 = wall_hour w * 60 + wall_minute w" by (rule int_mod_pos_eq [OF e b])
qed

lemma minute_no_inj:
  assumes "valid_wall w" "valid_wall w'" "minute_no w = minute_no w'"
  shows "w = w'"
proof -
  have d: "day_no w = day_no w'" using minute_no_parts(1) assms by metis
  have "wall_hour w * 60 + wall_minute w = wall_hour w' * 60 + wall_minute w'"
    using minute_no_parts(2) assms by metis
  then have "wall_hour w = wall_hour w' \<and> wall_minute w = wall_minute w'"
    using assms(1,2)
    by (cases "wall_hour w" "wall_hour w'" rule: linorder_cases) (auto simp: valid_wall_def)
  with day_no_eq [OF assms(1,2) d] show ?thesis by (cases w; cases w') simp
qed

lemma nextMonth_valid:
  assumes "valid_wall w"
  shows "valid_wall (nextMonth w)" "month_no (nextMonth w) = month_no w + 1"
    "day_no (nextMonth w) = first_day (month_no w + 1)" "wall_hour (nextMonth w) = 0" "wall_minute (nextMonth w) = 0"
proof -
  show v: "valid_wall (nextMonth w)"
    using assms daysInMonth_bounds(1) [of "wall_year (nextMonth w)" "wall_month (nextMonth w)"]
    by (auto simp: valid_wall_def nextMonth_def Let_def)
  show m: "month_no (nextMonth w) = month_no w + 1"
    using assms by (auto simp: valid_wall_def month_no_def nextMonth_def Let_def)
  show "day_no (nextMonth w) = first_day (month_no w + 1)"
    by (simp add: day_no_def m) (simp add: nextMonth_def Let_def)
  show "wall_hour (nextMonth w) = 0" "wall_minute (nextMonth w) = 0" by (simp_all add: nextMonth_def Let_def)
qed

lemma nextDay_cases:
  "nextDay w = (if daysInMonth (wall_year w) (wall_month w) < wall_day w + 1 then nextMonth w
     else w\<lparr>wall_day := wall_day w + 1, wall_hour := 0, wall_minute := 0\<rparr>)"
  by (cases w) (auto simp: nextDay_def nextMonth_def Let_def)

lemma nextDay_valid:
  assumes "valid_wall w"
  shows "valid_wall (nextDay w)" "day_no (nextDay w) = day_no w + 1" "wall_hour (nextDay w) = 0" "wall_minute (nextDay w) = 0"
    "wall_day (nextDay w) \<noteq> wall_day w"
proof -
  have d: "daysInMonth (wall_year w) (wall_month w) = first_day (month_no w + 1) - first_day (month_no w)"
    using assms daysInMonth_first_day [of "wall_year w" "wall_month w"] by (simp add: valid_wall_def month_no_def)
  show "valid_wall (nextDay w)"
    using assms nextMonth_valid(1) [OF assms] by (auto simp: nextDay_cases) (auto simp: valid_wall_def)
  show "day_no (nextDay w) = day_no w + 1"
  proof (cases "daysInMonth (wall_year w) (wall_month w) < wall_day w + 1")
    case True
    moreover have "wall_day w \<le> daysInMonth (wall_year w) (wall_month w)" using assms by (simp add: valid_wall_def)
    ultimately show ?thesis using d nextMonth_valid(3) [OF assms] by (simp add: nextDay_cases) (simp add: day_no_def)
  next
    case False
    then show ?thesis by (simp add: nextDay_cases day_no_def month_no_def)
  qed
  show "wall_hour (nextDay w) = 0" "wall_minute (nextDay w) = 0"
    using nextMonth_valid(4,5) [OF assms] by (simp_all add: nextDay_cases)
  have "daysInMonth (wall_year w) (wall_month w) < wall_day w + 1 \<Longrightarrow> wall_day (nextMonth w) \<noteq> wall_day w"
    using daysInMonth_bounds(1) [of "wall_year w" "wall_month w"] by (auto simp: nextMonth_def Let_def)
  then show "wall_day (nextDay w) \<noteq> wall_day w" by (simp add: nextDay_cases)
qed

lemma nextHour_valid:
  assumes "valid_wall w"
  shows "valid_wall (nextHour w)" "minute_no (nextHour w) = (day_no w * 24 + wall_hour w + 1) * 60"
    "day_no (nextHour w) = (if wall_day (nextHour w) \<noteq> wall_day w then day_no w + 1 else day_no w)"
proof -
  have "wall_hour w \<le> 23" using assms by (simp add: valid_wall_def)
  then show "valid_wall (nextHour w)" "minute_no (nextHour w) = (day_no w * 24 + wall_hour w + 1) * 60"
    "day_no (nextHour w) = (if wall_day (nextHour w) \<noteq> wall_day w then day_no w + 1 else day_no w)"
    using nextDay_valid [OF assms] assms
    by (auto simp: nextHour_def minute_no_def) (auto simp: valid_wall_def day_no_def month_no_def)
qed

lemma nextMinute_valid:
  assumes "valid_wall w"
  shows "valid_wall (nextMinute w)" "minute_no (nextMinute w) = minute_no w + 1"
    "day_no (nextMinute w) = (if wall_day (nextMinute w) \<noteq> wall_day w then day_no w + 1 else day_no w)"
proof -
  let ?w = "w\<lparr>wall_minute := 0\<rparr>"
  have v: "valid_wall ?w" and d: "day_no ?w = day_no w" using assms by (auto simp: valid_wall_def day_no_def month_no_def)
  show "valid_wall (nextMinute w)" "minute_no (nextMinute w) = minute_no w + 1"
    "day_no (nextMinute w) = (if wall_day (nextMinute w) \<noteq> wall_day w then day_no w + 1 else day_no w)"
    using nextHour_valid [OF v] assms d
    by (auto simp: nextMinute_def Let_def minute_no_def valid_wall_def day_no_def month_no_def)
qed

end
