(* ===== verification/Cron.thy ===== *)
theory Cron
  imports Calendar
begin

text \<open>
  Cron schedules: \<open>modules/automations/src/domain/cron.ts\<close> (the same file is
  \<open>modules/adapters/src/domain/cron.ts\<close>). The time zone is the host's \<open>Intl.DateTimeFormat\<close>: a parameter
  that gives the wall clock time and the second of an instant, in place of the zone name. The search of
  \<open>nextCronSlot\<close> is the source's loop with its counter of days, shown to end by the measure of
  \<open>cron_measure\<close>.
\<close>

datatype cron_error =
  Cron_too_long | Cron_field_count | Unsupported_value | Out_of_bounds | Too_many_values
| Unsupported_step | Unsupported_range | Step_without_range | Range_backwards

definition MAX_CRON_LENGTH :: nat where "MAX_CRON_LENGTH = 100"
definition MAX_FIELD_ITEMS :: nat where "MAX_FIELD_ITEMS = 32"
definition MAX_SEARCH_DAYS :: int where "MAX_SEARCH_DAYS = 1500"
definition DAY_MS :: int where "DAY_MS = 86400000"

record cron_fields =
  cron_minutes :: "int list"
  cron_hours :: "int list"
  cron_daysOfMonth :: "int list"
  cron_months :: "int list"
  cron_daysOfWeek :: "int list"
  cron_dayUnion :: bool

record field_spec =
  spec_min :: int
  spec_max :: int
  spec_names :: "string list"

definition MONTH_NAMES :: "string list" where
  "MONTH_NAMES = [''jan'', ''feb'', ''mar'', ''apr'', ''may'', ''jun'', ''jul'', ''aug'', ''sep'', ''oct'', ''nov'', ''dec'']"

definition WEEKDAY_NAMES :: "string list" where
  "WEEKDAY_NAMES = [''sun'', ''mon'', ''tue'', ''wed'', ''thu'', ''fri'', ''sat'']"

definition SPECS :: "field_spec list" where
  "SPECS =
     [\<lparr>spec_min = 0, spec_max = 59, spec_names = []\<rparr>,
      \<lparr>spec_min = 0, spec_max = 23, spec_names = []\<rparr>,
      \<lparr>spec_min = 1, spec_max = 31, spec_names = []\<rparr>,
      \<lparr>spec_min = 1, spec_max = 12, spec_names = MONTH_NAMES\<rparr>,
      \<lparr>spec_min = 0, spec_max = 7, spec_names = WEEKDAY_NAMES\<rparr>]"

section \<open>Parsing\<close>

fun index_of :: "string \<Rightarrow> string list \<Rightarrow> nat option" where
  "index_of x [] = None"
| "index_of x (y # ys) = (if x = y then Some 0 else map_option Suc (index_of x ys))"

text \<open>\<open>/^\d{1,2}$/\<close>.\<close>

definition two_digits :: "string \<Rightarrow> bool" where
  "two_digits s = (length s \<in> {1, 2} \<and> list_all is_digit s)"

definition fieldValue :: "string \<Rightarrow> field_spec \<Rightarrow> cron_error + int" where
  "fieldValue raw spec =
     (case index_of raw (spec_names spec) of
        Some named \<Rightarrow> Inr (int named + spec_min spec)
      | None \<Rightarrow>
          if \<not> two_digits raw then Inl Unsupported_value
          else let v = int (read_nat raw)
               in if v < spec_min spec \<or> spec_max spec < v then Inl Out_of_bounds else Inr v)"

text \<open>The values \<open>for (value = from; value <= to; value += step)\<close> goes through; the step is positive.\<close>

function count_up :: "int \<Rightarrow> int \<Rightarrow> int \<Rightarrow> int list" where
  "count_up v bound step = (if 0 < step \<and> v \<le> bound then v # count_up (v + step) bound step else [])"
  by pat_completeness auto
termination by (relation "measure (\<lambda>(v, bound, step). nat (bound + 1 - v))") auto

declare count_up.simps [simp del]

definition item_bounds :: "string \<Rightarrow> bool \<Rightarrow> field_spec \<Rightarrow> cron_error + int \<times> int" where
  "item_bounds raw stepped spec =
     (if raw = ''*'' then Inr (spec_min spec, spec_max spec)
      else let bounds = split_on CHR ''-'' raw in
        if 2 < length bounds then Inl Unsupported_range
        else and_then (fieldValue (bounds ! 0) spec) (\<lambda>from.
          if length bounds = 1 then (if stepped then Inl Step_without_range else Inr (from, from))
          else and_then (fieldValue (bounds ! 1) spec) (\<lambda>to.
            if to < from then Inl Range_backwards else Inr (from, to))))"

definition item_values :: "field_spec \<Rightarrow> string \<Rightarrow> cron_error + int list" where
  "item_values spec item =
     (let parts = split_on CHR ''/'' item in
      if 2 < length parts \<or> parts ! 0 = [] then Inl Unsupported_value
      else let stepped = (length parts = 2);
               step = (if stepped then int (read_nat (parts ! 1)) else 1)
        in if stepped \<and> (\<not> two_digits (parts ! 1) \<or> step < 1 \<or> spec_max spec - spec_min spec + 1 < step)
           then Inl Unsupported_step
           else and_then (item_bounds (parts ! 0) stepped spec) (\<lambda>(from, to). Inr (count_up from to step)))"

definition numeric_order :: "int \<Rightarrow> int \<Rightarrow> int" where
  "numeric_order l r = l - r"

definition parseField :: "string \<Rightarrow> field_spec \<Rightarrow> cron_error + int list" where
  "parseField raw spec =
     (let items = split_on CHR '','' raw in
      if MAX_FIELD_ITEMS < length items then Inl Too_many_values
      else and_then (for_each (\<lambda>vs item. and_then (item_values spec item) (\<lambda>new. Inr (vs @ new))) [] items)
        (\<lambda>vs. Inr (sort_by numeric_order (remdups vs))))"

text \<open>\<open>fields.map(...)\<close>, stopping at the first field that throws.\<close>

fun parse_fields :: "string list \<Rightarrow> field_spec list \<Rightarrow> cron_error + int list list" where
  "parse_fields (f # fs) (s # ss) =
     and_then (parseField f s) (\<lambda>vs. and_then (parse_fields fs ss) (\<lambda>vss. Inr (vs # vss)))"
| "parse_fields _ _ = Inr []"

definition cron_words :: "string \<Rightarrow> string list" where
  "cron_words expression = split_spaces (lower (trim expression))"

definition parseCron :: "string \<Rightarrow> cron_error + cron_fields" where
  "parseCron expression =
     (if MAX_CRON_LENGTH < length expression then Inl Cron_too_long
      else let words = cron_words expression in
        if length words \<noteq> 5 \<or> words ! 0 = [] then Inl Cron_field_count
        else and_then (parse_fields words SPECS) (\<lambda>parsed.
          Inr \<lparr>cron_minutes = parsed ! 0, cron_hours = parsed ! 1, cron_daysOfMonth = parsed ! 2,
               cron_months = parsed ! 3,
               cron_daysOfWeek = sort_by numeric_order (remdups (map (\<lambda>day. if day = 7 then 0 else day) (parsed ! 4))),
               cron_dayUnion = (\<not> starts_with ''*'' (words ! 2) \<and> \<not> starts_with ''*'' (words ! 4))\<rparr>))"

definition normalizeCron :: "string \<Rightarrow> cron_error + string" where
  "normalizeCron expression = and_then (parseCron expression) (\<lambda>_. Inr (join '' '' (cron_words expression)))"

section \<open>Instants\<close>

type_synonym zone = "int \<Rightarrow> wall_time \<times> int"

definition offsetAt :: "zone \<Rightarrow> int \<Rightarrow> int" where
  "offsetAt partsOf instant =
     (case partsOf instant of (parts, second) \<Rightarrow> asUtc parts second - instant div 1000 * 1000)"

text \<open>One candidate instant: taken when it reads back as the wall time and is earlier than the one taken.\<close>

definition take_candidate :: "zone \<Rightarrow> wall_time \<Rightarrow> int option \<Rightarrow> int \<Rightarrow> int option" where
  "take_candidate partsOf wall resolved candidate =
     (if (case resolved of Some r \<Rightarrow> r \<le> candidate | None \<Rightarrow> False) then resolved
      else if fst (partsOf candidate) = wall then Some candidate else resolved)"

definition instantOf :: "zone \<Rightarrow> wall_time \<Rightarrow> int option" where
  "instantOf partsOf wall =
     (let wallMs = asUtc wall 0;
          before = wallMs - offsetAt partsOf (wallMs - DAY_MS);
          after = wallMs - offsetAt partsOf (wallMs + DAY_MS)
      in foldl (take_candidate partsOf wall) None (if before = after then [before] else [before, after]))"

definition dayMatches :: "cron_fields \<Rightarrow> wall_time \<Rightarrow> bool" where
  "dayMatches cf wall =
     (let byDate = wall_day wall \<in> set (cron_daysOfMonth cf);
          byWeekday = weekdayOf wall \<in> set (cron_daysOfWeek cf)
      in if cron_dayUnion cf then byDate \<or> byWeekday else byDate \<and> byWeekday)"

section \<open>The search\<close>

definition day_passed :: "wall_time \<Rightarrow> wall_time \<Rightarrow> int \<Rightarrow> int" where
  "day_passed wall wall1 days = (if wall_day wall1 \<noteq> wall_day wall then days + 1 else days)"

text \<open>One turn of the loop: an answer, or the wall time and the days to go on with.\<close>

definition cron_turn :: "cron_fields \<Rightarrow> int \<Rightarrow> zone \<Rightarrow> wall_time \<Rightarrow> int \<Rightarrow> int + wall_time \<times> int" where
  "cron_turn cf after partsOf wall days =
     (if wall_month wall \<notin> set (cron_months cf) then
        Inr (nextMonth wall, days + (daysInMonth (wall_year wall) (wall_month wall) - wall_day wall + 1))
      else if \<not> dayMatches cf wall then Inr (nextDay wall, days + 1)
      else if wall_hour wall \<notin> set (cron_hours cf) then
        Inr (nextHour wall, day_passed wall (nextHour wall) days)
      else if wall_minute wall \<notin> set (cron_minutes cf) then
        Inr (nextMinute wall, day_passed wall (nextMinute wall) days)
      else case instantOf partsOf wall of
             Some instant \<Rightarrow>
               if after < instant then Inl instant
               else Inr (nextMinute wall, day_passed wall (nextMinute wall) days)
           | None \<Rightarrow> Inr (nextMinute wall, day_passed wall (nextMinute wall) days))"

definition past_month_end :: "wall_time \<Rightarrow> nat" where
  "past_month_end w = (if daysInMonth (wall_year w) (wall_month w) < wall_day w then 1 else 0)"

definition cron_measure :: "((wall_time \<times> int) \<times> (wall_time \<times> int)) set" where
  "cron_measure = measures
     [\<lambda>(w, d). past_month_end w, \<lambda>(w, d). nat (MAX_SEARCH_DAYS + 1 - d),
      \<lambda>(w, d). nat (23 - wall_hour w), \<lambda>(w, d). nat (59 - wall_minute w)]"

text \<open>Nothing is asked of the wall time here: the loop ends from any start.\<close>

lemma nextMonth_steps: "past_month_end (nextMonth w) = 0"
  using daysInMonth_bounds(1) [of "wall_year (nextMonth w)" "wall_month (nextMonth w)"]
  by (auto simp: past_month_end_def nextMonth_def Let_def)

lemma nextDay_steps: "past_month_end (nextDay w) = 0" "wall_day (nextDay w) \<noteq> wall_day w"
proof -
  have "28 \<le> daysInMonth (wall_year w) (wall_month w)" by (rule daysInMonth_bounds)
  then show "wall_day (nextDay w) \<noteq> wall_day w" by (auto simp: nextDay_cases nextMonth_def Let_def)
  show "past_month_end (nextDay w) = 0"
    using nextMonth_steps [of w] by (auto simp: nextDay_cases past_month_end_def)
qed

lemma cron_turn_decreases:
  assumes "d \<le> MAX_SEARCH_DAYS" "cron_turn cf after partsOf w d = Inr (w', d')"
  shows "((w', d'), (w, d)) \<in> cron_measure"
proof -
  have month: "((nextMonth w, d + (daysInMonth (wall_year w) (wall_month w) - wall_day w + 1)), (w, d)) \<in> cron_measure"
    using assms(1) nextMonth_steps [of w] by (auto simp: cron_measure_def past_month_end_def [of w])
  have day: "((nextDay w, d + 1), (w, d)) \<in> cron_measure" for w
    using assms(1) nextDay_steps(1) [of w] by (auto simp: cron_measure_def past_month_end_def [of w])
  have past: "past_month_end (w\<lparr>wall_minute := 0\<rparr>) = past_month_end w" by (simp add: past_month_end_def)
  have hour: "((nextHour w, day_passed w (nextHour w) d), (w, d)) \<in> cron_measure"
  proof (cases "23 \<le> wall_hour w")
    case True
    then show ?thesis using day [of w] nextDay_steps(2) [of w] by (simp add: nextHour_def day_passed_def)
  qed (simp add: nextHour_def day_passed_def cron_measure_def past_month_end_def)
  have minute: "((nextMinute w, day_passed w (nextMinute w) d), (w, d)) \<in> cron_measure"
  proof (cases "59 \<le> wall_minute w")
    case m: True
    let ?w = "w\<lparr>wall_minute := 0\<rparr>"
    show ?thesis
    proof (cases "23 \<le> wall_hour w")
      case True
      then have "nextMinute w = nextDay ?w" using m by (simp add: nextMinute_def nextHour_def)
      then show ?thesis
        using day [of ?w] nextDay_steps(2) [of ?w] past assms(1)
        by (simp add: day_passed_def cron_measure_def)
    next
      case False
      then show ?thesis
        using m by (simp add: nextMinute_def nextHour_def day_passed_def cron_measure_def past_month_end_def)
    qed
  qed (simp add: nextMinute_def day_passed_def cron_measure_def past_month_end_def)
  show ?thesis
    using assms(2) month day [of w] hour minute
    by (auto simp: cron_turn_def split: if_splits option.splits)
qed

function cron_search :: "cron_fields \<Rightarrow> int \<Rightarrow> zone \<Rightarrow> wall_time \<Rightarrow> int \<Rightarrow> int option" where
  "cron_search cf after partsOf wall days =
     (if days \<le> MAX_SEARCH_DAYS then
        case cron_turn cf after partsOf wall days of
          Inl instant \<Rightarrow> Some instant
        | Inr (wall1, days1) \<Rightarrow> cron_search cf after partsOf wall1 days1
      else None)"
  by pat_completeness auto
termination
proof (relation "inv_image cron_measure (\<lambda>(cf, after, partsOf, wall, days). (wall, days))")
  show "wf (inv_image cron_measure (\<lambda>(cf, after, partsOf, wall, days). (wall, days)))"
    by (simp add: cron_measure_def)
qed (auto intro: cron_turn_decreases)

declare cron_search.simps [simp del]

definition nextCronSlot :: "cron_fields \<Rightarrow> int \<Rightarrow> zone \<Rightarrow> int option" where
  "nextCronSlot cf after partsOf = cron_search cf after partsOf (nextMinute (fst (partsOf after))) 0"


section \<open>The slot that is found\<close>

lemma take_candidate_reads:
  "take_candidate partsOf wall r c = Some t \<Longrightarrow> (\<And>t. r = Some t \<Longrightarrow> fst (partsOf t) = wall) \<Longrightarrow> fst (partsOf t) = wall"
  by (auto simp: take_candidate_def split: if_splits option.splits)

lemma instantOf_reads: "instantOf partsOf wall = Some t \<Longrightarrow> fst (partsOf t) = wall"
  by (auto simp: instantOf_def Let_def split: if_splits elim!: take_candidate_reads)

text \<open>What makes a wall time a slot.\<close>

definition cron_matches :: "cron_fields \<Rightarrow> wall_time \<Rightarrow> bool" where
  "cron_matches cf wall =
     (wall_month wall \<in> set (cron_months cf) \<and> dayMatches cf wall \<and>
      wall_hour wall \<in> set (cron_hours cf) \<and> wall_minute wall \<in> set (cron_minutes cf))"

definition slot_at :: "cron_fields \<Rightarrow> int \<Rightarrow> zone \<Rightarrow> wall_time \<Rightarrow> int option" where
  "slot_at cf after partsOf wall =
     (if cron_matches cf wall then
        case instantOf partsOf wall of Some t \<Rightarrow> if after < t then Some t else None | None \<Rightarrow> None
      else None)"

lemma cron_turn_answer: "cron_turn cf after partsOf w d = Inl t \<longleftrightarrow> slot_at cf after partsOf w = Some t"
  by (auto simp: cron_turn_def slot_at_def cron_matches_def split: option.splits)

text \<open>A turn that goes on moves to a later minute, counts the days it passed, and passes no slot.\<close>

lemma weekday_day_no: "valid_wall w \<Longrightarrow> weekdayOf w = (day_no w + 4) mod 7"
  by (simp add: weekdayOf_def valid_day_no)

lemma dayMatches_day:
  "valid_wall w \<Longrightarrow> valid_wall w' \<Longrightarrow> day_no w = day_no w' \<Longrightarrow> dayMatches cf w = dayMatches cf w'"
  using day_no_eq [of w w'] by (simp add: dayMatches_def weekday_day_no)

lemma minute_no_day:
  assumes "valid_wall w" "valid_wall v" "minute_no w \<le> minute_no v" "minute_no v < (day_no w + n) * 1440"
  shows "day_no w \<le> day_no v" "day_no v < day_no w + n"
  using minute_no_parts(1) [OF assms(1)] minute_no_parts(1) [OF assms(2)] assms(3,4) zdiv_mono1 [of "minute_no w" "minute_no v" 1440]
    minute_no_parts(2) [OF assms(2)] assms(2)
  by (auto simp: valid_wall_def minute_no_def)

lemma cron_turn_step:
  assumes w: "valid_wall w" and t: "cron_turn cf after partsOf w d = Inr (w', d')"
  shows "valid_wall w'" "minute_no w < minute_no w'" "d' - d = day_no w' - day_no w"
    "valid_wall v \<Longrightarrow> minute_no w \<le> minute_no v \<Longrightarrow> minute_no v < minute_no w' \<Longrightarrow> slot_at cf after partsOf v = None"
proof -
  have hm: "0 \<le> wall_hour w" "wall_hour w \<le> 23" "0 \<le> wall_minute w" "wall_minute w \<le> 59"
    using w by (auto simp: valid_wall_def)
  have dim: "daysInMonth (wall_year w) (wall_month w) = first_day (month_no w + 1) - first_day (month_no w)"
    using w daysInMonth_first_day [of "wall_year w" "wall_month w"] by (simp add: valid_wall_def month_no_def)
  consider
    (month) "wall_month w \<notin> set (cron_months cf)" "w' = nextMonth w"
      "d' = d + (daysInMonth (wall_year w) (wall_month w) - wall_day w + 1)"
  | (day) "\<not> dayMatches cf w" "w' = nextDay w" "d' = d + 1"
  | (hour) "wall_hour w \<notin> set (cron_hours cf)" "w' = nextHour w" "d' = day_passed w (nextHour w) d"
  | (minute) "slot_at cf after partsOf w = None" "w' = nextMinute w" "d' = day_passed w (nextMinute w) d"
    using t by (auto simp: cron_turn_def slot_at_def cron_matches_def split: if_splits option.splits)
  then have "valid_wall w' \<and> minute_no w < minute_no w' \<and> d' - d = day_no w' - day_no w \<and>
    (valid_wall v \<longrightarrow> minute_no w \<le> minute_no v \<longrightarrow> minute_no v < minute_no w' \<longrightarrow> slot_at cf after partsOf v = None)"
  proof cases
    case month
    note n = nextMonth_valid [OF w]
    have m: "minute_no w' = (day_no w + (first_day (month_no w + 1) - day_no w)) * 1440"
      using n(3-5) month by (simp add: minute_no_def)
    have "slot_at cf after partsOf v = None" if v: "valid_wall v" "minute_no w \<le> minute_no v" "minute_no v < minute_no w'"
    proof -
      from minute_no_day [OF w v(1,2) v(3) [unfolded m]] have "day_no w \<le> day_no v" "day_no v < first_day (month_no w + 1)"
        by auto
      then have "month_no v = month_no w" using valid_month [OF w] by (intro same_month [OF v(1)]) auto
      then show ?thesis using month_no_eq [OF v(1) w] month(1) by (simp add: slot_at_def cron_matches_def)
    qed
    moreover have "minute_no w < minute_no w'"
      using valid_month [OF w] hm unfolding m by (simp add: minute_no_def)
    ultimately show ?thesis using n month dim by (auto simp: day_no_def)
  next
    case day
    note n = nextDay_valid [OF w]
    have m: "minute_no w' = (day_no w + 1) * 1440" using n day by (simp add: minute_no_def)
    have "slot_at cf after partsOf v = None" if v: "valid_wall v" "minute_no w \<le> minute_no v" "minute_no v < minute_no w'"
    proof -
      from minute_no_day [OF w v(1,2) v(3) [unfolded m]] have "day_no v = day_no w" by simp
      then show ?thesis using dayMatches_day [OF v(1) w] day(1) by (simp add: slot_at_def cron_matches_def)
    qed
    then show ?thesis using n day m hm by (auto simp: minute_no_def)
  next
    case hour
    note n = nextHour_valid [OF w]
    have "slot_at cf after partsOf v = None" if v: "valid_wall v" "minute_no w \<le> minute_no v" "minute_no v < minute_no w'"
    proof -
      have "minute_no v < (day_no w + 1) * 1440" using v(3) n(2) hour hm by simp
      from minute_no_day [OF w v(1,2) this] have "day_no v = day_no w" by simp
      then have "wall_hour v = wall_hour w"
        using v n(2) hour hm by (auto simp: minute_no_def valid_wall_def)
      then show ?thesis using hour(1) by (simp add: slot_at_def cron_matches_def)
    qed
    then show ?thesis using n hour hm by (auto simp: minute_no_def [of w] day_passed_def)
  next
    case minute
    note n = nextMinute_valid [OF w]
    have "slot_at cf after partsOf v = None" if v: "valid_wall v" "minute_no w \<le> minute_no v" "minute_no v < minute_no w'"
    proof -
      have "minute_no v = minute_no w" using v(2,3) n(2) minute by simp
      with minute_no_inj [OF v(1) w] minute(1) show ?thesis by simp
    qed
    then show ?thesis using n minute by (auto simp: day_passed_def)
  qed
  then show "valid_wall w'" "minute_no w < minute_no w'" "d' - d = day_no w' - day_no w"
    "valid_wall v \<Longrightarrow> minute_no w \<le> minute_no v \<Longrightarrow> minute_no v < minute_no w' \<Longrightarrow> slot_at cf after partsOf v = None"
    by auto
qed

lemma cron_search_exact:
  assumes "valid_wall w"
  shows "(\<forall>t. cron_search cf after partsOf w d = Some t \<longrightarrow>
      (\<exists>v. valid_wall v \<and> minute_no w \<le> minute_no v \<and> slot_at cf after partsOf v = Some t \<and>
        (\<forall>u. valid_wall u \<longrightarrow> minute_no w \<le> minute_no u \<longrightarrow> minute_no u < minute_no v \<longrightarrow> slot_at cf after partsOf u = None))) \<and>
    (cron_search cf after partsOf w d = None \<longrightarrow>
      (\<forall>u. valid_wall u \<longrightarrow> minute_no w \<le> minute_no u \<longrightarrow> day_no u - day_no w + d \<le> MAX_SEARCH_DAYS \<longrightarrow>
        slot_at cf after partsOf u = None))"
  using assms
proof (induction cf after partsOf w d rule: cron_search.induct)
  case (1 cf after partsOf w d)
  note s = cron_search.simps [of cf after partsOf w d]
  show ?case
  proof (cases "d \<le> MAX_SEARCH_DAYS")
    case False
    have "day_no w \<le> day_no u" if "valid_wall u" "minute_no w \<le> minute_no u" for u
      using minute_no_parts(1) 1(2) that by (metis zdiv_mono1 zero_less_numeral)
    then show ?thesis using False by (force simp: s)
  next
    case True
    show ?thesis
    proof (cases "cron_turn cf after partsOf w d")
      case (Inl t)
      then have "slot_at cf after partsOf w = Some t" by (simp add: cron_turn_answer)
      then show ?thesis using 1(2) True Inl by (auto simp: s intro!: exI [of _ w])
    next
      case (Inr wd)
      obtain w' d' where wd: "wd = (w', d')" by (cases wd)
      note step = cron_turn_step [OF 1(2) Inr [unfolded wd]]
      have eq: "cron_search cf after partsOf w d = cron_search cf after partsOf w' d'"
        using True Inr wd by (simp add: s)
      note IH = 1(1) [OF True Inr wd [symmetric] step(1)]
      show ?thesis unfolding eq
      proof (intro conjI allI impI)
        fix t assume "cron_search cf after partsOf w' d' = Some t"
        with IH obtain v where v: "valid_wall v" "minute_no w' \<le> minute_no v" "slot_at cf after partsOf v = Some t"
          "\<And>u. valid_wall u \<Longrightarrow> minute_no w' \<le> minute_no u \<Longrightarrow> minute_no u < minute_no v \<Longrightarrow> slot_at cf after partsOf u = None"
          by blast
        have "slot_at cf after partsOf u = None"
          if "valid_wall u" "minute_no w \<le> minute_no u" "minute_no u < minute_no v" for u
          using that v(4) step(4) by (cases "minute_no u < minute_no w'") auto
        then show "\<exists>v. valid_wall v \<and> minute_no w \<le> minute_no v \<and> slot_at cf after partsOf v = Some t \<and>
            (\<forall>u. valid_wall u \<longrightarrow> minute_no w \<le> minute_no u \<longrightarrow> minute_no u < minute_no v \<longrightarrow> slot_at cf after partsOf u = None)"
          using v(1,2,3) step(2) by (intro exI [of _ v]) auto
      next
        fix u assume u: "cron_search cf after partsOf w' d' = None" "valid_wall u" "minute_no w \<le> minute_no u"
          "day_no u - day_no w + d \<le> MAX_SEARCH_DAYS"
        show "slot_at cf after partsOf u = None"
        proof (cases "minute_no u < minute_no w'")
          case True
          then show ?thesis using u step(4) by blast
        next
          case False
          moreover have "day_no u - day_no w' + d' \<le> MAX_SEARCH_DAYS" using u(4) step(3) by simp
          ultimately show ?thesis using IH u(1,2) by auto
        qed
      qed
    qed
  qed
qed


lemma slot_at_reads:
  "slot_at cf after partsOf v = Some t \<Longrightarrow> fst (partsOf t) = v \<and> after < t \<and> cron_matches cf v"
  by (auto simp: slot_at_def instantOf_reads split: if_splits option.splits)

lemma nextCronSlot_exact:
  assumes "valid_wall (fst (partsOf after))"
  shows "nextCronSlot cf after partsOf = Some t \<Longrightarrow>
      valid_wall (fst (partsOf t)) \<and> minute_no (fst (partsOf after)) < minute_no (fst (partsOf t)) \<and>
      slot_at cf after partsOf (fst (partsOf t)) = Some t \<and>
      (\<forall>u. valid_wall u \<longrightarrow> minute_no (fst (partsOf after)) < minute_no u \<longrightarrow>
         minute_no u < minute_no (fst (partsOf t)) \<longrightarrow> slot_at cf after partsOf u = None)"
    and "nextCronSlot cf after partsOf = None \<Longrightarrow> valid_wall u \<Longrightarrow> minute_no (fst (partsOf after)) < minute_no u \<Longrightarrow>
      day_no u \<le> day_no (fst (partsOf after)) + MAX_SEARCH_DAYS \<Longrightarrow> slot_at cf after partsOf u = None"
proof -
  note n = nextMinute_valid [OF assms]
  have e: "minute_no (nextMinute (fst (partsOf after))) \<le> minute_no u \<longleftrightarrow> minute_no (fst (partsOf after)) < minute_no u" for u
    using n(2) by auto
  note x = cron_search_exact [OF n(1), of cf after partsOf 0, folded nextCronSlot_def, unfolded e]
  show "valid_wall (fst (partsOf t)) \<and> minute_no (fst (partsOf after)) < minute_no (fst (partsOf t)) \<and>
      slot_at cf after partsOf (fst (partsOf t)) = Some t \<and>
      (\<forall>u. valid_wall u \<longrightarrow> minute_no (fst (partsOf after)) < minute_no u \<longrightarrow>
         minute_no u < minute_no (fst (partsOf t)) \<longrightarrow> slot_at cf after partsOf u = None)"
    if "nextCronSlot cf after partsOf = Some t"
    using x that slot_at_reads [of cf after partsOf] by metis
  show "slot_at cf after partsOf u = None"
    if "nextCronSlot cf after partsOf = None" "valid_wall u" "minute_no (fst (partsOf after)) < minute_no u"
      "day_no u \<le> day_no (fst (partsOf after)) + MAX_SEARCH_DAYS"
  proof -
    have "day_no (fst (partsOf after)) \<le> day_no (nextMinute (fst (partsOf after)))" by (simp add: n(3))
    then show ?thesis using x that by auto
  qed
qed

text \<open>The loop with a bound on its turns; \<open>None\<close> when the bound is hit.\<close>

fun cron_run :: "nat \<Rightarrow> cron_fields \<Rightarrow> int \<Rightarrow> zone \<Rightarrow> wall_time \<Rightarrow> int \<Rightarrow> int option option" where
  "cron_run n cf after partsOf wall days =
     (if days \<le> MAX_SEARCH_DAYS then
        case n of
          0 \<Rightarrow> None
        | Suc m \<Rightarrow>
            (case cron_turn cf after partsOf wall days of
               Inl instant \<Rightarrow> Some (Some instant)
             | Inr (wall1, days1) \<Rightarrow> cron_run m cf after partsOf wall1 days1)
      else Some None)"

declare cron_run.simps [simp del]

lemma cron_run_enough:
  assumes "valid_wall w" "(MAX_SEARCH_DAYS + 1 - d + day_no w) * 1440 - minute_no w \<le> int n"
  shows "cron_run n cf after partsOf w d = Some (cron_search cf after partsOf w d)"
  using assms
proof (induction n arbitrary: w d)
  case 0
  have "minute_no w < day_no w * 1440 + 1440"
    using minute_no_day(2) [OF 0(1) 0(1)] 0(1) by (simp add: minute_no_def valid_wall_def)
  with 0(2) have "\<not> d \<le> MAX_SEARCH_DAYS" by simp
  then show ?case by (simp add: cron_run.simps cron_search.simps [of cf after partsOf w d])
next
  case (Suc n)
  show ?case
  proof (cases "cron_turn cf after partsOf w d")
    case (Inl t)
    then show ?thesis by (simp add: cron_run.simps [of "Suc n"] cron_search.simps [of cf after partsOf w d])
  next
    case (Inr wd)
    obtain w' d' where wd: "wd = (w', d')" by (cases wd)
    note step = cron_turn_step [OF Suc(2) Inr [unfolded wd]]
    have "MAX_SEARCH_DAYS + 1 - d' + day_no w' = MAX_SEARCH_DAYS + 1 - d + day_no w" using step(3) by simp
    then have "(MAX_SEARCH_DAYS + 1 - d' + day_no w') * 1440 - minute_no w' \<le> int n" using Suc(3) step(2) by simp
    from Suc(1) [OF step(1) this] Inr wd show ?thesis
      by (simp add: cron_run.simps [of "Suc n"] cron_search.simps [of cf after partsOf w d])
  qed
qed


section \<open>What parsing promises\<close>

interpretation numeric: comparator_order numeric_order
  by unfold_locales (auto simp: numeric_order_def)

lemma sort_numeric: "sorted_wrt (<) (sort_by numeric_order (remdups vs))"
proof -
  have "distinct (sort_by numeric_order (remdups vs))"
    by (metis distinct_remdups mset_sort_by mset_eq_imp_distinct_iff)
  moreover have "sorted_wrt (\<lambda>x y. numeric_order x y \<le> 0) (sort_by numeric_order (remdups vs))"
    by (rule numeric.sort_by_sorted)
  then have "sorted (sort_by numeric_order (remdups vs))" by (simp add: numeric_order_def)
  ultimately show ?thesis using strict_sorted_iff by blast
qed

text \<open>A field is well formed when it lists at least one value, without repetition, within its bounds.\<close>

definition field_ok :: "int \<Rightarrow> int \<Rightarrow> int list \<Rightarrow> bool" where
  "field_ok lo hi vs = (vs \<noteq> [] \<and> sorted_wrt (<) vs \<and> list_all (\<lambda>v. lo \<le> v \<and> v \<le> hi) vs)"

lemma count_up_bounds: "x \<in> set (count_up v b s) \<Longrightarrow> v \<le> x \<and> x \<le> b"
  by (induction v b s rule: count_up.induct) (subst (asm) (2) count_up.simps, auto split: if_splits)

lemma count_up_nonempty: "0 < s \<Longrightarrow> v \<le> b \<Longrightarrow> count_up v b s \<noteq> []"
  by (subst count_up.simps) simp

lemma index_of_bound: "index_of x ys = Some i \<Longrightarrow> i < length ys"
  by (induction ys arbitrary: i) (auto split: if_splits)

definition spec_ok :: "field_spec \<Rightarrow> bool" where
  "spec_ok spec = (spec_min spec \<le> spec_max spec \<and> int (length (spec_names spec)) \<le> spec_max spec - spec_min spec + 1)"

lemma fieldValue_bounds:
  "spec_ok spec \<Longrightarrow> fieldValue raw spec = Inr v \<Longrightarrow> spec_min spec \<le> v \<and> v \<le> spec_max spec"
  by (auto simp: fieldValue_def Let_def spec_ok_def dest: index_of_bound split: option.splits if_splits)

lemma item_bounds_ok:
  "spec_ok spec \<Longrightarrow> item_bounds raw stepped spec = Inr (from, to) \<Longrightarrow>
     spec_min spec \<le> from \<and> from \<le> to \<and> to \<le> spec_max spec"
  by (auto simp: item_bounds_def Let_def result_simps spec_ok_def dest!: fieldValue_bounds [rotated] split: if_splits)

lemma item_values_ok:
  assumes "spec_ok spec" "item_values spec item = Inr vs"
  shows "vs \<noteq> [] \<and> list_all (\<lambda>v. spec_min spec \<le> v \<and> v \<le> spec_max spec) vs"
proof -
  from assms(2) obtain raw stepped lo hi step
    where b: "item_bounds raw stepped spec = Inr (lo, hi)" and v: "vs = count_up lo hi step" "1 \<le> step"
    by (auto simp: item_values_def Let_def result_simps split: if_splits)
  from item_bounds_ok [OF assms(1) b] show ?thesis
    using count_up_nonempty [of step lo hi] v by (auto simp: list_all_iff dest: count_up_bounds)
qed

lemma parseField_ok:
  assumes "spec_ok spec" "parseField raw spec = Inr vs"
  shows "field_ok (spec_min spec) (spec_max spec) vs"
proof -
  let ?f = "\<lambda>vs item. and_then (item_values spec item) (\<lambda>new. Inr (vs @ new))"
  let ?P = "\<lambda>vs. list_all (\<lambda>v. spec_min spec \<le> v \<and> v \<le> spec_max spec) vs"
  from assms(2) obtain us where us: "for_each ?f [] (split_on CHR '','' raw) = Inr us"
      "vs = sort_by numeric_order (remdups us)"
    by (auto simp: parseField_def Let_def result_simps split: if_splits)
  have "?P us" by (rule for_each_invariant [OF us(1)]) (auto simp: result_simps dest!: item_values_ok [OF assms(1)])
  moreover obtain item items where i: "split_on CHR '','' raw = item # items"
    using split_on_nonempty by (metis neq_Nil_conv)
  have "us \<noteq> []"
  proof -
    from us(1) obtain new where new: "item_values spec item = Inr new" "for_each ?f new items = Inr us"
      unfolding i by (auto simp: result_simps)
    then have "new \<noteq> []" using item_values_ok [OF assms(1)] by blast
    show ?thesis
      by (rule for_each_invariant [OF new(2), where P = "\<lambda>vs. vs \<noteq> []"]) (use \<open>new \<noteq> []\<close> in \<open>auto simp: result_simps\<close>)
  qed
  moreover have "set vs = set us" by (simp add: us(2))
  moreover have "sorted_wrt (<) vs" unfolding us(2) by (rule sort_numeric)
  ultimately show ?thesis by (auto simp: field_ok_def list_all_iff)
qed

lemma SPECS_ok: "list_all spec_ok SPECS"
  by (simp add: SPECS_def spec_ok_def MONTH_NAMES_def WEEKDAY_NAMES_def)

lemma parse_fields_ok:
  "parse_fields fs ss = Inr vss \<Longrightarrow> list_all spec_ok ss \<Longrightarrow> length fs = length ss \<Longrightarrow>
     list_all2 (\<lambda>s vs. field_ok (spec_min s) (spec_max s) vs) ss vss"
  by (induction fs ss arbitrary: vss rule: parse_fields.induct) (auto simp: result_simps parseField_ok)

lemma parseCron_ok:
  assumes "parseCron e = Inr cf"
  shows "field_ok 0 59 (cron_minutes cf) \<and> field_ok 0 23 (cron_hours cf) \<and> field_ok 1 31 (cron_daysOfMonth cf) \<and>
     field_ok 1 12 (cron_months cf) \<and> field_ok 0 6 (cron_daysOfWeek cf)"
proof -
  from assms obtain parsed where p: "parse_fields (cron_words e) SPECS = Inr parsed" "length (cron_words e) = 5"
      and cf: "cron_minutes cf = parsed ! 0" "cron_hours cf = parsed ! 1" "cron_daysOfMonth cf = parsed ! 2"
        "cron_months cf = parsed ! 3"
        "cron_daysOfWeek cf = sort_by numeric_order (remdups (map (\<lambda>day. if day = 7 then 0 else day) (parsed ! 4)))"
    by (auto simp: parseCron_def Let_def result_simps split: if_splits)
  have "list_all2 (\<lambda>s vs. field_ok (spec_min s) (spec_max s) vs) SPECS parsed"
    using parse_fields_ok [OF p(1) SPECS_ok] p(2) by (simp add: SPECS_def)
  then have f: "field_ok 0 59 (parsed ! 0)" "field_ok 0 23 (parsed ! 1)" "field_ok 1 31 (parsed ! 2)"
      "field_ok 1 12 (parsed ! 3)" "field_ok 0 7 (parsed ! 4)"
    by (auto simp: SPECS_def list_all2_Cons1 numeral_eq_Suc)
  let ?d = "map (\<lambda>day. if day = 7 then 0 else day) (parsed ! 4)"
  have "field_ok 0 6 (sort_by numeric_order (remdups ?d))"
    unfolding field_ok_def
  proof (intro conjI)
    show "sorted_wrt (<) (sort_by numeric_order (remdups ?d))" by (rule sort_numeric)
    have "?d \<noteq> []" using f(5) by (simp add: field_ok_def)
    then show "sort_by numeric_order (remdups ?d) \<noteq> []"
      by (metis set_empty set_remdups set_sort_by)
    show "list_all (\<lambda>v. 0 \<le> v \<and> v \<le> 6) (sort_by numeric_order (remdups ?d))"
      using f(5) by (auto simp: field_ok_def list_all_iff)
  qed
  with f(1-4) show ?thesis by (simp add: cf)
qed


section \<open>What the schedule promises\<close>

text \<open>UTC as a zone, for the sample schedules: the civil date of a day number.\<close>

definition civil_date :: "int \<Rightarrow> int \<times> int \<times> int" where
  "civil_date days =
     (let z = days + 719468; era = z div 146097; doe = z mod 146097;
          yoe = (doe - doe div 1460 + doe div 36524 - doe div 146096) div 365;
          doy = doe - (365 * yoe + yoe div 4 - yoe div 100);
          mp = (5 * doy + 2) div 153;
          m = (if mp < 10 then mp + 3 else mp - 9)
      in (yoe + era * 400 + (if m \<le> 2 then 1 else 0), m, doy - (153 * mp + 2) div 5 + 1))"

definition utc_zone :: zone where
  "utc_zone t =
     (case civil_date (t div DAY_MS) of (y, m, d) \<Rightarrow>
        (\<lparr>wall_year = y, wall_month = m, wall_day = d, wall_hour = t div 3600000 mod 24,
          wall_minute = t div 60000 mod 60\<rparr>, t div 1000 mod 60))"

definition leap_day_schedule :: cron_fields where
  "leap_day_schedule = \<lparr>cron_minutes = [30], cron_hours = [9], cron_daysOfMonth = [29], cron_months = [2],
     cron_daysOfWeek = [0, 1, 2, 3, 4, 5, 6], cron_dayUnion = False\<rparr>"

text \<open>Parsing a cron expression yields only fields the matcher can use: each lists at least one value, in
  ascending order without repetition, minutes within 0 to 59, hours 0 to 23, days of the month 1 to 31, months 1 to 12
  and weekdays 0 to 6 (7 is Sunday on input and stored as 0).\<close>

lemma cron_fields_bounded:
  assumes "parseCron e = Inr cf"
  shows "field_ok 0 59 (cron_minutes cf) \<and> field_ok 0 23 (cron_hours cf) \<and> field_ok 1 31 (cron_daysOfMonth cf) \<and>
     field_ok 1 12 (cron_months cf) \<and> field_ok 0 6 (cron_daysOfWeek cf)"
  using assms by (rule parseCron_ok)

lemma sample_cron:
  "parseCron ''30 9 29 Feb *'' = Inr leap_day_schedule"
  by code_simp

lemma cron_fields_bounded_example:
  "field_ok 0 6 (cron_daysOfWeek leap_day_schedule)"
  using cron_fields_bounded [OF sample_cron] by simp

text \<open>C28: The slot found is right and is the first. Whatever the zone's clock does, as long as it reads a calendar
  minute at \<open>after\<close>: the instant returned is strictly later, the zone reads it as a minute that matches the
  expression, and no matching minute in between has an instant after \<open>after\<close>, so no slot is skipped.\<close>

theorem cron_slot_first:
  assumes "valid_wall (fst (partsOf after))" "nextCronSlot cf after partsOf = Some t"
  shows "after < t \<and> cron_matches cf (fst (partsOf t)) \<and> minute_no (fst (partsOf after)) < minute_no (fst (partsOf t)) \<and>
    (\<forall>u. valid_wall u \<and> cron_matches cf u \<and> minute_no (fst (partsOf after)) < minute_no u \<and>
       minute_no u < minute_no (fst (partsOf t)) \<longrightarrow>
       (case instantOf partsOf u of None \<Rightarrow> True | Some s \<Rightarrow> s \<le> after))"
proof -
  note x = nextCronSlot_exact(1) [OF assms]
  then have s: "slot_at cf after partsOf (fst (partsOf t)) = Some t" by blast
  have "case instantOf partsOf u of None \<Rightarrow> True | Some s \<Rightarrow> s \<le> after"
    if "valid_wall u" "cron_matches cf u" "minute_no (fst (partsOf after)) < minute_no u"
      "minute_no u < minute_no (fst (partsOf t))" for u
  proof -
    have "slot_at cf after partsOf u = None" using x that by blast
    then show ?thesis using that(2) by (auto simp: slot_at_def split: option.splits if_splits)
  qed
  then show ?thesis using x slot_at_reads [OF s] by blast
qed

definition sample_after :: int where
  "sample_after = 1835422200000"

lemma sample_slot:
  "valid_wall (fst (utc_zone sample_after)) \<and>
   nextCronSlot leap_day_schedule sample_after utc_zone = Some 1835429400000"
  by code_simp

theorem cron_slot_first_witness:
  "cron_matches leap_day_schedule (fst (utc_zone 1835429400000))"
  using cron_slot_first [of utc_zone sample_after leap_day_schedule 1835429400000] sample_slot by blast

text \<open>C29: The search finds what lies within its horizon. If some later minute matches, names an instant after
  \<open>after\<close>, and its day is at most 1500 days after the day of \<open>after\<close>, the search returns a slot whose minute is no
  later. A slot further away may be missed, although the source takes none within 1500 days for none at all: a leap
  day that must be a Saturday or Sunday (lemma \<open>weekend_leap_day_missed\<close>), or the one after February 2096, which is in
  2104.\<close>

theorem cron_slot_found:
  assumes "valid_wall (fst (partsOf after))" "valid_wall u" "cron_matches cf u"
    and "instantOf partsOf u = Some s" "after < s"
    and "minute_no (fst (partsOf after)) < minute_no u" "day_no u \<le> day_no (fst (partsOf after)) + MAX_SEARCH_DAYS"
  shows "\<exists>t. nextCronSlot cf after partsOf = Some t \<and> minute_no (fst (partsOf t)) \<le> minute_no u"
proof -
  have s: "slot_at cf after partsOf u = Some s" using assms(3,4,5) by (simp add: slot_at_def)
  then obtain t where t: "nextCronSlot cf after partsOf = Some t"
    using nextCronSlot_exact(2) [of partsOf after cf u] assms by (cases "nextCronSlot cf after partsOf") auto
  have "\<not> minute_no u < minute_no (fst (partsOf t))"
    using nextCronSlot_exact(1) [of partsOf after cf t] t assms(1,2,6) s by fastforce
  with t show ?thesis by auto
qed

text \<open>The leap day of 2028, asked for on the first of March 2024.\<close>

lemma sample_leap_day:
  "valid_wall (fst (utc_zone 1709280000000)) \<and>
   valid_wall \<lparr>wall_year = 2028, wall_month = 2, wall_day = 29, wall_hour = 9, wall_minute = 30\<rparr> \<and>
   cron_matches leap_day_schedule \<lparr>wall_year = 2028, wall_month = 2, wall_day = 29, wall_hour = 9, wall_minute = 30\<rparr> \<and>
   instantOf utc_zone \<lparr>wall_year = 2028, wall_month = 2, wall_day = 29, wall_hour = 9, wall_minute = 30\<rparr> = Some 1835429400000 \<and>
   minute_no (fst (utc_zone 1709280000000)) <
     minute_no \<lparr>wall_year = 2028, wall_month = 2, wall_day = 29, wall_hour = 9, wall_minute = 30\<rparr> \<and>
   day_no \<lparr>wall_year = 2028, wall_month = 2, wall_day = 29, wall_hour = 9, wall_minute = 30\<rparr> \<le>
     day_no (fst (utc_zone 1709280000000)) + MAX_SEARCH_DAYS"
  by code_simp

theorem cron_slot_found_witness:
  "\<exists>t. nextCronSlot leap_day_schedule 1709280000000 utc_zone = Some t \<and>
     minute_no (fst (utc_zone t)) \<le>
       minute_no \<lparr>wall_year = 2028, wall_month = 2, wall_day = 29, wall_hour = 9, wall_minute = 30\<rparr>"
  using cron_slot_found [of utc_zone 1709280000000
      "\<lparr>wall_year = 2028, wall_month = 2, wall_day = 29, wall_hour = 9, wall_minute = 30\<rparr>" leap_day_schedule 1835429400000]
    sample_leap_day by simp

text \<open>C32: The search ends, and within 1501 days of minutes. From any calendar minute the bounded loop with that many
  turns is not cut off, and what it returns is what \<open>nextCronSlot\<close> does.\<close>

theorem cron_search_ends:
  assumes "valid_wall (fst (partsOf after))"
  shows "cron_run (1501 * 1440) cf after partsOf (nextMinute (fst (partsOf after))) 0 =
     Some (nextCronSlot cf after partsOf)"
  unfolding nextCronSlot_def
proof (rule cron_run_enough)
  let ?w = "nextMinute (fst (partsOf after))"
  show v: "valid_wall ?w" by (rule nextMinute_valid(1) [OF assms])
  have "day_no ?w * 1440 \<le> minute_no ?w" using v by (simp add: minute_no_def valid_wall_def)
  then show "(MAX_SEARCH_DAYS + 1 - 0 + day_no ?w) * 1440 - minute_no ?w \<le> int (1501 * 1440)"
    by (simp add: MAX_SEARCH_DAYS_def)
qed

theorem cron_search_ends_witness:
  "cron_run (1501 * 1440) leap_day_schedule sample_after utc_zone (nextMinute (fst (utc_zone sample_after))) 0 \<noteq> None"
  using cron_search_ends [of utc_zone sample_after leap_day_schedule] sample_slot by simp


text \<open>
  The window is not long enough for every expression: a leap day that must also fall on a weekend is a date the
  search does not reach from March 2024, when the next one is Sunday, 29 February 2032.
\<close>

definition weekend_leap_day :: cron_fields where
  "weekend_leap_day = \<lparr>cron_minutes = [0], cron_hours = [0], cron_daysOfMonth = [29], cron_months = [2],
     cron_daysOfWeek = [0, 6], cron_dayUnion = False\<rparr>"

lemma weekend_leap_day_parses: "parseCron ''0 0 29 2 */6'' = Inr weekend_leap_day"
  by code_simp

lemma weekend_leap_day_missed:
  "nextCronSlot weekend_leap_day 1709280000000 utc_zone = None \<and>
   valid_wall \<lparr>wall_year = 2032, wall_month = 2, wall_day = 29, wall_hour = 0, wall_minute = 0\<rparr> \<and>
   cron_matches weekend_leap_day \<lparr>wall_year = 2032, wall_month = 2, wall_day = 29, wall_hour = 0, wall_minute = 0\<rparr> \<and>
   instantOf utc_zone \<lparr>wall_year = 2032, wall_month = 2, wall_day = 29, wall_hour = 0, wall_minute = 0\<rparr> =
     Some 1961625600000"
  by code_simp

end
