(* ===== verification/Cadence.thy ===== *)
theory Cadence
  imports Cron
begin

text \<open>
  Cadences: \<open>modules/automations/src/domain/cadence.ts\<close>, every so many minutes or a cron expression, their
  canonical spelling, and the slot that comes next. Messages are dropped; what was wrong stays.
\<close>

datatype cadence_error = Cadence_unsupported | Cadence_too_long | Cadence_cron cron_error | Cadence_no_date

definition MIN_CADENCE_MINUTES :: nat where "MIN_CADENCE_MINUTES = 1"
definition MAX_CADENCE_MINUTES :: nat where "MAX_CADENCE_MINUTES = 10080"
definition CRON_PREFIX :: string where "CRON_PREFIX = ''cron:''"
definition MAX_CADENCE_LENGTH :: nat where "MAX_CADENCE_LENGTH = length CRON_PREFIX + MAX_CRON_LENGTH"

datatype cadence = Every nat | Cron string cron_fields

definition is_cron_cadence :: "string \<Rightarrow> bool" where
  "is_cron_cadence value = starts_with CRON_PREFIX (lower (trim value))"

text \<open>\<open>/^every:(\d{1,5})$/\<close>.\<close>

definition match_every :: "string \<Rightarrow> nat option" where
  "match_every s =
     (let digits = drop 6 s in
      if starts_with ''every:'' s \<and> 1 \<le> length digits \<and> length digits \<le> 5 \<and> list_all is_digit digits
      then Some (read_nat digits) else None)"

definition cadenceMinutes :: "string \<Rightarrow> cadence_error + nat" where
  "cadenceMinutes value =
     (case match_every (lower (trim value)) of
        None \<Rightarrow> Inl Cadence_unsupported
      | Some minutes \<Rightarrow>
          if minutes < MIN_CADENCE_MINUTES \<or> MAX_CADENCE_MINUTES < minutes then Inl Cadence_unsupported
          else Inr minutes)"

definition cronExpression :: "string \<Rightarrow> string" where
  "cronExpression value =
     (let trimmed = trim value in if is_cron_cadence trimmed then drop (length CRON_PREFIX) trimmed else [])"

definition cron_failure :: "cron_error + 'a \<Rightarrow> cadence_error + 'a" where
  "cron_failure r = (case r of Inl e \<Rightarrow> Inl (Cadence_cron e) | Inr x \<Rightarrow> Inr x)"

definition parseCadence :: "string \<Rightarrow> cadence_error + cadence" where
  "parseCadence value =
     (if MAX_CADENCE_LENGTH < length value then Inl Cadence_too_long
      else if \<not> is_cron_cadence value then and_then (cadenceMinutes value) (\<lambda>minutes. Inr (Every minutes))
      else let raw = cronExpression value in
        and_then (cron_failure (normalizeCron raw)) (\<lambda>expression.
        and_then (cron_failure (parseCron raw)) (\<lambda>cf. Inr (Cron expression cf))))"

definition spell_cadence :: "cadence \<Rightarrow> string" where
  "spell_cadence c = (case c of Every minutes \<Rightarrow> ''every:'' @ show_nat minutes | Cron e _ \<Rightarrow> CRON_PREFIX @ e)"

definition normalizeCadence :: "string \<Rightarrow> cadence_error + string" where
  "normalizeCadence value = and_then (parseCadence value) (\<lambda>c. Inr (spell_cadence c))"

definition nextSlotAfter :: "int \<Rightarrow> nat \<Rightarrow> int \<Rightarrow> int" where
  "nextSlotAfter firedAt minutes now =
     (let interval = int minutes * 60000 in
      if now < firedAt then firedAt
      else firedAt + ((now - firedAt) div interval + 1) * interval)"

definition cronSlotAfter :: "cron_fields \<Rightarrow> int \<Rightarrow> zone \<Rightarrow> cadence_error + int" where
  "cronSlotAfter cf after partsOf =
     (case nextCronSlot cf after partsOf of None \<Rightarrow> Inl Cadence_no_date | Some slot \<Rightarrow> Inr slot)"

definition firstCadenceSlot :: "cadence \<Rightarrow> int \<Rightarrow> zone \<Rightarrow> cadence_error + int" where
  "firstCadenceSlot c now partsOf =
     (case c of Every minutes \<Rightarrow> Inr (now + int minutes * 60000) | Cron _ cf \<Rightarrow> cronSlotAfter cf now partsOf)"

definition nextCadenceSlot :: "cadence \<Rightarrow> int \<Rightarrow> int \<Rightarrow> zone \<Rightarrow> cadence_error + int" where
  "nextCadenceSlot c firedSlot now partsOf =
     (case c of
        Every minutes \<Rightarrow> Inr (nextSlotAfter firedSlot minutes now)
      | Cron _ cf \<Rightarrow> cronSlotAfter cf (max firedSlot now) partsOf)"

section \<open>One canonical spelling\<close>

lemma code_bound: "code c < 256"
  by (simp add: code_def)

lemma char_code: "char_of (code c) = c"
  by (simp add: code_def)

lemma lower_char_code: "code (lower_char c) = (if is_upper c \<or> (192 \<le> code c \<and> code c \<le> 222 \<and> code c \<noteq> 215) then code c + 32 else code c)"
  by (auto simp: lower_char_def code_char_of is_upper_def)

lemma lower_char_space [simp]: "is_space (lower_char c) = is_space c"
  by (auto simp: is_space_def lower_char_code is_upper_def)

lemma lower_char_idem [simp]: "lower_char (lower_char c) = lower_char c"
proof -
  have "\<not> is_upper (lower_char c)" "\<not> (192 \<le> code (lower_char c) \<and> code (lower_char c) \<le> 222 \<and> code (lower_char c) \<noteq> 215)"
    by (auto simp: is_upper_def lower_char_code)
  then show ?thesis by (subst lower_char_def) (simp only: if_False simp_thms)
qed

lemma lower_lower [simp]: "lower (lower s) = lower s"
  by (simp add: lower_def)

lemma lower_append [simp]: "lower (s @ t) = lower s @ lower t"
  by (simp add: lower_def)

lemma length_lower [simp]: "length (lower s) = length s"
  by (simp add: lower_def)

lemma trim_lower: "trim (lower s) = lower (trim s)"
  by (simp add: trim_def lower_def dropWhile_map rev_map o_def)

lemma length_trim: "length (trim s) \<le> length s"
  unfolding trim_def using length_dropWhile_le [of is_space "rev (dropWhile is_space s)"] length_dropWhile_le [of is_space s]
  by simp

definition word_ok :: "string \<Rightarrow> bool" where
  "word_ok p = (p \<noteq> [] \<and> list_all (\<lambda>c. \<not> is_space c) p)"

lemma split_spaces_nonempty: "split_spaces s \<noteq> []"
  using split_spaces_unfold [of s] by fastforce

lemma split_spaces_words:
  assumes "s = [] \<or> \<not> is_space (last s)"
  shows "list_all word_ok (tl (split_spaces s)) \<and> list_all (\<lambda>c. \<not> is_space c) (hd (split_spaces s))"
  using assms
proof (induction s rule: split_spaces.induct)
  case (1 s)
  let ?w = "takeWhile (\<lambda>c. \<not> is_space c) s" and ?r = "dropWhile (\<lambda>c. \<not> is_space c) s"
  have w: "list_all (\<lambda>c. \<not> is_space c) ?w" by (auto simp: list_all_iff dest: set_takeWhileD)
  show ?case
  proof (cases "?r = []")
    case True
    then have "?w = s" by (metis append_Nil2 takeWhile_dropWhile_id)
    with w have "list_all (\<lambda>c. \<not> is_space c) s" by simp
    then show ?thesis using split_spaces_unfold(1) [OF True] by simp
  next
    case False
    let ?t = "dropWhile is_space ?r"
    have l: "last ?r = last s" using dropWhile_last [OF False] .
    have ns: "\<not> is_space (last s)" using 1(2) False by (cases s) auto
    have t: "?t \<noteq> []"
      using l ns False by (metis dropWhile_eq_Nil_conv last_in_set)
    then have lt: "last ?t = last s" using dropWhile_last [OF t] l by simp
    have IH: "list_all word_ok (tl (split_spaces ?t)) \<and> list_all (\<lambda>c. \<not> is_space c) (hd (split_spaces ?t))"
      using 1(1) [OF refl refl False] lt ns by simp
    have "split_spaces ?t \<noteq> []" by (rule split_spaces_nonempty)
    moreover have "hd (split_spaces ?t) \<noteq> []"
    proof -
      have "u \<noteq> [] \<Longrightarrow> \<not> is_space (hd u) \<Longrightarrow> takeWhile (\<lambda>c. \<not> is_space c) u \<noteq> []" for u
        by (cases u) auto
      from this [OF t hd_dropWhile [OF t]] have tw: "takeWhile (\<lambda>c. \<not> is_space c) ?t \<noteq> []" .
      show ?thesis
      proof (cases "dropWhile (\<lambda>c. \<not> is_space c) ?t = []")
        case True
        then show ?thesis unfolding split_spaces_unfold(1) [OF True] list.sel by (simp only: t not_False_eq_True)
      next
        case False
        then show ?thesis using tw unfolding split_spaces_unfold(2) [OF False] list.sel by blast
      qed
    qed
    ultimately show ?thesis
      using IH w split_spaces_unfold(2) [OF False] by (cases "split_spaces ?t") (auto simp: word_ok_def list_all_iff)
  qed
qed

lemma split_spaces_join: "ps \<noteq> [] \<Longrightarrow> list_all word_ok ps \<Longrightarrow> split_spaces (join '' '' ps) = ps"
proof (induction "'' ''" ps rule: join.induct)
  case (2 p)
  then show ?case by (simp add: word_ok_def split_spaces_no_space)
next
  case (3 p q qs)
  let ?rest = "join '' '' (q # qs)"
  have sp: "is_space CHR '' ''" by (simp add: is_space_def code_def)
  have p: "\<forall>c \<in> set p. \<not> is_space c" using 3 by (simp add: word_ok_def list_all_iff)
  have "q \<noteq> []" "\<not> is_space (hd q)" using 3 by (cases q; simp add: word_ok_def)+
  then have r: "dropWhile is_space ?rest = ?rest" by (cases q; cases qs) auto
  have d: "dropWhile (\<lambda>c. \<not> is_space c) (p @ CHR '' '' # ?rest) = CHR '' '' # ?rest"
    using p sp by (simp add: dropWhile_append)
  have t: "takeWhile (\<lambda>c. \<not> is_space c) (p @ CHR '' '' # ?rest) = p"
    using p sp by (simp add: takeWhile_append)
  have "split_spaces (p @ CHR '' '' # ?rest) = p # split_spaces ?rest"
    using split_spaces_unfold(2) [of "p @ CHR '' '' # ?rest"] sp unfolding d t by (simp only: dropWhile.simps r) simp
  then show ?case using 3 by simp
qed simp

lemma join_split_length: "length (join '' '' (split_spaces s)) \<le> length s"
proof (induction s rule: split_spaces.induct)
  case (1 s)
  let ?w = "takeWhile (\<lambda>c. \<not> is_space c) s" and ?r = "dropWhile (\<lambda>c. \<not> is_space c) s"
  show ?case
  proof (cases "?r = []")
    case True
    then show ?thesis by (simp add: split_spaces_unfold(1))
  next
    case False
    let ?t = "dropWhile is_space ?r"
    have "is_space (hd ?r)" using hd_dropWhile [OF False] by simp
    then have "length ?t < length ?r"
      using False by (cases ?r) (auto simp: less_Suc_eq_le length_dropWhile_le)
    moreover have "split_spaces ?t \<noteq> []" by (rule split_spaces_nonempty)
    moreover have "length ?w + length ?r = length s" by (metis length_append takeWhile_dropWhile_id)
    ultimately show ?thesis
      using 1 [OF refl refl False] unfolding split_spaces_unfold(2) [OF False]
      by (subst join_Cons) simp_all
  qed
qed


lemma lower_spaces: "list_all (\<lambda>c. \<not> is_space c) (lower p) = list_all (\<lambda>c. \<not> is_space c) p"
  by (simp add: lower_def list_all_iff)

lemma last_lower: "s \<noteq> [] \<Longrightarrow> is_space (last (lower s)) = is_space (last s)"
  by (simp add: lower_def last_map)

lemma cron_words_ok:
  assumes "cron_words e ! 0 \<noteq> []"
  shows "list_all word_ok (cron_words e)"
proof -
  have "lower (trim e) = [] \<or> \<not> is_space (last (lower (trim e)))"
    using trim_ends [of e] by (cases "trim e = []") (simp_all add: lower_def last_map)
  from split_spaces_words [OF this] split_spaces_nonempty [of "lower (trim e)"] assms
  show ?thesis unfolding cron_words_def
    by (cases "split_spaces (lower (trim e))") (simp_all add: word_ok_def)
qed

lemma lower_id: "list_all (\<lambda>p. lower p = p) ps \<Longrightarrow> lower (join '' '' ps) = join '' '' ps"
proof (induction "'' ''" ps rule: join.induct)
  case (3 p q qs)
  have "lower '' '' = '' ''" by code_simp
  with 3 show ?case by (simp add: lower_def)
qed (simp_all add: lower_def)

lemma split_spaces_chars: "p \<in> set (split_spaces s) \<Longrightarrow> set p \<subseteq> set s"
proof (induction s rule: split_spaces.induct)
  case (1 s)
  let ?r = "dropWhile (\<lambda>c. \<not> is_space c) s"
  show ?case
  proof (cases "?r = []")
    case True
    then show ?thesis using 1(2) by (simp add: split_spaces_unfold(1))
  next
    case False
    then have "p = takeWhile (\<lambda>c. \<not> is_space c) s \<or> p \<in> set (split_spaces (dropWhile is_space ?r))"
      using 1(2) by (simp add: split_spaces_unfold(2) [OF False])
    then show ?thesis
    proof
      assume "p = takeWhile (\<lambda>c. \<not> is_space c) s"
      then show ?thesis by (auto dest: set_takeWhileD)
    next
      assume "p \<in> set (split_spaces (dropWhile is_space ?r))"
      then have "set p \<subseteq> set (dropWhile is_space ?r)" using 1(1) [OF refl refl False] by blast
      then show ?thesis by (auto dest: set_dropWhileD)
    qed
  qed
qed

lemma cron_words_lower: "list_all (\<lambda>p. lower p = p) (cron_words e)"
proof -
  have "lower p = p" if "p \<in> set (cron_words e)" for p
  proof -
    have "set p \<subseteq> set (lower (trim e))" using that split_spaces_chars unfolding cron_words_def by blast
    then have "\<forall>c \<in> set p. lower_char c = c" by (auto simp: lower_def)
    then show ?thesis by (simp add: lower_def map_idI)
  qed
  then show ?thesis by (simp add: list_all_iff)
qed

lemma join_last: "ps \<noteq> [] \<Longrightarrow> last ps \<noteq> [] \<Longrightarrow> join '' '' ps \<noteq> [] \<and> last (join '' '' ps) = last (last ps)"
  by (induction "'' ''" ps rule: join.induct) auto

lemma join_hd: "ps \<noteq> [] \<Longrightarrow> hd ps \<noteq> [] \<Longrightarrow> hd (join '' '' ps) = hd (hd ps)"
  by (cases ps; cases "tl ps") auto

lemma word_ok_ends: "word_ok p \<Longrightarrow> p \<noteq> [] \<and> \<not> is_space (hd p) \<and> \<not> is_space (last p)"
  by (auto simp: word_ok_def list_all_iff)

lemma trim_words:
  assumes "ps \<noteq> []" "list_all word_ok ps"
  shows "trim (join '' '' ps) = join '' '' ps" "trim (CRON_PREFIX @ join '' '' ps) = CRON_PREFIX @ join '' '' ps"
proof -
  have "word_ok (hd ps)" "word_ok (last ps)" using assms by (auto simp: list_all_iff)
  note e = this [THEN word_ok_ends]
  have l: "join '' '' ps \<noteq> []" "\<not> is_space (last (join '' '' ps))" using join_last [of ps] assms(1) e by auto
  moreover have "\<not> is_space (hd (join '' '' ps))" using join_hd [of ps] assms(1) e by auto
  ultimately show "trim (join '' '' ps) = join '' '' ps" by (intro trim_id) simp
  have "\<not> is_space CHR ''c''" by (simp add: is_space_def code_def)
  then show "trim (CRON_PREFIX @ join '' '' ps) = CRON_PREFIX @ join '' '' ps"
    using l by (intro trim_id) (simp add: CRON_PREFIX_def)
qed

lemma cron_words_join:
  assumes "cron_words e ! 0 \<noteq> []"
  shows "cron_words (join '' '' (cron_words e)) = cron_words e"
proof -
  note ok = cron_words_ok [OF assms]
  have ne: "cron_words e \<noteq> []" unfolding cron_words_def by (rule split_spaces_nonempty)
  show ?thesis
    unfolding cron_words_def [of "join '' '' (cron_words e)"] trim_words(1) [OF ne ok] lower_id [OF cron_words_lower]
    by (rule split_spaces_join [OF ne ok])
qed

text \<open>The canonical spelling of a cron expression parses to the same fields.\<close>

lemma parseCron_words:
  "parseCron e = Inr cf \<Longrightarrow> length (cron_words e) = 5 \<and> cron_words e ! 0 \<noteq> [] \<and> length e \<le> MAX_CRON_LENGTH"
  by (auto simp: parseCron_def Let_def result_simps split: if_splits)

lemma normalizeCron_stable:
  assumes "parseCron e = Inr cf"
  shows "normalizeCron e = Inr (join '' '' (cron_words e))" "parseCron (join '' '' (cron_words e)) = Inr cf"
    "normalizeCron (join '' '' (cron_words e)) = Inr (join '' '' (cron_words e))"
    "length (join '' '' (cron_words e)) \<le> MAX_CRON_LENGTH"
proof -
  note w = parseCron_words [OF assms]
  have j: "cron_words (join '' '' (cron_words e)) = cron_words e" using w by (intro cron_words_join) simp
  have "length (join '' '' (cron_words e)) \<le> length e"
    using join_split_length [of "lower (trim e)"] length_trim [of e] by (simp add: cron_words_def)
  then show l: "length (join '' '' (cron_words e)) \<le> MAX_CRON_LENGTH" using w by simp
  show p: "parseCron (join '' '' (cron_words e)) = Inr cf"
    using assms l w unfolding parseCron_def j by (simp add: Let_def)
  show "normalizeCron e = Inr (join '' '' (cron_words e))" using assms by (simp add: normalizeCron_def)
  show "normalizeCron (join '' '' (cron_words e)) = Inr (join '' '' (cron_words e))"
    using p by (simp add: normalizeCron_def j)
qed

lemma show_nat_length: "n < 10 ^ k \<Longrightarrow> 0 < k \<Longrightarrow> length (show_nat n) \<le> k"
proof (induction k arbitrary: n)
  case (Suc k)
  show ?case
  proof (cases "n < 10")
    case False
    then have "0 < k" using Suc.prems by (cases k) auto
    moreover have "n div 10 < 10 ^ k" using Suc.prems by (simp add: less_mult_imp_div_less mult.commute)
    ultimately show ?thesis using Suc.IH False by (simp add: show_nat_big)
  qed (simp add: show_nat_small)
qed simp

lemma digits_plain: "list_all is_digit s \<Longrightarrow> lower s = s \<and> list_all (\<lambda>c. \<not> is_space c) s"
  by (induction s) (auto simp: lower_def lower_char_def is_digit_def is_upper_def is_space_def)

lemma spell_every:
  assumes "MIN_CADENCE_MINUTES \<le> m" "m \<le> MAX_CADENCE_MINUTES"
  shows "parseCadence (spell_cadence (Every m)) = Inr (Every m)"
proof -
  let ?d = "show_nat m"
  note d = digits_plain [OF show_nat_digits [of m]]
  have len: "length ?d \<le> 5" using assms by (intro show_nat_length) (simp_all add: MAX_CADENCE_MINUTES_def)
  have p: "list_all (\<lambda>c. \<not> is_space c) ''every:''" "lower ''every:'' = ''every:''" by code_simp+
  have t: "trim (''every:'' @ ?d) = ''every:'' @ ?d" using d p(1) by (intro trim_no_space) simp
  have l: "lower (''every:'' @ ?d) = ''every:'' @ ?d" using d p(2) by (simp only: lower_append)
  have k: "\<not> is_cron_cadence (''every:'' @ ?d)"
    unfolding is_cron_cadence_def t l by (simp add: starts_with_def CRON_PREFIX_def)
  have "1 \<le> length ?d" by (simp add: Suc_le_eq)
  then have "match_every (''every:'' @ ?d) = Some m"
    using len show_nat_digits [of m] by (simp add: match_every_def starts_with_def)
  then have "cadenceMinutes (''every:'' @ ?d) = Inr m"
    using assms unfolding cadenceMinutes_def t l by simp
  then show ?thesis
    using k len by (simp add: parseCadence_def spell_cadence_def MAX_CADENCE_LENGTH_def MAX_CRON_LENGTH_def CRON_PREFIX_def)
qed

lemma spell_cron:
  assumes "parseCron e = Inr cf"
  shows "parseCadence (CRON_PREFIX @ join '' '' (cron_words e)) = Inr (Cron (join '' '' (cron_words e)) cf)"
proof -
  let ?j = "join '' '' (cron_words e)"
  note s = normalizeCron_stable [OF assms]
  have ne: "cron_words e \<noteq> []" unfolding cron_words_def by (rule split_spaces_nonempty)
  have ok: "list_all word_ok (cron_words e)" using parseCron_words [OF assms] by (intro cron_words_ok) simp
  note t = trim_words(2) [OF ne ok]
  have "lower CRON_PREFIX = CRON_PREFIX" by code_simp
  then have l: "lower (CRON_PREFIX @ ?j) = CRON_PREFIX @ ?j"
    unfolding lower_append lower_id [OF cron_words_lower] by simp
  have k: "is_cron_cadence (CRON_PREFIX @ ?j)" unfolding is_cron_cadence_def t l by (simp add: starts_with_def)
  then have "cronExpression (CRON_PREFIX @ ?j) = ?j" unfolding cronExpression_def t by simp
  with k s show ?thesis
    by (simp add: parseCadence_def cron_failure_def MAX_CADENCE_LENGTH_def)
qed

lemma parseCadence_cases:
  assumes "parseCadence v = Inr c"
  shows "(\<exists>m. c = Every m \<and> MIN_CADENCE_MINUTES \<le> m \<and> m \<le> MAX_CADENCE_MINUTES) \<or>
    (\<exists>e cf. parseCron e = Inr cf \<and> c = Cron (join '' '' (cron_words e)) cf)"
  using assms
  by (auto simp: parseCadence_def cadenceMinutes_def cron_failure_def Let_def result_simps normalizeCron_def
      split: if_splits option.splits sum.splits)

lemma normalized_parses:
  assumes "parseCadence v = Inr c"
  shows "parseCadence (spell_cadence c) = Inr c"
  using parseCadence_cases [OF assms] by (auto simp: spell_every) (simp add: spell_cadence_def spell_cron)

section \<open>The slot that comes next\<close>

lemma nextSlotAfter_ahead: "now < fired \<Longrightarrow> nextSlotAfter fired minutes now = fired"
  by (simp add: nextSlotAfter_def)

lemma nextSlotAfter_grid:
  assumes "0 < minutes"
  shows "now < nextSlotAfter fired minutes now" "fired \<le> nextSlotAfter fired minutes now"
    "(nextSlotAfter fired minutes now - fired) mod (int minutes * 60000) = 0"
    "fired \<le> now \<Longrightarrow> nextSlotAfter fired minutes now \<le> now + int minutes * 60000"
proof -
  let ?i = "int minutes * 60000"
  have i: "0 < ?i" using assms by simp
  have e: "now - fired = (now - fired) div ?i * ?i + (now - fired) mod ?i" by (simp only: div_mult_mod_eq)
  have m: "0 \<le> (now - fired) mod ?i" "(now - fired) mod ?i < ?i" using i by simp_all
  have s: "nextSlotAfter fired minutes now = fired + (now - fired) div ?i * ?i + ?i" if "fired \<le> now"
    using that by (simp add: nextSlotAfter_def Let_def algebra_simps)
  have d: "0 \<le> (now - fired) div ?i * ?i" if "fired \<le> now"
    using that i by (simp add: pos_imp_zdiv_nonneg_iff)
  show "now < nextSlotAfter fired minutes now"
    using s e m by (cases "fired \<le> now") (linarith, simp add: nextSlotAfter_def)
  show "fired \<le> nextSlotAfter fired minutes now"
    using s d i by (cases "fired \<le> now") (linarith, simp add: nextSlotAfter_def)
  show "(nextSlotAfter fired minutes now - fired) mod ?i = 0"
    by (simp add: nextSlotAfter_def Let_def)
  show "nextSlotAfter fired minutes now \<le> now + ?i" if "fired \<le> now" using s [OF that] e m by linarith
qed

text \<open>C34: A stored cadence is one spelling. Whatever cadence is accepted, its normal form is accepted too, parses to
  the same cadence (the same minutes, or the same cron fields) and is its own normal form.\<close>

theorem cadence_normal_form:
  assumes "normalizeCadence v = Inr n"
  shows "parseCadence n = parseCadence v \<and> normalizeCadence n = Inr n"
proof -
  from assms obtain c where c: "parseCadence v = Inr c" "n = spell_cadence c"
    by (auto simp: normalizeCadence_def result_simps)
  then show ?thesis using normalized_parses [OF c(1)] by (simp add: normalizeCadence_def)
qed

lemma sample_cadence: "normalizeCadence '' CRON: 30 9 29  Feb * '' = Inr ''cron:30 9 29 feb *''"
  by code_simp

theorem cadence_normal_form_witness:
  "normalizeCadence ''cron:30 9 29 feb *'' = Inr ''cron:30 9 29 feb *''"
  using cadence_normal_form [OF sample_cadence] by simp

text \<open>C33: The slot that follows a firing is in the future, so missed slots are skipped and never replayed. Every so
  many minutes it is exactly determined: the slot fired itself when that still lies ahead of now (where the comment
  of \<open>nextSlotAfter\<close> promises a slot after it), and otherwise the one slot of the grid of the slot fired that is later
  than now and no more than one interval later. A cron slot is later than both the slot fired and now, and is one
  the schedule matches.\<close>

theorem cadence_next_slot:
  assumes "parseCadence v = Inr c" "nextCadenceSlot c fired now partsOf = Inr t" "valid_wall (fst (partsOf (max fired now)))"
  shows "now < t \<and>
    (case c of
       Every minutes \<Rightarrow>
         (if now < fired then t = fired
          else (t - fired) mod (int minutes * 60000) = 0 \<and> t \<le> now + int minutes * 60000)
     | Cron _ cf \<Rightarrow> fired < t \<and> cron_matches cf (fst (partsOf t)))"
proof (cases c)
  case (Every minutes)
  then have "0 < minutes" using parseCadence_cases [OF assms(1)] by (auto simp: MIN_CADENCE_MINUTES_def)
  from nextSlotAfter_grid [where now = now and fired = fired, OF this] show ?thesis
    using assms(2) Every nextSlotAfter_ahead [of now fired minutes] by (auto simp: nextCadenceSlot_def)
next
  case (Cron e cf)
  then have "nextCronSlot cf (max fired now) partsOf = Some t"
    using assms(2) by (auto simp: nextCadenceSlot_def cronSlotAfter_def split: option.splits)
  from nextCronSlot_exact(1) [OF assms(3) this] show ?thesis
    using slot_at_reads [of cf "max fired now" partsOf "fst (partsOf t)" t] Cron by auto
qed

lemma sample_next_slot:
  "parseCadence ''every:15'' = Inr (Every 15) \<and>
   nextCadenceSlot (Every 15) 0 2000000 utc_zone = Inr 2700000 \<and> valid_wall (fst (utc_zone (max 0 2000000)))"
  by code_simp

theorem cadence_next_slot_witness:
  "(2000000 :: int) < 2700000 \<and> parseCadence ''every:15'' = Inr (Every 15)"
  using cadence_next_slot [of "''every:15''" "Every 15" 0 2000000 utc_zone 2700000] sample_next_slot by simp

end
