(* ===== verification/Json_Canonical.thy ===== *)
theory Json_Canonical
  imports Json
begin

text \<open>
  What the canonical text identifies. Values with the same text agree up to the order in which the entries of
  their objects were written, so a hash of the text, an equality gate and the digest an approval grant binds
  to all speak of the value itself; the converse needs a comparison that tells the keys apart. The proof reads the text back: every piece
  printed is recognised by its first character and ends where it must.
\<close>

text \<open>The entries of every object, at every depth, in the order of the comparison.\<close>

function arrange :: "(string \<Rightarrow> string \<Rightarrow> int) \<Rightarrow> json \<Rightarrow> json" where
  "arrange cmp JNull = JNull"
| "arrange cmp (JBool b) = JBool b"
| "arrange cmp (JNum n) = JNum n"
| "arrange cmp (JStr s) = JStr s"
| "arrange cmp (JArr vs) = JArr (map (arrange cmp) vs)"
| "arrange cmp (JObj kvs) = JObj (sort_entries cmp (map (\<lambda>(k, v). (k, arrange cmp v)) kvs))"
  by pat_completeness auto
termination
  by (relation "measure (\<lambda>(cmp, v). size v)") (auto dest: json_size_entry json_size_element)

function stringify :: "json \<Rightarrow> string" where
  "stringify JNull = ''null''"
| "stringify (JBool b) = (if b then ''true'' else ''false'')"
| "stringify (JNum n) = show_int n"
| "stringify (JStr s) = json_string s"
| "stringify (JArr vs) = ''['' @ join '','' (map stringify vs) @ '']''"
| "stringify (JObj kvs) = ''{'' @ join '','' (map (\<lambda>(k, v). json_string k @ '':'' @ stringify v) kvs) @ ''}''"
  by pat_completeness auto
termination
  by (relation "measure size") (auto dest: json_size_entry json_size_element)

lemma insert_by_map:
  "(\<And>x y. cmp' (f x) (f y) = cmp x y) \<Longrightarrow> insert_by cmp' (f x) (map f ys) = map f (insert_by cmp x ys)"
  by (induction ys) auto

lemma sort_by_map:
  assumes "\<And>x y. cmp' (f x) (f y) = cmp x y"
  shows "sort_by cmp' (map f xs) = map f (sort_by cmp xs)"
  using assms by (induction xs) (simp_all add: insert_by_map)

lemma sort_entries_map: "sort_entries cmp (map (\<lambda>(k, v). (k, g v)) kvs) = map (\<lambda>(k, v). (k, g v)) (sort_entries cmp kvs)"
  unfolding sort_entries_def by (rule sort_by_map) auto

lemma canonical_arrange: "canonical cmp v = stringify (arrange cmp v)"
proof (induction cmp v rule: canonical.induct)
  case (6 cmp kvs)
  have "arrange cmp (JObj kvs) = JObj (map (\<lambda>(k, v). (k, arrange cmp v)) (sort_entries cmp kvs))"
    by (simp only: arrange.simps sort_entries_map)
  moreover have "map (\<lambda>(k, v). json_string k @ '':'' @ canonical cmp v) (sort_entries cmp kvs) =
      map (\<lambda>(k, v). json_string k @ '':'' @ stringify (arrange cmp v)) (sort_entries cmp kvs)"
    using 6 by auto
  ultimately show ?case by (simp only: canonical.simps stringify.simps map_map) (simp add: o_def case_prod_unfold)
next
  case (5 cmp vs)
  then have "map (canonical cmp) vs = map (stringify \<circ> arrange cmp) vs" by simp
  then show ?case by (simp only: canonical.simps arrange.simps stringify.simps map_map)
qed simp_all

section \<open>Reading a string back\<close>

definition hex_value :: "char \<Rightarrow> nat" where
  "hex_value c = (if code c < 58 then code c - 48 else code c - 87)"

fun unescape :: "string \<Rightarrow> (char \<times> string) option" where
  "unescape [] = None"
| "unescape (x # xs) =
     (if x \<noteq> CHR 0x5C then Some (x, xs)
      else case xs of
        [] \<Rightarrow> None
      | y # ys \<Rightarrow>
          if y = CHR ''u'' then Some (char_of (16 * hex_value (ys ! 2) + hex_value (ys ! 3)), drop 4 ys)
          else if y = CHR ''b'' then Some (CHR 8, ys) else if y = CHR ''f'' then Some (CHR 12, ys)
          else if y = CHR ''n'' then Some (CHR 10, ys) else if y = CHR ''r'' then Some (CHR 13, ys)
          else if y = CHR ''t'' then Some (CHR 9, ys) else Some (y, ys))"

lemma hex_value_hex_digit: "d < 16 \<Longrightarrow> hex_value (hex_digit d) = d"
  by (auto simp: hex_value_def hex_digit_def code_def)

lemma code_inj: "code c = code d \<Longrightarrow> c = d"
  by (simp add: code_def)

lemma escaped_chars:
  "code c = 34 \<Longrightarrow> c = CHR 0x22" "code c = 92 \<Longrightarrow> c = CHR 0x5C" "code c = 8 \<Longrightarrow> c = CHR 8" "code c = 12 \<Longrightarrow> c = CHR 12"
  "code c = 10 \<Longrightarrow> c = CHR 10" "code c = 13 \<Longrightarrow> c = CHR 13" "code c = 9 \<Longrightarrow> c = CHR 9"
  by (rule code_inj, simp add: code_def)+

lemma unescape_escape: "unescape (escape c @ s) = Some (c, s)"
proof -
  consider "code c = 34" | "code c = 92" | "code c = 8" | "code c = 12" | "code c = 10" | "code c = 13" | "code c = 9"
    | "code c < 32" "code c \<notin> {8, 9, 10, 12, 13}" | "32 \<le> code c" "code c \<notin> {34, 92}" by force
  then show ?thesis
  proof cases
    case 8
    have "16 * hex_value (hex_digit (code c div 16)) + hex_value (hex_digit (code c mod 16)) = code c"
      using 8(1) by (simp add: hex_value_hex_digit)
    moreover have "char_of (code c) = c" by (simp add: code_def)
    ultimately show ?thesis using 8 by (auto simp: escape_def Let_def)
  next
    case 9
    then have "c \<noteq> CHR 0x5C" by (auto simp: code_def)
    with 9 show ?thesis by (auto simp: escape_def Let_def)
  qed (drule escaped_chars, simp add: escape_def Let_def code_def)+
qed

lemma escape_hd: "escape c \<noteq> []" "hd (escape c @ s) \<noteq> CHR 0x22"
  by (auto simp: escape_def Let_def code_def)

lemma string_body_goes_on: "concat (map escape (c # s)) @ x \<noteq> CHR 0x22 # y"
  using escape_hd(2) [of c "concat (map escape s) @ x"] by (metis append.assoc concat.simps(2) list.sel(1) list.simps(9))

lemma string_body_unique:
  "concat (map escape s) @ CHR 0x22 # x = concat (map escape t) @ CHR 0x22 # y \<Longrightarrow> s = t \<and> x = y"
proof (induction s arbitrary: t)
  case Nil
  then show ?case using string_body_goes_on by (cases t) (simp, metis append_Nil concat.simps(1) list.simps(8))
next
  case (Cons c s)
  then obtain d t' where t: "t = d # t'"
    using string_body_goes_on by (cases t) (metis append_Nil concat.simps(1) list.simps(8), simp)
  have "unescape (escape c @ concat (map escape s) @ CHR 0x22 # x) =
      unescape (escape d @ concat (map escape t') @ CHR 0x22 # y)"
    using Cons.prems by (simp add: t)
  then have "c = d" "concat (map escape s) @ CHR 0x22 # x = concat (map escape t') @ CHR 0x22 # y"
    unfolding unescape_escape by simp_all
  then show ?case using Cons.IH t by blast
qed

lemma json_string_unique: "json_string s @ x = json_string t @ y \<Longrightarrow> s = t \<and> x = y"
  using string_body_unique [of s x t y] by (simp add: json_string_def)

section \<open>Reading a value back\<close>

text \<open>What may follow a number.\<close>

definition ended :: "string \<Rightarrow> bool" where
  "ended x = (x = [] \<or> \<not> is_digit (hd x))"

lemma ended_simps [simp]: "ended []" "ended (CHR '','' # s)" "ended (CHR '']'' # s)" "ended (CHR ''}'' # s)"
  by (auto simp: ended_def is_digit_def code_def)

lemma digits_unique:
  assumes "show_nat n @ x = show_nat m @ y" "ended x" "ended y"
  shows "n = m \<and> x = y"
proof -
  have "takeWhile is_digit (show_nat k @ z) = show_nat k" if "ended z" for k z
    using that show_nat_digits [of k] by (cases z) (auto simp: takeWhile_append ended_def list_all_iff)
  from this [OF assms(2)] this [OF assms(3)] have "show_nat n = show_nat m" using assms(1) by metis
  then show ?thesis using assms(1) read_nat_show_nat by (metis same_append_eq)
qed

lemma hd_digits: "is_digit (hd (show_nat n @ x))"
  using show_nat_digits [of n] by (cases "show_nat n") (auto simp: list_all_iff)

lemma show_int_sign: "hd (show_int n @ x) = CHR ''-'' \<longleftrightarrow> n < 0"
proof (cases "n < 0")
  case False
  then have "is_digit (hd (show_int n @ x))" using hd_digits [of "nat n" x] by (simp add: show_int_def)
  then show ?thesis using False by (auto simp: is_digit_def code_def)
qed (simp add: show_int_def)

lemma show_int_unique:
  assumes "show_int n @ x = show_int m @ y" "ended x" "ended y"
  shows "n = m \<and> x = y"
proof (cases "n < 0")
  case True
  then have "m < 0" using show_int_sign [of n x] show_int_sign [of m y] assms(1) by simp
  then show ?thesis using True digits_unique [of "nat (- n)" x "nat (- m)" y] assms
    by (simp add: show_int_def eq_nat_nat_iff)
next
  case False
  then have "\<not> m < 0" using show_int_sign [of n x] show_int_sign [of m y] assms(1) by simp
  then show ?thesis using False digits_unique [of "nat n" x "nat m" y] assms
    by (simp add: show_int_def eq_nat_nat_iff)
qed

text \<open>The kind of a value shows in its first character.\<close>

datatype kind = Nothing | Truth bool | Number | Text | Sequence | Table | Other

definition kind_of_char :: "char \<Rightarrow> kind" where
  "kind_of_char c =
     (if c = CHR ''n'' then Nothing else if c = CHR ''t'' then Truth True else if c = CHR ''f'' then Truth False
      else if c = CHR ''-'' \<or> is_digit c then Number else if c = CHR 0x22 then Text
      else if c = CHR ''['' then Sequence else if c = CHR ''{'' then Table else Other)"

fun kind_of :: "json \<Rightarrow> kind" where
  "kind_of JNull = Nothing"
| "kind_of (JBool b) = Truth b"
| "kind_of (JNum n) = Number"
| "kind_of (JStr s) = Text"
| "kind_of (JArr vs) = Sequence"
| "kind_of (JObj kvs) = Table"

lemma kind_of_digit: "is_digit c \<Longrightarrow> kind_of_char c = Number"
  by (auto simp: kind_of_char_def is_digit_def code_def)

lemma kind_shows: "kind_of_char (hd (stringify v @ x)) = kind_of v"
proof (cases v)
  case (JNum n)
  show ?thesis
  proof (cases "n < 0")
    case True
    then show ?thesis using JNum by (simp add: show_int_def kind_of_char_def)
  next
    case False
    then show ?thesis using JNum hd_digits [of "nat n" x] kind_of_digit by (simp add: show_int_def)
  qed
qed (simp_all add: json_string_def kind_of_char_def is_digit_def code_def)

lemma kind_of_Other: "kind_of v \<noteq> Other"
  by (cases v) simp_all

lemma list_unique:
  assumes one: "\<And>v w x y. v \<in> set vs \<Longrightarrow> p v @ x = p w @ y \<Longrightarrow> ended x \<Longrightarrow> ended y \<Longrightarrow> v = w \<and> x = y"
    and opens: "\<And>v. hd (p v) \<noteq> c" "\<And>v. p v \<noteq> []" and c: "c \<in> {CHR '']'', CHR ''}''}"
    and eq: "join '','' (map p vs) @ c # x = join '','' (map p ws) @ c # y"
  shows "vs = ws \<and> x = y"
  using one eq
proof (induction vs arbitrary: ws)
  case Nil
  show ?case
  proof (cases ws)
    case (Cons w ws')
    then have "hd (join '','' (map p ws) @ c # y) \<noteq> c" using opens by (cases ws') (auto simp: join_Cons)
    then show ?thesis using Nil(2) by (metis append_Nil join.simps(1) list.sel(1) list.simps(8))
  qed (use Nil in simp)
next
  case (Cons v vs)
  have rest: "\<exists>z. join '','' (map p (u # us)) @ c # s = p u @ z \<and> ended z \<and>
      z = (if us = [] then c # s else CHR '','' # join '','' (map p us) @ c # s)" for u us s
    using c by (cases us) auto
  show ?case
  proof (cases ws)
    case Nil
    have "hd (join '','' (map p (v # vs)) @ c # x) \<noteq> c" using opens by (cases vs) (auto simp: join_Cons)
    then show ?thesis using Cons.prems(2) Nil by (metis append_Nil join.simps(1) list.sel(1) list.simps(8))
  next
    case ws: (Cons w ws')
    obtain z z' where z: "p v @ z = p w @ z'" "ended z" "ended z'"
      "z = (if vs = [] then c # x else CHR '','' # join '','' (map p vs) @ c # x)"
      "z' = (if ws' = [] then c # y else CHR '','' # join '','' (map p ws') @ c # y)"
      using rest [of v vs x] rest [of w ws' y] Cons.prems(2) ws by metis
    have "v = w" "z = z'" using Cons.prems(1) [OF _ z(1,2,3)] by auto
    have "c \<noteq> CHR '',''" using c by auto
    have "vs = ws' \<and> x = y"
    proof (cases "vs = [] \<or> ws' = []")
      case True
      then show ?thesis using z(4,5) \<open>z = z'\<close> \<open>c \<noteq> CHR '',''\<close> by (auto split: if_splits)
    next
      case False
      then have "join '','' (map p vs) @ c # x = join '','' (map p ws') @ c # y" using z(4,5) \<open>z = z'\<close> by simp
      then show ?thesis by (intro Cons.IH) (use Cons.prems(1) in \<open>auto simp del: append_eq_append_conv\<close>)
    qed
    then show ?thesis using \<open>v = w\<close> ws by simp
  qed
qed

lemma stringify_opens: "c \<in> {CHR '']'', CHR ''}''} \<Longrightarrow> hd (stringify v) \<noteq> c"
proof -
  assume "c \<in> {CHR '']'', CHR ''}''}"
  then have "kind_of_char c = Other" by (auto simp: kind_of_char_def is_digit_def code_def)
  then show ?thesis using kind_shows [of v "[]"] kind_of_Other by (metis append_Nil2)
qed

lemma stringify_nonempty: "stringify v \<noteq> []"
  by (cases v) (auto simp: show_int_def json_string_def)

lemma stringify_unique:
  "stringify v @ x = stringify w @ y \<Longrightarrow> ended x \<Longrightarrow> ended y \<Longrightarrow> v = w \<and> x = y"
proof (induction "size v" arbitrary: v w x y rule: less_induct)
  case less
  have kind: "kind_of v = kind_of w" using kind_shows less.prems(1) by metis
  show ?case
  proof (cases v)
    case (JNum n)
    then obtain m where "w = JNum m" using kind by (cases w) auto
    then show ?thesis using JNum less.prems show_int_unique [of n x m y] by simp
  next
    case (JStr s)
    then obtain t where "w = JStr t" using kind by (cases w) auto
    then show ?thesis using JStr less.prems(1) json_string_unique [of s x t y] by simp
  next
    case (JArr vs)
    then obtain ws where w: "w = JArr ws" using kind by (cases w) auto
    have "vs = ws \<and> x = y"
    proof (rule list_unique [where p=stringify and c="CHR '']''"])
      show "u = u' \<and> x' = y'" if "u \<in> set vs" "stringify u @ x' = stringify u' @ y'" "ended x'" "ended y'" for u u' x' y'
        using less.hyps [OF _ that(2-4)] json_size_element [OF that(1)] JArr by simp
      show "join '','' (map stringify vs) @ CHR '']'' # x = join '','' (map stringify ws) @ CHR '']'' # y"
        using less.prems(1) JArr w by simp
    qed (simp_all add: stringify_opens stringify_nonempty)
    then show ?thesis using JArr w by simp
  next
    case (JObj kvs)
    then obtain kws where w: "w = JObj kws" using kind by (cases w) auto
    let ?p = "\<lambda>(k, v). json_string k @ '':'' @ stringify v"
    have "kvs = kws \<and> x = y"
    proof (rule list_unique [where p="?p" and c="CHR ''}''"])
      show "u = u' \<and> x' = y'" if "u \<in> set kvs" "?p u @ x' = ?p u' @ y'" "ended x'" "ended y'" for u u' x' y'
      proof -
        obtain k v where u: "u = (k, v)" by (cases u)
        obtain k' v' where u': "u' = (k', v')" by (cases u')
        have "k = k'" "stringify v @ x' = stringify v' @ y'"
          using json_string_unique [of k "CHR '':'' # stringify v @ x'" k' "CHR '':'' # stringify v' @ y'"] that(2)
          by (simp_all add: u u')
        then show ?thesis
          using less.hyps [OF _ _ that(3,4)] json_size_entry [of k v kvs] that(1) JObj u u' by simp
      qed
      show "join '','' (map ?p kvs) @ CHR ''}'' # x = join '','' (map ?p kws) @ CHR ''}'' # y"
        using less.prems(1) JObj w by simp
    qed (auto simp: json_string_def split: prod.splits)
    then show ?thesis using JObj w by simp
  qed (use kind less.prems(1) in \<open>cases w; simp\<close>)+
qed

lemma stringify_inj: "stringify v = stringify w \<longleftrightarrow> v = w"
  using stringify_unique [of v "[]" w "[]"] by auto

lemma canonical_iff: "canonical cmp v = canonical cmp w \<longleftrightarrow> arrange cmp v = arrange cmp w"
  unfolding canonical_arrange by (rule stringify_inj)

section \<open>The same value\<close>

inductive same_json :: "json \<Rightarrow> json \<Rightarrow> bool" where
  same_null: "same_json JNull JNull"
| same_bool: "same_json (JBool b) (JBool b)"
| same_num: "same_json (JNum n) (JNum n)"
| same_str: "same_json (JStr s) (JStr s)"
| same_arr: "list_all2 same_json vs ws \<Longrightarrow> same_json (JArr vs) (JArr ws)"
| same_obj: "list_all2 (\<lambda>p q. fst p = fst q \<and> same_json (snd p) (snd q)) kvs kws' \<Longrightarrow> mset kws' = mset kws \<Longrightarrow>
    same_json (JObj kvs) (JObj kws)"

text \<open>
  An object of the host has one entry per key; here the comparison must also tell the keys of every object
  apart. \<open>localeCompare\<close> is a consistent comparator, but it answers zero for some different strings, those that are
  canonically equivalent or differ by ignorable characters only.
\<close>

definition tells_apart :: "(string \<Rightarrow> string \<Rightarrow> int) \<Rightarrow> string set \<Rightarrow> bool" where
  "tells_apart cmp ks = (\<forall>x \<in> ks. \<forall>y \<in> ks. cmp x y \<le> 0 \<and> cmp y x \<le> 0 \<longrightarrow> x = y)"

function keys_apart :: "(string \<Rightarrow> string \<Rightarrow> int) \<Rightarrow> json \<Rightarrow> bool" where
  "keys_apart cmp (JArr vs) = list_all (keys_apart cmp) vs"
| "keys_apart cmp (JObj kvs) =
     (distinct (map fst kvs) \<and> tells_apart cmp (set (map fst kvs)) \<and> list_all (\<lambda>p. keys_apart cmp (snd p)) kvs)"
| "keys_apart cmp JNull = True"
| "keys_apart cmp (JBool b) = True"
| "keys_apart cmp (JNum n) = True"
| "keys_apart cmp (JStr s) = True"
  by pat_completeness auto
termination
  by (relation "measure (\<lambda>(cmp, v). size v)") (auto dest: json_size_entry json_size_element)

context comparator_order
begin

lemma sorted_entries_unique:
  assumes "sorted_wrt (\<lambda>a b. cmp (fst a) (fst b) \<le> 0) xs" "sorted_wrt (\<lambda>a b. cmp (fst a) (fst b) \<le> 0) ys"
    and "mset xs = mset ys" "distinct (map fst xs)"
    and "\<And>x y. x \<in> fst ` set xs \<Longrightarrow> y \<in> fst ` set xs \<Longrightarrow> cmp x y \<le> 0 \<Longrightarrow> cmp y x \<le> 0 \<Longrightarrow> x = y"
  shows "xs = ys"
  using assms
proof (induction xs arbitrary: ys)
  case (Cons x xs)
  obtain y ys' where ys: "ys = y # ys'" using Cons.prems(3) by (cases ys) auto
  have sets: "set (x # xs) = set ys" using Cons.prems(3) by (metis set_mset_mset)
  have refl: "cmp k k \<le> 0" for k using cmp_total [of k k] by simp
  have y: "y \<in> set (x # xs)" using sets ys by simp
  have "y = x \<or> y \<in> set xs" "x = y \<or> x \<in> set ys'" using sets ys by auto
  then have "cmp (fst x) (fst y) \<le> 0" "cmp (fst y) (fst x) \<le> 0" using Cons.prems(1,2) ys refl by auto
  then have "fst x = fst y" using y Cons.prems(5) [of "fst x" "fst y"] by auto
  then have "x = y" using Cons.prems(4) y by (auto simp: image_iff)
  moreover have "xs = ys'"
  proof (rule Cons.IH)
    show "u = v" if "u \<in> fst ` set xs" "v \<in> fst ` set xs" "cmp u v \<le> 0" "cmp v u \<le> 0" for u v
      using Cons.prems(5) [OF _ _ that(3,4)] that(1,2) by auto
  qed (use Cons.prems(1-4) ys \<open>x = y\<close> in simp_all)
  ultimately show ?case using ys by simp
qed simp

end

lemma sort_entries_unique:
  assumes "comparator_order cmp" "mset kvs = mset kws" "distinct (map fst kvs)" "tells_apart cmp (set (map fst kvs))"
  shows "sort_entries cmp kvs = sort_entries cmp kws"
proof -
  note order = comparator_order.sort_by_sorted [OF comparator_order_key [OF assms(1)]]
  have m: "mset (sort_entries cmp kvs) = mset kvs" by (simp add: sort_entries_def)
  have k: "fst ` set (sort_entries cmp kvs) = set (map fst kvs)" using mset_eq_setD [OF m] by simp
  show ?thesis
  proof (rule comparator_order.sorted_entries_unique [OF assms(1)])
    show "distinct (map fst (sort_entries cmp kvs))"
      using assms(3) m by (metis mset_map mset_eq_imp_distinct_iff)
    show "x = y" if "x \<in> fst ` set (sort_entries cmp kvs)" "y \<in> fst ` set (sort_entries cmp kvs)" "cmp x y \<le> 0" "cmp y x \<le> 0" for x y
      using assms(4) that unfolding k tells_apart_def by blast
  qed (simp_all add: sort_entries_def order assms(2))
qed

lemma map_mset_rearrange: "mset (map f xs) = mset (map f ys) \<Longrightarrow> \<exists>zs. mset zs = mset ys \<and> map f zs = map f xs"
proof (induction xs arbitrary: ys)
  case (Cons x xs)
  then have "f x \<in> set (map f ys)" by (metis list.set_intros(1) list.simps(9) set_mset_mset)
  then obtain y where "y \<in> set ys" "f y = f x" by auto
  then obtain a b where ys: "ys = a @ y # b" by (meson split_list)
  have "mset (map f xs) = mset (map f (a @ b))" using Cons.prems \<open>f y = f x\<close> ys by simp
  then obtain zs where "mset zs = mset (a @ b)" "map f zs = map f xs" using Cons.IH by blast
  then have "mset (y # zs) = mset ys" "map f (y # zs) = map f (x # xs)" using ys \<open>f y = f x\<close> by simp_all
  then show ?case by blast
qed simp

lemma sort_entries_mset: "sort_entries cmp xs = sort_entries cmp ys \<Longrightarrow> mset xs = mset ys"
  unfolding sort_entries_def by (metis mset_sort_by)

lemma map_eq_all2: "map f zs = map f xs \<Longrightarrow> list_all2 (\<lambda>p q. f p = f q) xs zs"
  by (auto simp: list_all2_conv_all_nth list_eq_iff_nth_eq)

lemma arrange_same: "arrange cmp v = arrange cmp w \<Longrightarrow> same_json v w"
proof (induction "size v" arbitrary: v w rule: less_induct)
  case less
  show ?case
  proof (cases v)
    case (JArr vs)
    then obtain ws where w: "w = JArr ws" using less.prems by (cases w) auto
    have "list_all2 (\<lambda>x y. arrange cmp x = arrange cmp y) vs ws"
      using less.prems JArr w by (simp add: list_all2_conv_all_nth list_eq_iff_nth_eq)
    then have "list_all2 same_json vs ws"
      using less.hyps json_size_element JArr by (auto elim!: list.rel_mono_strong)
    then show ?thesis using JArr w by (simp add: same_arr)
  next
    case (JObj kvs)
    then obtain kws where w: "w = JObj kws" using less.prems by (cases w) auto
    let ?f = "\<lambda>(k, v). (k, arrange cmp v)"
    have "sort_entries cmp (map ?f kvs) = sort_entries cmp (map ?f kws)" using less.prems JObj w by simp
    then have "mset (map ?f kvs) = mset (map ?f kws)" by (rule sort_entries_mset)
    from map_mset_rearrange [OF this] obtain zs where zs: "mset zs = mset kws" "map ?f zs = map ?f kvs" by blast
    have "list_all2 (\<lambda>p q. ?f p = ?f q) kvs zs" using zs(2) by (rule map_eq_all2)
    then have "list_all2 (\<lambda>p q. fst p = fst q \<and> same_json (snd p) (snd q)) kvs zs"
    proof (rule list.rel_mono_strong)
      fix p q assume p: "p \<in> set kvs" "?f p = ?f q"
      then have "size (snd p) < size v" using json_size_entry [of "fst p" "snd p" kvs] JObj by simp
      then show "fst p = fst q \<and> same_json (snd p) (snd q)"
        using less.hyps p(2) by (simp add: case_prod_unfold)
    qed
    then show ?thesis using JObj w zs(1) by (simp add: same_obj)
  qed (use less.prems in \<open>cases w; auto intro: same_json.intros\<close>)+
qed

lemma same_arrange:
  assumes "comparator_order cmp"
  shows "same_json v w \<Longrightarrow> keys_apart cmp v \<Longrightarrow> arrange cmp v = arrange cmp w"
proof (induction rule: same_json.induct)
  case (same_arr vs ws)
  then show ?case by (auto simp: list_all2_conv_all_nth list_all_length list_eq_iff_nth_eq)
next
  case (same_obj kvs kws' kws)
  let ?f = "\<lambda>(k, v). (k, arrange cmp v)"
  have "map ?f kvs = map ?f kws'"
    using same_obj by (auto simp: list_all2_conv_all_nth list_all_length list_eq_iff_nth_eq split: prod.splits)
  then have "mset (map ?f kvs) = mset (map ?f kws)" using same_obj(2) by (metis mset_map)
  moreover have k: "map fst (map ?f kvs) = map fst kvs" by auto
  have "distinct (map fst (map ?f kvs))" "tells_apart cmp (set (map fst (map ?f kvs)))"
    unfolding k using same_obj(3) by simp_all
  ultimately have "sort_entries cmp (map ?f kvs) = sort_entries cmp (map ?f kws)" by (intro sort_entries_unique [OF assms])
  then show ?case by simp
qed simp_all

lemma canonical_same:
  "canonical cmp v = canonical cmp w \<Longrightarrow> same_json v w"
  "comparator_order cmp \<Longrightarrow> keys_apart cmp v \<Longrightarrow> same_json v w \<Longrightarrow> canonical cmp v = canonical cmp w"
  using canonical_iff arrange_same same_arrange by blast+

lemma canonical_tie:
  "cmp j k = 0 \<Longrightarrow> cmp k j = 0 \<Longrightarrow> j \<noteq> k \<Longrightarrow>
   same_json (JObj [(j, x), (k, y)]) (JObj [(k, y), (j, x)]) \<and>
   canonical cmp (JObj [(j, x), (k, y)]) \<noteq> canonical cmp (JObj [(k, y), (j, x)])"
proof
  assume t: "cmp j k = 0" "cmp k j = 0" "j \<noteq> k"
  have refl: "same_json v v" for v using arrange_same [of cmp v v] by simp
  show "same_json (JObj [(j, x), (k, y)]) (JObj [(k, y), (j, x)])"
    by (rule same_obj [where kws' = "[(j, x), (k, y)]"]) (simp_all add: refl)
  show "canonical cmp (JObj [(j, x), (k, y)]) \<noteq> canonical cmp (JObj [(k, y), (j, x)])"
    unfolding canonical_iff using t by (simp add: sort_entries_def)
qed

text \<open>C23: values with the same canonical text agree up to the order in which the entries of their objects were
  written, at every depth, whatever the comparison does; conversely values that agree so have the same text, provided
  the comparison is a consistent one and tells the keys of each object apart. The proviso is needed: two keys it
  answers zero for, as \<open>localeCompare\<close> does for a precomposed and a decomposed letter or for an ignorable character,
  keep the order they were written in, and the same object has two texts and two checksums.\<close>

theorem canonical_identifies:
  "(canonical cmp v = canonical cmp w \<longrightarrow> same_json v w) \<and>
   (comparator_order cmp \<and> keys_apart cmp v \<and> same_json v w \<longrightarrow> canonical cmp v = canonical cmp w) \<and>
   (cmp j k = 0 \<and> cmp k j = 0 \<and> j \<noteq> k \<longrightarrow>
     same_json (JObj [(j, x), (k, y)]) (JObj [(k, y), (j, x)]) \<and>
     canonical cmp (JObj [(j, x), (k, y)]) \<noteq> canonical cmp (JObj [(k, y), (j, x)]))"
  using canonical_same canonical_tie by blast

text \<open>A comparison that, like \<open>localeCompare\<close>, ignores control characters.\<close>

definition ignoring_compare :: "string \<Rightarrow> string \<Rightarrow> int" where
  "ignoring_compare x y = unit_compare (filter (\<lambda>c. 32 \<le> code c) x) (filter (\<lambda>c. 32 \<le> code c) y)"

interpretation ignoring_keys: comparator_order ignoring_compare
proof -
  have "comparator_order unit_compare" by unfold_locales (auto simp: unit_compare_def split: if_splits)
  from comparator_order_key [OF this, of "filter (\<lambda>c. 32 \<le> code c)"] show "comparator_order ignoring_compare"
    by (simp add: ignoring_compare_def [abs_def])
qed

theorem canonical_identifies_witness:
  "same_json (JObj [(''b'', JNum 1), (''a'', JNull)]) (JObj [(''a'', JNull), (''b'', JNum 1)]) \<and>
   canonical ignoring_compare (JObj [(''b'', JNum 1), (''a'', JNull)]) =
     canonical ignoring_compare (JObj [(''a'', JNull), (''b'', JNum 1)]) \<and>
   canonical ignoring_compare (JObj [(''a'', JNull), ([char_of (1 :: nat), CHR ''a''], JNull)]) \<noteq>
     canonical ignoring_compare (JObj [([char_of (1 :: nat), CHR ''a''], JNull), (''a'', JNull)])"
proof -
  have "canonical unit_compare (JObj [(''b'', JNum 1), (''a'', JNull)]) =
      canonical unit_compare (JObj [(''a'', JNull), (''b'', JNum 1)])" by code_simp
  then have s: "same_json (JObj [(''b'', JNum 1), (''a'', JNull)]) (JObj [(''a'', JNull), (''b'', JNum 1)])"
    using canonical_identifies [of unit_compare] by blast
  have "ignoring_compare ''a'' ''b'' = - 1" "ignoring_compare ''b'' ''a'' = 1"
    "ignoring_compare ''a'' [char_of (1 :: nat), CHR ''a''] = 0" "ignoring_compare [char_of (1 :: nat), CHR ''a''] ''a'' = 0" by code_simp+
  moreover from this have "keys_apart ignoring_compare (JObj [(''b'', JNum 1), (''a'', JNull)])"
    by (auto simp: tells_apart_def)
  ultimately show ?thesis
    using s canonical_identifies [of ignoring_compare "JObj [(''b'', JNum 1), (''a'', JNull)]"
        "JObj [(''a'', JNull), (''b'', JNum 1)]" "''a''" "[char_of (1 :: nat), CHR ''a'']" JNull JNull]
      ignoring_keys.comparator_order_axioms
    by (simp del: canonical.simps)
qed

end
