(* ===== verification/Kernel_Keyring.thy ===== *)
theory Kernel_Keyring
  imports Flow_Prelude "HOL-Library.Word"
begin

text \<open>
  Key sets and their rotation: \<open>packages/kernel/src/keyring.ts\<close> and the keyring of
  \<open>packages/kernel/src/approval-grant.ts\<close>. Keys are bytes and a key is known by its fingerprint. SHA-256,
  AES-256-GCM and the random nonce of an envelope come from \<open>node:crypto\<close> and are arguments; that
  decryption undoes encryption is a hypothesis of the properties that need it.
\<close>

type_synonym bytes = "8 word list"

definition KEYRING_KEY_BYTES :: nat where "KEYRING_KEY_BYTES = 32"
definition KEYRING_IV_BYTES :: nat where "KEYRING_IV_BYTES = 12"
definition KEYRING_TAG_BYTES :: nat where "KEYRING_TAG_BYTES = 16"
definition KEYRING_MAX_PREVIOUS_KEYS :: nat where "KEYRING_MAX_PREVIOUS_KEYS = 8"

datatype keyring_error = KEY_UNKNOWN | ENVELOPE_INVALID

text \<open>What the constructors throw: a key of another length, or too many previous keys.\<close>

datatype ring_error = Key_length | Too_many_previous

definition keyFingerprint :: "(bytes \<Rightarrow> string) \<Rightarrow> bytes \<Rightarrow> string" where
  "keyFingerprint sha256 key = take 16 (sha256 key)"

definition assertKeyLength :: "bytes \<Rightarrow> ring_error + unit" where
  "assertKeyLength key = throw_if (length key \<noteq> KEYRING_KEY_BYTES) Key_length"

section \<open>The envelope keyring\<close>

record envelope =
  env_keyId :: "string option"
  env_iv :: bytes
  env_tag :: bytes
  env_ciphertext :: bytes

record keyring =
  ring_keyId :: string
  ring_previousKeyIds :: "string list"
  ring_keys :: "(string \<times> bytes) list"
  ring_order :: "bytes list"

text \<open>The turn of the loop over the previous keys: a key already known is skipped.\<close>

definition add_previous :: "(bytes \<Rightarrow> string) \<Rightarrow> (string \<times> bytes) list \<times> bytes list \<Rightarrow> bytes \<Rightarrow>
    ring_error + (string \<times> bytes) list \<times> bytes list" where
  "add_previous sha256 = (\<lambda>(keys, order) key.
     and_then (assertKeyLength key) (\<lambda>_.
       let i = keyFingerprint sha256 key in
       if map_of keys i \<noteq> None then Inr (keys, order) else Inr (keys @ [(i, key)], order @ [key])))"

definition createKeyring :: "(bytes \<Rightarrow> string) \<Rightarrow> bytes \<Rightarrow> bytes list \<Rightarrow> ring_error + keyring" where
  "createKeyring sha256 current previous =
     and_then (assertKeyLength current) (\<lambda>_.
       if KEYRING_MAX_PREVIOUS_KEYS < length previous then Inl Too_many_previous
       else
         let currentKeyId = keyFingerprint sha256 current in
         and_then (for_each (add_previous sha256) ([(currentKeyId, current)], [current]) previous) (\<lambda>(keys, order).
           Inr \<lparr>ring_keyId = currentKeyId, ring_previousKeyIds = map (keyFingerprint sha256) (tl order),
                ring_keys = keys, ring_order = order\<rparr>))"

definition knows :: "keyring \<Rightarrow> string \<Rightarrow> bool" where
  "knows ring keyId = (map_of (ring_keys ring) keyId \<noteq> None)"

text \<open>The cipher: key, nonce, additional data and text give the ciphertext and the tag.\<close>

type_synonym encryption = "bytes \<Rightarrow> bytes \<Rightarrow> bytes option \<Rightarrow> bytes \<Rightarrow> bytes \<times> bytes"

text \<open>The decipher answers nothing when the tag does not authenticate.\<close>

type_synonym decryption = "bytes \<Rightarrow> bytes \<Rightarrow> bytes \<Rightarrow> bytes option \<Rightarrow> bytes \<Rightarrow> bytes option"

definition seal_envelope :: "encryption \<Rightarrow> keyring \<Rightarrow> bytes \<Rightarrow> bytes \<Rightarrow> bytes option \<Rightarrow> envelope" where
  "seal_envelope encrypt ring iv plaintext aad =
     (case encrypt (hd (ring_order ring)) iv aad plaintext of
        (ciphertext, tag) \<Rightarrow>
          \<lparr>env_keyId = Some (ring_keyId ring), env_iv = iv, env_tag = tag, env_ciphertext = ciphertext\<rparr>)"

definition decrypt_with :: "decryption \<Rightarrow> envelope \<Rightarrow> bytes option \<Rightarrow> bytes \<Rightarrow> bytes option" where
  "decrypt_with decrypt envelope aad key =
     decrypt key (env_iv envelope) (env_tag envelope) aad (env_ciphertext envelope)"

text \<open>The loop over every key, when the envelope names none.\<close>

fun try_keys :: "(bytes \<Rightarrow> bytes option) \<Rightarrow> bytes list \<Rightarrow> keyring_error + bytes" where
  "try_keys attempt [] = Inl KEY_UNKNOWN"
| "try_keys attempt (key # keys) =
     (case attempt key of Some plaintext \<Rightarrow> Inr plaintext | None \<Rightarrow> try_keys attempt keys)"

definition open_envelope :: "decryption \<Rightarrow> keyring \<Rightarrow> envelope \<Rightarrow> bytes option \<Rightarrow> keyring_error + bytes" where
  "open_envelope decrypt ring envelope aad =
     (if length (env_iv envelope) \<noteq> KEYRING_IV_BYTES \<or> length (env_tag envelope) \<noteq> KEYRING_TAG_BYTES then Inl ENVELOPE_INVALID
      else case env_keyId envelope of
        Some keyId \<Rightarrow>
          (case map_of (ring_keys ring) keyId of
             None \<Rightarrow> Inl KEY_UNKNOWN
           | Some key \<Rightarrow>
               (case decrypt_with decrypt envelope aad key of
                  Some plaintext \<Rightarrow> Inr plaintext
                | None \<Rightarrow> Inl ENVELOPE_INVALID))
      | None \<Rightarrow> try_keys (decrypt_with decrypt envelope aad) (ring_order ring))"

text \<open>Keys kept from before a rotation, as one environment variable spells them.\<close>

definition parsePreviousKeys :: "string option \<Rightarrow> (string \<Rightarrow> 'e + 'k) \<Rightarrow> 'e + 'k list" where
  "parsePreviousKeys value decode =
     (case value of
        None \<Rightarrow> Inr []
      | Some v \<Rightarrow>
          if v = [] then Inr []
          else for_each (\<lambda>ks entry. and_then (decode entry) (\<lambda>k. Inr (ks @ [k]))) []
            (filter (\<lambda>entry. entry \<noteq> []) (map trim (split_on CHR '','' v))))"

section \<open>The signing keyring\<close>

record grant_keyring =
  gk_keyId :: string
  gk_previousKeyIds :: "string list"
  gk_keys :: "(string \<times> bytes) list"

definition add_grant_key :: "(bytes \<Rightarrow> string) \<Rightarrow> (string \<times> bytes) list \<times> string list \<Rightarrow> bytes \<Rightarrow>
    ring_error + (string \<times> bytes) list \<times> string list" where
  "add_grant_key sha256 = (\<lambda>(keys, order) key.
     if length key \<noteq> KEYRING_KEY_BYTES then Inl Key_length
     else
       let i = keyFingerprint sha256 key in
       if map_of keys i \<noteq> None then Inr (keys, order) else Inr (keys @ [(i, key)], order @ [i]))"

definition createApprovalGrantKeyring :: "(bytes \<Rightarrow> string) \<Rightarrow> bytes \<Rightarrow> bytes list \<Rightarrow> ring_error + grant_keyring" where
  "createApprovalGrantKeyring sha256 current previous =
     (if KEYRING_MAX_PREVIOUS_KEYS < length previous then Inl Too_many_previous
      else and_then (for_each (add_grant_key sha256) ([], []) (current # previous)) (\<lambda>(keys, order).
        Inr \<lparr>gk_keyId = hd order, gk_previousKeyIds = tl order, gk_keys = keys\<rparr>))"

definition grant_key :: "grant_keyring \<Rightarrow> string \<Rightarrow> bytes option" where
  "grant_key ring keyId = map_of (gk_keys ring) keyId"

section \<open>Rotation\<close>

text \<open>
  What both key sets promise: a lookup finds the first key listed with that fingerprint, and the current key
  is the first. From it, whoever holds the key that was current finds it again under the identifier that was
  written down, in whatever place a rotation moved it to.
\<close>

lemma found: "find P xs = Some x \<Longrightarrow> x \<in> set xs \<and> P x"
  by (auto simp: find_Some_iff)

locale key_ring =
  fixes build :: "(bytes \<Rightarrow> string) \<Rightarrow> bytes \<Rightarrow> bytes list \<Rightarrow> ring_error + 'r"
    and lookup :: "'r \<Rightarrow> string \<Rightarrow> bytes option" and current_id :: "'r \<Rightarrow> string"
  assumes lookup_first: "build sha256 c ps = Inr r \<Longrightarrow> lookup r i = find (\<lambda>k. keyFingerprint sha256 k = i) (c # ps)"
    and current_first: "build sha256 c ps = Inr r \<Longrightarrow> current_id r = keyFingerprint sha256 c"
    and built_iff: "is_ok (build sha256 c ps) \<longleftrightarrow>
      length ps \<le> KEYRING_MAX_PREVIOUS_KEYS \<and> list_all (\<lambda>k. length k = KEYRING_KEY_BYTES) (c # ps)"
begin

lemma rotated:
  assumes "build sha256 c ps = Inr r" "build sha256 c' ps' = Inr r'" "c \<in> set (c' # ps')"
    and "\<And>k. k \<in> set (c' # ps') \<Longrightarrow> keyFingerprint sha256 k = keyFingerprint sha256 c \<Longrightarrow> k = c"
  shows "lookup r' (current_id r) = Some c"
proof -
  have "find (\<lambda>k. keyFingerprint sha256 k = keyFingerprint sha256 c) (c' # ps') \<noteq> None"
    unfolding find_None_iff using assms(3) by blast
  then obtain k where k: "find (\<lambda>k. keyFingerprint sha256 k = keyFingerprint sha256 c) (c' # ps') = Some k" by auto
  then have "k \<in> set (c' # ps')" "keyFingerprint sha256 k = keyFingerprint sha256 c" using found [OF k] by simp_all
  then have "k = c" by (rule assms(4))
  then show ?thesis using k lookup_first [OF assms(2)] current_first [OF assms(1)] by simp
qed

lemma lookup_known: "build sha256 c ps = Inr r \<Longrightarrow> lookup r i = Some k \<Longrightarrow> k \<in> set (c # ps) \<and> keyFingerprint sha256 k = i"
  by (auto simp: lookup_first dest: found split: if_splits)

end

text \<open>The loops keep a table of the keys met so far by fingerprint.\<close>

definition key_table :: "(bytes \<Rightarrow> string) \<Rightarrow> bytes list \<Rightarrow> (string \<times> bytes) list \<Rightarrow> bool" where
  "key_table sha256 ks keys = (\<forall>i. map_of keys i = find (\<lambda>k. keyFingerprint sha256 k = i) ks)"

lemma find_append: "find P (xs @ ys) = (case find P xs of None \<Rightarrow> find P ys | Some x \<Rightarrow> Some x)"
  by (induction xs) auto

lemma key_table_add:
  assumes "key_table sha256 ks keys"
  shows "map_of keys (keyFingerprint sha256 k) \<noteq> None \<Longrightarrow> key_table sha256 (ks @ [k]) keys"
    "map_of keys (keyFingerprint sha256 k) = None \<Longrightarrow> key_table sha256 (ks @ [k]) (keys @ [(keyFingerprint sha256 k, k)])"
  using assms by (auto simp: key_table_def find_append map_add_def split: option.splits)

text \<open>One turn of either loop, and from it the loop.\<close>

definition table_turn :: "(bytes \<Rightarrow> string) \<Rightarrow> (string \<times> bytes \<Rightarrow> 'x) \<Rightarrow> ((string \<times> bytes) list \<times> 'x list \<Rightarrow> bytes \<Rightarrow>
    ring_error + (string \<times> bytes) list \<times> 'x list) \<Rightarrow> bool" where
  "table_turn sha256 part f =
     (\<forall>keys order k keys' order' ks. f (keys, order) k = Inr (keys', order') \<longrightarrow> key_table sha256 ks keys \<longrightarrow>
       key_table sha256 (ks @ [k]) keys' \<and> (order \<noteq> [] \<longrightarrow> order' \<noteq> [] \<and> hd order' = hd order) \<and>
       (order = map part keys \<longrightarrow> order' = map part keys'))"

lemma table_loop:
  assumes turn: "table_turn sha256 part f"
    and "for_each f (keys, order) ps = Inr (keys', order')" "key_table sha256 ks keys"
  shows "key_table sha256 (ks @ ps) keys' \<and> (order \<noteq> [] \<longrightarrow> order' \<noteq> [] \<and> hd order' = hd order) \<and>
    (order = map part keys \<longrightarrow> order' = map part keys')"
  using assms(2,3)
proof (induction ps arbitrary: ks keys order)
  case (Cons p ps)
  then obtain keys1 order1 where step: "f (keys, order) p = Inr (keys1, order1)"
      "for_each f (keys1, order1) ps = Inr (keys', order')"
    by (auto simp: result_simps)
  have t: "key_table sha256 (ks @ [p]) keys1" "order \<noteq> [] \<longrightarrow> order1 \<noteq> [] \<and> hd order1 = hd order"
      "order = map part keys \<longrightarrow> order1 = map part keys1"
    using turn step(1) Cons.prems(2) unfolding table_turn_def by blast+
  from Cons.IH [OF step(2) t(1)] show ?case using t(2,3) by simp
qed simp

lemma add_previous_turn: "table_turn sha256 snd (add_previous sha256)"
  using key_table_add by (auto simp: table_turn_def add_previous_def result_simps Let_def split: if_splits)

lemma add_grant_key_turn: "table_turn sha256 fst (add_grant_key sha256)"
  using key_table_add by (auto simp: table_turn_def add_grant_key_def Let_def split: if_splits)

lemma for_each_ok:
  assumes "\<And>s x. is_ok (f s x) = P x"
  shows "is_ok (for_each f s xs) = list_all P xs"
proof (induction xs arbitrary: s)
  case (Cons x xs)
  then show ?case using assms [of s x] by (cases "f s x") auto
qed simp

lemma createKeyring_parts:
  assumes "createKeyring sha256 c ps = Inr r"
  shows "key_table sha256 (c # ps) (ring_keys r)" "ring_keyId r = keyFingerprint sha256 c"
    "ring_order r = map snd (ring_keys r)" "hd (ring_order r) = c"
proof -
  from assms obtain keys order where r: "for_each (add_previous sha256) ([(keyFingerprint sha256 c, c)], [c]) ps = Inr (keys, order)"
      "r = \<lparr>ring_keyId = keyFingerprint sha256 c, ring_previousKeyIds = map (keyFingerprint sha256) (tl order),
        ring_keys = keys, ring_order = order\<rparr>"
    by (auto simp: createKeyring_def result_simps Let_def split: if_splits)
  have "key_table sha256 [c] [(keyFingerprint sha256 c, c)]" by (simp add: key_table_def)
  from table_loop [OF add_previous_turn r(1) this]
  show "key_table sha256 (c # ps) (ring_keys r)" "ring_keyId r = keyFingerprint sha256 c"
    "ring_order r = map snd (ring_keys r)" "hd (ring_order r) = c"
    by (auto simp: r(2))
qed

lemma createApprovalGrantKeyring_parts:
  assumes "createApprovalGrantKeyring sha256 c ps = Inr r"
  shows "key_table sha256 (c # ps) (gk_keys r)" "gk_keyId r = keyFingerprint sha256 c"
    "gk_keyId r # gk_previousKeyIds r = map fst (gk_keys r)"
proof -
  let ?i = "keyFingerprint sha256 c"
  from assms obtain keys order where r: "for_each (add_grant_key sha256) ([(?i, c)], [?i]) ps = Inr (keys, order)"
      "r = \<lparr>gk_keyId = hd order, gk_previousKeyIds = tl order, gk_keys = keys\<rparr>"
    by (auto simp: createApprovalGrantKeyring_def result_simps Let_def add_grant_key_def [of sha256] split: if_splits)
  have "key_table sha256 [c] [(?i, c)]" by (simp add: key_table_def)
  from table_loop [OF add_grant_key_turn r(1) this, simplified]
  have t: "key_table sha256 (c # ps) keys" "order \<noteq> []" "hd order = ?i" "order = map fst keys" by blast+
  then show "key_table sha256 (c # ps) (gk_keys r)" "gk_keyId r = keyFingerprint sha256 c" by (simp_all add: r(2))
  show "gk_keyId r # gk_previousKeyIds r = map fst (gk_keys r)"
    using hd_Cons_tl [OF t(2)] t(4) by (simp add: r(2))
qed

lemma add_previous_ok: "is_ok (add_previous sha256 s k) = (length k = KEYRING_KEY_BYTES)"
  by (cases s) (auto simp: add_previous_def assertKeyLength_def throw_if_def Let_def)

lemma add_grant_key_ok: "is_ok (add_grant_key sha256 s k) = (length k = KEYRING_KEY_BYTES)"
  by (cases s) (auto simp: add_grant_key_def Let_def)

lemma is_ok_always: "(\<And>x. is_ok (f x)) \<Longrightarrow> is_ok (and_then r f) = is_ok r"
  by (cases r) auto

interpretation envelope_ring: key_ring createKeyring "\<lambda>r i. map_of (ring_keys r) i" ring_keyId
proof unfold_locales
  show "map_of (ring_keys r) i = find (\<lambda>k. keyFingerprint sha256 k = i) (c # ps)" if "createKeyring sha256 c ps = Inr r" for sha256 c ps r i
    using createKeyring_parts(1) [OF that] by (simp add: key_table_def)
  show "ring_keyId r = keyFingerprint sha256 c" if "createKeyring sha256 c ps = Inr r" for sha256 c ps r
    using createKeyring_parts(2) [OF that] .
  show "is_ok (createKeyring sha256 c ps) \<longleftrightarrow>
      length ps \<le> KEYRING_MAX_PREVIOUS_KEYS \<and> list_all (\<lambda>k. length k = KEYRING_KEY_BYTES) (c # ps)" for sha256 c ps
    using for_each_ok [of "add_previous sha256", OF add_previous_ok]
    by (auto simp: createKeyring_def is_ok_always assertKeyLength_def throw_if_def Let_def split_beta)
qed

interpretation signing_ring: key_ring createApprovalGrantKeyring grant_key gk_keyId
proof unfold_locales
  show "grant_key r i = find (\<lambda>k. keyFingerprint sha256 k = i) (c # ps)" if "createApprovalGrantKeyring sha256 c ps = Inr r" for sha256 c ps r i
    using createApprovalGrantKeyring_parts(1) [OF that] by (simp add: key_table_def grant_key_def)
  show "gk_keyId r = keyFingerprint sha256 c" if "createApprovalGrantKeyring sha256 c ps = Inr r" for sha256 c ps r
    using createApprovalGrantKeyring_parts(2) [OF that] .
  show "is_ok (createApprovalGrantKeyring sha256 c ps) \<longleftrightarrow>
      length ps \<le> KEYRING_MAX_PREVIOUS_KEYS \<and> list_all (\<lambda>k. length k = KEYRING_KEY_BYTES) (c # ps)" for sha256 c ps
    using for_each_ok [of "add_grant_key sha256", OF add_grant_key_ok, of "([], [])" "c # ps"]
    by (auto simp: createApprovalGrantKeyring_def is_ok_always split_beta simp del: for_each.simps)
qed

section \<open>Envelopes\<close>

lemma try_keys_first: "try_keys attempt keys = Inr p \<longleftrightarrow> (\<exists>k. find (\<lambda>k. attempt k \<noteq> None) keys = Some k \<and> attempt k = Some p)"
  by (induction keys) (auto split: option.splits)

lemma try_keys_only:
  "k \<in> set keys \<Longrightarrow> attempt k = Some p \<Longrightarrow> (\<And>l. l \<in> set keys \<Longrightarrow> l \<noteq> k \<Longrightarrow> attempt l = None) \<Longrightarrow> try_keys attempt keys = Inr p"
proof (induction keys)
  case (Cons l keys)
  then show ?case by (cases "l = k") auto
qed simp

lemma key_table_complete:
  assumes "key_table sha256 ks keys" "k \<in> set ks" "\<And>l. l \<in> set ks \<Longrightarrow> keyFingerprint sha256 l = keyFingerprint sha256 k \<Longrightarrow> l = k"
  shows "map_of keys (keyFingerprint sha256 k) = Some k"
proof -
  have "find (\<lambda>l. keyFingerprint sha256 l = keyFingerprint sha256 k) ks \<noteq> None"
    unfolding find_None_iff using assms(2) by blast
  then obtain l where l: "find (\<lambda>l. keyFingerprint sha256 l = keyFingerprint sha256 k) ks = Some l" by auto
  then have "l = k" using found [OF l] assms(3) by blast
  then show ?thesis using l assms(1) by (simp add: key_table_def)
qed

lemma createKeyring_order:
  assumes "createKeyring sha256 c ps = Inr r"
  shows "k \<in> set (ring_order r) \<Longrightarrow> k \<in> snd ` set (ring_keys r)"
    "map_of (ring_keys r) i = Some k \<Longrightarrow> k \<in> set (ring_order r)"
  using createKeyring_parts(3) [OF assms] by (force dest!: map_of_SomeD)+

text \<open>C22: what a keyring seals, any keyring that still holds the key opens, wherever a rotation moved the key to:
  under the identifier the envelope carries, and, when it carries none, by trying the keys in turn, provided
  only the sealing key authenticates it and fingerprints of the held keys do not collide.\<close>

theorem keyring_rotation_opens:
  assumes "createKeyring sha256 c ps = Inr r" "createKeyring sha256 c' ps' = Inr r'" "c \<in> set (c' # ps')"
    and "\<And>k. k \<in> set (c' # ps') \<Longrightarrow> keyFingerprint sha256 k = keyFingerprint sha256 c \<Longrightarrow> k = c"
    and "\<And>ct tag. encrypt c iv aad plaintext = (ct, tag) \<Longrightarrow> decrypt c iv tag aad ct = Some plaintext \<and> length tag = KEYRING_TAG_BYTES"
    and "length iv = KEYRING_IV_BYTES"
    and "\<And>k. k \<in> set (ring_order r') \<Longrightarrow> k \<noteq> c \<Longrightarrow> decrypt_with decrypt (seal_envelope encrypt r iv plaintext aad) aad k = None"
  shows "open_envelope decrypt r' (seal_envelope encrypt r iv plaintext aad) aad = Inr plaintext \<and>
    open_envelope decrypt r' ((seal_envelope encrypt r iv plaintext aad)\<lparr>env_keyId := None\<rparr>) aad = Inr plaintext"
proof -
  let ?e = "seal_envelope encrypt r iv plaintext aad"
  obtain ct tag where enc: "encrypt c iv aad plaintext = (ct, tag)" by (cases "encrypt c iv aad plaintext")
  then have e: "?e = \<lparr>env_keyId = Some (keyFingerprint sha256 c), env_iv = iv, env_tag = tag, env_ciphertext = ct\<rparr>"
    using createKeyring_parts [OF assms(1)] by (simp add: seal_envelope_def)
  have sealed: "decrypt_with decrypt ?e aad c = Some plaintext" "length (env_tag ?e) = KEYRING_TAG_BYTES"
      "decrypt_with decrypt (?e\<lparr>env_keyId := None\<rparr>) aad = decrypt_with decrypt ?e aad"
    using assms(5) [OF enc] by (auto simp: e decrypt_with_def fun_eq_iff)
  have held: "map_of (ring_keys r') (keyFingerprint sha256 c) = Some c"
    using envelope_ring.rotated [OF assms(1-4)] createKeyring_parts(2) [OF assms(1)] by simp
  then have "c \<in> set (ring_order r')" using createKeyring_order(2) [OF assms(2)] by blast
  then have "try_keys (decrypt_with decrypt ?e aad) (ring_order r') = Inr plaintext"
    using try_keys_only sealed(1) assms(7) by blast
  then show ?thesis using sealed held assms(6) by (simp add: open_envelope_def e)
qed

text \<open>A cipher whose tag repeats the first byte of its key, and a rotation from the key of ones to the key of twos.\<close>

definition w_sha256 :: "bytes \<Rightarrow> string" where
  "w_sha256 k = [char_of (unat (hd k))]"

definition w_encrypt :: encryption where
  "w_encrypt key iv aad plaintext = (plaintext, replicate 16 (hd key))"

definition w_decrypt :: decryption where
  "w_decrypt key iv tag aad ct = (if tag = replicate 16 (hd key) then Some ct else None)"

definition w_key :: "8 word \<Rightarrow> bytes" where
  "w_key b = replicate 32 b"

theorem keyring_rotation_opens_witness:
  "\<exists>r r'. createKeyring w_sha256 (w_key 1) [] = Inr r \<and> createKeyring w_sha256 (w_key 2) [w_key 1] = Inr r' \<and>
     open_envelope w_decrypt r' (seal_envelope w_encrypt r (replicate 12 0) [7, 8] None) None = Inr [7, 8]"
proof -
  have ids: "keyFingerprint w_sha256 (w_key 1) = [CHR 0x01]" "keyFingerprint w_sha256 (w_key 2) = [CHR 0x02]"
    by code_simp+
  have len: "length (w_key b) = KEYRING_KEY_BYTES" for b by (simp add: w_key_def KEYRING_KEY_BYTES_def)
  have neq: "w_key 1 \<noteq> w_key 2" by (simp add: w_key_def)
  let ?r = "\<lparr>ring_keyId = [CHR 0x01], ring_previousKeyIds = [], ring_keys = [([CHR 0x01], w_key 1)], ring_order = [w_key 1]\<rparr>"
  let ?r' = "\<lparr>ring_keyId = [CHR 0x02], ring_previousKeyIds = [[CHR 0x01]], ring_keys = [([CHR 0x02], w_key 2), ([CHR 0x01], w_key 1)],
     ring_order = [w_key 2, w_key 1]\<rparr>"
  have r: "createKeyring w_sha256 (w_key 1) [] = Inr ?r"
    by (simp add: createKeyring_def assertKeyLength_def len ids Let_def)
  have r': "createKeyring w_sha256 (w_key 2) [w_key 1] = Inr ?r'"
    by (simp add: createKeyring_def assertKeyLength_def len ids add_previous_def KEYRING_MAX_PREVIOUS_KEYS_def Let_def)
  have "open_envelope w_decrypt ?r' (seal_envelope w_encrypt ?r (replicate 12 0) [7, 8] None) None = Inr [7, 8] \<and>
    open_envelope w_decrypt ?r' ((seal_envelope w_encrypt ?r (replicate 12 0) [7, 8] None)\<lparr>env_keyId := None\<rparr>) None = Inr [7, 8]"
  proof (rule keyring_rotation_opens [OF r r'])
    show "w_key 1 \<in> set (w_key 2 # [w_key 1])" by simp
    show "k = w_key 1" if "k \<in> set (w_key 2 # [w_key 1])" "keyFingerprint w_sha256 k = keyFingerprint w_sha256 (w_key 1)" for k
      using that by (auto simp: ids)
    show "w_decrypt (w_key 1) (replicate 12 0) tag None ct = Some [7, 8] \<and> length tag = KEYRING_TAG_BYTES"
      if "w_encrypt (w_key 1) (replicate 12 0) None [7, 8] = (ct, tag)" for ct tag
      using that by (auto simp: w_encrypt_def w_decrypt_def KEYRING_TAG_BYTES_def)
    show "length (replicate 12 (0::8 word)) = KEYRING_IV_BYTES" by (simp add: KEYRING_IV_BYTES_def)
    show "decrypt_with w_decrypt (seal_envelope w_encrypt ?r (replicate 12 0) [7, 8] None) None k = None"
      if "k \<in> set (ring_order ?r')" "k \<noteq> w_key 1" for k
      using that by (auto simp: decrypt_with_def w_decrypt_def seal_envelope_def w_encrypt_def w_key_def)
  qed
  with r r' show ?thesis by blast
qed

end
