(* ===== verification/Approvals_Store.thy ===== *)
theory Approvals_Store
  imports Kernel_Acl
begin

text \<open>
  The data and the storage of approvals: \<open>modules/approvals/src/domain/types.ts\<close>, the bounds of
  \<open>service-error.ts\<close>, who may decide (\<open>eligibility.ts\<close>), and \<open>database-repository.ts\<close> with the constraints
  its tables carry (\<open>migration.ts\<close>). A table is a list of rows; a transaction is one function on the
  database, which leaves it as it was when it fails. The order of text columns is the database's collation,
  a parameter; row level security shows as the tenant every statement names.
\<close>

datatype approval_error =
  INVALID_INPUT | APPROVAL_REQUIREMENT_INVALID | APPROVAL_NO_ELIGIBLE_DECIDER | APPROVAL_ELIGIBLE_INSUFFICIENT
| APPROVAL_ELIGIBLE_TOO_MANY | APPROVAL_NOT_FOUND | APPROVAL_NOT_PENDING | APPROVAL_NOT_ELIGIBLE
| APPROVAL_NOT_CANCELLABLE | APPROVAL_ALREADY_DECIDED | Not_service_error

datatype approval_status = Pending | Approved | Rejected | Expired | Cancelled

datatype decision_kind = Approve | Reject | Expire | Cancel

record requirement_record =
  req_roleKey :: "string option"
  req_scope :: "string option"
  req_decisions :: int
  req_expiresInDays :: int

record approval_request =
  ar_id :: string
  ar_tenant :: string
  ar_subjectModule :: string
  ar_subjectRef :: string
  ar_permission :: string
  ar_action :: string
  ar_title :: string
  ar_summary :: "string option"
  ar_requester :: string
  ar_requirement :: requirement_record
  ar_decisionsNeeded :: int
  ar_status :: approval_status
  ar_expiresAt :: int
  ar_resolvedAt :: "int option"
  ar_createdAt :: int

record approval_decision =
  ad_id :: string
  ad_tenant :: string
  ad_request :: string
  ad_decider :: "string option"
  ad_kind :: decision_kind
  ad_comment :: "string option"
  ad_decidedAt :: int

text \<open>The one audit action is \<open>grant.issued\<close>.\<close>

record approval_audit =
  aa_id :: string
  aa_tenant :: string
  aa_request :: string
  aa_capabilityId :: string
  aa_inputDigest :: string
  aa_keyId :: string
  aa_expiresAt :: int
  aa_occurredAt :: int

record approval_member =
  am_account :: string
  am_roleKey :: string
  am_scopes :: "string list"

record approval_routing =
  rt_tenant :: string
  rt_id :: string
  rt_expiresAt :: int
  rt_status :: approval_status

definition isTerminalApprovalStatus :: "approval_status \<Rightarrow> bool" where
  "isTerminalApprovalStatus s = (s \<noteq> Pending)"

fun SETTLING_DECISION :: "approval_status \<Rightarrow> decision_kind" where
  "SETTLING_DECISION Approved = Approve"
| "SETTLING_DECISION Rejected = Reject"
| "SETTLING_DECISION Expired = Expire"
| "SETTLING_DECISION Cancelled = Cancel"
| "SETTLING_DECISION Pending = Approve"

definition deciderAccountIds :: "approval_request \<Rightarrow> approval_decision list \<Rightarrow> string list" where
  "deciderAccountIds r ds =
     (if \<not> isTerminalApprovalStatus (ar_status r) then []
      else concat (map (\<lambda>d. if ad_kind d = SETTLING_DECISION (ar_status r)
              then (case ad_decider d of Some a \<Rightarrow> [a] | None \<Rightarrow> []) else []) ds))"

section \<open>Bounds\<close>

record approval_limits =
  al_subjectModule :: nat
  al_subjectRef :: nat
  al_permission :: nat
  al_action :: nat
  al_title :: nat
  al_summary :: nat
  al_comment :: nat
  al_accountId :: nat
  al_roleKey :: nat
  al_scope :: nat
  al_eligible :: nat
  al_decisions :: int
  al_expiryDays :: int
  al_listLimit :: int
  al_decideMany :: nat
  al_callbacks :: nat

definition APPROVAL_LIMITS :: approval_limits where
  "APPROVAL_LIMITS = \<lparr>al_subjectModule = 64, al_subjectRef = 200, al_permission = 96, al_action = 64, al_title = 200,
     al_summary = 2000, al_comment = 2000, al_accountId = 128, al_roleKey = 64, al_scope = 96, al_eligible = 200,
     al_decisions = 16, al_expiryDays = 90, al_listLimit = 200, al_decideMany = 100, al_callbacks = 4096\<rparr>"

definition bounded :: "string \<Rightarrow> nat \<Rightarrow> nat \<Rightarrow> approval_error + string" where
  "bounded value minimum maximum =
     (let normalized = trim value in
      if length normalized < minimum \<or> maximum < length normalized then Inl INVALID_INPUT
      else if list_ex (\<lambda>c. code c = 0) normalized then Inl INVALID_INPUT
      else Inr normalized)"

definition optionalBounded :: "string option \<Rightarrow> nat \<Rightarrow> approval_error + string option" where
  "optionalBounded value maximum =
     (case value of
        None \<Rightarrow> Inr None
      | Some v \<Rightarrow> if trim v = [] then Inr None else and_then (bounded v 1 maximum) (\<lambda>s. Inr (Some s)))"

definition boundedInteger :: "int \<Rightarrow> int \<Rightarrow> int \<Rightarrow> approval_error + int" where
  "boundedInteger value minimum maximum =
     (if value < minimum \<or> maximum < value then Inl INVALID_INPUT else Inr value)"

section \<open>Capability subjects\<close>

text \<open>\<open>capability:<capabilityId>:<inputDigest>\<close>, from \<open>modules/approvals/src/domain/grant.ts\<close>.\<close>

definition APPROVAL_GRANT_INPUT_DIGEST_LENGTH :: nat where "APPROVAL_GRANT_INPUT_DIGEST_LENGTH = 64"

definition SUBJECT_PREFIX :: string where "SUBJECT_PREFIX = ''capability:''"

definition APPROVAL_GRANT_CAPABILITY_ID_LENGTH :: nat where
  "APPROVAL_GRANT_CAPABILITY_ID_LENGTH =
     al_subjectRef APPROVAL_LIMITS - length SUBJECT_PREFIX - 1 - APPROVAL_GRANT_INPUT_DIGEST_LENGTH"

definition is_input_digest :: "string \<Rightarrow> bool" where
  "is_input_digest s =
     (length s = APPROVAL_GRANT_INPUT_DIGEST_LENGTH \<and>
      list_all (\<lambda>c. is_digit c \<or> 97 \<le> code c \<and> code c \<le> 102) s)"

definition capability_subject_ok :: "string \<Rightarrow> string \<Rightarrow> bool" where
  "capability_subject_ok capabilityId inputDigest =
     (dotted_id capabilityId \<and> length capabilityId \<le> APPROVAL_GRANT_CAPABILITY_ID_LENGTH \<and> is_input_digest inputDigest)"

text \<open>\<open>None\<close> is the \<open>RangeError\<close>.\<close>

definition encodeCapabilitySubjectRef :: "string \<Rightarrow> string \<Rightarrow> string option" where
  "encodeCapabilitySubjectRef capabilityId inputDigest =
     (if \<not> (dotted_id capabilityId \<and> length capabilityId \<le> APPROVAL_GRANT_CAPABILITY_ID_LENGTH) then None
      else if \<not> is_input_digest inputDigest then None
      else Some (SUBJECT_PREFIX @ capabilityId @ '':'' @ inputDigest))"

text \<open>\<open>lastIndexOf(':')\<close> of a text that has a colon.\<close>

definition last_colon :: "string \<Rightarrow> nat" where
  "last_colon s = length s - length (takeWhile (\<lambda>c. c \<noteq> CHR '':'') (rev s)) - 1"

definition decodeCapabilitySubjectRef :: "string \<Rightarrow> (string \<times> string) option" where
  "decodeCapabilitySubjectRef ref =
     (if \<not> starts_with SUBJECT_PREFIX ref then None
      else let separator = last_colon ref;
               capabilityId = drop (length SUBJECT_PREFIX) (take separator ref);
               inputDigest = drop (separator + 1) ref
           in if separator \<le> length SUBJECT_PREFIX \<or> \<not> capability_subject_ok capabilityId inputDigest then None
              else Some (capabilityId, inputDigest))"

section \<open>Who may decide\<close>

text \<open>A requirement is the kernel's, before its optional fields are resolved.\<close>

definition named_bound :: "string option \<Rightarrow> nat \<Rightarrow> approval_error + string option" where
  "named_bound value maximum =
     (case value of
        None \<Rightarrow> Inr None
      | Some v \<Rightarrow> if v = [] then Inr None else and_then (bounded v 1 maximum) (\<lambda>s. Inr (Some s)))"

definition normalizeRequirement :: "approval_requirement \<Rightarrow> int \<Rightarrow> approval_error + requirement_record" where
  "normalizeRequirement requirement defaultExpiryDays =
     and_then (named_bound (requirement_roleKey requirement) 64) (\<lambda>roleKey.
     and_then (named_bound (requirement_scope requirement) 96) (\<lambda>scope.
       if roleKey = None \<and> scope = None then Inl APPROVAL_REQUIREMENT_INVALID
       else
         and_then (boundedInteger (case requirement_decisions requirement of Some n \<Rightarrow> n | None \<Rightarrow> 1) 1 (al_decisions APPROVAL_LIMITS))
           (\<lambda>decisions.
         and_then (boundedInteger (case requirement_expiresInDays requirement of Some n \<Rightarrow> n | None \<Rightarrow> defaultExpiryDays) 1
             (al_expiryDays APPROVAL_LIMITS)) (\<lambda>days.
           Inr \<lparr>req_roleKey = roleKey, req_scope = scope, req_decisions = decisions, req_expiresInDays = days\<rparr>))))"

definition memberSatisfies :: "requirement_record \<Rightarrow> approval_member \<Rightarrow> string \<Rightarrow> bool" where
  "memberSatisfies requirement member requester =
     (if am_account member = requester then False
      else if req_roleKey requirement \<noteq> None \<and> req_roleKey requirement \<noteq> Some (am_roleKey member) then False
      else case req_scope requirement of None \<Rightarrow> True | Some s \<Rightarrow> s \<in> set (am_scopes member))"

definition resolveEligible :: "requirement_record \<Rightarrow> approval_member list \<Rightarrow> string \<Rightarrow> approval_error + string list" where
  "resolveEligible requirement members requester =
     (let eligible = sort_by unit_compare
            (map am_account (filter (\<lambda>m. memberSatisfies requirement m requester) members));
          unique = remdups eligible
      in if length unique = 0 then Inl APPROVAL_NO_ELIGIBLE_DECIDER
         else if int (length unique) < req_decisions requirement then Inl APPROVAL_ELIGIBLE_INSUFFICIENT
         else if al_eligible APPROVAL_LIMITS < length unique then Inl APPROVAL_ELIGIBLE_TOO_MANY
         else Inr unique)"

section \<open>The database\<close>

record approvals_db =
  db_requests :: "approval_request list"
  db_eligible :: "(string \<times> string \<times> string) list"
  db_decisions :: "approval_decision list"
  db_audit :: "approval_audit list"

definition empty_approvals :: approvals_db where
  "empty_approvals = \<lparr>db_requests = [], db_eligible = [], db_decisions = [], db_audit = []\<rparr>"

text \<open>One row, if any: \<open>rows[0]\<close>.\<close>

definition first_row :: "('a \<Rightarrow> bool) \<Rightarrow> 'a list \<Rightarrow> 'a option" where
  "first_row = find"

definition pending_for :: "string \<Rightarrow> string \<Rightarrow> string \<Rightarrow> approval_request \<Rightarrow> bool" where
  "pending_for tenant module ref r =
     (ar_tenant r = tenant \<and> ar_subjectModule r = module \<and> ar_subjectRef r = ref \<and> ar_status r = Pending)"

definition findPendingBySubject :: "approvals_db \<Rightarrow> string \<Rightarrow> string \<Rightarrow> string \<Rightarrow> approval_request option" where
  "findPendingBySubject db tenant module ref = first_row (pending_for tenant module ref) (db_requests db)"

definition getRequest :: "approvals_db \<Rightarrow> string \<Rightarrow> string \<Rightarrow> approval_request option" where
  "getRequest db tenant i = first_row (\<lambda>r. ar_tenant r = tenant \<and> ar_id r = i) (db_requests db)"

text \<open>\<open>INSERT ... ON CONFLICT DO NOTHING\<close>: the primary key, and one pending request per subject.\<close>

definition request_conflicts :: "approval_request \<Rightarrow> approval_request \<Rightarrow> bool" where
  "request_conflicts r old =
     (ar_id old = ar_id r \<or>
      ar_status r = Pending \<and> pending_for (ar_tenant r) (ar_subjectModule r) (ar_subjectRef r) old)"

record create_result =
  cr_request :: approval_request
  cr_created :: bool

definition createRequest ::
    "approvals_db \<Rightarrow> approval_request \<Rightarrow> string list \<Rightarrow> (approval_error + create_result) \<times> approvals_db" where
  "createRequest db request eligible =
     (if list_ex (request_conflicts request) (db_requests db) then
        (case findPendingBySubject db (ar_tenant request) (ar_subjectModule request) (ar_subjectRef request) of
           None \<Rightarrow> (Inl Not_service_error, db)
         | Some existing \<Rightarrow> (Inr \<lparr>cr_request = existing, cr_created = False\<rparr>, db))
      else
        (Inr \<lparr>cr_request = request, cr_created = True\<rparr>,
         db\<lparr>db_requests := db_requests db @ [request],
            db_eligible := db_eligible db @ map (\<lambda>a. (ar_tenant request, ar_id request, a)) eligible\<rparr>))"

definition isSnapshotDecider :: "approvals_db \<Rightarrow> string \<Rightarrow> string \<Rightarrow> string \<Rightarrow> bool" where
  "isSnapshotDecider db tenant i account = ((tenant, i, account) \<in> set (db_eligible db))"

definition countDecidable :: "approvals_db \<Rightarrow> string \<Rightarrow> string \<Rightarrow> nat" where
  "countDecidable db tenant account =
     length (filter (\<lambda>r. ar_tenant r = tenant \<and> ar_status r = Pending \<and> isSnapshotDecider db (ar_tenant r) (ar_id r) account)
       (db_requests db))"

text \<open>\<open>ORDER BY decided_at, id\<close>.\<close>

definition ledger_rows :: "approvals_db \<Rightarrow> string \<Rightarrow> string \<Rightarrow> approval_decision list" where
  "ledger_rows db tenant i = filter (\<lambda>d. ad_tenant d = tenant \<and> ad_request d = i) (db_decisions db)"

definition listDecisions :: "(string \<Rightarrow> string \<Rightarrow> int) \<Rightarrow> approvals_db \<Rightarrow> string \<Rightarrow> string \<Rightarrow> approval_decision list" where
  "listDecisions collate db tenant i =
     sort_by (compare_then ad_decidedAt (\<lambda>x y. collate (ad_id x) (ad_id y))) (ledger_rows db tenant i)"

definition requestDetail ::
    "(string \<Rightarrow> string \<Rightarrow> int) \<Rightarrow> approvals_db \<Rightarrow> string \<Rightarrow> string \<Rightarrow> (approval_request \<times> approval_decision list) option" where
  "requestDetail collate db tenant i =
     map_option (\<lambda>r. (r, listDecisions collate db tenant i)) (getRequest db tenant i)"

text \<open>One decision: the request row is locked, so the whole of it is one step.\<close>

datatype decide_result =
  Recorded approval_request "approval_decision list" bool
| Not_pending approval_request
| Duplicate approval_request
| Not_found

definition by_member :: "approval_decision \<Rightarrow> bool" where
  "by_member d = (ad_kind d = Approve \<or> ad_kind d = Reject)"

definition decision_conflicts :: "approval_decision \<Rightarrow> approval_decision \<Rightarrow> bool" where
  "decision_conflicts d old =
     (ad_id old = ad_id d \<or>
      by_member d \<and> by_member old \<and> ad_tenant old = ad_tenant d \<and> ad_request old = ad_request d \<and>
      ad_decider d \<noteq> None \<and> ad_decider old = ad_decider d)"

definition set_status :: "string \<Rightarrow> string \<Rightarrow> approval_status \<Rightarrow> int \<Rightarrow> approval_request \<Rightarrow> approval_request" where
  "set_status tenant i s at r =
     (if ar_tenant r = tenant \<and> ar_id r = i \<and> ar_status r = Pending
      then r\<lparr>ar_status := s, ar_resolvedAt := Some at\<rparr> else r)"

definition decideRequest ::
    "(string \<Rightarrow> string \<Rightarrow> int) \<Rightarrow> approvals_db \<Rightarrow> approval_decision \<Rightarrow>
     (approval_decision list \<Rightarrow> approval_status option) \<Rightarrow> (approval_request \<Rightarrow> approval_audit option) \<Rightarrow>
     (approval_error + decide_result) \<times> approvals_db" where
  "decideRequest collate db decision resolve audit =
     (let tenant = ad_tenant decision; i = ad_request decision; at = ad_decidedAt decision in
      case getRequest db tenant i of
        None \<Rightarrow> (Inr Not_found, db)
      | Some request \<Rightarrow>
          if ar_status request \<noteq> Pending then (Inr (Not_pending request), db)
          else if (ad_kind decision = Expire) \<noteq> (ad_decider decision = None) then (Inl Not_service_error, db)
          else if list_ex (decision_conflicts decision) (db_decisions db) then (Inr (Duplicate request), db)
          else
            let db1 = db\<lparr>db_decisions := db_decisions db @ [decision]\<rparr>;
                decisions = listDecisions collate db1 tenant i
            in case resolve decisions of
                 None \<Rightarrow> (Inr (Recorded request decisions False), db1)
               | Some terminal \<Rightarrow>
                   let resolved = request\<lparr>ar_status := terminal, ar_resolvedAt := Some at\<rparr>
                   in (Inr (Recorded resolved decisions True),
                       db1\<lparr>db_requests := map (set_status tenant i terminal at) (db_requests db1),
                           db_audit := db_audit db1 @ (case audit resolved of None \<Rightarrow> [] | Some a \<Rightarrow> [a])\<rparr>))"

section \<open>Lists\<close>

record approval_filters =
  fl_status :: "approval_status option"
  fl_subjectModule :: "string option"
  fl_subjectRef :: "string option"
  fl_requester :: "string option"
  fl_decidableBy :: "string option"

record approval_page =
  pg_limit :: nat
  pg_descending :: bool
  pg_after :: "(int \<times> string) option"

definition wanted :: "'a option \<Rightarrow> 'a \<Rightarrow> bool" where
  "wanted f v = (f = None \<or> f = Some v)"

definition list_matches :: "approvals_db \<Rightarrow> string \<Rightarrow> approval_filters \<Rightarrow> approval_request \<Rightarrow> bool" where
  "list_matches db tenant f r =
     (ar_tenant r = tenant \<and> wanted (fl_status f) (ar_status r) \<and> wanted (fl_subjectModule f) (ar_subjectModule r) \<and>
      wanted (fl_subjectRef f) (ar_subjectRef r) \<and> wanted (fl_requester f) (ar_requester r) \<and>
      (case fl_decidableBy f of None \<Rightarrow> True | Some a \<Rightarrow> isSnapshotDecider db (ar_tenant r) (ar_id r) a))"

text \<open>The order \<open>created_at, id\<close>; a page goes on strictly after the row its cursor names.\<close>

definition list_order :: "(string \<Rightarrow> string \<Rightarrow> int) \<Rightarrow> int \<times> string \<Rightarrow> int \<times> string \<Rightarrow> int" where
  "list_order collate = compare_then fst (\<lambda>x y. collate (snd x) (snd y))"

definition list_key :: "approval_request \<Rightarrow> int \<times> string" where
  "list_key r = (ar_createdAt r, ar_id r)"

definition directed :: "bool \<Rightarrow> ('a \<Rightarrow> 'a \<Rightarrow> int) \<Rightarrow> 'a \<Rightarrow> 'a \<Rightarrow> int" where
  "directed descending cmp x y = (if descending then cmp y x else cmp x y)"

definition past_cursor :: "(string \<Rightarrow> string \<Rightarrow> int) \<Rightarrow> approval_page \<Rightarrow> approval_request \<Rightarrow> bool" where
  "past_cursor collate page r =
     (case pg_after page of
        None \<Rightarrow> True
      | Some cursor \<Rightarrow> directed (pg_descending page) (list_order collate) cursor (list_key r) < 0)"

definition listPage ::
    "(string \<Rightarrow> string \<Rightarrow> int) \<Rightarrow> approvals_db \<Rightarrow> string \<Rightarrow> approval_filters \<Rightarrow> approval_page \<Rightarrow> approval_request list" where
  "listPage collate db tenant f page =
     take (pg_limit page)
       (sort_by (\<lambda>x y. directed (pg_descending page) (list_order collate) (list_key x) (list_key y))
         (filter (past_cursor collate page) (filter (list_matches db tenant f) (db_requests db))))"

definition listRequests ::
    "(string \<Rightarrow> string \<Rightarrow> int) \<Rightarrow> approvals_db \<Rightarrow> string \<Rightarrow> approval_filters \<Rightarrow> nat \<Rightarrow> approval_request list" where
  "listRequests collate db tenant f limit =
     listPage collate db tenant f \<lparr>pg_limit = limit, pg_descending = True, pg_after = None\<rparr>"

text \<open>The one read across workspaces: routing columns of due pending requests.\<close>

definition routing_of :: "approval_request \<Rightarrow> approval_routing" where
  "routing_of r = \<lparr>rt_tenant = ar_tenant r, rt_id = ar_id r, rt_expiresAt = ar_expiresAt r, rt_status = ar_status r\<rparr>"

definition listDueExpiries :: "(string \<Rightarrow> string \<Rightarrow> int) \<Rightarrow> approvals_db \<Rightarrow> int \<Rightarrow> nat \<Rightarrow> approval_routing list" where
  "listDueExpiries collate db now limit =
     take limit (map routing_of
       (sort_by (compare_then ar_expiresAt (\<lambda>x y. if collate (ar_tenant x) (ar_tenant y) \<noteq> 0
            then collate (ar_tenant x) (ar_tenant y) else collate (ar_id x) (ar_id y)))
         (filter (\<lambda>r. ar_status r = Pending \<and> ar_expiresAt r \<le> now) (db_requests db))))"

section \<open>Retention and erasure\<close>

definition exportRequestsPage ::
    "(string \<Rightarrow> string \<Rightarrow> int) \<Rightarrow> approvals_db \<Rightarrow> string \<Rightarrow> string option \<Rightarrow> nat \<Rightarrow>
     (approval_request \<times> approval_decision list) list" where
  "exportRequestsPage collate db tenant afterId limit =
     map (\<lambda>r. (r, listDecisions collate db tenant (ar_id r)))
       (take limit (sort_by (\<lambda>x y. collate (ar_id x) (ar_id y))
         (filter (\<lambda>r. ar_tenant r = tenant \<and> (case afterId of None \<Rightarrow> True | Some i \<Rightarrow> collate i (ar_id r) < 0))
           (db_requests db))))"

definition deleteRequestsIn :: "approvals_db \<Rightarrow> string \<Rightarrow> string list \<Rightarrow> nat \<times> approvals_db" where
  "deleteRequestsIn db tenant ids =
     (if ids = [] then (0, db)
      else (length ids,
        db\<lparr>db_eligible := filter (\<lambda>(t, i, a). \<not> (t = tenant \<and> i \<in> set ids)) (db_eligible db),
           db_decisions := filter (\<lambda>d. \<not> (ad_tenant d = tenant \<and> ad_request d \<in> set ids)) (db_decisions db),
           db_audit := filter (\<lambda>a. \<not> (aa_tenant a = tenant \<and> aa_request a \<in> set ids)) (db_audit db),
           db_requests := filter (\<lambda>r. \<not> (ar_tenant r = tenant \<and> ar_id r \<in> set ids)) (db_requests db)\<rparr>))"

definition resolved_before :: "int \<Rightarrow> approval_request \<Rightarrow> bool" where
  "resolved_before before r =
     (ar_status r \<noteq> Pending \<and> (case ar_resolvedAt r of None \<Rightarrow> False | Some at \<Rightarrow> at < before))"

definition deleteResolvedBefore ::
    "(string \<Rightarrow> string \<Rightarrow> int) \<Rightarrow> approvals_db \<Rightarrow> string \<Rightarrow> int \<Rightarrow> nat \<Rightarrow> nat \<times> approvals_db" where
  "deleteResolvedBefore collate db tenant before limit =
     deleteRequestsIn db tenant
       (take limit (map ar_id (sort_by (compare_then (\<lambda>r. the (ar_resolvedAt r)) (\<lambda>x y. collate (ar_id x) (ar_id y)))
         (filter (\<lambda>r. ar_tenant r = tenant \<and> resolved_before before r) (db_requests db)))))"

definition deleteResolvedRequestedBy ::
    "(string \<Rightarrow> string \<Rightarrow> int) \<Rightarrow> approvals_db \<Rightarrow> string \<Rightarrow> string \<Rightarrow> nat \<Rightarrow> nat \<times> approvals_db" where
  "deleteResolvedRequestedBy collate db tenant account limit =
     deleteRequestsIn db tenant
       (take limit (map ar_id (sort_by (compare_then (\<lambda>r. - ar_createdAt r) (\<lambda>x y. collate (ar_id x) (ar_id y)))
         (filter (\<lambda>r. ar_tenant r = tenant \<and> ar_requester r = account \<and> ar_status r \<noteq> Pending) (db_requests db)))))"

definition ERASED_DECISION_COMMENT :: string where "ERASED_DECISION_COMMENT = ''[erased]''"
definition ERASED_ACCOUNT_PREFIX :: string where "ERASED_ACCOUNT_PREFIX = ''erased:''"

definition redact_row :: "string \<Rightarrow> string list \<Rightarrow> approval_decision \<Rightarrow> approval_decision" where
  "redact_row tenant ids d =
     (if ad_tenant d = tenant \<and> ad_id d \<in> set ids
      then d\<lparr>ad_comment := Some ERASED_DECISION_COMMENT, ad_decider := Some (ERASED_ACCOUNT_PREFIX @ ad_id d)\<rparr>
      else d)"

text \<open>
  The unique index on tenant, request and decider is not consulted by this update: a marker carries the identifier
  of its row, and accounts never begin with the prefix, so the rewritten column cannot collide (the invariant of
  \<open>Approvals_Invariant\<close> proves that the deciders stay distinct).
\<close>

definition redactDecisionsBy ::
    "(string \<Rightarrow> string \<Rightarrow> int) \<Rightarrow> approvals_db \<Rightarrow> string \<Rightarrow> string \<Rightarrow> nat \<Rightarrow> nat \<times> approvals_db" where
  "redactDecisionsBy collate db tenant account limit =
     (let ids = take limit (map ad_id (sort_by (\<lambda>x y. collate (ad_id x) (ad_id y))
            (filter (\<lambda>d. ad_tenant d = tenant \<and> ad_decider d = Some account) (db_decisions db))))
      in (length ids,
          db\<lparr>db_decisions := map (redact_row tenant ids) (db_decisions db)\<rparr>))"

text \<open>The marker of an eligibility row is fresh per row: \<open>fresh\<close> gives the values \<open>gen_random_uuid\<close> draws.\<close>

definition redactEligibilityOf ::
    "(string \<Rightarrow> string \<Rightarrow> int) \<Rightarrow> (string \<Rightarrow> string) \<Rightarrow> approvals_db \<Rightarrow> string \<Rightarrow> string \<Rightarrow> nat \<Rightarrow> nat \<times> approvals_db" where
  "redactEligibilityOf collate fresh db tenant account limit =
     (let ids = take limit (sort_by collate
            (map (\<lambda>(t, i, a). i) (filter (\<lambda>(t, i, a). t = tenant \<and> a = account) (db_eligible db))))
      in (length ids,
          db\<lparr>db_eligible := map (\<lambda>(t, i, a). if t = tenant \<and> a = account \<and> i \<in> set ids
                then (t, i, ERASED_ACCOUNT_PREFIX @ fresh i) else (t, i, a)) (db_eligible db)\<rparr>))"

definition countRequestedBy :: "approvals_db \<Rightarrow> string \<Rightarrow> string \<Rightarrow> nat" where
  "countRequestedBy db tenant account =
     length (filter (\<lambda>r. ar_tenant r = tenant \<and> ar_requester r = account) (db_requests db))"

end
