(* ===== verification/Approvals.thy ===== *)
theory Approvals
  imports Approvals_Store "HOL-Library.AList"
begin

text \<open>
  The approvals service, \<open>modules/approvals/src/services/approvals-service.ts\<close>. A call that writes is split
  where the source awaits the database: what it prepares from its reads, and the transaction that commits
  it, so that calls may interleave between the two. The clock, the identifiers it draws and the members
  auth.core answers are arguments. Callbacks (\<open>callbacks.ts\<close>) are a registry in insertion order; what is
  published and which callbacks run is the list of effects of a call.
\<close>

definition APPROVAL_DAY_MS :: int where "APPROVAL_DAY_MS = 86400000"

record open_input =
  oi_tenant :: string
  oi_subjectModule :: string
  oi_subjectRef :: string
  oi_permission :: string
  oi_action :: string
  oi_title :: string
  oi_summary :: "string option"
  oi_requester :: string
  oi_requirement :: approval_requirement

section \<open>What a call prepares\<close>

record open_fields =
  of_tenant :: string
  of_subjectModule :: string
  of_subjectRef :: string
  of_requester :: string
  of_requirement :: requirement_record
  of_permission :: string
  of_action :: string
  of_title :: string
  of_summary :: "string option"

definition validateOpen :: "open_input \<Rightarrow> int \<Rightarrow> approval_error + open_fields" where
  "validateOpen input defaultExpiryDays =
     and_then (bounded (oi_tenant input) 1 128) (\<lambda>tenant.
     and_then (bounded (oi_subjectModule input) 1 (al_subjectModule APPROVAL_LIMITS)) (\<lambda>module.
     and_then (bounded (oi_subjectRef input) 1 (al_subjectRef APPROVAL_LIMITS)) (\<lambda>ref.
     and_then (bounded (oi_requester input) 1 (al_accountId APPROVAL_LIMITS)) (\<lambda>requester.
     and_then (normalizeRequirement (oi_requirement input) defaultExpiryDays) (\<lambda>requirement.
     and_then (bounded (oi_permission input) 1 (al_permission APPROVAL_LIMITS)) (\<lambda>permission.
     and_then (bounded (oi_action input) 1 (al_action APPROVAL_LIMITS)) (\<lambda>action.
     and_then (bounded (oi_title input) 1 (al_title APPROVAL_LIMITS)) (\<lambda>title.
     and_then (optionalBounded (oi_summary input) (al_summary APPROVAL_LIMITS)) (\<lambda>summary.
       Inr \<lparr>of_tenant = tenant, of_subjectModule = module, of_subjectRef = ref, of_requester = requester,
            of_requirement = requirement, of_permission = permission, of_action = action, of_title = title,
            of_summary = summary\<rparr>)))))))))"

definition new_request :: "open_fields \<Rightarrow> string \<Rightarrow> int \<Rightarrow> approval_request" where
  "new_request f i createdAt =
     \<lparr>ar_id = i, ar_tenant = of_tenant f, ar_subjectModule = of_subjectModule f, ar_subjectRef = of_subjectRef f,
      ar_permission = of_permission f, ar_action = of_action f, ar_title = of_title f, ar_summary = of_summary f,
      ar_requester = of_requester f, ar_requirement = of_requirement f,
      ar_decisionsNeeded = req_decisions (of_requirement f), ar_status = Pending,
      ar_expiresAt = createdAt + req_expiresInDays (of_requirement f) * APPROVAL_DAY_MS, ar_resolvedAt = None,
      ar_createdAt = createdAt\<rparr>"

text \<open>Either the request already open, or the one to create and whose inbox it goes to.\<close>

datatype open_plan = Already_open approval_request | To_create approval_request "string list"

definition prepareOpen ::
    "approvals_db \<Rightarrow> open_input \<Rightarrow> int \<Rightarrow> (string \<Rightarrow> approval_member list) \<Rightarrow> string \<Rightarrow> int \<Rightarrow> approval_error + open_plan" where
  "prepareOpen db input defaultExpiryDays members i now =
     and_then (validateOpen input defaultExpiryDays) (\<lambda>f.
       case findPendingBySubject db (of_tenant f) (of_subjectModule f) (of_subjectRef f) of
         Some open_request \<Rightarrow> Inr (Already_open open_request)
       | None \<Rightarrow>
           and_then (resolveEligible (of_requirement f) (members (of_tenant f)) (of_requester f)) (\<lambda>eligible.
             Inr (To_create (new_request f i now) eligible)))"

text \<open>\<open>get\<close> and \<open>#existing\<close>.\<close>

definition serviceGet :: "approvals_db \<Rightarrow> string \<Rightarrow> string \<Rightarrow> approval_error + approval_request option" where
  "serviceGet db tenant i =
     and_then (bounded tenant 1 128) (\<lambda>t. and_then (bounded i 1 128) (\<lambda>j. Inr (getRequest db t j)))"

definition existing_request :: "approvals_db \<Rightarrow> string \<Rightarrow> string \<Rightarrow> approval_error + approval_request" where
  "existing_request db tenant i =
     and_then (serviceGet db tenant i) (\<lambda>found. case found of None \<Rightarrow> Inl APPROVAL_NOT_FOUND | Some r \<Rightarrow> Inr r)"

definition canRead :: "approvals_db \<Rightarrow> approval_request \<Rightarrow> string \<Rightarrow> bool \<Rightarrow> bool" where
  "canRead db request account manage =
     (if manage \<or> ar_requester request = account then True
      else isSnapshotDecider db (ar_tenant request) (ar_id request) account)"

definition assertPending :: "approval_request \<Rightarrow> approval_error + unit" where
  "assertPending request = throw_if (ar_status request \<noteq> Pending) APPROVAL_NOT_PENDING"

text \<open>What \<open>#record\<close> is called with: the request as it was read, and the decision without its identifier.\<close>

record planned_decision =
  pd_request :: approval_request
  pd_decider :: "string option"
  pd_kind :: decision_kind
  pd_comment :: "string option"
  pd_notify :: bool

definition live_decider ::
    "(string \<Rightarrow> string \<Rightarrow> approval_member option) \<Rightarrow> approval_request \<Rightarrow> string \<Rightarrow> approval_member option" where
  "live_decider member request account =
     (case member (ar_tenant request) account of
        None \<Rightarrow> None
      | Some m \<Rightarrow> if memberSatisfies (ar_requirement request) m (ar_requester request) then Some m else None)"

definition prepareDecide ::
    "approvals_db \<Rightarrow> (string \<Rightarrow> string \<Rightarrow> approval_member option) \<Rightarrow> string \<Rightarrow> string \<Rightarrow> string \<Rightarrow> bool \<Rightarrow> string option \<Rightarrow> bool \<Rightarrow>
     approval_error + planned_decision" where
  "prepareDecide db member tenant i account approving comment manage =
     and_then (existing_request db tenant i) (\<lambda>request.
       let decider = live_decider member request account in
       if decider = None \<and> \<not> canRead db request account manage then Inl APPROVAL_NOT_FOUND
       else and_then (assertPending request) (\<lambda>_.
         case decider of
           None \<Rightarrow> Inl APPROVAL_NOT_ELIGIBLE
         | Some m \<Rightarrow>
             and_then (optionalBounded comment (al_comment APPROVAL_LIMITS)) (\<lambda>text.
               Inr \<lparr>pd_request = request, pd_decider = Some (am_account m),
                    pd_kind = (if approving then Approve else Reject), pd_comment = text, pd_notify = True\<rparr>)))"

definition prepareCancel ::
    "approvals_db \<Rightarrow> string \<Rightarrow> string \<Rightarrow> string \<Rightarrow> bool \<Rightarrow> approval_error + planned_decision" where
  "prepareCancel db tenant i actorAccountId manage =
     and_then (bounded actorAccountId 1 (al_accountId APPROVAL_LIMITS)) (\<lambda>actor.
     and_then (existing_request db tenant i) (\<lambda>request.
       if \<not> canRead db request actor manage then Inl APPROVAL_NOT_FOUND
       else and_then (assertPending request) (\<lambda>_.
         if \<not> manage \<and> actor \<noteq> ar_requester request then Inl APPROVAL_NOT_CANCELLABLE
         else Inr \<lparr>pd_request = request, pd_decider = Some actor, pd_kind = Cancel, pd_comment = None, pd_notify = False\<rparr>)))"

text \<open>Nothing to do is \<open>None\<close>: the request is gone, resolved, or not due.\<close>

definition prepareExpire :: "approvals_db \<Rightarrow> approval_routing \<Rightarrow> int \<Rightarrow> planned_decision option" where
  "prepareExpire db routing now =
     (case getRequest db (rt_tenant routing) (rt_id routing) of
        None \<Rightarrow> None
      | Some request \<Rightarrow>
          if ar_status request \<noteq> Pending \<or> now < ar_expiresAt request then None
          else Some \<lparr>pd_request = request, pd_decider = None, pd_kind = Expire, pd_comment = None, pd_notify = True\<rparr>)"

section \<open>Committing a decision\<close>

definition approvals_in :: "approval_decision list \<Rightarrow> nat" where
  "approvals_in ds = length (filter (\<lambda>d. ad_kind d = Approve) ds)"

definition resolve_with :: "planned_decision \<Rightarrow> approval_decision list \<Rightarrow> approval_status option" where
  "resolve_with p decisions =
     (case pd_kind p of
        Reject \<Rightarrow> Some Rejected
      | Approve \<Rightarrow> if ar_decisionsNeeded (pd_request p) \<le> int (approvals_in decisions) then Some Approved else None
      | Cancel \<Rightarrow> Some Cancelled
      | Expire \<Rightarrow> Some Expired)"

definition APPROVAL_GRANT_TTL_MS :: int where "APPROVAL_GRANT_TTL_MS = 3600000"

text \<open>The key that signs grants; absent means none is issued.\<close>

definition grantIssued :: "string option \<Rightarrow> string \<Rightarrow> approval_request \<Rightarrow> approval_audit option" where
  "grantIssued grants auditId resolved =
     (case grants of
        None \<Rightarrow> None
      | Some keyId \<Rightarrow>
          if ar_status resolved \<noteq> Approved then None
          else case (decodeCapabilitySubjectRef (ar_subjectRef resolved), ar_resolvedAt resolved) of
                 (Some (capabilityId, inputDigest), Some at) \<Rightarrow>
                   Some \<lparr>aa_id = auditId, aa_tenant = ar_tenant resolved, aa_request = ar_id resolved,
                     aa_capabilityId = capabilityId, aa_inputDigest = inputDigest, aa_keyId = keyId,
                     aa_expiresAt = at + APPROVAL_GRANT_TTL_MS, aa_occurredAt = at\<rparr>
               | _ \<Rightarrow> None)"

definition decision_row :: "planned_decision \<Rightarrow> string \<Rightarrow> int \<Rightarrow> approval_decision" where
  "decision_row p i now =
     \<lparr>ad_id = i, ad_tenant = ar_tenant (pd_request p), ad_request = ar_id (pd_request p), ad_decider = pd_decider p,
      ad_kind = pd_kind p, ad_comment = pd_comment p, ad_decidedAt = now\<rparr>"

type_synonym approval_detail = "approval_request \<times> approval_decision list"

text \<open>The transaction of \<open>#record\<close> and the error its result means; \<open>resolved\<close> says whether effects follow.\<close>

definition commitDecision ::
    "(string \<Rightarrow> string \<Rightarrow> int) \<Rightarrow> string option \<Rightarrow> approvals_db \<Rightarrow> planned_decision \<Rightarrow> string \<Rightarrow> string \<Rightarrow> int \<Rightarrow>
     (approval_error + approval_detail \<times> bool) \<times> approvals_db" where
  "commitDecision collate grants db p i auditId now =
     (case decideRequest collate db (decision_row p i now) (resolve_with p) (grantIssued grants auditId) of
        (Inl e, db1) \<Rightarrow> (Inl e, db1)
      | (Inr Not_found, db1) \<Rightarrow> (Inl APPROVAL_NOT_FOUND, db1)
      | (Inr (Not_pending r), db1) \<Rightarrow> (Inl APPROVAL_NOT_PENDING, db1)
      | (Inr (Duplicate r), db1) \<Rightarrow> (Inl APPROVAL_ALREADY_DECIDED, db1)
      | (Inr (Recorded r ds resolved), db1) \<Rightarrow> (Inr ((r, ds), resolved), db1))"

section \<open>Callbacks and notifications\<close>

definition callback_key :: "string \<Rightarrow> string \<Rightarrow> string" where
  "callback_key tenant i = tenant @ ''::'' @ i"

definition registerCallback :: "nat \<Rightarrow> (string \<times> 'cb) list \<Rightarrow> string \<Rightarrow> string \<Rightarrow> 'cb \<Rightarrow> (string \<times> 'cb) list" where
  "registerCallback limit callbacks tenant i cb =
     (let entry = callback_key tenant i;
          others = AList.delete entry callbacks;
          kept = (if limit \<le> length others then tl others else others)
      in AList.update entry cb kept)"

definition takeCallback :: "(string \<times> 'cb) list \<Rightarrow> string \<Rightarrow> string \<Rightarrow> 'cb option \<times> (string \<times> 'cb) list" where
  "takeCallback callbacks tenant i =
     (map_of callbacks (callback_key tenant i), AList.delete (callback_key tenant i) callbacks)"

datatype notification_kind = Approval_requested | Approval_decided

record notification =
  nt_tenant :: string
  nt_kind :: notification_kind
  nt_sourceRef :: string
  nt_title :: string
  nt_body :: "string option"
  nt_recipients :: "string list"

definition MAX_RECIPIENTS :: nat where "MAX_RECIPIENTS = 64"

definition clamp_event :: "notification \<Rightarrow> notification" where
  "clamp_event n = n\<lparr>nt_sourceRef := take 200 (nt_sourceRef n), nt_title := take 200 (nt_title n),
     nt_body := map_option (take 4000) (nt_body n)\<rparr>"

text \<open>The calls to the publisher: batches of recipients, up to the first one that throws.\<close>

function recipient_batches :: "string list \<Rightarrow> string list list" where
  "recipient_batches rs =
     (if rs = [] then [] else map (take 128) (take MAX_RECIPIENTS rs) # recipient_batches (drop MAX_RECIPIENTS rs))"
  by pat_completeness auto
termination by (relation "measure length") (auto simp: MAX_RECIPIENTS_def)

declare recipient_batches.simps [simp del]

fun until_refused :: "('a \<Rightarrow> bool) \<Rightarrow> 'a list \<Rightarrow> 'a list" where
  "until_refused accepts [] = []"
| "until_refused accepts (x # xs) = x # (if accepts x then until_refused accepts xs else [])"

definition publishApprovalEvent :: "(notification \<Rightarrow> bool) option \<Rightarrow> notification \<Rightarrow> notification list" where
  "publishApprovalEvent publisher event =
     (case publisher of
        None \<Rightarrow> []
      | Some accepts \<Rightarrow>
          until_refused accepts (map (\<lambda>batch. (clamp_event event)\<lparr>nt_recipients := batch\<rparr>)
            (recipient_batches (nt_recipients event))))"

section \<open>The service\<close>

datatype 'cb effect = Published notification | Callback 'cb approval_request "string list"

record 'cb approvals_service =
  as_db :: approvals_db
  as_callbacks :: "(string \<times> 'cb) list"
  as_effects :: "'cb effect list"

record service_env =
  se_collate :: "string \<Rightarrow> string \<Rightarrow> int"
  se_members :: "string \<Rightarrow> approval_member list"
  se_member :: "string \<Rightarrow> string \<Rightarrow> approval_member option"
  se_defaultExpiryDays :: "string \<Rightarrow> int"
  se_grantKey :: "string option"
  se_publisher :: "(notification \<Rightarrow> bool) option"

definition add_effects :: "'cb effect list \<Rightarrow> 'cb approvals_service \<Rightarrow> 'cb approvals_service" where
  "add_effects es st = st\<lparr>as_effects := as_effects st @ es\<rparr>"

definition register_resolved ::
    "string \<Rightarrow> string \<Rightarrow> 'cb option \<Rightarrow> 'cb approvals_service \<Rightarrow> 'cb approvals_service" where
  "register_resolved tenant i onResolved st =
     (case onResolved of
        None \<Rightarrow> st
      | Some cb \<Rightarrow> st\<lparr>as_callbacks := registerCallback (al_callbacks APPROVAL_LIMITS) (as_callbacks st) tenant i cb\<rparr>)"

definition openRequest ::
    "service_env \<Rightarrow> 'cb approvals_service \<Rightarrow> open_input \<Rightarrow> 'cb option \<Rightarrow> string \<Rightarrow> int \<Rightarrow>
     (approval_error + approval_request) \<times> 'cb approvals_service" where
  "openRequest env st input onResolved i now =
     (case prepareOpen (as_db st) input (se_defaultExpiryDays env (trim (oi_tenant input))) (se_members env) i now of
        Inl e \<Rightarrow> (Inl e, st)
      | Inr (Already_open r) \<Rightarrow> (Inr r, register_resolved (trim (oi_tenant input)) (ar_id r) onResolved st)
      | Inr (To_create request eligible) \<Rightarrow>
          (case createRequest (as_db st) request eligible of
             (Inl e, db1) \<Rightarrow> (Inl e, st\<lparr>as_db := db1\<rparr>)
           | (Inr result, db1) \<Rightarrow>
               let r = cr_request result;
                   st1 = register_resolved (ar_tenant request) (ar_id r) onResolved (st\<lparr>as_db := db1\<rparr>)
               in (Inr r,
                   if cr_created result then
                     add_effects (map Published (publishApprovalEvent (se_publisher env)
                       \<lparr>nt_tenant = ar_tenant request, nt_kind = Approval_requested, nt_sourceRef = ar_id r,
                        nt_title = ar_title r, nt_body = ar_summary r, nt_recipients = eligible\<rparr>)) st1
                   else st1)))"

fun status_name :: "approval_status \<Rightarrow> string" where
  "status_name Pending = ''pending''"
| "status_name Approved = ''approved''"
| "status_name Rejected = ''rejected''"
| "status_name Expired = ''expired''"
| "status_name Cancelled = ''cancelled''"

text \<open>What follows the deciding transaction: the requester is told, and the callback runs once.\<close>

definition afterResolved ::
    "service_env \<Rightarrow> bool \<Rightarrow> approval_detail \<Rightarrow> 'cb approvals_service \<Rightarrow> 'cb approvals_service" where
  "afterResolved env notifyRequester detail st =
     (case detail of (r, ds) \<Rightarrow>
        let told = (if notifyRequester then publishApprovalEvent (se_publisher env)
               \<lparr>nt_tenant = ar_tenant r, nt_kind = Approval_decided, nt_sourceRef = ar_id r, nt_title = ar_title r,
                nt_body = Some (''The request is '' @ status_name (ar_status r) @ ''.''),
                nt_recipients = [ar_requester r]\<rparr> else []);
            (cb, kept) = takeCallback (as_callbacks st) (ar_tenant r) (ar_id r)
        in add_effects (map Published told @
             (case cb of None \<Rightarrow> [] | Some f \<Rightarrow> [Callback f r (deciderAccountIds r ds)]))
             (st\<lparr>as_callbacks := kept\<rparr>))"

definition recordDecision ::
    "service_env \<Rightarrow> 'cb approvals_service \<Rightarrow> planned_decision \<Rightarrow> string \<Rightarrow> string \<Rightarrow> int \<Rightarrow>
     (approval_error + approval_detail) \<times> 'cb approvals_service" where
  "recordDecision env st p i auditId now =
     (case commitDecision (se_collate env) (se_grantKey env) (as_db st) p i auditId now of
        (Inl e, db1) \<Rightarrow> (Inl e, st\<lparr>as_db := db1\<rparr>)
      | (Inr (detail, resolved), db1) \<Rightarrow>
          let st1 = st\<lparr>as_db := db1\<rparr>
          in (Inr detail, if resolved then afterResolved env (pd_notify p) detail st1 else st1))"

record draw =
  dr_decision :: string
  dr_audit :: string
  dr_now :: int

definition record_with ::
    "service_env \<Rightarrow> 'cb approvals_service \<Rightarrow> (approval_error + planned_decision) \<Rightarrow> draw \<Rightarrow>
     (approval_error + approval_detail) \<times> 'cb approvals_service" where
  "record_with env st prepared d =
     (case prepared of
        Inl e \<Rightarrow> (Inl e, st)
      | Inr p \<Rightarrow> recordDecision env st p (dr_decision d) (dr_audit d) (dr_now d))"

definition decide ::
    "service_env \<Rightarrow> 'cb approvals_service \<Rightarrow> string \<Rightarrow> string \<Rightarrow> string \<Rightarrow> bool \<Rightarrow> string option \<Rightarrow> bool \<Rightarrow> draw \<Rightarrow>
     (approval_error + approval_detail) \<times> 'cb approvals_service" where
  "decide env st tenant i account approving comment manage d =
     record_with env st (prepareDecide (as_db st) (se_member env) tenant i account approving comment manage) d"

definition cancel ::
    "service_env \<Rightarrow> 'cb approvals_service \<Rightarrow> string \<Rightarrow> string \<Rightarrow> string \<Rightarrow> bool \<Rightarrow> draw \<Rightarrow>
     (approval_error + approval_detail) \<times> 'cb approvals_service" where
  "cancel env st tenant i actor manage d = record_with env st (prepareCancel (as_db st) tenant i actor manage) d"

definition expireRequest ::
    "service_env \<Rightarrow> 'cb approvals_service \<Rightarrow> approval_routing \<Rightarrow> draw \<Rightarrow>
     (approval_error + unit) \<times> 'cb approvals_service" where
  "expireRequest env st routing d =
     (case prepareExpire (as_db st) routing (dr_now d) of
        None \<Rightarrow> (Inr (), st)
      | Some p \<Rightarrow>
          (case recordDecision env st p (dr_decision d) (dr_audit d) (dr_now d) of
             (Inl e, st1) \<Rightarrow> (Inl e, st1)
           | (Inr _, st1) \<Rightarrow> (Inr (), st1)))"

datatype decide_outcome = Decided | Was_not_found | Refused approval_error

fun decideMany ::
    "service_env \<Rightarrow> 'cb approvals_service \<Rightarrow> string \<Rightarrow> (string \<times> draw) list \<Rightarrow> string \<Rightarrow> bool \<Rightarrow> string option \<Rightarrow> bool \<Rightarrow>
     (approval_error + (string \<times> decide_outcome) list) \<times> 'cb approvals_service" where
  "decideMany env st tenant [] account approving comment manage = (Inr [], st)"
| "decideMany env st tenant ((i, d) # ids) account approving comment manage =
     (case decide env st tenant i account approving comment manage d of
        (Inl Not_service_error, st1) \<Rightarrow> (Inl Not_service_error, st1)
      | (r, st1) \<Rightarrow>
          let outcome = (case r of Inr _ \<Rightarrow> Decided | Inl APPROVAL_NOT_FOUND \<Rightarrow> Was_not_found | Inl e \<Rightarrow> Refused e)
          in case decideMany env st1 tenant ids account approving comment manage of
               (Inl e, st2) \<Rightarrow> (Inl e, st2)
             | (Inr outcomes, st2) \<Rightarrow> (Inr ((i, outcome) # outcomes), st2))"

record viewer_rights =
  vr_account :: string
  vr_canDecide :: bool
  vr_canCancel :: bool

definition viewerRights :: "service_env \<Rightarrow> approval_request \<Rightarrow> string \<Rightarrow> bool \<Rightarrow> bool \<Rightarrow> viewer_rights" where
  "viewerRights env request account mayDecide manage =
     \<lparr>vr_account = account,
      vr_canDecide = (ar_status request = Pending \<and> mayDecide \<and> live_decider (se_member env) request account \<noteq> None),
      vr_canCancel = (ar_status request = Pending \<and> (manage \<or> ar_requester request = account))\<rparr>"

end
