(* ===== verification/Approvals_Invariant.thy ===== *)
theory Approvals_Invariant
  imports Approvals
begin

text \<open>
  Approvals under interleaving. A step plans a call from what it reads, commits one that was planned, or is a
  retention or erasure batch; between the plan and the commit of a call any other steps may happen. The
  identifiers of requests are random, so a plan draws one never drawn before; accounts of auth.core do not
  begin with the marker of an erased account. The invariant ties the state of every request to its ledger.
\<close>

record approvals_run =
  run_db :: approvals_db
  run_creates :: "(approval_request \<times> string list) list"
  run_planned :: "planned_decision list"
  run_drawn :: "string list"

definition idle_run :: approvals_run where
  "idle_run = \<lparr>run_db = empty_approvals, run_creates = [], run_planned = [], run_drawn = []\<rparr>"

definition erased :: "string \<Rightarrow> bool" where
  "erased = starts_with ERASED_ACCOUNT_PREFIX"

inductive approvals_step :: "(string \<Rightarrow> string \<Rightarrow> int) \<Rightarrow> approvals_run \<Rightarrow> approvals_run \<Rightarrow> bool" for collate where
  plan_open:
    "prepareOpen (run_db s) input days members i now = Inr (To_create r eligible) \<Longrightarrow> i \<notin> set (run_drawn s) \<Longrightarrow>
     \<not> erased (ar_requester r) \<Longrightarrow>
     approvals_step collate s (s\<lparr>run_creates := (r, eligible) # run_creates s, run_drawn := i # run_drawn s\<rparr>)"
| commit_open:
    "run_creates s = cs @ (r, eligible) # cs' \<Longrightarrow>
     approvals_step collate s (s\<lparr>run_db := snd (createRequest (run_db s) r eligible), run_creates := cs @ cs'\<rparr>)"
| plan_decide:
    "prepareDecide (run_db s) member tenant i account approving comment manage = Inr p \<Longrightarrow>
     \<not> erased (the (pd_decider p)) \<Longrightarrow>
     approvals_step collate s (s\<lparr>run_planned := p # run_planned s\<rparr>)"
| plan_cancel:
    "prepareCancel (run_db s) tenant i actor manage = Inr p \<Longrightarrow>
     approvals_step collate s (s\<lparr>run_planned := p # run_planned s\<rparr>)"
| plan_expire:
    "prepareExpire (run_db s) routing now = Some p \<Longrightarrow>
     approvals_step collate s (s\<lparr>run_planned := p # run_planned s\<rparr>)"
| commit_decision:
    "p \<in> set (run_planned s) \<Longrightarrow>
     approvals_step collate s (s\<lparr>run_db := snd (commitDecision collate key (run_db s) p i auditId now)\<rparr>)"
| sweep_resolved:
    "approvals_step collate s (s\<lparr>run_db := snd (deleteResolvedBefore collate (run_db s) tenant before limit)\<rparr>)"
| sweep_requester:
    "approvals_step collate s (s\<lparr>run_db := snd (deleteResolvedRequestedBy collate (run_db s) tenant account limit)\<rparr>)"
| redact_decisions:
    "approvals_step collate s (s\<lparr>run_db := snd (redactDecisionsBy collate (run_db s) tenant account limit)\<rparr>)"
| redact_eligibility:
    "approvals_step collate s (s\<lparr>run_db := snd (redactEligibilityOf collate fresh (run_db s) tenant account limit)\<rparr>)"

inductive approvals_reach :: "(string \<Rightarrow> string \<Rightarrow> int) \<Rightarrow> approvals_run \<Rightarrow> bool" for collate where
  reach_idle: "approvals_reach collate idle_run"
| reach_step: "approvals_reach collate s \<Longrightarrow> approvals_step collate s s' \<Longrightarrow> approvals_reach collate s'"

inductive_cases approvals_stepE: "approvals_step collate s s'"

section \<open>What ties a request to its ledger\<close>

definition ledger_of :: "approvals_db \<Rightarrow> approval_request \<Rightarrow> approval_decision list" where
  "ledger_of db r = ledger_rows db (ar_tenant r) (ar_id r)"

definition settled_by_member :: "approval_status \<Rightarrow> bool" where
  "settled_by_member s = (s \<noteq> Pending \<and> s \<noteq> Approved)"

text \<open>The counts: approvals under way, then the one row that settled the request.\<close>

definition ledger_counts :: "approval_request \<Rightarrow> approval_decision list \<Rightarrow> bool" where
  "ledger_counts r ds =
     (1 \<le> ar_decisionsNeeded r \<and> (ar_resolvedAt r = None) = (ar_status r = Pending) \<and>
      (if ar_status r = Approved then int (approvals_in ds) = ar_decisionsNeeded r
       else int (approvals_in ds) < ar_decisionsNeeded r) \<and>
      map ad_kind (filter (\<lambda>d. ad_kind d \<noteq> Approve) ds) =
        (if settled_by_member (ar_status r) then [SETTLING_DECISION (ar_status r)] else []))"

text \<open>Who decided: accounts other than the requester, each once; an erased one keeps a marker of its own.\<close>

definition decider_ok :: "approval_request \<Rightarrow> approval_decision \<Rightarrow> bool" where
  "decider_ok r d =
     (case ad_decider d of
        None \<Rightarrow> False
      | Some a \<Rightarrow> a \<noteq> ar_requester r \<and> (erased a \<longrightarrow> a = ERASED_ACCOUNT_PREFIX @ ad_id d))"

definition ledger_deciders :: "approval_request \<Rightarrow> approval_decision list \<Rightarrow> bool" where
  "ledger_deciders r ds =
     (list_all (decider_ok r) (filter by_member ds) \<and> distinct (map ad_decider (filter by_member ds)))"

definition request_ok :: "approvals_db \<Rightarrow> approval_request \<Rightarrow> bool" where
  "request_ok db r =
     (\<not> erased (ar_requester r) \<and> ledger_counts r (ledger_of db r) \<and> ledger_deciders r (ledger_of db r))"

definition one_pending :: "approval_request list \<Rightarrow> bool" where
  "one_pending rs = distinct (map (\<lambda>r. (ar_tenant r, ar_subjectModule r, ar_subjectRef r))
      (filter (\<lambda>r. ar_status r = Pending) rs))"

definition db_ok :: "approvals_db \<Rightarrow> bool" where
  "db_ok db =
     (distinct (map ar_id (db_requests db)) \<and> one_pending (db_requests db) \<and>
      distinct (map ad_id (db_decisions db)) \<and>
      (\<forall>d \<in> set (db_decisions db). \<exists>r \<in> set (db_requests db). ar_tenant r = ad_tenant d \<and> ar_id r = ad_request d) \<and>
      (\<forall>r \<in> set (db_requests db). request_ok db r))"

text \<open>A plan knows the parts of its request that never change.\<close>

definition same_question :: "approval_request \<Rightarrow> approval_request \<Rightarrow> bool" where
  "same_question r r' =
     (ar_tenant r = ar_tenant r' \<and> ar_requester r = ar_requester r' \<and> ar_decisionsNeeded r = ar_decisionsNeeded r')"

definition plan_ok :: "approvals_run \<Rightarrow> planned_decision \<Rightarrow> bool" where
  "plan_ok s p =
     (ar_id (pd_request p) \<in> set (run_drawn s) \<and> ar_id (pd_request p) \<notin> set (map (ar_id \<circ> fst) (run_creates s)) \<and>
      (\<forall>r \<in> set (db_requests (run_db s)). ar_id r = ar_id (pd_request p) \<longrightarrow> same_question r (pd_request p)) \<and>
      (pd_kind p = Approve \<or> pd_kind p = Reject \<longrightarrow>
        (\<exists>a. pd_decider p = Some a \<and> a \<noteq> ar_requester (pd_request p) \<and> \<not> erased a)))"

definition create_ok :: "approval_request \<Rightarrow> bool" where
  "create_ok r = (ar_status r = Pending \<and> ar_resolvedAt r = None \<and> 1 \<le> ar_decisionsNeeded r \<and> \<not> erased (ar_requester r))"

definition run_ok :: "approvals_run \<Rightarrow> bool" where
  "run_ok s =
     (db_ok (run_db s) \<and>
      set (map ar_id (db_requests (run_db s))) \<subseteq> set (run_drawn s) \<and>
      set (map (ar_id \<circ> fst) (run_creates s)) \<subseteq> set (run_drawn s) \<and>
      distinct (map (ar_id \<circ> fst) (run_creates s)) \<and>
      set (map (ar_id \<circ> fst) (run_creates s)) \<inter> set (map ar_id (db_requests (run_db s))) = {} \<and>
      (\<forall>(r, e) \<in> set (run_creates s). create_ok r) \<and>
      (\<forall>p \<in> set (run_planned s). plan_ok s p))"

lemma idle_run_ok: "run_ok idle_run"
  by (simp add: run_ok_def idle_run_def db_ok_def empty_approvals_def one_pending_def)

section \<open>Reading\<close>

lemma getRequest_Some: "getRequest db t i = Some r \<Longrightarrow> r \<in> set (db_requests db) \<and> ar_tenant r = t \<and> ar_id r = i"
  by (auto simp: getRequest_def first_row_def find_Some_iff)

lemma approvals_in_sort [simp]: "approvals_in (sort_by cmp ds) = approvals_in ds"
proof -
  have "mset (filter P (sort_by cmp ds)) = mset (filter P ds)" for P by simp
  then show ?thesis unfolding approvals_in_def by (metis size_mset)
qed

lemma existing_request_Inr:
  "existing_request db t i = Inr r \<Longrightarrow> r \<in> set (db_requests db)"
  by (auto simp: existing_request_def serviceGet_def result_simps dest: getRequest_Some split: option.splits)

lemma memberSatisfies_other: "memberSatisfies q m a \<Longrightarrow> am_account m \<noteq> a"
  by (auto simp: memberSatisfies_def split: if_splits)

lemma prepareDecide_plan:
  assumes "prepareDecide db member tenant i account approving comment manage = Inr p"
  shows "pd_request p \<in> set (db_requests db)" "pd_kind p = (if approving then Approve else Reject)"
    "\<exists>m. member (ar_tenant (pd_request p)) account = Some m \<and> pd_decider p = Some (am_account m) \<and>
       memberSatisfies (ar_requirement (pd_request p)) m (ar_requester (pd_request p))"
    "ar_status (pd_request p) = Pending"
  using assms
  by (auto simp: prepareDecide_def live_decider_def Let_def result_simps assertPending_def dest: existing_request_Inr
      split: if_splits option.splits)

lemma prepareCancel_plan:
  "prepareCancel db tenant i actor manage = Inr p \<Longrightarrow> pd_request p \<in> set (db_requests db) \<and> pd_kind p = Cancel"
  by (auto simp: prepareCancel_def result_simps dest: existing_request_Inr split: if_splits)

lemma prepareExpire_plan:
  "prepareExpire db routing now = Some p \<Longrightarrow> pd_request p \<in> set (db_requests db) \<and> pd_kind p = Expire"
  by (auto simp: prepareExpire_def dest: getRequest_Some split: if_splits option.splits)

lemma prepareOpen_plan:
  assumes "prepareOpen db input days members i now = Inr (To_create r eligible)"
  shows "ar_id r = i" "ar_status r = Pending" "ar_resolvedAt r = None" "1 \<le> ar_decisionsNeeded r"
proof -
  from assms obtain f where f: "validateOpen input days = Inr f" "r = new_request f i now"
    by (auto simp: prepareOpen_def result_simps split: option.splits)
  then show "ar_id r = i" "ar_status r = Pending" "ar_resolvedAt r = None" by (simp_all add: new_request_def)
  have "1 \<le> req_decisions (of_requirement f)"
    using f(1) by (auto simp: validateOpen_def normalizeRequirement_def boundedInteger_def result_simps split: if_splits)
  then show "1 \<le> ar_decisionsNeeded r" by (simp add: f(2) new_request_def)
qed

section \<open>Every transaction keeps the ledgers\<close>

lemma db_ok_cong:
  "db_requests db = db_requests db' \<Longrightarrow> db_decisions db = db_decisions db' \<Longrightarrow> db_ok db = db_ok db'"
  by (simp add: db_ok_def request_ok_def ledger_of_def ledger_rows_def)

lemma one_pending_append:
  "one_pending (rs @ [r]) \<longleftrightarrow> one_pending rs \<and>
     (ar_status r = Pending \<longrightarrow> \<not> list_ex (pending_for (ar_tenant r) (ar_subjectModule r) (ar_subjectRef r)) rs)"
  by (auto simp: one_pending_def list_ex_iff pending_for_def image_iff) metis+

lemma one_pending_filter: "one_pending rs \<Longrightarrow> one_pending (filter P rs)"
proof (induction rs)
  case (Cons r rs)
  then show ?case by (auto simp: one_pending_def)
qed (simp add: one_pending_def)

lemma one_pending_set_status:
  assumes "s \<noteq> Pending" "one_pending rs"
  shows "one_pending (map (set_status t i s at) rs)"
proof -
  let ?q = "\<lambda>r. (ar_tenant r, ar_subjectModule r, ar_subjectRef r)"
  have "map ?q (filter (\<lambda>r. ar_status r = Pending) (map (set_status t i s at) rs)) =
      map ?q (filter (\<lambda>r. ar_status r = Pending) (filter (\<lambda>r. \<not> (ar_tenant r = t \<and> ar_id r = i)) rs))"
    using assms(1) by (induction rs) (simp_all add: set_status_def)
  then show ?thesis
    using one_pending_filter [OF assms(2), of "\<lambda>r. \<not> (ar_tenant r = t \<and> ar_id r = i)"]
    unfolding one_pending_def by (simp only:)
qed

lemma create_keeps:
  assumes "db_ok db" "create_ok r" "ar_id r \<notin> set (map ar_id (db_requests db))"
  shows "db_ok (snd (createRequest db r eligible))"
    "set (map ar_id (db_requests (snd (createRequest db r eligible)))) \<subseteq> insert (ar_id r) (set (map ar_id (db_requests db)))"
    "x \<in> set (db_requests (snd (createRequest db r eligible))) \<Longrightarrow> x \<in> set (db_requests db) \<or> x = r"
proof -
  show "set (map ar_id (db_requests (snd (createRequest db r eligible)))) \<subseteq> insert (ar_id r) (set (map ar_id (db_requests db)))"
    "x \<in> set (db_requests (snd (createRequest db r eligible))) \<Longrightarrow> x \<in> set (db_requests db) \<or> x = r"
    by (auto simp: createRequest_def split: if_splits option.splits)
  show "db_ok (snd (createRequest db r eligible))"
  proof (cases "list_ex (request_conflicts r) (db_requests db)")
    case True
    then show ?thesis using assms(1) by (simp add: createRequest_def split: option.splits)
  next
    case False
    have empty: "ledger_of db r = []"
    proof -
      have "ad_request d \<noteq> ar_id r" if "d \<in> set (db_decisions db)" for d
        using assms(1,3) that unfolding db_ok_def by (metis image_eqI list.set_map)
      then show ?thesis by (simp add: ledger_of_def ledger_rows_def filter_empty_conv)
    qed
    have "\<not> list_ex (pending_for (ar_tenant r) (ar_subjectModule r) (ar_subjectRef r)) (db_requests db)"
      using False assms(2) by (auto simp: list_ex_iff request_conflicts_def create_ok_def)
    moreover have "request_ok db r"
      using assms(2) empty
      by (simp add: request_ok_def ledger_counts_def ledger_deciders_def create_ok_def approvals_in_def settled_by_member_def)
    ultimately show ?thesis
      using False assms
      by (auto simp: createRequest_def db_ok_def one_pending_append request_ok_def ledger_of_def ledger_rows_def)
  qed
qed

lemma delete_keeps:
  assumes "db_ok db"
  shows "db_ok (snd (deleteRequestsIn db tenant ids))" "set (db_requests (snd (deleteRequestsIn db tenant ids))) \<subseteq> set (db_requests db)"
proof -
  let ?db = "snd (deleteRequestsIn db tenant ids)"
  show sub: "set (db_requests ?db) \<subseteq> set (db_requests db)" by (auto simp: deleteRequestsIn_def)
  have rows: "ledger_of ?db r = ledger_of db r" if "r \<in> set (db_requests ?db)" for r
  proof -
    have "filter (\<lambda>d. \<not> (ad_tenant d = tenant \<and> ad_request d \<in> set ids) \<and> ad_tenant d = ar_tenant r \<and> ad_request d = ar_id r)
        (db_decisions db) = filter (\<lambda>d. ad_tenant d = ar_tenant r \<and> ad_request d = ar_id r) (db_decisions db)"
      if "\<not> (ar_tenant r = tenant \<and> ar_id r \<in> set ids)"
      using that by (intro filter_cong) auto
    then show ?thesis using that by (auto simp: deleteRequestsIn_def ledger_of_def ledger_rows_def split: if_splits)
  qed
  then have ok: "request_ok ?db r" if "r \<in> set (db_requests ?db)" for r
    using that sub assms by (auto simp: db_ok_def request_ok_def)
  have ids: "distinct (map ar_id (db_requests ?db))" "distinct (map ad_id (db_decisions ?db))" "one_pending (db_requests ?db)"
    using assms by (auto simp: deleteRequestsIn_def db_ok_def distinct_map_filter one_pending_filter)
  have refs: "\<exists>r \<in> set (db_requests ?db). ar_tenant r = ad_tenant d \<and> ar_id r = ad_request d" if "d \<in> set (db_decisions ?db)" for d
    using that assms by (fastforce simp: deleteRequestsIn_def db_ok_def split: if_splits)
  show "db_ok ?db" unfolding db_ok_def using ok ids refs by blast
qed

lemma redact_row_simps [simp]:
  "ad_id (redact_row t ids d) = ad_id d" "ad_kind (redact_row t ids d) = ad_kind d"
  "ad_tenant (redact_row t ids d) = ad_tenant d" "ad_request (redact_row t ids d) = ad_request d"
  "by_member (redact_row t ids d) = by_member d"
  by (simp_all add: redact_row_def by_member_def)

lemma erased_prefix [simp]: "erased (ERASED_ACCOUNT_PREFIX @ x)"
  by (simp add: erased_def starts_with_def)

lemma redact_row_decider:
  "redact_row t ids d = d \<or> ad_decider (redact_row t ids d) = Some (ERASED_ACCOUNT_PREFIX @ ad_id d)"
  by (simp add: redact_row_def)

lemma decider_ok_redact: "\<not> erased (ar_requester r) \<Longrightarrow> decider_ok r d \<Longrightarrow> decider_ok r (redact_row t ids d)"
proof (cases "redact_row t ids d = d")
  case False
  moreover have "ERASED_ACCOUNT_PREFIX @ ad_id d \<noteq> ar_requester r" if "\<not> erased (ar_requester r)"
    using that erased_prefix by metis
  ultimately show "\<not> erased (ar_requester r) \<Longrightarrow> decider_ok r (redact_row t ids d)"
    using redact_row_decider [of t ids d] by (simp add: decider_ok_def)
qed simp

lemma decider_ok_erased: "decider_ok r d \<Longrightarrow> ad_decider d = Some a \<Longrightarrow> erased a \<Longrightarrow> a = ERASED_ACCOUNT_PREFIX @ ad_id d"
  by (simp add: decider_ok_def)

lemma redact_deciders:
  assumes "ledger_deciders r ds" "\<not> erased (ar_requester r)" "distinct (map ad_id ds)"
  shows "ledger_deciders r (map (redact_row t ids) ds)"
proof -
  let ?f = "redact_row t ids" and ?m = "filter by_member ds"
  have old: "decider_ok r d" "decider_ok r (?f d)" if "d \<in> set ?m" for d
    using assms(1,2) that decider_ok_redact by (auto simp: ledger_deciders_def list_all_iff)
  have i: "inj_on ad_decider (set ?m)" "inj_on ad_id (set ds)"
    using assms(1,3) by (auto simp: ledger_deciders_def distinct_map)
  have "d = d'" if d: "d \<in> set ?m" "d' \<in> set ?m" and eq: "ad_decider (?f d) = ad_decider (?f d')" for d d'
  proof (cases "?f d = d \<and> ?f d' = d'")
    case True
    then show ?thesis using i(1) d eq by (auto dest: inj_onD)
  next
    case False
    then obtain a where a: "ad_decider (?f d) = Some a" "erased a"
      using redact_row_decider [of t ids d] redact_row_decider [of t ids d'] eq erased_prefix by metis
    have "a = ERASED_ACCOUNT_PREFIX @ ad_id d" "a = ERASED_ACCOUNT_PREFIX @ ad_id d'"
      using decider_ok_erased [OF old(2) [OF d(1)] a] decider_ok_erased [OF old(2) [OF d(2)]] a eq by simp_all
    then have "ad_id d = ad_id d'" by simp
    then show ?thesis using i(2) d by (auto dest: inj_onD)
  qed
  then have "inj_on (ad_decider \<circ> ?f) (set ?m)" by (intro inj_onI) (simp add: o_def)
  moreover have "distinct ?m" using assms(3) by (simp add: distinct_map)
  ultimately have "distinct (map (ad_decider \<circ> ?f) ?m)" by (simp add: distinct_map)
  moreover have "filter by_member (map ?f ds) = map ?f ?m" by (simp add: filter_map o_def)
  ultimately show ?thesis using old(2) by (simp add: ledger_deciders_def list_all_iff)
qed

lemma redact_counts: "ledger_counts r (map (redact_row t ids) ds) = ledger_counts r ds"
proof -
  have "approvals_in (map (redact_row t ids) ds) = approvals_in ds"
    "map ad_kind (filter (\<lambda>d. ad_kind d \<noteq> Approve) (map (redact_row t ids) ds)) = map ad_kind (filter (\<lambda>d. ad_kind d \<noteq> Approve) ds)"
    by (simp_all add: approvals_in_def filter_map o_def)
  then show ?thesis unfolding ledger_counts_def by simp
qed

lemma redact_keeps:
  assumes "db_ok db"
  shows "db_ok (snd (redactDecisionsBy collate db tenant account limit))"
    "db_requests (snd (redactDecisionsBy collate db tenant account limit)) = db_requests db"
proof -
  obtain ids where r: "snd (redactDecisionsBy collate db tenant account limit) =
      db\<lparr>db_decisions := map (redact_row tenant ids) (db_decisions db)\<rparr>"
    by (auto simp: redactDecisionsBy_def Let_def)
  let ?db = "db\<lparr>db_decisions := map (redact_row tenant ids) (db_decisions db)\<rparr>"
  have rows: "ledger_of ?db r = map (redact_row tenant ids) (ledger_of db r)" for r
    by (simp add: ledger_of_def ledger_rows_def filter_map o_def)
  have "request_ok ?db r" if "r \<in> set (db_requests db)" for r
  proof -
    have "distinct (map ad_id (ledger_of db r))"
      using assms by (simp add: db_ok_def ledger_of_def ledger_rows_def distinct_map_filter)
    then show ?thesis
      using assms that redact_deciders unfolding request_ok_def rows redact_counts by (auto simp: db_ok_def request_ok_def)
  qed
  moreover have "map ad_id (db_decisions ?db) = map ad_id (db_decisions db)" by simp
  moreover have "db_requests ?db = db_requests db" by simp
  moreover have "\<exists>r \<in> set (db_requests db). ar_tenant r = ad_tenant d \<and> ar_id r = ad_request d" if "d \<in> set (db_decisions ?db)" for d
    using that assms by (fastforce simp: db_ok_def)
  ultimately show "db_ok (snd (redactDecisionsBy collate db tenant account limit))"
    using assms unfolding r db_ok_def by metis
  show "db_requests (snd (redactDecisionsBy collate db tenant account limit)) = db_requests db" unfolding r by simp
qed

section \<open>A decision\<close>

text \<open>The ledger a decision is recorded on, and what it settles.\<close>

lemma ledger_rows_append:
  "ledger_rows (db\<lparr>db_decisions := db_decisions db @ [d]\<rparr>) t i =
     ledger_rows db t i @ (if ad_tenant d = t \<and> ad_request d = i then [d] else [])"
  by (simp add: ledger_rows_def)

lemma approvals_in_append: "approvals_in (ds @ [d]) = approvals_in ds + (if ad_kind d = Approve then 1 else 0)"
  by (simp add: approvals_in_def)

lemma resolve_counts:
  assumes counts: "ledger_counts r ds" "ar_status r = Pending" and d: "ad_kind d = pd_kind p"
    and need: "ar_decisionsNeeded (pd_request p) = ar_decisionsNeeded r"
    and cnt: "approvals_in es = approvals_in (ds @ [d])"
  shows "resolve_with p es = None \<Longrightarrow> ledger_counts r (ds @ [d])"
    "resolve_with p es = Some s \<Longrightarrow> s \<noteq> Pending \<and> ledger_counts (r\<lparr>ar_status := s, ar_resolvedAt := Some at\<rparr>) (ds @ [d])"
proof -
  have c: "int (approvals_in ds) < ar_decisionsNeeded r" "1 \<le> ar_decisionsNeeded r" "ar_resolvedAt r = None"
      "filter (\<lambda>d. ad_kind d \<noteq> Approve) ds = []"
    using counts by (simp_all add: ledger_counts_def settled_by_member_def)
  show "resolve_with p es = None \<Longrightarrow> ledger_counts r (ds @ [d])"
    using c counts(2) d need cnt
    by (cases "pd_kind p") (auto simp: resolve_with_def ledger_counts_def approvals_in_append settled_by_member_def split: if_splits)
  show "resolve_with p es = Some s \<Longrightarrow> s \<noteq> Pending \<and> ledger_counts (r\<lparr>ar_status := s, ar_resolvedAt := Some at\<rparr>) (ds @ [d])"
    using c counts(2) d need cnt
    by (cases "pd_kind p") (auto simp: resolve_with_def ledger_counts_def approvals_in_append settled_by_member_def split: if_splits)
qed

lemma resolve_deciders:
  assumes "ledger_deciders r ds"
    and "by_member d \<Longrightarrow> \<exists>a. ad_decider d = Some a \<and> a \<noteq> ar_requester r \<and> \<not> erased a"
    and "\<And>old. old \<in> set ds \<Longrightarrow> by_member d \<Longrightarrow> by_member old \<Longrightarrow> ad_decider old \<noteq> ad_decider d"
  shows "ledger_deciders r (ds @ [d])"
  using assms by (auto simp: ledger_deciders_def decider_ok_def)

text \<open>The transaction either leaves the database or appends the row and perhaps settles the request.\<close>

lemma pair_value:
  assumes "f = (x, y)" "f = (a, b)"
  shows "x = a" "y = b"
  using assms by simp_all

lemma decideRequest_cases:
  assumes "decideRequest collate db d resolve audit = (res, db')"
  obtains (same) "db' = db" "\<And>r ds b. res \<noteq> Inr (Recorded r ds b)"
  | (recorded) r es where "getRequest db (ad_tenant d) (ad_request d) = Some r" "ar_status r = Pending"
      "\<not> list_ex (decision_conflicts d) (db_decisions db)" "(ad_kind d = Expire) = (ad_decider d = None)"
      "es = listDecisions collate (db\<lparr>db_decisions := db_decisions db @ [d]\<rparr>) (ad_tenant d) (ad_request d)"
      "resolve es = None" "db' = db\<lparr>db_decisions := db_decisions db @ [d]\<rparr>" "res = Inr (Recorded r es False)"
  | (settled) r es s where "getRequest db (ad_tenant d) (ad_request d) = Some r" "ar_status r = Pending"
      "\<not> list_ex (decision_conflicts d) (db_decisions db)" "(ad_kind d = Expire) = (ad_decider d = None)"
      "es = listDecisions collate (db\<lparr>db_decisions := db_decisions db @ [d]\<rparr>) (ad_tenant d) (ad_request d)"
      "resolve es = Some s" "db_decisions db' = db_decisions db @ [d]"
      "db_requests db' = map (set_status (ad_tenant d) (ad_request d) s (ad_decidedAt d)) (db_requests db)"
      "res = Inr (Recorded (r\<lparr>ar_status := s, ar_resolvedAt := Some (ad_decidedAt d)\<rparr>) es True)"
proof (cases "getRequest db (ad_tenant d) (ad_request d)")
  case None
  with assms same show thesis by (auto simp: decideRequest_def Let_def)
next
  case (Some r)
  show thesis
  proof (cases "ar_status r = Pending \<and> (ad_kind d = Expire) = (ad_decider d = None) \<and>
      \<not> list_ex (decision_conflicts d) (db_decisions db)")
    case False
    with assms Some same show thesis by (auto simp: decideRequest_def Let_def split: if_splits)
  next
    case True
    let ?es = "listDecisions collate (db\<lparr>db_decisions := db_decisions db @ [d]\<rparr>) (ad_tenant d) (ad_request d)"
    show thesis
    proof (cases "resolve ?es")
      case None
      have "decideRequest collate db d resolve audit =
          (Inr (Recorded r ?es False), db\<lparr>db_decisions := db_decisions db @ [d]\<rparr>)"
        using Some True None by (simp add: decideRequest_def Let_def)
      then have "res = Inr (Recorded r ?es False)" "db' = db\<lparr>db_decisions := db_decisions db @ [d]\<rparr>"
        by (rule pair_value [OF assms])+
      then show thesis using recorded [OF Some _ _ _ refl None] True by blast
    next
      case s: (Some s)
      let ?r = "r\<lparr>ar_status := s, ar_resolvedAt := Some (ad_decidedAt d)\<rparr>"
      have "decideRequest collate db d resolve audit = (Inr (Recorded ?r ?es True),
          (db\<lparr>db_decisions := db_decisions db @ [d]\<rparr>)
            \<lparr>db_requests := map (set_status (ad_tenant d) (ad_request d) s (ad_decidedAt d)) (db_requests db),
             db_audit := db_audit db @ (case audit ?r of None \<Rightarrow> [] | Some a \<Rightarrow> [a])\<rparr>)"
        using Some True s by (simp add: decideRequest_def Let_def)
      from pair_value [OF assms this] have "res = Inr (Recorded ?r ?es True)" "db_decisions db' = db_decisions db @ [d]"
          "db_requests db' = map (set_status (ad_tenant d) (ad_request d) s (ad_decidedAt d)) (db_requests db)" by simp_all
      then show thesis using settled [OF Some _ _ _ refl s] True by blast
    qed
  qed
qed

lemma commitDecision_db:
  "snd (commitDecision collate key db p i auditId now) =
     snd (decideRequest collate db (decision_row p i now) (resolve_with p) (grantIssued key auditId))"
  by (auto simp: commitDecision_def split: prod.splits sum.splits decide_result.splits)

lemma decision_row_simps [simp]:
  "ad_id (decision_row p i now) = i" "ad_tenant (decision_row p i now) = ar_tenant (pd_request p)"
  "ad_request (decision_row p i now) = ar_id (pd_request p)" "ad_decider (decision_row p i now) = pd_decider p"
  "ad_kind (decision_row p i now) = pd_kind p" "ad_decidedAt (decision_row p i now) = now"
  by (simp_all add: decision_row_def)

definition plan_fits :: "approvals_db \<Rightarrow> planned_decision \<Rightarrow> bool" where
  "plan_fits db p =
     ((\<forall>r \<in> set (db_requests db). ar_id r = ar_id (pd_request p) \<longrightarrow> same_question r (pd_request p)) \<and>
      (pd_kind p = Approve \<or> pd_kind p = Reject \<longrightarrow>
        (\<exists>a. pd_decider p = Some a \<and> a \<noteq> ar_requester (pd_request p) \<and> \<not> erased a)))"

lemma request_ok_other:
  assumes "request_ok db x" "db_decisions db' = db_decisions db @ [d]" "ad_request d \<noteq> ar_id x"
  shows "request_ok db' x"
  using assms by (simp add: request_ok_def ledger_of_def ledger_rows_def)

lemma ledger_deciders_settled: "ledger_deciders (r\<lparr>ar_status := s, ar_resolvedAt := at\<rparr>) ds = ledger_deciders r ds"
proof -
  have "decider_ok (r\<lparr>ar_status := s, ar_resolvedAt := at\<rparr>) = decider_ok r" by (rule ext) (simp add: decider_ok_def split: option.split)
  then show ?thesis by (simp add: ledger_deciders_def)
qed

text \<open>The request a decision is recorded on keeps its ledger in order, settled or not.\<close>

lemma recorded_ledger:
  assumes ok: "request_ok db r" and fits: "plan_fits db p" and r: "r \<in> set (db_requests db)" "ar_status r = Pending"
    and mine: "ar_tenant r = ar_tenant (pd_request p)" "ar_id r = ar_id (pd_request p)"
    and new: "\<not> list_ex (decision_conflicts d) (db_decisions db)" and d: "d = decision_row p i now"
    and db': "db_decisions db' = db_decisions db @ [d]"
    and es: "approvals_in es = approvals_in (ledger_of db r @ [d])"
  shows "resolve_with p es = None \<Longrightarrow> request_ok db' r"
    "resolve_with p es = Some s \<Longrightarrow> s \<noteq> Pending \<and> request_ok db' (r\<lparr>ar_status := s, ar_resolvedAt := Some at\<rparr>)"
proof -
  have same: "same_question r (pd_request p)" using fits r(1) mine(2) by (simp add: plan_fits_def)
  have rows: "ledger_of db' r = ledger_of db r @ [d]"
    using d mine by (simp add: ledger_of_def ledger_rows_def db')
  have rows_s: "ledger_of db' (r\<lparr>ar_status := s, ar_resolvedAt := Some at\<rparr>) = ledger_of db' r"
    by (simp add: ledger_of_def)
  have c: "ledger_counts r (ledger_of db r)" "ledger_deciders r (ledger_of db r)" "\<not> erased (ar_requester r)"
    using ok by (simp_all add: request_ok_def)
  have deciders: "ledger_deciders r (ledger_of db r @ [d])"
  proof (rule resolve_deciders [OF c(2)])
    show "by_member d \<Longrightarrow> \<exists>a. ad_decider d = Some a \<and> a \<noteq> ar_requester r \<and> \<not> erased a"
      using fits same d by (simp add: by_member_def plan_fits_def same_question_def)
    show "ad_decider old \<noteq> ad_decider d" if "old \<in> set (ledger_of db r)" "by_member d" "by_member old" for old
    proof -
      have "\<not> decision_conflicts d old" "ad_tenant old = ad_tenant d" "ad_request old = ad_request d"
        using new that(1) mine d by (auto simp: list_ex_iff ledger_of_def ledger_rows_def)
      moreover have "ad_decider d \<noteq> None" using fits that(2) d by (auto simp: by_member_def plan_fits_def)
      ultimately show ?thesis using that(2,3) by (simp add: decision_conflicts_def)
    qed
  qed
  have k: "ad_kind d = pd_kind p" "ar_decisionsNeeded (pd_request p) = ar_decisionsNeeded r"
    using d same by (simp_all add: same_question_def)
  note counts = resolve_counts [OF c(1) r(2) k es]
  show "resolve_with p es = None \<Longrightarrow> request_ok db' r"
    using counts(1) deciders c(3) by (simp add: request_ok_def rows)
  show "resolve_with p es = Some s \<Longrightarrow> s \<noteq> Pending \<and> request_ok db' (r\<lparr>ar_status := s, ar_resolvedAt := Some at\<rparr>)"
    using counts(2) [of s at] deciders c(3)
    by (simp add: request_ok_def rows rows_s ledger_deciders_settled)
qed

lemma set_status_simps [simp]:
  "ar_id (set_status t i s at r) = ar_id r" "ar_tenant (set_status t i s at r) = ar_tenant r"
  "ar_requester (set_status t i s at r) = ar_requester r"
  "ar_decisionsNeeded (set_status t i s at r) = ar_decisionsNeeded r"
  by (simp_all add: set_status_def)

lemma request_unique: "db_ok db \<Longrightarrow> r \<in> set (db_requests db) \<Longrightarrow> x \<in> set (db_requests db) \<Longrightarrow> ar_id x = ar_id r \<Longrightarrow> x = r"
  by (auto simp: db_ok_def distinct_map dest: inj_onD)

lemma listDecisions_count:
  "approvals_in (listDecisions collate db t i) = approvals_in (ledger_rows db t i)"
  by (simp add: listDecisions_def)

text \<open>The rows of the ledger table stay owned and their identifiers distinct.\<close>

lemma decisions_table_keeps:
  assumes "db_ok db" "r \<in> set (db_requests db)" "ar_tenant r = ad_tenant d" "ar_id r = ad_request d"
    and "\<not> list_ex (decision_conflicts d) (db_decisions db)"
  shows "distinct (map ad_id (db_decisions db @ [d]))"
    "e \<in> set (db_decisions db @ [d]) \<Longrightarrow> \<exists>r \<in> set (db_requests db). ar_tenant r = ad_tenant e \<and> ar_id r = ad_request e"
proof -
  have "ad_id d \<notin> ad_id ` set (db_decisions db)"
    using assms(5) by (auto simp: list_ex_iff decision_conflicts_def)
  then show "distinct (map ad_id (db_decisions db @ [d]))" using assms(1) by (simp add: db_ok_def)
  show "e \<in> set (db_decisions db @ [d]) \<Longrightarrow> \<exists>r \<in> set (db_requests db). ar_tenant r = ad_tenant e \<and> ar_id r = ad_request e"
    using assms(1-4) by (auto simp: db_ok_def)
qed

lemma recorded_keeps:
  assumes ok: "db_ok db" and fits: "plan_fits db p" and d: "d = decision_row p i now"
    and got: "getRequest db (ad_tenant d) (ad_request d) = Some r" "ar_status r = Pending"
    and new: "\<not> list_ex (decision_conflicts d) (db_decisions db)"
    and es: "es = listDecisions collate (db\<lparr>db_decisions := db_decisions db @ [d]\<rparr>) (ad_tenant d) (ad_request d)"
    and db': "db_decisions db' = db_decisions db @ [d]"
    and rs: "db_requests db' = map f (db_requests db)"
    and f: "f = (case resolve_with p es of None \<Rightarrow> (\<lambda>r. r) | Some s \<Rightarrow> set_status (ad_tenant d) (ad_request d) s (ad_decidedAt d))"
  shows "db_ok db'"
proof -
  have r: "r \<in> set (db_requests db)" "ar_tenant r = ad_tenant d" "ar_id r = ad_request d"
    using getRequest_Some [OF got(1)] by simp_all
  have r_ok: "request_ok db r" using ok r(1) by (simp add: db_ok_def)
  have cnt: "approvals_in es = approvals_in (ledger_of db r @ [d])"
    using r(2,3) by (simp add: es listDecisions_count ledger_rows_append ledger_of_def)
  have mine: "ar_tenant r = ar_tenant (pd_request p)" "ar_id r = ar_id (pd_request p)" using r d by simp_all
  note ledger = recorded_ledger [OF r_ok fits r(1) got(2) mine new d db' cnt]
  have f_id: "ar_id (f x) = ar_id x" "ar_tenant (f x) = ar_tenant x" for x by (auto simp: f split: option.splits)
  have each: "request_ok db' (f x)" if x: "x \<in> set (db_requests db)" for x
  proof (cases "ar_id x = ad_request d")
    case True
    then have "x = r" using request_unique [OF ok r(1) x] r(3) by simp
    then show ?thesis
      using ledger r(2,3) got(2) by (cases "resolve_with p es") (auto simp: f set_status_def)
  next
    case False
    then have "f x = x" by (auto simp: f set_status_def split: option.splits)
    moreover have "request_ok db x" using ok x by (simp add: db_ok_def)
    ultimately show ?thesis using request_ok_other [OF _ db'] False by simp
  qed
  have "one_pending (map f (db_requests db))"
  proof (cases "resolve_with p es")
    case None
    then show ?thesis using ok by (simp add: f db_ok_def)
  next
    case (Some s)
    then have "s \<noteq> Pending" using ledger(2) by blast
    then show ?thesis using ok Some by (simp add: f db_ok_def one_pending_set_status)
  qed
  moreover have "ar_id \<circ> f = ar_id" by (simp add: fun_eq_iff f_id)
  moreover note decisions_table_keeps [OF ok r new]
  ultimately show ?thesis
    using ok each unfolding db_ok_def rs db' by (auto simp: f_id)
qed

lemma commit_keeps:
  assumes ok: "db_ok db" and fits: "plan_fits db p" and db': "db' = snd (commitDecision collate key db p i auditId now)"
  shows "db_ok db'" "map ar_id (db_requests db') = map ar_id (db_requests db)"
    "x \<in> set (db_requests db') \<Longrightarrow> \<exists>r \<in> set (db_requests db). ar_id r = ar_id x \<and> same_question x r"
proof -
  let ?d = "decision_row p i now"
  obtain res where dr: "decideRequest collate db ?d (resolve_with p) (grantIssued key auditId) = (res, db')"
    unfolding db' commitDecision_db by (metis prod.collapse)
  have "db_ok db' \<and> map ar_id (db_requests db') = map ar_id (db_requests db) \<and>
    (\<forall>x \<in> set (db_requests db'). \<exists>r \<in> set (db_requests db). ar_id r = ar_id x \<and> same_question x r)"
    using dr
  proof (cases rule: decideRequest_cases)
    case same
    then show ?thesis using ok by (auto simp: same_question_def)
  next
    case (recorded r es)
    then have "db_ok db'" by (intro recorded_keeps [OF ok fits refl recorded(1,2,3,5)]) simp_all
    then show ?thesis using recorded(7) by (auto simp: same_question_def)
  next
    case (settled r es s)
    have "db_ok db'" by (rule recorded_keeps [OF ok fits refl settled(1,2,3,5,7,8)]) (simp add: settled(6))
    then show ?thesis by (simp add: settled(8) same_question_def) blast
  qed
  then show "db_ok db'" "map ar_id (db_requests db') = map ar_id (db_requests db)"
    "x \<in> set (db_requests db') \<Longrightarrow> \<exists>r \<in> set (db_requests db). ar_id r = ar_id x \<and> same_question x r"
    by blast+
qed

section \<open>Every reachable state\<close>

lemma plan_ok_split:
  "plan_ok s p \<longleftrightarrow> ar_id (pd_request p) \<in> set (run_drawn s) \<and>
     ar_id (pd_request p) \<notin> set (map (ar_id \<circ> fst) (run_creates s)) \<and> plan_fits (run_db s) p"
  by (auto simp: plan_ok_def plan_fits_def)

lemma plan_fits_mono:
  assumes "plan_fits db p"
    and "\<And>x. x \<in> set (db_requests db') \<Longrightarrow> ar_id x = ar_id (pd_request p) \<Longrightarrow>
      \<exists>r \<in> set (db_requests db). ar_id r = ar_id x \<and> same_question x r"
  shows "plan_fits db' p"
  using assms unfolding plan_fits_def same_question_def by metis

text \<open>A step that draws nothing, plans nothing and only changes or drops rows.\<close>

lemma run_ok_db:
  assumes ok: "run_ok s" and db': "db_ok db'" "set (map ar_id (db_requests db')) \<subseteq> set (map ar_id (db_requests (run_db s)))"
    and rows: "\<And>x. x \<in> set (db_requests db') \<Longrightarrow> \<exists>r \<in> set (db_requests (run_db s)). ar_id r = ar_id x \<and> same_question x r"
  shows "run_ok (s\<lparr>run_db := db'\<rparr>)"
proof -
  have "plan_ok (s\<lparr>run_db := db'\<rparr>) p" if "p \<in> set (run_planned s)" for p
  proof -
    have p: "plan_ok s p" using ok that by (simp add: run_ok_def)
    then have "plan_fits db' p" using plan_fits_mono rows unfolding plan_ok_split by blast
    then show ?thesis using p by (simp add: plan_ok_split)
  qed
  moreover have "set (map (ar_id \<circ> fst) (run_creates s)) \<inter> set (map ar_id (db_requests db')) = {}"
    using ok db'(2) unfolding run_ok_def by blast
  moreover have "set (map ar_id (db_requests db')) \<subseteq> set (run_drawn s)"
    using ok db'(2) unfolding run_ok_def by blast
  ultimately show ?thesis using ok db'(1) unfolding run_ok_def by (simp del: set_map)
qed

lemma run_ok_plan:
  assumes ok: "run_ok s" and p: "pd_request p \<in> set (db_requests (run_db s))"
    and decider: "pd_kind p = Approve \<or> pd_kind p = Reject \<Longrightarrow>
      \<exists>a. pd_decider p = Some a \<and> a \<noteq> ar_requester (pd_request p) \<and> \<not> erased a"
  shows "run_ok (s\<lparr>run_planned := p # run_planned s\<rparr>)"
proof -
  have "plan_fits (run_db s) p"
    using ok p decider request_unique by (auto simp: run_ok_def plan_fits_def same_question_def)
  moreover have "ar_id (pd_request p) \<in> set (run_drawn s)" "ar_id (pd_request p) \<notin> set (map (ar_id \<circ> fst) (run_creates s))"
    using ok p by (auto simp: run_ok_def)
  ultimately show ?thesis using ok by (auto simp: run_ok_def plan_ok_split)
qed

lemma run_ok_plan_create:
  assumes ok: "run_ok s" and r: "create_ok r" "ar_id r \<notin> set (run_drawn s)"
  shows "run_ok (s\<lparr>run_creates := (r, e) # run_creates s, run_drawn := ar_id r # run_drawn s\<rparr>)"
  using assms by (auto simp: run_ok_def plan_ok_split)

lemma run_ok_commit_create:
  assumes ok: "run_ok s" and cs: "run_creates s = cs @ (r, e) # cs'"
  shows "run_ok (s\<lparr>run_db := snd (createRequest (run_db s) r e), run_creates := cs @ cs'\<rparr>)"
proof -
  let ?db = "snd (createRequest (run_db s) r e)"
  have r: "create_ok r" "ar_id r \<notin> set (map ar_id (db_requests (run_db s)))" "ar_id r \<in> set (run_drawn s)"
    "ar_id r \<notin> set (map (ar_id \<circ> fst) (cs @ cs'))"
    using ok cs by (auto simp: run_ok_def)
  have db: "db_ok (run_db s)" using ok by (simp add: run_ok_def)
  note new = create_keeps [OF db r(1,2), where eligible=e]
  have "plan_ok (s\<lparr>run_db := ?db, run_creates := cs @ cs'\<rparr>) p" if "p \<in> set (run_planned s)" for p
  proof -
    have p: "plan_ok s p" using ok that by (simp add: run_ok_def)
    then have "ar_id (pd_request p) \<noteq> ar_id r" using cs by (auto simp: plan_ok_split)
    then have "plan_fits ?db p" using p new(3) by (fastforce simp: plan_ok_split plan_fits_def)
    then show ?thesis using p cs by (auto simp: plan_ok_split)
  qed
  moreover have "set (map ar_id (db_requests ?db)) \<subseteq> set (run_drawn s)"
    using new(2) r(3) ok unfolding run_ok_def by blast
  moreover have "set (map (ar_id \<circ> fst) (cs @ cs')) \<subseteq> set (map (ar_id \<circ> fst) (run_creates s))" using cs by auto
  moreover have "set (map (ar_id \<circ> fst) (cs @ cs')) \<inter> set (map ar_id (db_requests ?db)) = {}"
    using new(2) r(4) ok calculation(3) unfolding run_ok_def by blast
  moreover have "distinct (map (ar_id \<circ> fst) (cs @ cs'))" "\<forall>(r, e) \<in> set (cs @ cs'). create_ok r"
    using ok cs by (simp_all add: run_ok_def)
  moreover have "set (map (ar_id \<circ> fst) (run_creates s)) \<subseteq> set (run_drawn s)" using ok by (simp add: run_ok_def)
  ultimately show ?thesis using new(1) unfolding run_ok_def by (simp del: set_map map_append set_append)
qed

lemma redact_eligibility_db:
  "db_requests (snd (redactEligibilityOf collate fresh db t a limit)) = db_requests db"
  "db_decisions (snd (redactEligibilityOf collate fresh db t a limit)) = db_decisions db"
  by (simp_all add: redactEligibilityOf_def Let_def)

lemma run_ok_same_requests:
  "run_ok s \<Longrightarrow> db_ok db' \<Longrightarrow> db_requests db' = db_requests (run_db s) \<Longrightarrow> run_ok (s\<lparr>run_db := db'\<rparr>)"
  by (rule run_ok_db) (auto simp: same_question_def)

lemma run_ok_delete: "run_ok s \<Longrightarrow> run_ok (s\<lparr>run_db := snd (deleteRequestsIn (run_db s) tenant ids)\<rparr>)"
proof (rule run_ok_db)
  assume "run_ok s"
  then have "db_ok (run_db s)" by (simp add: run_ok_def)
  note kept = delete_keeps [OF this, of tenant ids]
  show "db_ok (snd (deleteRequestsIn (run_db s) tenant ids))" by (rule kept(1))
  show "set (map ar_id (db_requests (snd (deleteRequestsIn (run_db s) tenant ids)))) \<subseteq> set (map ar_id (db_requests (run_db s)))"
    using kept(2) by auto
  show "\<exists>r \<in> set (db_requests (run_db s)). ar_id r = ar_id x \<and> same_question x r"
    if "x \<in> set (db_requests (snd (deleteRequestsIn (run_db s) tenant ids)))" for x
    using kept(2) that by (auto simp: same_question_def)
qed

lemma run_ok_step: "approvals_step collate s s' \<Longrightarrow> run_ok s \<Longrightarrow> run_ok s'"
proof (induction rule: approvals_step.induct)
  case (plan_open s input days members i now r eligible)
  then show ?case
    using run_ok_plan_create [of s r eligible] prepareOpen_plan [OF plan_open(1)] by (simp add: create_ok_def)
next
  case (commit_open s cs r eligible cs')
  then show ?case by (simp add: run_ok_commit_create)
next
  case (plan_decide s member tenant i account approving comment manage p)
  have "\<exists>a. pd_decider p = Some a \<and> a \<noteq> ar_requester (pd_request p) \<and> \<not> erased a"
    using prepareDecide_plan(3) [OF plan_decide(1)] plan_decide(2) memberSatisfies_other by auto
  then show ?case using run_ok_plan [OF plan_decide(3) prepareDecide_plan(1) [OF plan_decide(1)]] by blast
next
  case (plan_cancel s tenant i actor manage p)
  then show ?case using run_ok_plan prepareCancel_plan by (metis decision_kind.distinct)
next
  case (plan_expire s routing now p)
  then show ?case using run_ok_plan prepareExpire_plan by (metis decision_kind.distinct)
next
  case (commit_decision p s key i auditId now)
  then have "db_ok (run_db s)" "plan_fits (run_db s) p" by (auto simp: run_ok_def plan_ok_split)
  note kept = commit_keeps [OF this refl, where collate=collate and key=key and i=i and auditId=auditId and now=now]
  show ?case
    by (rule run_ok_db [OF commit_decision(2) kept(1) _ kept(3)]) (simp_all only: kept(2) subset_refl)
next
  case (sweep_resolved s tenant before limit)
  then show ?case unfolding deleteResolvedBefore_def by (rule run_ok_delete)
next
  case (sweep_requester s tenant account limit)
  then show ?case unfolding deleteResolvedRequestedBy_def by (rule run_ok_delete)
next
  case (redact_decisions s tenant account limit)
  have "db_ok (run_db s)" using redact_decisions by (simp add: run_ok_def)
  from redact_keeps [OF this, of collate tenant account limit] show ?case
    using run_ok_same_requests [OF redact_decisions] by blast
next
  case (redact_eligibility s fresh tenant account limit)
  note same = redact_eligibility_db [of collate fresh "run_db s" tenant account limit]
  have "db_ok (snd (redactEligibilityOf collate fresh (run_db s) tenant account limit))"
    using redact_eligibility db_ok_cong [OF same] by (simp add: run_ok_def)
  then show ?case using run_ok_same_requests [OF redact_eligibility _ same(1)] by blast
qed

lemma reach_run_ok: "approvals_reach collate s \<Longrightarrow> run_ok s"
  by (induction rule: approvals_reach.induct) (simp_all add: idle_run_ok run_ok_step)

section \<open>Capability subjects read back\<close>

lemma last_colon_split: "CHR '':'' \<notin> set w \<Longrightarrow> last_colon (p @ CHR '':'' # w) = length p"
proof -
  assume w: "CHR '':'' \<notin> set w"
  have "rev (p @ CHR '':'' # w) = rev w @ CHR '':'' # rev p" by simp
  moreover have "takeWhile (\<lambda>c. c \<noteq> CHR '':'') (rev w @ CHR '':'' # rev p) = rev w"
    using w by (subst takeWhile_append2) auto
  ultimately show ?thesis unfolding last_colon_def by simp
qed

lemma last_colon_exists:
  assumes "CHR '':'' \<in> set s"
  obtains p w where "s = p @ CHR '':'' # w" "CHR '':'' \<notin> set w"
  using split_list_last [OF assms] by blast

lemma digest_no_colon: "is_input_digest d \<Longrightarrow> CHR '':'' \<notin> set d"
  by (auto simp: is_input_digest_def list_all_iff is_digit_def code_def)

lemma dotted_id_nonempty: "dotted_id c \<Longrightarrow> c \<noteq> []"
  by (auto simp: dotted_id_def Let_def)

lemma encode_subject_Some:
  "encodeCapabilitySubjectRef c d = Some ref \<longleftrightarrow>
     capability_subject_ok c d \<and> ref = SUBJECT_PREFIX @ c @ '':'' @ d"
  by (auto simp: encodeCapabilitySubjectRef_def capability_subject_ok_def)

lemma decode_subject_Some:
  assumes "starts_with SUBJECT_PREFIX ref"
  shows "decodeCapabilitySubjectRef ref = Some (c, d) \<longleftrightarrow>
     capability_subject_ok c d \<and> ref = SUBJECT_PREFIX @ c @ '':'' @ d"
proof -
  obtain x where x: "ref = SUBJECT_PREFIX @ x" using assms unfolding starts_with_def by (metis append_take_drop_id)
  have "CHR '':'' \<in> set ref" by (simp add: x SUBJECT_PREFIX_def)
  then obtain p w where s: "ref = p @ CHR '':'' # w" "CHR '':'' \<notin> set w" by (rule last_colon_exists)
  have sep: "last_colon ref = length p" unfolding s(1) by (rule last_colon_split [OF s(2)])
  have parts: "take (length p) ref = p" "drop (length p + 1) ref = w" using s(1) by simp_all
  show ?thesis
  proof
    assume "decodeCapabilitySubjectRef ref = Some (c, d)"
    then have r: "length SUBJECT_PREFIX < length p" "capability_subject_ok c d"
        "c = drop (length SUBJECT_PREFIX) p" "d = w"
      using assms unfolding decodeCapabilitySubjectRef_def sep parts Let_def by (auto split: if_splits)
    have "take (length SUBJECT_PREFIX) p = take (length SUBJECT_PREFIX) ref" using r(1) s(1) by simp
    then have "p = SUBJECT_PREFIX @ c" unfolding r(3) x by (metis append_eq_conv_conj append_take_drop_id)
    then show "capability_subject_ok c d \<and> ref = SUBJECT_PREFIX @ c @ '':'' @ d" using r(2,4) s(1) by simp
  next
    assume e: "capability_subject_ok c d \<and> ref = SUBJECT_PREFIX @ c @ '':'' @ d"
    then have "CHR '':'' \<notin> set d" "c \<noteq> []"
      using digest_no_colon dotted_id_nonempty by (auto simp: capability_subject_ok_def)
    moreover have "ref = (SUBJECT_PREFIX @ c) @ CHR '':'' # d" using e by simp
    ultimately have "last_colon ref = length (SUBJECT_PREFIX @ c)" "d = w" "p = SUBJECT_PREFIX @ c"
      using last_colon_split s sep by (metis append_eq_append_conv list.inject)+
    then show "decodeCapabilitySubjectRef ref = Some (c, d)"
      using assms e \<open>c \<noteq> []\<close> unfolding decodeCapabilitySubjectRef_def sep parts Let_def by simp
  qed
qed

lemma capability_subject_iff:
  "decodeCapabilitySubjectRef ref = Some (c, d) \<longleftrightarrow> encodeCapabilitySubjectRef c d = Some ref"
proof (cases "starts_with SUBJECT_PREFIX ref")
  case True
  then show ?thesis by (simp add: decode_subject_Some encode_subject_Some)
next
  case False
  then have "ref \<noteq> SUBJECT_PREFIX @ c @ '':'' @ d" by (auto simp: starts_with_def)
  then show ?thesis using False by (simp add: encode_subject_Some decodeCapabilitySubjectRef_def)
qed

lemma capability_subject_fits:
  "encodeCapabilitySubjectRef c d = Some ref \<Longrightarrow> length ref \<le> al_subjectRef APPROVAL_LIMITS"
  by (simp add: encode_subject_Some capability_subject_ok_def is_input_digest_def SUBJECT_PREFIX_def
      APPROVAL_GRANT_CAPABILITY_ID_LENGTH_def APPROVAL_GRANT_INPUT_DIGEST_LENGTH_def APPROVAL_LIMITS_def)

section \<open>Resolved requests stay as they are\<close>

lemma deleted_ids_resolved:
  assumes "i \<in> set (take n (map ar_id (sort_by cmp (filter P rs))))"
  shows "\<exists>r \<in> set rs. P r \<and> ar_id r = i"
proof -
  have "i \<in> set (map ar_id (sort_by cmp (filter P rs)))" using assms by (rule in_set_takeD)
  then show ?thesis by auto
qed

lemma pending_survives_delete:
  assumes "db_ok db" "r \<in> set (db_requests db)" "ar_status r = Pending"
    and "\<And>x. P x \<Longrightarrow> ar_status x \<noteq> Pending"
  shows "r \<in> set (db_requests (snd (deleteRequestsIn db t (take n (map ar_id (sort_by cmp (filter P (db_requests db))))))))"
proof -
  have "ar_id r \<notin> set (take n (map ar_id (sort_by cmp (filter P (db_requests db)))))"
    using deleted_ids_resolved request_unique [OF assms(1,2)] assms(3,4) by metis
  then show ?thesis using assms(2) by (simp add: deleteRequestsIn_def)
qed

text \<open>What a step may do to the row of a request.\<close>

definition row_kept :: "approval_request list \<Rightarrow> approval_request list \<Rightarrow> bool" where
  "row_kept rs rs' =
     (\<forall>r \<in> set rs. if ar_status r = Pending then (\<exists>r' \<in> set rs'. ar_id r' = ar_id r \<and> same_question r r')
        else (\<forall>r' \<in> set rs'. ar_id r' = ar_id r \<longrightarrow> r' = r))"

lemma row_kept_refl:
  assumes "distinct (map ar_id rs)"
  shows "row_kept rs rs"
  using assms by (auto simp: row_kept_def same_question_def distinct_map dest: inj_onD)

lemma row_kept_map:
  assumes "distinct (map ar_id rs)" "\<And>r. ar_id (f r) = ar_id r" "\<And>r. same_question r (f r)"
    "\<And>r. ar_status r \<noteq> Pending \<Longrightarrow> f r = r"
  shows "row_kept rs (map f rs)"
  unfolding row_kept_def
proof (intro ballI)
  fix r assume r: "r \<in> set rs"
  have u: "x = r" if "x \<in> set rs" "ar_id x = ar_id r" for x
    using assms(1) r that by (auto simp: distinct_map dest: inj_onD)
  show "if ar_status r = Pending then \<exists>r' \<in> set (map f rs). ar_id r' = ar_id r \<and> same_question r r'
      else \<forall>r' \<in> set (map f rs). ar_id r' = ar_id r \<longrightarrow> r' = r"
    using r assms(2,3,4) u by auto
qed

lemma row_kept_delete:
  assumes "db_ok db" "\<And>x. P x \<Longrightarrow> ar_status x \<noteq> Pending"
  shows "row_kept (db_requests db)
    (db_requests (snd (deleteRequestsIn db t (take n (map ar_id (sort_by cmp (filter P (db_requests db))))))))"
  unfolding row_kept_def
proof (intro ballI)
  fix r assume r: "r \<in> set (db_requests db)"
  let ?rs = "db_requests (snd (deleteRequestsIn db t (take n (map ar_id (sort_by cmp (filter P (db_requests db)))))))"
  have "r \<in> set ?rs" if "ar_status r = Pending" using pending_survives_delete [OF assms(1) r that assms(2)] .
  moreover have "r' = r" if "r' \<in> set ?rs" "ar_id r' = ar_id r" for r'
    using request_unique [OF assms(1) r _ that(2)] delete_keeps(2) [OF assms(1)] that(1) by blast
  ultimately show "if ar_status r = Pending then \<exists>r' \<in> set ?rs. ar_id r' = ar_id r \<and> same_question r r'
      else \<forall>r' \<in> set ?rs. ar_id r' = ar_id r \<longrightarrow> r' = r"
    by (auto simp: same_question_def)
qed

lemma row_kept_create:
  assumes "db_ok db" "ar_id r \<notin> set (map ar_id (db_requests db))"
  shows "row_kept (db_requests db) (db_requests (snd (createRequest db r e)))"
proof -
  have keep: "set (db_requests db) \<subseteq> set (db_requests (snd (createRequest db r e)))"
    "set (db_requests (snd (createRequest db r e))) \<subseteq> insert r (set (db_requests db))"
    by (auto simp: createRequest_def split: option.splits if_splits)
  show ?thesis
    unfolding row_kept_def
  proof (intro ballI)
    fix x assume x: "x \<in> set (db_requests db)"
    have "y = x" if "y \<in> set (db_requests (snd (createRequest db r e)))" "ar_id y = ar_id x" for y
      using that keep(2) request_unique [OF assms(1) x _ that(2)] assms(2) x by (metis image_eqI insertE list.set_map subsetD)
    then show "if ar_status x = Pending then \<exists>r' \<in> set (db_requests (snd (createRequest db r e))). ar_id r' = ar_id x \<and> same_question x r'
        else \<forall>r' \<in> set (db_requests (snd (createRequest db r e))). ar_id r' = ar_id x \<longrightarrow> r' = x"
      using x keep(1) by (auto simp: same_question_def)
  qed
qed

lemma row_kept_commit:
  assumes "db_ok db"
  shows "row_kept (db_requests db) (db_requests (snd (commitDecision collate key db p i auditId now)))"
proof -
  have ids: "distinct (map ar_id (db_requests db))" using assms by (simp add: db_ok_def)
  obtain res db' where dr:
    "decideRequest collate db (decision_row p i now) (resolve_with p) (grantIssued key auditId) = (res, db')"
    by (metis surj_pair)
  have "row_kept (db_requests db) (db_requests db')"
    using dr
  proof (cases rule: decideRequest_cases)
    case (settled r es s)
    show ?thesis unfolding settled(8)
      by (rule row_kept_map [OF ids]) (auto simp: same_question_def set_status_def)
  qed (use row_kept_refl [OF ids] in simp_all)
  then show ?thesis by (simp add: commitDecision_db dr)
qed

lemma step_row_kept:
  "approvals_step collate s s' \<Longrightarrow> run_ok s \<Longrightarrow> row_kept (db_requests (run_db s)) (db_requests (run_db s'))"
proof (induction rule: approvals_step.induct)
  case (commit_open s cs r e cs')
  then have "ar_id r \<notin> set (map ar_id (db_requests (run_db s)))" by (auto simp: run_ok_def)
  then show ?case using row_kept_create commit_open by (simp add: run_ok_def)
next
  case (commit_decision p s key i auditId now)
  then show ?case using row_kept_commit by (simp add: run_ok_def)
next
  case (sweep_resolved s tenant before limit)
  then have db: "db_ok (run_db s)" by (simp add: run_ok_def)
  show ?case by (simp add: deleteResolvedBefore_def) (rule row_kept_delete [OF db], simp add: resolved_before_def)
next
  case (sweep_requester s tenant account limit)
  then have db: "db_ok (run_db s)" by (simp add: run_ok_def)
  show ?case by (simp add: deleteResolvedRequestedBy_def) (rule row_kept_delete [OF db], simp)
next
  case (redact_decisions s tenant account limit)
  then have "db_ok (run_db s)" by (simp add: run_ok_def)
  then show ?case using redact_keeps(2) row_kept_refl by (simp add: db_ok_def)
next
  case (redact_eligibility s fresh tenant account limit)
  then show ?case using redact_eligibility_db(1) row_kept_refl by (simp add: run_ok_def db_ok_def)
qed (simp_all add: run_ok_def db_ok_def row_kept_refl)


section \<open>The properties\<close>

lemma reach_ledger:
  assumes "approvals_reach collate s" "r \<in> set (db_requests (run_db s))"
  shows "ledger_counts r (ledger_of (run_db s) r)" "ledger_deciders r (ledger_of (run_db s) r)"
    "one_pending (db_requests (run_db s))"
  using reach_run_ok [OF assms(1)] assms(2) by (auto simp: run_ok_def db_ok_def request_ok_def)

text \<open>C18: in every state that interleaved calls, sweeps and erasures reach, a request is approved exactly when its
  ledger holds as many approval rows as it needs, and it holds no more; a request settled otherwise has exactly one
  row that is not an approval, the one that settled it; and a subject has at most one pending request. Among the
  rows that approve or reject (a row that cancels may be the requester's or a second one of the same member, one that
  expires has no decider) the stored decider texts are pairwise different and none is the requester's. So an account
  decides once, until an erasure puts a marker in the place of its name; from then on its row no longer counts
  against it.\<close>

theorem approval_ledger_sound:
  assumes "approvals_reach collate s" "r \<in> set (db_requests (run_db s))"
  defines "ds \<equiv> ledger_of (run_db s) r"
  shows "(ar_status r = Approved) = (int (approvals_in ds) = ar_decisionsNeeded r) \<and>
    int (approvals_in ds) \<le> ar_decisionsNeeded r \<and>
    map ad_kind (filter (\<lambda>d. ad_kind d \<noteq> Approve) ds) =
      (if ar_status r = Pending \<or> ar_status r = Approved then [] else [SETTLING_DECISION (ar_status r)]) \<and>
    distinct (map ad_decider (filter by_member ds)) \<and>
    {None, Some (ar_requester r)} \<inter> ad_decider ` set (filter by_member ds) = {} \<and>
    one_pending (db_requests (run_db s))"
proof -
  note l = reach_ledger [OF assms(1,2), folded ds_def]
  have "ad_decider d \<noteq> None \<and> ad_decider d \<noteq> Some (ar_requester r)" if "d \<in> set ds" "by_member d" for d
    using l(2) that by (auto simp: ledger_deciders_def decider_ok_def list_all_iff split: option.splits)
  then have deciders: "{None, Some (ar_requester r)} \<inter> ad_decider ` set (filter by_member ds) = {}" by force
  have d: "distinct (map ad_decider (filter by_member ds))" using l(2) by (simp add: ledger_deciders_def)
  have c: "(ar_status r = Approved) = (int (approvals_in ds) = ar_decisionsNeeded r)"
      "int (approvals_in ds) \<le> ar_decisionsNeeded r"
      "map ad_kind (filter (\<lambda>d. ad_kind d \<noteq> Approve) ds) =
        (if ar_status r = Pending \<or> ar_status r = Approved then [] else [SETTLING_DECISION (ar_status r)])"
    using l(1) unfolding ledger_counts_def settled_by_member_def by (simp_all split: if_splits)
  show ?thesis by (intro conjI c d deciders l(3))
qed

text \<open>C19: no step changes a resolved request: its row is gone or exactly what it was, whatever was planned before
  it resolved; and no step removes a pending one, whose requester and number of decisions stay.\<close>

theorem approval_terminal_final:
  assumes "approvals_reach collate s" "approvals_step collate s s'" "r \<in> set (db_requests (run_db s))"
  shows "if ar_status r = Pending
    then \<exists>r' \<in> set (db_requests (run_db s')). ar_id r' = ar_id r \<and> same_question r r'
    else set (filter (\<lambda>r'. ar_id r' = ar_id r) (db_requests (run_db s'))) \<subseteq> {r}"
  using step_row_kept [OF assms(2) reach_run_ok [OF assms(1)]] assms(3) by (auto simp: row_kept_def)

text \<open>A capability subject reads back as the capability and the digest it was written from, and only such
  texts read back: decoding and encoding are inverse, and what is encoded fits the column.\<close>

lemma capability_subject_roundtrip:
  "decodeCapabilitySubjectRef ref = Some (c, d) \<longleftrightarrow>
     encodeCapabilitySubjectRef c d = Some ref \<and> length ref \<le> al_subjectRef APPROVAL_LIMITS"
  using capability_subject_iff capability_subject_fits by blast

section \<open>Witnesses\<close>

text \<open>A request that one owner must approve, opened by \<open>ann\<close> and approved by \<open>bo\<close>.\<close>

definition w_input :: open_input where
  "w_input = \<lparr>oi_tenant = ''t'', oi_subjectModule = ''billing'', oi_subjectRef = ''invoice 7'',
     oi_permission = ''billing.pay'', oi_action = ''pay'', oi_title = ''Pay'', oi_summary = None, oi_requester = ''ann'',
     oi_requirement = \<lparr>requirement_roleKey = Some ''owner'', requirement_scope = None, requirement_decisions = None, requirement_expiresInDays = None\<rparr>\<rparr>"

definition w_member :: approval_member where
  "w_member = \<lparr>am_account = ''bo'', am_roleKey = ''owner'', am_scopes = []\<rparr>"

definition w_request :: approval_request where
  "w_request = \<lparr>ar_id = ''r1'', ar_tenant = ''t'', ar_subjectModule = ''billing'', ar_subjectRef = ''invoice 7'',
     ar_permission = ''billing.pay'', ar_action = ''pay'', ar_title = ''Pay'', ar_summary = None, ar_requester = ''ann'',
     ar_requirement = \<lparr>req_roleKey = Some ''owner'', req_scope = None, req_decisions = 1, req_expiresInDays = 7\<rparr>,
     ar_decisionsNeeded = 1, ar_status = Pending, ar_expiresAt = 604800000, ar_resolvedAt = None, ar_createdAt = 0\<rparr>"

definition w_plan :: planned_decision where
  "w_plan = \<lparr>pd_request = w_request, pd_decider = Some ''bo'', pd_kind = Approve, pd_comment = None, pd_notify = True\<rparr>"

definition w_opened :: approvals_run where
  "w_opened = \<lparr>run_db = snd (createRequest empty_approvals w_request [''bo'']), run_creates = [], run_planned = [],
     run_drawn = [''r1'']\<rparr>"

definition w_decided :: approvals_run where
  "w_decided = w_opened\<lparr>run_planned := [w_plan],
     run_db := snd (commitDecision unit_compare None (run_db w_opened) w_plan ''d1'' ''a1'' 5)\<rparr>"

lemma w_prepared:
  "prepareOpen empty_approvals w_input 7 (\<lambda>t. [w_member]) ''r1'' 0 = Inr (To_create w_request [''bo''])"
  "prepareDecide (run_db w_opened) (\<lambda>t a. Some w_member) ''t'' ''r1'' ''bo'' True None False = Inr w_plan"
  by code_simp+

lemma w_opened_reach: "approvals_reach unit_compare w_opened"
proof -
  let ?s = "idle_run\<lparr>run_creates := [(w_request, [''bo''])], run_drawn := [''r1'']\<rparr>"
  have "approvals_step unit_compare idle_run (idle_run\<lparr>run_creates := (w_request, [''bo'']) # run_creates idle_run,
      run_drawn := ''r1'' # run_drawn idle_run\<rparr>)"
    by (rule approvals_step.plan_open [where input=w_input and days=7 and members="\<lambda>t. [w_member]" and now=0])
      (simp add: idle_run_def w_prepared, simp add: idle_run_def, code_simp)
  then have "approvals_reach unit_compare ?s" by (intro reach_step [OF reach_idle]) (simp add: idle_run_def)
  moreover have "approvals_step unit_compare ?s (?s\<lparr>run_db := snd (createRequest (run_db ?s) w_request [''bo'']), run_creates := [] @ []\<rparr>)"
    by (rule approvals_step.commit_open) simp
  ultimately show ?thesis using reach_step by (fastforce simp: w_opened_def idle_run_def)
qed

lemma w_decided_steps:
  "approvals_reach unit_compare (w_opened\<lparr>run_planned := [w_plan]\<rparr>)"
  "approvals_step unit_compare (w_opened\<lparr>run_planned := [w_plan]\<rparr>) w_decided"
proof -
  have "approvals_step unit_compare w_opened (w_opened\<lparr>run_planned := w_plan # run_planned w_opened\<rparr>)"
    by (rule approvals_step.plan_decide [OF w_prepared(2)]) code_simp
  then show "approvals_reach unit_compare (w_opened\<lparr>run_planned := [w_plan]\<rparr>)"
    using reach_step [OF w_opened_reach] by (simp add: w_opened_def)
  have "approvals_step unit_compare (w_opened\<lparr>run_planned := [w_plan]\<rparr>)
      ((w_opened\<lparr>run_planned := [w_plan]\<rparr>)\<lparr>run_db :=
        snd (commitDecision unit_compare None (run_db (w_opened\<lparr>run_planned := [w_plan]\<rparr>)) w_plan ''d1'' ''a1'' 5)\<rparr>)"
    by (rule approvals_step.commit_decision) simp
  then show "approvals_step unit_compare (w_opened\<lparr>run_planned := [w_plan]\<rparr>) w_decided" by (simp add: w_decided_def)
qed

definition w_settled :: approval_request where
  "w_settled = w_request\<lparr>ar_status := Approved, ar_resolvedAt := Some 5\<rparr>"

lemma w_rows: "db_requests (run_db (w_opened\<lparr>run_planned := [w_plan]\<rparr>)) = [w_request]"
  "db_requests (run_db w_decided) = [w_settled]"
  by code_simp+

theorem approval_ledger_sound_witness:
  "int (approvals_in (ledger_of (run_db w_decided) w_settled)) = 1 \<and>
   distinct (map ad_decider (filter by_member (ledger_of (run_db w_decided) w_settled)))"
proof -
  have "w_settled \<in> set (db_requests (run_db w_decided))" by (simp add: w_rows)
  from approval_ledger_sound [OF reach_step [OF w_decided_steps] this] show ?thesis
    by (simp add: w_settled_def w_request_def)
qed

theorem approval_terminal_final_witness:
  "\<exists>r' \<in> set (db_requests (run_db w_decided)). ar_id r' = ''r1'' \<and> same_question w_request r'"
proof -
  have "w_request \<in> set (db_requests (run_db (w_opened\<lparr>run_planned := [w_plan]\<rparr>)))" unfolding w_rows by simp
  from approval_terminal_final [OF w_decided_steps this] show ?thesis by (simp add: w_request_def)
qed

end
