(* ===== verification/Kernel_Grant.thy ===== *)
theory Kernel_Grant
  imports Json_Canonical Kernel_Keyring Approvals_Invariant
begin

text \<open>
  Approval grants, \<open>packages/kernel/src/approval-grant.ts\<close>, and the grant an approved request yields,
  \<open>grantFor\<close> of \<open>modules/approvals/src/services/approvals-service.ts\<close>. The HMAC, the two hashes, base64url,
  UTF-8 and \<open>JSON.parse\<close> belong to the host and are fields of \<open>grant_host\<close>; \<open>grant_host_ok\<close> is what the
  code relies on of them. Messages are dropped.
\<close>

datatype grant_reason = APPROVAL_GRANT_INVALID | APPROVAL_GRANT_EXPIRED | APPROVAL_GRANT_MISMATCH

text \<open>The claims; \<open>v\<close> is always 1.\<close>

record grant_claims =
  gc_tenantId :: string
  gc_capabilityId :: string
  gc_inputDigest :: string
  gc_requestId :: string
  gc_issuedAt :: int
  gc_expiresAt :: int
  gc_nonce :: string

record grant_expectation =
  ge_tenantId :: string
  ge_capabilityId :: string
  ge_inputDigest :: "string option"

record grant_host =
  gh_sha256_text :: "string \<Rightarrow> string"
  gh_sha256_key :: "bytes \<Rightarrow> string"
  gh_hmac :: "bytes \<Rightarrow> string \<Rightarrow> bytes"
  gh_base64url :: "bytes \<Rightarrow> string"
  gh_unbase64url :: "string \<Rightarrow> bytes"
  gh_utf8 :: "string \<Rightarrow> bytes"
  gh_text :: "bytes \<Rightarrow> string"
  gh_parse :: "string \<Rightarrow> json option"
  gh_base64 :: "string \<Rightarrow> bytes"

definition APPROVAL_GRANT_MAX_TOKEN_LENGTH :: nat where "APPROVAL_GRANT_MAX_TOKEN_LENGTH = 2048"
definition TOKEN_PREFIX :: string where "TOKEN_PREFIX = ''ag1''"
definition MAX_CLAIM_LENGTH :: nat where "MAX_CLAIM_LENGTH = 128"

section \<open>The keyring of the environment\<close>

datatype grant_environment_error = Not_a_key | Ring_refused ring_error

definition decodeKey :: "grant_host \<Rightarrow> string \<Rightarrow> grant_environment_error + bytes" where
  "decodeKey host value =
     (let key = gh_base64 host (trim value) in if length key \<noteq> KEYRING_KEY_BYTES then Inl Not_a_key else Inr key)"

definition approvalGrantKeyringFromEnvironment ::
    "grant_host \<Rightarrow> string option \<Rightarrow> string option \<Rightarrow> grant_environment_error + grant_keyring option" where
  "approvalGrantKeyringFromEnvironment host current previous =
     (case current of
        None \<Rightarrow> Inr None
      | Some value \<Rightarrow>
          if value = [] then Inr None
          else and_then (decodeKey host value) (\<lambda>key.
            and_then (parsePreviousKeys previous (decodeKey host)) (\<lambda>keys.
              case createApprovalGrantKeyring (gh_sha256_key host) key keys of
                Inl e \<Rightarrow> Inl (Ring_refused e)
              | Inr ring \<Rightarrow> Inr (Some ring))))"

section \<open>Claims\<close>

definition approvalInputDigest :: "grant_host \<Rightarrow> json \<Rightarrow> string" where
  "approvalInputDigest host input = gh_sha256_text host (canonical unit_compare input)"

definition claimString :: "json option \<Rightarrow> nat \<Rightarrow> string option" where
  "claimString value maximum =
     (case value of
        Some (JStr s) \<Rightarrow>
          if 1 \<le> length s \<and> length s \<le> maximum \<and> \<not> list_ex (\<lambda>c. is_space c \<or> code c = 0) s then Some s else None
      | _ \<Rightarrow> None)"

definition claimInteger :: "json option \<Rightarrow> int option" where
  "claimInteger value =
     (case value of Some (JNum n) \<Rightarrow> if 0 \<le> n \<and> n \<le> MAX_SAFE_INTEGER then Some n else None | _ \<Rightarrow> None)"

definition readClaims :: "json \<Rightarrow> grant_claims option" where
  "readClaims value =
     (case value of
        JObj raw \<Rightarrow>
          (case (claimString (field raw ''tenantId'') MAX_CLAIM_LENGTH, claimString (field raw ''capabilityId'') MAX_CLAIM_LENGTH,
             claimString (field raw ''inputDigest'') APPROVAL_GRANT_INPUT_DIGEST_LENGTH,
             claimString (field raw ''requestId'') MAX_CLAIM_LENGTH, claimString (field raw ''nonce'') MAX_CLAIM_LENGTH,
             claimInteger (field raw ''issuedAt''), claimInteger (field raw ''expiresAt'')) of
             (Some tenantId, Some capabilityId, Some inputDigest, Some requestId, Some nonce, Some issuedAt, Some expiresAt) \<Rightarrow>
               if field raw ''v'' \<noteq> Some (JNum 1) \<or> expiresAt \<le> issuedAt then None
               else Some \<lparr>gc_tenantId = tenantId, gc_capabilityId = capabilityId, gc_inputDigest = inputDigest,
                 gc_requestId = requestId, gc_issuedAt = issuedAt, gc_expiresAt = expiresAt, gc_nonce = nonce\<rparr>
           | _ \<Rightarrow> None)
      | _ \<Rightarrow> None)"

definition claims_json :: "grant_claims \<Rightarrow> json" where
  "claims_json c = JObj [(''v'', JNum 1), (''tenantId'', JStr (gc_tenantId c)), (''capabilityId'', JStr (gc_capabilityId c)),
     (''inputDigest'', JStr (gc_inputDigest c)), (''requestId'', JStr (gc_requestId c)), (''issuedAt'', JNum (gc_issuedAt c)),
     (''expiresAt'', JNum (gc_expiresAt c)), (''nonce'', JStr (gc_nonce c))]"

section \<open>Issuing and verifying\<close>

datatype issue_error = Claims_out_of_bounds | Token_too_long | Signing_key_missing

record issued_grant =
  ig_token :: string
  ig_claims :: grant_claims
  ig_keyId :: string

definition signed_text :: "string \<Rightarrow> string \<Rightarrow> string" where
  "signed_text keyId payload = TOKEN_PREFIX @ ''.'' @ keyId @ ''.'' @ payload"

definition claims_payload :: "grant_host \<Rightarrow> grant_claims \<Rightarrow> string" where
  "claims_payload host claims = gh_base64url host (gh_utf8 host (canonical unit_compare (claims_json claims)))"

definition issueApprovalGrant :: "grant_host \<Rightarrow> grant_keyring \<Rightarrow> grant_claims \<Rightarrow> issue_error + issued_grant" where
  "issueApprovalGrant host keyring input =
     (case readClaims (claims_json input) of
        None \<Rightarrow> Inl Claims_out_of_bounds
      | Some claims \<Rightarrow>
          (case grant_key keyring (gk_keyId keyring) of
             None \<Rightarrow> Inl Signing_key_missing
           | Some key \<Rightarrow>
               let signed = signed_text (gk_keyId keyring) (claims_payload host claims);
                   token = signed @ ''.'' @ gh_base64url host (gh_hmac host key signed)
               in if APPROVAL_GRANT_MAX_TOKEN_LENGTH < length token then Inl Token_too_long
                  else Inr \<lparr>ig_token = token, ig_claims = claims, ig_keyId = gk_keyId keyring\<rparr>))"

definition bound_to :: "grant_expectation \<Rightarrow> grant_claims \<Rightarrow> bool" where
  "bound_to e c = (gc_tenantId c = ge_tenantId e \<and> gc_capabilityId c = ge_capabilityId e \<and>
     (case ge_inputDigest e of None \<Rightarrow> True | Some d \<Rightarrow> gc_inputDigest c = d))"

definition judge_claims :: "grant_claims \<Rightarrow> grant_expectation \<Rightarrow> int \<Rightarrow> grant_reason + grant_claims" where
  "judge_claims claims expected now =
     (if gc_expiresAt claims \<le> now then Inl APPROVAL_GRANT_EXPIRED
      else if \<not> bound_to expected claims then Inl APPROVAL_GRANT_MISMATCH
      else Inr claims)"

definition verifyApprovalGrant ::
    "grant_host \<Rightarrow> grant_keyring \<Rightarrow> string \<Rightarrow> grant_expectation \<Rightarrow> int \<Rightarrow> grant_reason + grant_claims" where
  "verifyApprovalGrant host keyring token expected now =
     (if length token < 32 \<or> APPROVAL_GRANT_MAX_TOKEN_LENGTH < length token then Inl APPROVAL_GRANT_INVALID
      else case split_on CHR ''.'' token of
        [prefix, keyId, payload, supplied] \<Rightarrow>
          if prefix \<noteq> TOKEN_PREFIX \<or> keyId = [] \<or> payload = [] \<or> supplied = [] then Inl APPROVAL_GRANT_INVALID
          else
            (case grant_key keyring keyId of
               None \<Rightarrow> Inl APPROVAL_GRANT_INVALID
             | Some key \<Rightarrow>
                 if gh_unbase64url host supplied \<noteq> gh_hmac host key (signed_text keyId payload) then Inl APPROVAL_GRANT_INVALID
                 else
                   (case gh_parse host (gh_text host (gh_unbase64url host payload)) of
                      None \<Rightarrow> Inl APPROVAL_GRANT_INVALID
                    | Some parsed \<Rightarrow>
                        (case readClaims parsed of
                           None \<Rightarrow> Inl APPROVAL_GRANT_INVALID
                         | Some claims \<Rightarrow> judge_claims claims expected now)))
      | _ \<Rightarrow> Inl APPROVAL_GRANT_INVALID)"

section \<open>The grant of an approved request\<close>

definition request_claims :: "approval_request \<Rightarrow> string \<Rightarrow> string \<Rightarrow> int \<Rightarrow> grant_claims" where
  "request_claims r capabilityId inputDigest at =
     \<lparr>gc_tenantId = ar_tenant r, gc_capabilityId = capabilityId, gc_inputDigest = inputDigest, gc_requestId = ar_id r,
      gc_issuedAt = at, gc_expiresAt = at + APPROVAL_GRANT_TTL_MS, gc_nonce = ar_id r\<rparr>"

definition grantFor ::
    "grant_host \<Rightarrow> grant_keyring option \<Rightarrow> int \<Rightarrow> approval_request \<Rightarrow> issue_error + string option" where
  "grantFor host grants now request =
     (case grants of
        None \<Rightarrow> Inr None
      | Some keyring \<Rightarrow>
          if ar_status request \<noteq> Approved then Inr None
          else case ar_resolvedAt request of
            None \<Rightarrow> Inr None
          | Some at \<Rightarrow>
              (case decodeCapabilitySubjectRef (ar_subjectRef request) of
                 None \<Rightarrow> Inr None
               | Some (capabilityId, inputDigest) \<Rightarrow>
                   if at + APPROVAL_GRANT_TTL_MS \<le> now then Inr None
                   else and_then (issueApprovalGrant host keyring (request_claims request capabilityId inputDigest at)) (\<lambda>issued.
                     Inr (Some (ig_token issued)))))"

text \<open>The capability's \<open>grant\<close>: only the module that asked is answered.\<close>

datatype grant_error = Refused_input approval_error | Not_issued issue_error

definition serviceGrant ::
    "grant_host \<Rightarrow> grant_keyring option \<Rightarrow> int \<Rightarrow> approvals_db \<Rightarrow> string \<Rightarrow> string \<Rightarrow> string \<Rightarrow> grant_error + string option" where
  "serviceGrant host grants now db tenant i subjectModule =
     (case bounded subjectModule 1 (al_subjectModule APPROVAL_LIMITS) of
        Inl e \<Rightarrow> Inl (Refused_input e)
      | Inr module \<Rightarrow>
          (case serviceGet db tenant i of
             Inl e \<Rightarrow> Inl (Refused_input e)
           | Inr None \<Rightarrow> Inr None
           | Inr (Some request) \<Rightarrow>
               if ar_subjectModule request \<noteq> module then Inr None
               else (case grantFor host grants now request of Inl e \<Rightarrow> Inl (Not_issued e) | Inr g \<Rightarrow> Inr g)))"

section \<open>What the code relies on of the host\<close>

definition grant_host_ok :: "grant_host \<Rightarrow> bool" where
  "grant_host_ok host =
     ((\<forall>b. gh_unbase64url host (gh_base64url host b) = b \<and> CHR ''.'' \<notin> set (gh_base64url host b) \<and>
        length b \<le> length (gh_base64url host b)) \<and>
      (\<forall>s. gh_text host (gh_utf8 host s) = s \<and> length s \<le> length (gh_utf8 host s)) \<and>
      (\<forall>k s. length (gh_hmac host k s) = 32) \<and>
      (\<forall>k. CHR ''.'' \<notin> set (gh_sha256_key host k) \<and> gh_sha256_key host k \<noteq> []))"

text \<open>\<open>JSON.parse\<close> reads back what the canonical text of the claims writes.\<close>

definition parses_back :: "grant_host \<Rightarrow> grant_claims \<Rightarrow> bool" where
  "parses_back host c = (gh_parse host (canonical unit_compare (claims_json c)) = Some (arrange unit_compare (claims_json c)))"

section \<open>A token that was issued verifies\<close>

lemma field_sorted: "distinct (map fst kvs) \<Longrightarrow> field (sort_entries cmp kvs) k = field kvs k"
proof -
  assume d: "distinct (map fst kvs)"
  then have "distinct (map fst (sort_entries cmp kvs))"
    unfolding sort_entries_def by (metis mset_map mset_sort_by mset_eq_imp_distinct_iff)
  then have "map_of (sort_entries cmp kvs) = map_of kvs"
    using d map_of_inject_set set_sort_entries by blast
  then show ?thesis by (simp add: field_def)
qed

lemma readClaims_field: "field a = field b \<Longrightarrow> readClaims (JObj a) = readClaims (JObj b)"
  by (simp only: readClaims_def json.case)

lemma readClaims_arrange: "readClaims (arrange cmp (claims_json c)) = readClaims (claims_json c)"
proof -
  obtain kvs where kvs: "claims_json c = JObj kvs" "distinct (map fst kvs)" "map (\<lambda>(k, v). (k, arrange cmp v)) kvs = kvs"
    by (simp add: claims_json_def)
  show ?thesis unfolding kvs(1) arrange.simps kvs(3) by (rule readClaims_field) (rule ext, rule field_sorted [OF kvs(2)])
qed

lemma claimString_Some: "claimString v n = Some s \<Longrightarrow> v = Some (JStr s)"
  by (auto simp: claimString_def split: option.splits json.splits if_splits)

lemma claimInteger_Some: "claimInteger v = Some n \<Longrightarrow> v = Some (JNum n)"
  by (auto simp: claimInteger_def split: option.splits json.splits if_splits)

lemma readClaims_json: "readClaims (claims_json c) = Some c' \<Longrightarrow> c' = c"
  by (auto simp: readClaims_def claims_json_def field_def split: option.splits if_splits
      dest!: claimString_Some claimInteger_Some)

lemma issue_token:
  assumes "issueApprovalGrant host ring input = Inr issued"
  obtains key where "grant_key ring (gk_keyId ring) = Some key" "readClaims (claims_json input) = Some input"
    "ig_token issued = signed_text (gk_keyId ring) (claims_payload host input) @ ''.'' @
      gh_base64url host (gh_hmac host key (signed_text (gk_keyId ring) (claims_payload host input)))"
    "length (ig_token issued) \<le> APPROVAL_GRANT_MAX_TOKEN_LENGTH"
  using assms readClaims_json
  by (fastforce simp: issueApprovalGrant_def Let_def split: option.splits if_splits)

lemma token_parts:
  assumes "CHR ''.'' \<notin> set keyId" "CHR ''.'' \<notin> set payload" "CHR ''.'' \<notin> set sig"
  shows "split_on CHR ''.'' (signed_text keyId payload @ ''.'' @ sig) = [TOKEN_PREFIX, keyId, payload, sig]"
proof -
  have "signed_text keyId payload @ ''.'' @ sig = join ''.'' [TOKEN_PREFIX, keyId, payload, sig]" by (simp add: signed_text_def)
  moreover have "CHR ''.'' \<notin> set TOKEN_PREFIX" by (simp add: TOKEN_PREFIX_def)
  ultimately show ?thesis using assms split_on_join [of "[TOKEN_PREFIX, keyId, payload, sig]" "CHR ''.''"] by simp
qed

lemma host_parts:
  assumes "grant_host_ok host"
  shows "gh_unbase64url host (gh_base64url host b) = b" "CHR ''.'' \<notin> set (gh_base64url host b)"
    "length b \<le> length (gh_base64url host b)" "gh_text host (gh_utf8 host s) = s" "length s \<le> length (gh_utf8 host s)"
    "length (gh_hmac host k s) = 32" "CHR ''.'' \<notin> set (gh_sha256_key host k)" "gh_sha256_key host k \<noteq> []"
  using assms by (simp_all add: grant_host_ok_def)

lemma fingerprint_parts:
  assumes "grant_host_ok host"
  shows "CHR ''.'' \<notin> set (keyFingerprint (gh_sha256_key host) k)" "keyFingerprint (gh_sha256_key host) k \<noteq> []"
  using host_parts(7,8) [OF assms, of k] by (auto simp: keyFingerprint_def dest: in_set_takeD)

lemma payload_nonempty:
  assumes "grant_host_ok host"
  shows "claims_payload host c \<noteq> []"
proof -
  let ?s = "canonical unit_compare (claims_json c)"
  have "0 < length ?s" by (simp add: claims_json_def)
  also have "length ?s \<le> length (gh_utf8 host ?s)" by (rule host_parts(5) [OF assms])
  also have "length (gh_utf8 host ?s) \<le> length (claims_payload host c)"
    unfolding claims_payload_def by (rule host_parts(3) [OF assms])
  finally show ?thesis by simp
qed

lemma issued_verifies:
  assumes host: "grant_host_ok host" and parse: "parses_back host c"
    and issued: "issueApprovalGrant host ring c = Inr issued"
    and key: "grant_key ring' (gk_keyId ring) = grant_key ring (gk_keyId ring)"
    and keyId: "CHR ''.'' \<notin> set (gk_keyId ring)" "gk_keyId ring \<noteq> []"
  shows "verifyApprovalGrant host ring' (ig_token issued) e t = judge_claims c e t"
proof -
  obtain k where k: "grant_key ring (gk_keyId ring) = Some k" "readClaims (claims_json c) = Some c"
    "ig_token issued = signed_text (gk_keyId ring) (claims_payload host c) @ ''.'' @
      gh_base64url host (gh_hmac host k (signed_text (gk_keyId ring) (claims_payload host c)))"
    "length (ig_token issued) \<le> APPROVAL_GRANT_MAX_TOKEN_LENGTH"
    using issue_token [OF issued] .
  let ?sig = "gh_base64url host (gh_hmac host k (signed_text (gk_keyId ring) (claims_payload host c)))"
  have sig: "32 \<le> length ?sig" using host_parts(3,6) [OF host] by metis
  then have len: "32 \<le> length (ig_token issued)" "?sig \<noteq> []" by (auto simp: k(3))
  have payload: "gh_text host (gh_unbase64url host (claims_payload host c)) = canonical unit_compare (claims_json c)"
    by (simp add: claims_payload_def host_parts [OF host])
  have "split_on CHR ''.'' (ig_token issued) = [TOKEN_PREFIX, gk_keyId ring, claims_payload host c, ?sig]"
    unfolding k(3) by (rule token_parts) (simp_all add: keyId claims_payload_def host_parts [OF host])
  then show ?thesis
    using len k(1,2,4) key keyId(2) payload_nonempty [OF host, of c] payload parse
    by (simp add: verifyApprovalGrant_def host_parts [OF host] parses_back_def readClaims_arrange)
qed

section \<open>The properties\<close>

text \<open>C21: a token is accepted only if it was signed: it spells the fingerprint of a key the ring holds, its
  signature is the HMAC of everything before it under that key, and its claims, read from the payload, have not
  expired and name the expected workspace, capability and input.\<close>

theorem accepted_grant_signed:
  assumes "createApprovalGrantKeyring (gh_sha256_key host) c ps = Inr ring"
    and "verifyApprovalGrant host ring token expected now = Inr claims"
  shows "\<exists>k \<in> set (c # ps). \<exists>payload sig.
    token = signed_text (keyFingerprint (gh_sha256_key host) k) payload @ ''.'' @ sig \<and>
    gh_unbase64url host sig = gh_hmac host k (signed_text (keyFingerprint (gh_sha256_key host) k) payload) \<and>
    (\<exists>parsed. gh_parse host (gh_text host (gh_unbase64url host payload)) = Some parsed \<and> readClaims parsed = Some claims) \<and>
    now < gc_expiresAt claims \<and> bound_to expected claims"
proof -
  from assms(2) obtain keyId payload sig k where parts: "split_on CHR ''.'' token = [TOKEN_PREFIX, keyId, payload, sig]"
      "grant_key ring keyId = Some k" "gh_unbase64url host sig = gh_hmac host k (signed_text keyId payload)"
    and rest: "\<exists>parsed. gh_parse host (gh_text host (gh_unbase64url host payload)) = Some parsed \<and> readClaims parsed = Some claims"
      "now < gc_expiresAt claims" "bound_to expected claims"
    by (auto simp: verifyApprovalGrant_def judge_claims_def split: if_splits list.splits option.splits)
  have "token = join ''.'' [TOKEN_PREFIX, keyId, payload, sig]" using parts(1) join_split_on [of "CHR ''.''" token] by simp
  then have "token = signed_text keyId payload @ ''.'' @ sig" by (simp add: signed_text_def)
  moreover have "k \<in> set (c # ps)" "keyFingerprint (gh_sha256_key host) k = keyId"
    using signing_ring.lookup_known [OF assms(1) parts(2)] by simp_all
  ultimately show ?thesis using parts(3) rest by blast
qed

text \<open>C20: the grant of an approval is answered only to the module that asked, for a request of the workspace that
  was approved less than an hour ago, and verifies under any keyring that still holds the signing key: it is
  accepted exactly for that workspace, capability and input until the hour is over, and refused as expired, then
  as a mismatch, otherwise.\<close>

theorem approval_grant_verifies:
  assumes rings: "createApprovalGrantKeyring (gh_sha256_key host) c ps = Inr ring"
      "createApprovalGrantKeyring (gh_sha256_key host) c' ps' = Inr ring'" "c \<in> set (c' # ps')"
    and unique: "\<And>k. k \<in> set (c' # ps') \<Longrightarrow>
      keyFingerprint (gh_sha256_key host) k = keyFingerprint (gh_sha256_key host) c \<Longrightarrow> k = c"
    and host: "grant_host_ok host"
      "\<And>r at cap digest. r \<in> set (db_requests db) \<Longrightarrow> ar_resolvedAt r = Some at \<Longrightarrow>
        decodeCapabilitySubjectRef (ar_subjectRef r) = Some (cap, digest) \<Longrightarrow> parses_back host (request_claims r cap digest at)"
    and asked: "serviceGrant host (Some ring) now db tenant i subjectModule = Inr (Some token)"
  shows "\<exists>r at capabilityId inputDigest. r \<in> set (db_requests db) \<and> ar_tenant r = trim tenant \<and> ar_id r = trim i \<and>
    ar_subjectModule r = trim subjectModule \<and> ar_status r = Approved \<and> ar_resolvedAt r = Some at \<and>
    now < at + APPROVAL_GRANT_TTL_MS \<and> encodeCapabilitySubjectRef capabilityId inputDigest = Some (ar_subjectRef r) \<and>
    (\<forall>e t. verifyApprovalGrant host ring' token e t = judge_claims (request_claims r capabilityId inputDigest at) e t)"
proof -
  from asked obtain r module where r: "bounded subjectModule 1 (al_subjectModule APPROVAL_LIMITS) = Inr module"
      "serviceGet db tenant i = Inr (Some r)" "ar_subjectModule r = module" "grantFor host (Some ring) now r = Inr (Some token)"
    by (auto simp: serviceGrant_def split: sum.splits option.splits if_splits)
  then obtain at cap digest issued where g: "ar_status r = Approved" "ar_resolvedAt r = Some at"
      "decodeCapabilitySubjectRef (ar_subjectRef r) = Some (cap, digest)" "now < at + APPROVAL_GRANT_TTL_MS"
      "issueApprovalGrant host ring (request_claims r cap digest at) = Inr issued" "token = ig_token issued"
    by (auto simp: grantFor_def result_simps split: option.splits if_splits)
  have trimmed: "x = trim y" if "bounded y a b = Inr x" for x y a b
    using that by (simp add: bounded_def Let_def split: if_splits)
  have row: "r \<in> set (db_requests db)" "ar_tenant r = trim tenant" "ar_id r = trim i" "ar_subjectModule r = trim subjectModule"
    using r(1-3) trimmed by (auto simp: serviceGet_def result_simps dest!: getRequest_Some)
  have parse: "parses_back host (request_claims r cap digest at)" by (rule host(2) [OF row(1) g(2,3)])
  have keyId: "gk_keyId ring = keyFingerprint (gh_sha256_key host) c" by (rule signing_ring.current_first [OF rings(1)])
  have "grant_key ring' (gk_keyId ring) = Some c" by (rule signing_ring.rotated [OF rings unique])
  moreover have "grant_key ring (gk_keyId ring) = Some c"
    using signing_ring.lookup_first [OF rings(1)] keyId by simp
  ultimately have "verifyApprovalGrant host ring' token e t = judge_claims (request_claims r cap digest at) e t" for e t
    unfolding g(6) using issued_verifies [OF host(1) parse g(5)] fingerprint_parts [OF host(1)] keyId by simp
  then show ?thesis using row g(1-4) capability_subject_iff by blast
qed

section \<open>Witnesses\<close>

text \<open>A host that writes bytes as pairs of letters and signs with the first byte of the key.\<close>

definition w_pair :: "8 word \<Rightarrow> string" where
  "w_pair w = [char_of (65 + unat w div 16), char_of (65 + unat w mod 16)]"

fun w_bytes :: "string \<Rightarrow> bytes" where
  "w_bytes (a # b # s) = word_of_nat (16 * (of_char a - 65) + (of_char b - 65)) # w_bytes s"
| "w_bytes _ = []"

definition w_grant_request :: approval_request where
  "w_grant_request = w_request\<lparr>ar_subjectRef := ''capability:mail.send:'' @ replicate 64 CHR ''0'', ar_status := Approved,
     ar_resolvedAt := Some 5\<rparr>"

definition w_claims :: grant_claims where
  "w_claims = request_claims w_grant_request ''mail.send'' (replicate 64 CHR ''0'') 5"

definition w_host :: grant_host where
  "w_host = \<lparr>gh_sha256_text = (\<lambda>s. s), gh_sha256_key = (\<lambda>k. if hd k = 1 then ''one'' else ''two''),
     gh_hmac = (\<lambda>k s. replicate 32 (hd k)), gh_base64url = (\<lambda>b. concat (map w_pair b)), gh_unbase64url = w_bytes,
     gh_utf8 = map (\<lambda>c. word_of_nat (of_char c)), gh_text = map (\<lambda>w. char_of (unat w)),
     gh_parse = (\<lambda>s. if s = canonical unit_compare (claims_json w_claims)
       then Some (arrange unit_compare (claims_json w_claims)) else None),
     gh_base64 = w_bytes\<rparr>"

lemma w_bytes_pair: "w_bytes (w_pair w @ s) = w # w_bytes s"
proof -
  have b: "unat w < 256" using unsigned_less [of w, where 'a=nat] by simp
  then have "unat w div 16 < 16" "unat w mod 16 < 16" by simp_all
  then have "of_char (char_of (65 + unat w div 16) :: char) = 65 + unat w div 16"
      "of_char (char_of (65 + unat w mod 16) :: char) = 65 + unat w mod 16" by simp_all
  then show ?thesis by (simp add: w_pair_def)
qed

lemma w_pair_letters: "CHR ''.'' \<notin> set (w_pair w)"
proof -
  have "unat w < 256" using unsigned_less [of w, where 'a=nat] by simp
  then have "65 + unat w div 16 < 256" "65 + unat w mod 16 < 256" by simp_all
  moreover have "n = 46" if "CHR ''.'' = char_of n" "n < 256" for n :: nat
  proof -
    have "of_char (CHR ''.'') = (of_char (char_of n :: char) :: nat)" using that(1) by simp
    then show ?thesis using that(2) by simp
  qed
  ultimately show ?thesis unfolding w_pair_def by fastforce
qed

lemma w_host_ok: "grant_host_ok w_host"
proof -
  have "w_bytes (concat (map w_pair b)) = b" for b by (induction b) (simp_all add: w_bytes_pair)
  moreover have "CHR ''.'' \<notin> set (concat (map w_pair b))" for b using w_pair_letters by auto
  moreover have "length b \<le> length (concat (map w_pair b))" for b by (induction b) (simp_all add: w_pair_def)
  moreover have "char_of (unat (word_of_nat (of_char c) :: 8 word)) = c" for c :: char
    by (simp add: unat_of_nat)
  ultimately show ?thesis by (simp add: grant_host_ok_def w_host_def o_def)
qed

definition w_ring :: grant_keyring where
  "w_ring = \<lparr>gk_keyId = ''one'', gk_previousKeyIds = [], gk_keys = [(''one'', w_key 1)]\<rparr>"

definition w_ring' :: grant_keyring where
  "w_ring' = \<lparr>gk_keyId = ''two'', gk_previousKeyIds = [''one''], gk_keys = [(''two'', w_key 2), (''one'', w_key 1)]\<rparr>"

definition w_db :: approvals_db where
  "w_db = empty_approvals\<lparr>db_requests := [w_grant_request]\<rparr>"

lemma w_rings:
  "createApprovalGrantKeyring (gh_sha256_key w_host) (w_key 1) [] = Inr w_ring"
  "createApprovalGrantKeyring (gh_sha256_key w_host) (w_key 2) [w_key 1] = Inr w_ring'"
proof -
  have ids: "keyFingerprint (gh_sha256_key w_host) (w_key 1) = ''one''" "keyFingerprint (gh_sha256_key w_host) (w_key 2) = ''two''"
    by (simp_all add: keyFingerprint_def w_host_def w_key_def)
  have len: "length (w_key b) = KEYRING_KEY_BYTES" for b by (simp add: w_key_def KEYRING_KEY_BYTES_def)
  show "createApprovalGrantKeyring (gh_sha256_key w_host) (w_key 1) [] = Inr w_ring"
    "createApprovalGrantKeyring (gh_sha256_key w_host) (w_key 2) [w_key 1] = Inr w_ring'"
    by (simp_all add: createApprovalGrantKeyring_def add_grant_key_def ids len w_ring_def w_ring'_def Let_def
        KEYRING_MAX_PREVIOUS_KEYS_def)
qed

lemma w_subject: "decodeCapabilitySubjectRef (ar_subjectRef w_grant_request) = Some (''mail.send'', replicate 64 CHR ''0'')"
  by code_simp

lemma w_readable: "readClaims (claims_json w_claims) = Some w_claims"
  by code_simp

lemma w_order:
  "sort_entries unit_compare [(''v'', a), (''tenantId'', b), (''capabilityId'', c), (''inputDigest'', d), (''requestId'', e),
     (''issuedAt'', f), (''expiresAt'', g), (''nonce'', h)] =
   [(''capabilityId'', c), (''expiresAt'', g), (''inputDigest'', d), (''issuedAt'', f), (''nonce'', h), (''requestId'', e),
     (''tenantId'', b), (''v'', a)]"
  by code_simp

lemma w_short: "length (canonical unit_compare (claims_json w_claims)) \<le> 700"
proof -
  have "length (show_int 3600005) = 7" by (simp add: show_int_def show_nat_big show_nat_small)
  moreover have "length (show_int 5) = 1" "length (show_int 1) = 1" by (simp_all add: show_int_def show_nat_small)
  moreover have "length (json_string s) \<le> 6 * length s + 2" for s
  proof -
    have "length (concat (map escape s)) \<le> 6 * length s"
      by (induction s) (auto simp: escape_def Let_def)
    then show ?thesis by (simp add: json_string_def)
  qed
  moreover have "length (json_string (replicate 64 CHR ''0'')) = 66"
  proof -
    have "length (concat (map escape (replicate n CHR ''0''))) = n" for n
      by (induction n) (simp_all add: escape_def code_def Let_def)
    then show ?thesis by (simp add: json_string_def)
  qed
  ultimately have parts: "length (show_int 3600005) = 7" "length (show_int 5) = 1" "length (show_int 1) = 1"
    "length (json_string (replicate 64 CHR ''0'')) = 66" "length (json_string s) \<le> 6 * length s + 2" for s by blast+
  have c: "w_claims = \<lparr>gc_tenantId = ''t'', gc_capabilityId = ''mail.send'', gc_inputDigest = replicate 64 CHR ''0'',
      gc_requestId = ''r1'', gc_issuedAt = 5, gc_expiresAt = 3600005, gc_nonce = ''r1''\<rparr>"
    by (simp add: w_claims_def request_claims_def w_grant_request_def w_request_def APPROVAL_GRANT_TTL_MS_def)
  show ?thesis
    using parts(5) [of "''capabilityId''"] parts(5) [of "''expiresAt''"] parts(5) [of "''inputDigest''"] parts(5) [of "''issuedAt''"]
      parts(5) [of "''nonce''"] parts(5) [of "''requestId''"] parts(5) [of "''tenantId''"] parts(5) [of "''v''"]
      parts(5) [of "''mail.send''"] parts(5) [of "''r1''"] parts(5) [of "''t''"]
    by (simp add: c claims_json_def w_order parts(1-4) del: replicate.simps)
qed

lemma w_issued: "\<exists>issued. issueApprovalGrant w_host w_ring w_claims = Inr issued"
proof -
  have pairs: "length (gh_base64url w_host b) = 2 * length b" for b
    by (induction b) (simp_all add: w_host_def w_pair_def)
  have "length (claims_payload w_host w_claims) = 2 * length (canonical unit_compare (claims_json w_claims))"
    unfolding claims_payload_def pairs by (simp add: w_host_def)
  then have "length (claims_payload w_host w_claims) \<le> 1400" using w_short by simp
  moreover have "length (gh_hmac w_host k t) = 32" for k t by (simp add: w_host_def)
  ultimately show ?thesis
    by (simp add: issueApprovalGrant_def w_readable w_ring_def grant_key_def Let_def signed_text_def TOKEN_PREFIX_def pairs
        APPROVAL_GRANT_MAX_TOKEN_LENGTH_def)
qed

lemma w_found: "serviceGet w_db ''t'' ''r1'' = Inr (Some w_grant_request)" "bounded ''billing'' 1 64 = Inr ''billing''"
  by code_simp+

lemma w_token: "\<exists>token. serviceGrant w_host (Some w_ring) 10 w_db ''t'' ''r1'' ''billing'' = Inr (Some token)"
proof -
  obtain issued where "issueApprovalGrant w_host w_ring w_claims = Inr issued" using w_issued by blast
  moreover have "ar_subjectModule w_grant_request = ''billing''" "ar_status w_grant_request = Approved"
      "ar_resolvedAt w_grant_request = Some 5" "al_subjectModule APPROVAL_LIMITS = 64"
    by (simp_all add: w_grant_request_def w_request_def APPROVAL_LIMITS_def)
  ultimately show ?thesis
    by (simp add: serviceGrant_def w_found grantFor_def w_subject APPROVAL_GRANT_TTL_MS_def flip: w_claims_def del: One_nat_def)
qed

lemma w_judged:
  "judge_claims w_claims \<lparr>ge_tenantId = ''t'', ge_capabilityId = ''mail.send'', ge_inputDigest = None\<rparr> 20 = Inr w_claims"
  by (simp add: judge_claims_def bound_to_def w_claims_def request_claims_def w_grant_request_def w_request_def
      APPROVAL_GRANT_TTL_MS_def)

theorem approval_grant_verifies_witness:
  "\<exists>token. serviceGrant w_host (Some w_ring) 10 w_db ''t'' ''r1'' ''billing'' = Inr (Some token) \<and>
     verifyApprovalGrant w_host w_ring' token \<lparr>ge_tenantId = ''t'', ge_capabilityId = ''mail.send'', ge_inputDigest = None\<rparr> 20 = Inr w_claims"
proof -
  obtain token where token: "serviceGrant w_host (Some w_ring) 10 w_db ''t'' ''r1'' ''billing'' = Inr (Some token)"
    using w_token by blast
  have "\<exists>r at cap digest. r \<in> set (db_requests w_db) \<and> ar_tenant r = trim ''t'' \<and> ar_id r = trim ''r1'' \<and>
    ar_subjectModule r = trim ''billing'' \<and> ar_status r = Approved \<and> ar_resolvedAt r = Some at \<and>
    10 < at + APPROVAL_GRANT_TTL_MS \<and> encodeCapabilitySubjectRef cap digest = Some (ar_subjectRef r) \<and>
    (\<forall>e t. verifyApprovalGrant w_host w_ring' token e t = judge_claims (request_claims r cap digest at) e t)"
  proof (rule approval_grant_verifies [OF w_rings _ _ w_host_ok _ token])
    show "w_key 1 \<in> set (w_key 2 # [w_key 1])" by simp
    show "k = w_key 1" if "k \<in> set (w_key 2 # [w_key 1])"
      "keyFingerprint (gh_sha256_key w_host) k = keyFingerprint (gh_sha256_key w_host) (w_key 1)" for k
      using that by (auto simp: w_host_def keyFingerprint_def w_key_def)
    show "parses_back w_host (request_claims r cap digest at)"
      if "r \<in> set (db_requests w_db)" "ar_resolvedAt r = Some at" "decodeCapabilitySubjectRef (ar_subjectRef r) = Some (cap, digest)" for r at cap digest
    proof -
      have "r = w_grant_request" using that(1) by (simp add: w_db_def empty_approvals_def)
      then have "request_claims r cap digest at = w_claims"
        using that(2,3) w_subject by (simp add: w_claims_def w_grant_request_def)
      then show ?thesis by (simp add: parses_back_def w_host_def)
    qed
  qed
  then obtain r at cap digest where r: "r \<in> set (db_requests w_db)" "ar_resolvedAt r = Some at"
      "encodeCapabilitySubjectRef cap digest = Some (ar_subjectRef r)"
      "\<forall>e t. verifyApprovalGrant w_host w_ring' token e t = judge_claims (request_claims r cap digest at) e t" by blast
  have row: "r = w_grant_request" using r(1) by (simp add: w_db_def empty_approvals_def)
  have "decodeCapabilitySubjectRef (ar_subjectRef r) = Some (cap, digest)" using r(3) by (simp only: capability_subject_iff)
  then have "(cap, digest) = (''mail.send'', replicate 64 CHR ''0'')" unfolding row w_subject by (simp only: option.inject)
  then have "cap = ''mail.send''" "digest = replicate 64 CHR ''0''" by (simp_all only: prod.inject)
  with row have "request_claims r cap digest at = w_claims" using r(2) by (simp add: w_claims_def w_grant_request_def)
  then have "verifyApprovalGrant w_host w_ring' token e t = judge_claims w_claims e t" for e t using r(4) by simp
  then show ?thesis using token w_judged by metis
qed

theorem accepted_grant_signed_witness:
  "\<exists>token payload sig. token = signed_text (keyFingerprint (gh_sha256_key w_host) (w_key 1)) payload @ ''.'' @ sig \<and>
     verifyApprovalGrant w_host w_ring token \<lparr>ge_tenantId = ''t'', ge_capabilityId = ''mail.send'', ge_inputDigest = None\<rparr> 20 = Inr w_claims"
proof -
  let ?e = "\<lparr>ge_tenantId = ''t'', ge_capabilityId = ''mail.send'', ge_inputDigest = None\<rparr>"
  obtain issued where issued: "issueApprovalGrant w_host w_ring w_claims = Inr issued" using w_issued by blast
  have parse: "parses_back w_host w_claims" by (simp add: parses_back_def w_host_def)
  have "verifyApprovalGrant w_host w_ring (ig_token issued) ?e 20 = judge_claims w_claims ?e 20"
    by (rule issued_verifies [OF w_host_ok parse issued refl]) (simp_all add: w_ring_def)
  also have "\<dots> = Inr w_claims" by (rule w_judged)
  finally have ok: "verifyApprovalGrant w_host w_ring (ig_token issued) ?e 20 = Inr w_claims" .
  from accepted_grant_signed [OF w_rings(1) ok] obtain k payload sig where
    "k \<in> set (w_key 1 # [])" "ig_token issued = signed_text (keyFingerprint (gh_sha256_key w_host) k) payload @ ''.'' @ sig"
    by (elim bexE exE conjE) (rule that)
  moreover from this have "k = w_key 1" by simp
  ultimately show ?thesis using ok by blast
qed

end
