(* ===== verification/Job_Runner.thy ===== *)
theory Job_Runner
  imports Flow_Prelude
begin

text \<open>
  The loop every durable job runs, \<open>packages/server/src/jobs/runner.ts\<close>: the fence of one item, the pass with
  its pool of workers behind one claim at a time, and the runner around it. What the module hands in (claim,
  perform, heartbeat) answers at any time: an answer is a step. A callback that waits for a promise is a
  continuation; it becomes ready when the promise settles and runs as a step of its own, so calls of the runner's
  interface may come between any two of them. Times on events are dropped.
\<close>

section \<open>Settings\<close>

record job_backoff =
  jb_initialMs :: int
  jb_maxMs :: int
  jb_multiplier :: int

definition jobBackoff :: "int \<Rightarrow> job_backoff" where
  "jobBackoff intervalMs =
     \<lparr>jb_initialMs = intervalMs, jb_maxMs = max intervalMs (min 60000 (intervalMs * 10)), jb_multiplier = 2\<rparr>"

record job_options =
  jo_intervalMs :: int
  jo_heartbeat :: bool
  jo_heartbeatEveryMs :: "int option"
  jo_staleAfterMs :: int
  jo_backoff :: "job_backoff option"
  jo_batchLimit :: "int option"
  jo_concurrency :: "int option"

definition DEFAULT_JOB_BATCH_LIMIT :: int where "DEFAULT_JOB_BATCH_LIMIT = 25"
definition MAX_JOB_CONCURRENCY :: int where "MAX_JOB_CONCURRENCY = 64"
definition HEARTBEAT_DIVISOR :: int where "HEARTBEAT_DIVISOR = 3"
definition MIN_HEARTBEAT_MS :: int where "MIN_HEARTBEAT_MS = 250"
definition MAX_BACKOFF_DOUBLINGS :: nat where "MAX_BACKOFF_DOUBLINGS = 30"

record job_settings =
  js_intervalMs :: int
  js_batchLimit :: nat
  js_concurrency :: nat
  js_heartbeat :: bool
  js_heartbeatEveryMs :: int
  js_backoff :: "job_backoff option"

definition job_settings_of :: "job_options \<Rightarrow> job_settings" where
  "job_settings_of options =
     (let requestedConcurrency = (case jo_concurrency options of Some n \<Rightarrow> n | None \<Rightarrow> 1) in
      \<lparr>js_intervalMs = max 1 (jo_intervalMs options),
       js_batchLimit = nat (max 1 (case jo_batchLimit options of Some n \<Rightarrow> n | None \<Rightarrow> DEFAULT_JOB_BATCH_LIMIT)),
       js_concurrency =
         nat (if \<bar>requestedConcurrency\<bar> \<le> MAX_SAFE_INTEGER then min MAX_JOB_CONCURRENCY (max 1 requestedConcurrency) else 1),
       js_heartbeat = jo_heartbeat options,
       js_heartbeatEveryMs =
         max 1 (case jo_heartbeatEveryMs options of
           Some ms \<Rightarrow> ms | None \<Rightarrow> max MIN_HEARTBEAT_MS (jo_staleAfterMs options div HEARTBEAT_DIVISOR)),
       js_backoff = jo_backoff options\<rparr>)"

text \<open>How long the loop waits after \<open>failures\<close> passes in a row that raised.\<close>

definition job_delay :: "job_settings \<Rightarrow> nat \<Rightarrow> int" where
  "job_delay st failures =
     (case js_backoff st of
        None \<Rightarrow> js_intervalMs st
      | Some backoff \<Rightarrow>
          if failures = 0 then js_intervalMs st
          else let doublings = min (failures - 1) MAX_BACKOFF_DOUBLINGS
               in min (jb_maxMs backoff) (jb_initialMs backoff * max 1 (jb_multiplier backoff) ^ doublings))"

section \<open>The fence of one item\<close>

text \<open>Whether its timer still runs, a renewal is under way, and the claim was lost.\<close>

record fence =
  fc_active :: bool
  fc_beating :: bool
  fc_lost :: bool

definition new_fence :: "job_settings \<Rightarrow> fence" where
  "new_fence st = \<lparr>fc_active = js_heartbeat st, fc_beating = False, fc_lost = False\<rparr>"

datatype renewal = Landed | Refused_renewal | Unanswered

text \<open>The renewals of an item that has settled are over here: one still under way in the source emits its event, or
  aborts a signal nobody reads, and no counter sees it.\<close>

definition beat_due :: "fence \<Rightarrow> fence" where
  "beat_due f = (if \<not> fc_active f \<or> fc_beating f then f else f\<lparr>fc_beating := True\<rparr>)"

definition beat_answered :: "renewal \<Rightarrow> fence \<Rightarrow> fence" where
  "beat_answered answer f =
     (case answer of
        Refused_renewal \<Rightarrow> f\<lparr>fc_beating := False, fc_lost := True, fc_active := False\<rparr>
      | _ \<Rightarrow> f\<lparr>fc_beating := False\<rparr>)"

datatype item_outcome = Item_performed | Item_failed | Item_claim_lost

definition item_outcome_of :: "bool \<Rightarrow> fence \<Rightarrow> item_outcome" where
  "item_outcome_of threw f = (if \<not> threw then Item_performed else if fc_lost f then Item_claim_lost else Item_failed)"

section \<open>A pass\<close>

datatype pass_event =
  Pass_start | Claimed | Claim_failed | Performed | Work_failed | Heartbeat | Heartbeat_failed | Lost_claim

record job_report =
  jr_claimed :: nat
  jr_performed :: nat
  jr_failed :: nat
  jr_claimLost :: nat

text \<open>Workers are numbers: those waiting for their claim, the first of which may be claiming, and those performing.\<close>

record 'c job_pass =
  jp_attempts :: nat
  jp_claimed :: nat
  jp_performed :: nat
  jp_failed :: nat
  jp_claimLost :: nat
  jp_raised :: bool
  jp_drained :: bool
  jp_announced :: bool
  jp_claiming :: bool
  jp_queue :: "nat list"
  jp_items :: "(nat \<times> 'c \<times> fence) list"
  jp_events :: "pass_event list"

definition new_pass :: "job_settings \<Rightarrow> 'c job_pass" where
  "new_pass st =
     \<lparr>jp_attempts = 0, jp_claimed = 0, jp_performed = 0, jp_failed = 0, jp_claimLost = 0, jp_raised = False,
      jp_drained = False, jp_announced = False, jp_claiming = False,
      jp_queue = [0..<min (js_concurrency st) (js_batchLimit st)], jp_items = [], jp_events = []\<rparr>"

definition emit :: "pass_event list \<Rightarrow> 'c job_pass \<Rightarrow> 'c job_pass" where
  "emit es p = p\<lparr>jp_events := jp_events p @ es\<rparr>"

text \<open>\<open>take\<close>: the turn of the worker at the head of the claim chain, and the answers to its claim.\<close>

definition claim_turn :: "job_settings \<Rightarrow> 'c job_pass \<Rightarrow> 'c job_pass" where
  "claim_turn st p =
     (if jp_drained p \<or> js_batchLimit st \<le> jp_attempts p then p\<lparr>jp_queue := tl (jp_queue p)\<rparr>
      else p\<lparr>jp_attempts := jp_attempts p + 1, jp_claiming := True\<rparr>)"

definition claim_raised :: "'c job_pass \<Rightarrow> 'c job_pass" where
  "claim_raised p =
     emit [Claim_failed] (p\<lparr>jp_claiming := False, jp_drained := True, jp_raised := True, jp_queue := tl (jp_queue p)\<rparr>)"

definition claim_empty :: "'c job_pass \<Rightarrow> 'c job_pass" where
  "claim_empty p = p\<lparr>jp_claiming := False, jp_drained := True, jp_queue := tl (jp_queue p)\<rparr>"

definition claim_answered :: "job_settings \<Rightarrow> 'c \<Rightarrow> 'c job_pass \<Rightarrow> 'c job_pass" where
  "claim_answered st item p =
     emit ((if jp_announced p then [] else [Pass_start]) @ [Claimed])
       (p\<lparr>jp_claiming := False, jp_claimed := jp_claimed p + 1, jp_announced := True, jp_queue := tl (jp_queue p),
          jp_items := jp_items p @ [(hd (jp_queue p), item, new_fence st)]\<rparr>)"

text \<open>The end of \<open>performItem\<close>, and what its worker counts before it asks for the next claim.\<close>

definition item_settled :: "nat \<Rightarrow> fence \<Rightarrow> bool \<Rightarrow> 'c job_pass \<Rightarrow> 'c job_pass" where
  "item_settled w f threw p =
     (let q = p\<lparr>jp_items := filter (\<lambda>(v, c, g). v \<noteq> w) (jp_items p), jp_queue := jp_queue p @ [w]\<rparr> in
      case item_outcome_of threw f of
        Item_performed \<Rightarrow> emit [Performed] (q\<lparr>jp_performed := jp_performed p + 1\<rparr>)
      | Item_claim_lost \<Rightarrow> q\<lparr>jp_claimLost := jp_claimLost p + 1\<rparr>
      | Item_failed \<Rightarrow> emit [Work_failed] (q\<lparr>jp_failed := jp_failed p + 1, jp_raised := True\<rparr>))"

definition with_fence :: "nat \<Rightarrow> (fence \<Rightarrow> fence) \<Rightarrow> 'c job_pass \<Rightarrow> 'c job_pass" where
  "with_fence w g p = p\<lparr>jp_items := map (\<lambda>(v, c, f). (v, c, if v = w then g f else f)) (jp_items p)\<rparr>"

fun renewal_event :: "renewal \<Rightarrow> pass_event" where
  "renewal_event Landed = Heartbeat"
| "renewal_event Unanswered = Heartbeat_failed"
| "renewal_event Refused_renewal = Lost_claim"

inductive pass_work :: "job_settings \<Rightarrow> 'c job_pass \<Rightarrow> 'c job_pass \<Rightarrow> bool" for st where
  work_turn: "jp_queue p \<noteq> [] \<Longrightarrow> \<not> jp_claiming p \<Longrightarrow> pass_work st p (claim_turn st p)"
| work_raised: "jp_claiming p \<Longrightarrow> pass_work st p (claim_raised p)"
| work_empty: "jp_claiming p \<Longrightarrow> pass_work st p (claim_empty p)"
| work_answered: "jp_claiming p \<Longrightarrow> pass_work st p (claim_answered st item p)"
| work_settled: "(w, c, f) \<in> set (jp_items p) \<Longrightarrow> pass_work st p (item_settled w f threw p)"

inductive pass_beat :: "'c job_pass \<Rightarrow> 'c job_pass \<Rightarrow> bool" where
  beat_timer: "(w, c, f) \<in> set (jp_items p) \<Longrightarrow> pass_beat p (with_fence w beat_due p)"
| beat_answer: "(w, c, f) \<in> set (jp_items p) \<Longrightarrow> fc_beating f \<Longrightarrow>
    pass_beat p (emit [renewal_event answer] (with_fence w (beat_answered answer) p))"

text \<open>Every worker has returned.\<close>

definition pass_over :: "'c job_pass \<Rightarrow> bool" where
  "pass_over p = (jp_queue p = [] \<and> jp_items p = [])"

definition pass_report :: "'c job_pass \<Rightarrow> job_report" where
  "pass_report p = \<lparr>jr_claimed = jp_claimed p, jr_performed = jp_performed p, jr_failed = jp_failed p, jr_claimLost = jp_claimLost p\<rparr>"

definition failures_after :: "'c job_pass \<Rightarrow> nat \<Rightarrow> nat" where
  "failures_after p failures = (if jp_raised p then min (failures + 1) (MAX_BACKOFF_DOUBLINGS + 1) else 0)"

text \<open>A pass after some number of steps of work, with any renewals between them.\<close>

inductive pass_run :: "job_settings \<Rightarrow> nat \<Rightarrow> 'c job_pass \<Rightarrow> bool" for st where
  run_new: "pass_run st 0 (new_pass st)"
| run_work: "pass_run st n p \<Longrightarrow> pass_work st p p' \<Longrightarrow> pass_run st (Suc n) p'"
| run_beat: "pass_run st n p \<Longrightarrow> pass_beat p p' \<Longrightarrow> pass_run st n p'"

section \<open>What a pass counts\<close>

definition pass_workers :: "job_settings \<Rightarrow> nat" where
  "pass_workers st = min (js_concurrency st) (js_batchLimit st)"

definition workers_ok :: "job_settings \<Rightarrow> 'c job_pass \<Rightarrow> bool" where
  "workers_ok st p = (distinct (jp_queue p @ map fst (jp_items p)) \<and>
     set (jp_queue p @ map fst (jp_items p)) \<subseteq> {..<pass_workers st} \<and> (jp_claiming p \<longrightarrow> jp_queue p \<noteq> []))"

definition counts_ok :: "job_settings \<Rightarrow> 'c job_pass \<Rightarrow> bool" where
  "counts_ok st p = (jp_claimed p = jp_performed p + jp_failed p + jp_claimLost p + length (jp_items p) \<and>
     jp_attempts p \<le> js_batchLimit st \<and> jp_claimed p + (if jp_claiming p then 1 else 0) \<le> jp_attempts p)"

definition events_ok :: "'c job_pass \<Rightarrow> bool" where
  "events_ok p = (jp_announced p = (0 < jp_claimed p) \<and> jp_raised p = (0 < jp_failed p \<or> Claim_failed \<in> set (jp_events p)) \<and>
     count_list (jp_events p) Pass_start = (if 0 < jp_claimed p then 1 else 0) \<and>
     count_list (jp_events p) Claimed = jp_claimed p \<and> count_list (jp_events p) Performed = jp_performed p \<and>
     count_list (jp_events p) Work_failed = jp_failed p)"

definition pass_potential :: "job_settings \<Rightarrow> 'c job_pass \<Rightarrow> nat" where
  "pass_potential st p = 4 * (js_batchLimit st - jp_attempts p) + 2 * length (jp_items p) + length (jp_queue p) +
     (if jp_claiming p then 2 else 0)"

lemma emit_simps [simp]:
  "jp_attempts (emit es p) = jp_attempts p" "jp_claimed (emit es p) = jp_claimed p" "jp_performed (emit es p) = jp_performed p"
  "jp_failed (emit es p) = jp_failed p" "jp_claimLost (emit es p) = jp_claimLost p" "jp_raised (emit es p) = jp_raised p"
  "jp_announced (emit es p) = jp_announced p" "jp_claiming (emit es p) = jp_claiming p" "jp_queue (emit es p) = jp_queue p"
  "jp_items (emit es p) = jp_items p" "jp_events (emit es p) = jp_events p @ es" "jp_drained (emit es p) = jp_drained p"
  by (simp_all add: emit_def)

text \<open>A worker performs at most one item, so settling its item removes one.\<close>

lemma remove_worker:
  assumes "distinct (map fst items)" "(w, c, f) \<in> set items"
  shows "Suc (length (filter (\<lambda>(v, c, g). v \<noteq> w) items)) = length items"
    "map fst (filter (\<lambda>(v, c, g). v \<noteq> w) items) = removeAll w (map fst items)"
proof -
  show "map fst (filter (\<lambda>(v, c, g). v \<noteq> w) items) = removeAll w (map fst items)"
    by (induction items) auto
  have "length (removeAll w (map fst items)) = length (map fst items) - 1"
    using assms by (metis distinct_remove1_removeAll image_eqI length_remove1 list.set_map fst_conv)
  moreover have "0 < length items" using assms(2) by auto
  ultimately show "Suc (length (filter (\<lambda>(v, c, g). v \<noteq> w) items)) = length items"
    using \<open>map fst _ = removeAll w _\<close> by (metis Suc_pred' length_map One_nat_def)
qed

lemma settled_simps [simp]:
  "jp_items (item_settled w f threw p) = filter (\<lambda>(v, c, g). v \<noteq> w) (jp_items p)"
  "jp_queue (item_settled w f threw p) = jp_queue p @ [w]"
  "jp_attempts (item_settled w f threw p) = jp_attempts p" "jp_claiming (item_settled w f threw p) = jp_claiming p"
  "jp_claimed (item_settled w f threw p) = jp_claimed p" "jp_announced (item_settled w f threw p) = jp_announced p"
  by (simp_all add: item_settled_def Let_def split: item_outcome.splits)

lemma work_workers: "pass_work st p p' \<Longrightarrow> workers_ok st p \<Longrightarrow> workers_ok st p'"
proof (induction rule: pass_work.induct)
  case (work_turn p)
  then show ?case by (cases "jp_queue p") (auto simp: workers_ok_def claim_turn_def)
next
  case (work_raised p)
  then show ?case by (cases "jp_queue p") (auto simp: workers_ok_def claim_raised_def)
next
  case (work_empty p)
  then show ?case by (cases "jp_queue p") (auto simp: workers_ok_def claim_empty_def)
next
  case (work_answered p item)
  then show ?case by (cases "jp_queue p") (auto simp: workers_ok_def claim_answered_def)
next
  case (work_settled w c f p threw)
  then have "distinct (map fst (jp_items p))" by (simp add: workers_ok_def)
  note r = remove_worker(2) [OF this work_settled(1)]
  have "w \<in> fst ` set (jp_items p)" using work_settled(1) by force
  then show ?case using work_settled(2) unfolding workers_ok_def settled_simps map_append r
    by (auto simp: distinct_removeAll)
qed

lemma work_counts: "pass_work st p p' \<Longrightarrow> workers_ok st p \<Longrightarrow> counts_ok st p \<Longrightarrow> counts_ok st p'"
proof (induction rule: pass_work.induct)
  case (work_settled w c f p threw)
  then have "distinct (map fst (jp_items p))" by (simp add: workers_ok_def)
  note r = remove_worker(1) [OF this work_settled(1)]
  show ?case using work_settled(3) r
    by (cases "item_outcome_of threw f") (simp_all add: counts_ok_def item_settled_def Let_def)
qed (auto simp: counts_ok_def claim_turn_def claim_raised_def claim_empty_def claim_answered_def)

lemma work_events: "pass_work st p p' \<Longrightarrow> events_ok p \<Longrightarrow> events_ok p'"
proof (induction rule: pass_work.induct)
  case (work_settled w c f p threw)
  then show ?case by (cases "item_outcome_of threw f") (auto simp: events_ok_def item_settled_def Let_def)
qed (auto simp: events_ok_def claim_turn_def claim_raised_def claim_empty_def claim_answered_def)

lemma work_potential: "pass_work st p p' \<Longrightarrow> workers_ok st p \<Longrightarrow> pass_potential st p' < pass_potential st p"
proof (induction rule: pass_work.induct)
  case (work_settled w c f p threw)
  then have "distinct (map fst (jp_items p))" by (simp add: workers_ok_def)
  note r = remove_worker(1) [OF this work_settled(1)]
  then show ?case by (simp add: pass_potential_def)
next
  case (work_turn p)
  then show ?case by (cases "jp_queue p") (auto simp: pass_potential_def claim_turn_def)
next
  case (work_raised p)
  then show ?case by (cases "jp_queue p") (auto simp: pass_potential_def claim_raised_def workers_ok_def)
next
  case (work_empty p)
  then show ?case by (cases "jp_queue p") (auto simp: pass_potential_def claim_empty_def workers_ok_def)
next
  case (work_answered p item)
  then show ?case by (cases "jp_queue p") (auto simp: pass_potential_def claim_answered_def workers_ok_def)
qed

lemma with_fence_simps [simp]:
  "map fst (jp_items (with_fence w g p)) = map fst (jp_items p)" "length (jp_items (with_fence w g p)) = length (jp_items p)"
  "jp_queue (with_fence w g p) = jp_queue p" "jp_attempts (with_fence w g p) = jp_attempts p"
  "jp_claimed (with_fence w g p) = jp_claimed p" "jp_performed (with_fence w g p) = jp_performed p"
  "jp_failed (with_fence w g p) = jp_failed p" "jp_claimLost (with_fence w g p) = jp_claimLost p"
  "jp_raised (with_fence w g p) = jp_raised p" "jp_announced (with_fence w g p) = jp_announced p"
  "jp_claiming (with_fence w g p) = jp_claiming p" "jp_events (with_fence w g p) = jp_events p"
  by (simp_all add: with_fence_def o_def case_prod_unfold)

text \<open>A renewal moves nothing a pass counts.\<close>

lemma beat_keeps:
  assumes "pass_beat p p'"
  shows "workers_ok st p' = workers_ok st p" "counts_ok st p' = counts_ok st p" "events_ok p \<Longrightarrow> events_ok p'"
    "pass_potential st p' = pass_potential st p"
  using assms
proof (induction rule: pass_beat.induct)
  case (beat_answer w c f p answer)
  {
    case 1 show ?case by (simp add: workers_ok_def del: map_append)
  next
    case 2 show ?case by (simp add: counts_ok_def)
  next
    case 3 then show ?case by (cases answer) (auto simp: events_ok_def)
  next
    case 4 show ?case by (simp add: pass_potential_def)
  }
qed (simp_all add: workers_ok_def counts_ok_def events_ok_def pass_potential_def)

lemma pass_run_ok:
  assumes "pass_run st n p"
  shows "workers_ok st p \<and> counts_ok st p \<and> events_ok p \<and> n + pass_potential st p \<le> 4 * js_batchLimit st + pass_workers st"
  using assms
proof (induction rule: pass_run.induct)
  case run_new
  show ?case
    by (auto simp: new_pass_def workers_ok_def counts_ok_def events_ok_def pass_potential_def pass_workers_def)
next
  case (run_work n p p')
  then show ?case
    using work_workers [OF run_work(2)] work_counts [OF run_work(2)] work_events [OF run_work(2)] work_potential [OF run_work(2)]
    by fastforce
next
  case (run_beat n p p')
  then show ?case using beat_keeps [OF run_beat(2)] by simp
qed

lemma pass_moves_on: "workers_ok st p \<Longrightarrow> pass_over p \<or> (\<exists>p'. pass_work st p p')"
proof (cases "jp_items p")
  case Nil
  then show "pass_over p \<or> (\<exists>p'. pass_work st p p')"
    by (cases "jp_claiming p") (auto simp: pass_over_def intro: pass_work.intros)
next
  case (Cons item items)
  then have "(fst item, fst (snd item), snd (snd item)) \<in> set (jp_items p)" by simp
  from work_settled [OF this, of st False] show "pass_over p \<or> (\<exists>p'. pass_work st p p')" by blast
qed

section \<open>The properties of a pass\<close>

text \<open>C25: at every moment of a pass, whatever the source, the work and the fence answer, every item claimed is
  performed, failed, lost to another process or still being worked on, each exactly once; no more claims were asked
  for than the batch allows and no more items are worked on than workers; the pass is announced exactly when
  something was claimed; and it backs the loop off exactly when a claim or an item raised.\<close>

theorem job_pass_accounts:
  assumes "pass_run st n p"
  shows "jp_claimed p = jp_performed p + jp_failed p + jp_claimLost p + length (jp_items p) \<and>
    jp_claimed p \<le> jp_attempts p \<and> jp_attempts p \<le> js_batchLimit st \<and>
    length (jp_queue p) + length (jp_items p) \<le> min (js_concurrency st) (js_batchLimit st) \<and>
    count_list (jp_events p) Pass_start = (if 0 < jp_claimed p then 1 else 0) \<and>
    count_list (jp_events p) Claimed = jp_claimed p \<and>
    (failures_after p k = 0) = (jp_failed p = 0 \<and> Claim_failed \<notin> set (jp_events p))"
proof -
  note ok = pass_run_ok [OF assms]
  have "length (jp_queue p @ map fst (jp_items p)) = card (set (jp_queue p @ map fst (jp_items p)))"
    using ok distinct_card unfolding workers_ok_def by metis
  also have "\<dots> \<le> card {..<pass_workers st}"
    using ok unfolding workers_ok_def by (intro card_mono) simp_all
  finally have "length (jp_queue p) + length (jp_items p) \<le> pass_workers st" by simp
  moreover have "(failures_after p k = 0) = (\<not> jp_raised p)" by (simp add: failures_after_def)
  ultimately show ?thesis using ok by (auto simp: counts_ok_def events_ok_def pass_workers_def split: if_splits)
qed

text \<open>C26: a pass ends. It takes at most four steps of work for every claim the batch allows and one for every
  worker, however many renewals come between them, and until every worker has returned one of them can move: no
  worker is left waiting for a claim that nobody makes.\<close>

theorem job_pass_ends:
  assumes "pass_run st n p"
  shows "n \<le> 4 * js_batchLimit st + min (js_concurrency st) (js_batchLimit st) \<and> (pass_over p \<or> (\<exists>p'. pass_work st p p'))"
  using pass_run_ok [OF assms] pass_moves_on by (auto simp: pass_workers_def)

section \<open>Backing off\<close>

lemma settings_positive:
  "1 \<le> js_intervalMs (job_settings_of options)" "1 \<le> js_batchLimit (job_settings_of options)"
  "1 \<le> js_concurrency (job_settings_of options) \<and> js_concurrency (job_settings_of options) \<le> 64"
  by (auto simp: job_settings_of_def Let_def MAX_JOB_CONCURRENCY_def DEFAULT_JOB_BATCH_LIMIT_def split: option.splits)

lemma delay_jobBackoff:
  assumes "js_backoff st = Some (jobBackoff (js_intervalMs st))" "1 \<le> js_intervalMs st"
  shows "job_delay st 0 = js_intervalMs st"
    "job_delay st (Suc n) = min (max (js_intervalMs st) (min 60000 (js_intervalMs st * 10))) (js_intervalMs st * 2 ^ min n 30)"
  using assms by (simp_all add: job_delay_def jobBackoff_def MAX_BACKOFF_DOUBLINGS_def)

lemma capped_power:
  assumes "1 \<le> (i::int)"
  shows "min (max i (min 60000 (i * 10))) (i * 2 ^ min n 30) = min (max i (min 60000 (i * 10))) (i * 2 ^ n)"
proof (cases "n \<le> 30")
  case False
  have b: "max i (min 60000 (i * 10)) \<le> i * 2 ^ m" if "30 \<le> m" for m
  proof -
    have "(2::int) ^ 4 \<le> 2 ^ m" using that by (intro power_increasing) auto
    then have "i * 10 \<le> i * 2 ^ m" using assms by (intro mult_left_mono) auto
    then show ?thesis using assms by (simp add: min_le_iff_disj)
  qed
  show ?thesis using b [of 30] b [of n] False by (simp add: min_absorb1)
qed (simp add: min_absorb1)

text \<open>C27: with the backoff of the modules, a loop waits its interval after a pass that raised nothing and after
  the first of a row of passes that raised; each further one doubles the wait exactly, until it meets the cap: ten
  intervals or a minute, whichever is less, or the interval where that is longer. So the wait never falls below the
  interval, never exceeds the cap, never shrinks while passes keep failing, and is the cap from the fifth wait on.\<close>

theorem job_delay_bounds:
  assumes "js_backoff st = Some (jobBackoff (js_intervalMs st))" "1 \<le> js_intervalMs st"
  shows "job_delay st 0 = js_intervalMs st \<and> job_delay st 1 = js_intervalMs st \<and>
    job_delay st (Suc n) =
      min (max (js_intervalMs st) (min 60000 (10 * js_intervalMs st))) (js_intervalMs st * 2 ^ n) \<and>
    js_intervalMs st \<le> job_delay st n \<and> job_delay st n \<le> job_delay st (Suc n) \<and>
    (4 < n \<longrightarrow> job_delay st n = max (js_intervalMs st) (min 60000 (10 * js_intervalMs st)))"
proof -
  let ?i = "js_intervalMs st"
  define cap where "cap = max ?i (min 60000 (10 * ?i))"
  have cap: "?i \<le> cap" "cap \<le> 10 * ?i" using assms(2) by (auto simp: cap_def)
  have next_delay: "job_delay st (Suc m) = min cap (?i * 2 ^ m)" for m
    using delay_jobBackoff(2) [OF assms] capped_power [OF assms(2)] by (simp add: cap_def mult.commute)
  have zero: "job_delay st 0 = ?i" by (rule delay_jobBackoff(1) [OF assms])
  have grows: "?i \<le> ?i * 2 ^ m" for m using assms(2) by simp
  have low: "?i \<le> job_delay st n" using cap(1) grows next_delay zero by (cases n) simp_all
  have step: "job_delay st n \<le> job_delay st (Suc n)"
  proof (cases n)
    case 0
    then show ?thesis using next_delay [of 0] zero cap(1) by simp
  next
    case (Suc k)
    have "?i * 2 ^ k \<le> ?i * 2 ^ n" using assms(2) Suc by (intro mult_left_mono power_increasing) auto
    then show ?thesis using next_delay [of k] next_delay [of n] Suc by (simp add: min.coboundedI2 min_le_iff_disj)
  qed
  have top: "job_delay st n = cap" if n: "4 < n"
  proof -
    obtain k where k: "n = Suc k" "4 \<le> k" using n by (intro that [of "n - 1"]) auto
    then have "(2::int) ^ 4 \<le> 2 ^ k" by (intro power_increasing) auto
    then have "?i * 10 \<le> ?i * 2 ^ k" using assms(2) by (intro mult_left_mono) auto
    then show ?thesis using next_delay [of k] cap(2) k(1) by simp
  qed
  show ?thesis using low step top zero next_delay [of n] next_delay [of 0] cap(1)
    unfolding cap_def [symmetric] by simp
qed

section \<open>Witnesses\<close>

definition w_job_settings :: job_settings where
  "w_job_settings = \<lparr>js_intervalMs = 1000, js_batchLimit = 3, js_concurrency = 2, js_heartbeat = True,
     js_heartbeatEveryMs = 250, js_backoff = Some (jobBackoff 1000)\<rparr>"

definition w_job_pass :: "string job_pass" where
  "w_job_pass = item_settled 0 (new_fence w_job_settings) True
     (claim_answered w_job_settings ''invoice'' (claim_turn w_job_settings (new_pass w_job_settings)))"

lemma w_job_run: "pass_run w_job_settings 3 w_job_pass"
proof -
  let ?a = "claim_turn w_job_settings (new_pass w_job_settings :: string job_pass)"
  let ?b = "claim_answered w_job_settings ''invoice'' ?a"
  have "pass_run w_job_settings (Suc 0) ?a"
    by (rule run_work [OF run_new], rule work_turn) (simp_all add: new_pass_def w_job_settings_def)
  then have "pass_run w_job_settings (Suc (Suc 0)) ?b"
    by (rule run_work) (rule work_answered, simp add: claim_turn_def new_pass_def w_job_settings_def)
  then have "pass_run w_job_settings (Suc (Suc (Suc 0))) w_job_pass"
    unfolding w_job_pass_def
    by (rule run_work) (rule work_settled, simp add: claim_answered_def claim_turn_def new_pass_def w_job_settings_def)
  then show ?thesis by (simp add: numeral_3_eq_3)
qed

theorem job_pass_accounts_witness:
  "jp_claimed w_job_pass = 1 \<and> jp_failed w_job_pass = 1 \<and> failures_after w_job_pass 0 \<noteq> 0"
proof -
  have f: "jp_failed w_job_pass = 1"
    by (simp add: w_job_pass_def item_settled_def item_outcome_of_def new_fence_def claim_answered_def claim_turn_def
        new_pass_def w_job_settings_def)
  have c: "jp_claimed w_job_pass = 1"
    by (simp add: w_job_pass_def claim_answered_def claim_turn_def new_pass_def w_job_settings_def)
  then show ?thesis using job_pass_accounts [OF w_job_run, of 0] f by simp
qed

theorem job_pass_ends_witness: "\<exists>p'. pass_work w_job_settings w_job_pass p'"
proof -
  have "jp_queue w_job_pass = [1, 0]"
    by (simp add: w_job_pass_def claim_answered_def claim_turn_def new_pass_def w_job_settings_def upt_rec)
  then have "\<not> pass_over w_job_pass" by (simp add: pass_over_def)
  then show ?thesis using job_pass_ends [OF w_job_run] by blast
qed

theorem job_delay_bounds_witness: "job_delay w_job_settings 1 = 1000 \<and> job_delay w_job_settings 3 = 4000"
  using job_delay_bounds [of w_job_settings 2] by (simp add: w_job_settings_def)

end
