(* ===== verification/Job_Loop.thy ===== *)
theory Job_Loop
  imports Job_Runner
begin

text \<open>
  The runner around the passes: \<open>start\<close>, \<open>tick\<close>, \<open>wake\<close>, \<open>stop\<close>, \<open>quiesce\<close> and \<open>dispose\<close> of
  \<open>packages/server/src/jobs/runner.ts\<close>. A promise of a pass is the pass's number; what was attached to it waits in
  \<open>rn_joined\<close> until the promise settles, then in \<open>rn_ready\<close> for its turn. A timer keeps the chain it was armed for
  and its delay; \<open>rn_timer\<close> is the handle the source holds.
\<close>

datatype continuation = Reschedule nat | Follow_up

datatype 'c pass_slot = Running "'c job_pass" | Settled job_report

record 'c runner =
  rn_disposed :: bool
  rn_started :: bool
  rn_waking :: bool
  rn_failures :: nat
  rn_generation :: nat
  rn_inFlight :: "nat option"
  rn_slots :: "(nat \<times> 'c pass_slot) list"
  rn_joined :: "(nat \<times> continuation) list"
  rn_ready :: "continuation list"
  rn_timer :: "nat option"
  rn_timers :: "(nat \<times> nat \<times> int) list"
  rn_fresh :: nat


section \<open>The interface\<close>

text \<open>\<open>None\<close> is the resolved promise of an idle report.\<close>

definition tick :: "job_settings \<Rightarrow> 'c runner \<Rightarrow> nat option \<times> 'c runner" where
  "tick st r =
     (if rn_disposed r then (None, r)
      else case rn_inFlight r of
        Some pending \<Rightarrow> (Some pending, r)
      | None \<Rightarrow>
          (Some (rn_fresh r),
           r\<lparr>rn_inFlight := Some (rn_fresh r), rn_fresh := rn_fresh r + 1,
             rn_slots := rn_slots r @ [(rn_fresh r, Running (new_pass st))]\<rparr>))"

text \<open>After an idle tick the continuation finds the runner disposed and ends.\<close>

definition run_chain :: "job_settings \<Rightarrow> nat \<Rightarrow> 'c runner \<Rightarrow> 'c runner" where
  "run_chain st chain r =
     (case tick st r of
        (None, r1) \<Rightarrow> r1
      | (Some pending, r1) \<Rightarrow> r1\<lparr>rn_joined := rn_joined r1 @ [(pending, Reschedule chain)]\<rparr>)"

definition schedule :: "int \<Rightarrow> nat \<Rightarrow> 'c runner \<Rightarrow> 'c runner" where
  "schedule delayMs chain r =
     r\<lparr>rn_timer := Some (rn_fresh r), rn_timers := rn_timers r @ [(rn_fresh r, chain, delayMs)], rn_fresh := rn_fresh r + 1\<rparr>"


definition clearTimeout :: "nat option \<Rightarrow> (nat \<times> nat \<times> int) list \<Rightarrow> (nat \<times> nat \<times> int) list" where
  "clearTimeout handle timers =
     (case handle of None \<Rightarrow> timers | Some h \<Rightarrow> filter (\<lambda>(i, chain, delay). i \<noteq> h) timers)"

definition stop :: "'c runner \<Rightarrow> 'c runner" where
  "stop r =
     r\<lparr>rn_started := False, rn_waking := False, rn_generation := rn_generation r + 1,
       rn_timers := clearTimeout (rn_timer r) (rn_timers r), rn_timer := None\<rparr>"

definition wake :: "job_settings \<Rightarrow> 'c runner \<Rightarrow> 'c runner" where
  "wake st r =
     (if rn_disposed r then r
      else case rn_inFlight r of
        None \<Rightarrow> snd (tick st r)
      | Some pending \<Rightarrow>
          if rn_waking r then r
          else r\<lparr>rn_waking := True, rn_joined := rn_joined r @ [(pending, Follow_up)]\<rparr>)"


section \<open>What happens by itself\<close>




definition continue :: "job_settings \<Rightarrow> continuation \<Rightarrow> 'c runner \<Rightarrow> 'c runner" where
  "continue st k r =
     (case k of
        Reschedule chain \<Rightarrow>
          if rn_disposed r \<or> chain \<noteq> rn_generation r then r else schedule (job_delay st (rn_failures r)) chain r
      | Follow_up \<Rightarrow>
          if \<not> rn_waking r then r
          else let r1 = r\<lparr>rn_waking := False\<rparr> in if rn_disposed r1 then r1 else snd (tick st r1))"




section \<open>One pass, one chain\<close>

text \<open>At most one pass, and it is the one in flight; whoever waits, waits for it.\<close>

definition one_pass :: "'c runner \<Rightarrow> bool" where
  "one_pass r =
     (case rn_inFlight r of
        None \<Rightarrow> rn_slots r = [] \<and> rn_joined r = []
      | Some i \<Rightarrow> (\<exists>s. rn_slots r = [(i, s)]) \<and> (\<forall>(j, k) \<in> set (rn_joined r). j = i))"

text \<open>Who will schedule the next pass: a continuation of this generation, or an armed timer.\<close>

definition waiting :: "'c runner \<Rightarrow> continuation list" where
  "waiting r = map snd (rn_joined r) @ rn_ready r"




lemma tick_fields [simp]:
  "rn_started (snd (tick st r)) = rn_started r" "rn_generation (snd (tick st r)) = rn_generation r"
  "rn_timers (snd (tick st r)) = rn_timers r" "rn_timer (snd (tick st r)) = rn_timer r" "rn_joined (snd (tick st r)) = rn_joined r"
  "rn_ready (snd (tick st r)) = rn_ready r" "rn_disposed (snd (tick st r)) = rn_disposed r" "rn_waking (snd (tick st r)) = rn_waking r"
  "waiting (snd (tick st r)) = waiting r" "rn_failures (snd (tick st r)) = rn_failures r"
  by (simp_all add: tick_def waiting_def split: option.splits)

lemma tick_alive: "\<not> rn_disposed r \<Longrightarrow> \<exists>i r1. tick st r = (Some i, r1)"
  by (simp add: tick_def split: option.splits)

lemma run_chain_fields:
  assumes "\<not> rn_disposed r"
  shows "rn_started (run_chain st c r) = rn_started r" "rn_generation (run_chain st c r) = rn_generation r"
    "rn_timers (run_chain st c r) = rn_timers r" "rn_timer (run_chain st c r) = rn_timer r"
    "rn_disposed (run_chain st c r) = rn_disposed r" "rn_waking (run_chain st c r) = rn_waking r"
    "count_list (waiting (run_chain st c r)) k = count_list (waiting r) k + (if k = Reschedule c then 1 else 0)"
    "set (waiting (run_chain st c r)) = insert (Reschedule c) (set (waiting r))"
proof -
  obtain i r1 where t: "tick st r = (Some i, r1)" using tick_alive [OF assms] by blast
  then have r1: "r1 = snd (tick st r)" by simp
  have run: "run_chain st c r = r1\<lparr>rn_joined := rn_joined r1 @ [(i, Reschedule c)]\<rparr>" by (simp add: run_chain_def t)
  show "rn_started (run_chain st c r) = rn_started r" "rn_generation (run_chain st c r) = rn_generation r"
    "rn_timers (run_chain st c r) = rn_timers r" "rn_timer (run_chain st c r) = rn_timer r"
    "rn_disposed (run_chain st c r) = rn_disposed r" "rn_waking (run_chain st c r) = rn_waking r"
    "count_list (waiting (run_chain st c r)) k = count_list (waiting r) k + (if k = Reschedule c then 1 else 0)"
    "set (waiting (run_chain st c r)) = insert (Reschedule c) (set (waiting r))"
    unfolding run r1 by (auto simp: waiting_def)
qed

lemma run_chain_disposed: "rn_disposed r \<Longrightarrow> run_chain st c r = r"
  by (simp add: run_chain_def tick_def)















lemma one_pass_cong:
  "rn_inFlight r' = rn_inFlight r \<Longrightarrow> rn_slots r' = rn_slots r \<Longrightarrow> rn_joined r' = rn_joined r \<Longrightarrow> one_pass r' = one_pass r"
  by (simp only: one_pass_def)

lemma stop_fields [simp]:
  "waiting (stop r) = waiting r" "one_pass (stop r) = one_pass r" "\<not> rn_waking (stop r)" "\<not> rn_started (stop r)"
  "rn_generation (stop r) = Suc (rn_generation r)" "rn_disposed (stop r) = rn_disposed r"
  using one_pass_cong [of "stop r" r] by (simp_all add: stop_def waiting_def)







text \<open>A disposed runner begins nothing.\<close>

lemma stop_slots [simp]: "rn_slots (stop r) = rn_slots r"
  by (simp add: stop_def)



text \<open>A wake that arrived during a pass does not outlive a stop: its continuation finds nothing to do.\<close>

lemma stop_drops_wake: "continue st Follow_up (stop (wake st r)) = stop (wake st r)"
  by (simp add: continue_def)



lemma run_chain_waking [simp]: "rn_waking (run_chain st c r) = rn_waking r"
  by (cases "rn_disposed r") (simp_all add: run_chain_fields(6) run_chain_disposed)


section \<open>The property\<close>



end
