(* ===== verification/Template_Schema.thy ===== *)
theory Template_Schema
  imports Flow_Prelude Complex_Main "HOL-Library.AList"
begin

text \<open>
  The input schemas of document templates, from \<open>modules/documents/src/domain/template-schema.ts\<close>: which
  JSON value is a schema of the subset (\<open>templateSchemaProblem\<close>), which input a schema accepts
  (\<open>validateTemplateInput\<close>), and the schema of an entity (\<open>templateInputSchemaFromFields\<close>). Values are
  JSON values whose numbers are rationals or the three values of a double that are not finite; an object
  is the list of its own properties in \<open>Object.keys\<close> order. Messages are dropped, a refusal keeps which
  test it failed and an issue its path and code.
\<close>

section \<open>Values\<close>

datatype js_number = Finite rat | PosInf | NegInf | NaN

datatype tvalue =
  VNull
| VBool bool
| VNum js_number
| VStr string
| VArr "tvalue list"
| VObj "(string \<times> tvalue) list"

text \<open>\<open>Object.hasOwn(value, name) ? value[name] : undefined\<close>; \<open>None\<close> is undefined.\<close>

definition own :: "(string \<times> tvalue) list \<Rightarrow> string \<Rightarrow> tvalue option" where
  "own kvs name = map_of kvs name"

fun isFinite :: "js_number \<Rightarrow> bool" where
  "isFinite (Finite q) = True"
| "isFinite _ = False"

text \<open>\<open>Number.isSafeInteger\<close>.\<close>

fun isSafeInteger :: "js_number \<Rightarrow> bool" where
  "isSafeInteger (Finite q) = (of_int \<lfloor>q\<rfloor> = q \<and> \<bar>\<lfloor>q\<rfloor>\<bar> \<le> MAX_SAFE_INTEGER)"
| "isSafeInteger _ = False"

lemma tvalue_size_entry: "(k, v) \<in> set kvs \<Longrightarrow> size v < size (VObj kvs)"
  by (induction kvs) auto

lemma tvalue_size_element: "v \<in> set vs \<Longrightarrow> size v < size (VArr vs)"
  by (induction vs) auto

lemma own_size: "own kvs k = Some v \<Longrightarrow> size v < size (VObj kvs)"
  unfolding own_def by (rule tvalue_size_entry) (rule map_of_SomeD)

lemma own_entries_size: "own kvs k = Some (VObj es) \<Longrightarrow> (n, v) \<in> set es \<Longrightarrow> size v < size (VObj kvs)"
  using own_size [of kvs k "VObj es"] tvalue_size_entry [of n v es] by linarith

section \<open>Limits\<close>

definition SCHEMA_DEPTH :: nat where "SCHEMA_DEPTH = 4"
definition SCHEMA_PROPERTIES :: nat where "SCHEMA_PROPERTIES = 64"
definition STRING_CHARACTERS :: nat where "STRING_CHARACTERS = 10000"
definition ARRAY_ITEMS :: nat where "ARRAY_ITEMS = 2000"
definition INPUT_ISSUES :: nat where "INPUT_ISSUES = 20"

lemmas schema_limits =
  SCHEMA_DEPTH_def SCHEMA_PROPERTIES_def STRING_CHARACTERS_def ARRAY_ITEMS_def INPUT_ISSUES_def

section \<open>Schemas\<close>

text \<open>\<open>TemplateInputSchema\<close>, without its title and description.\<close>

datatype tschema =
  SObject "(string \<times> tschema) list" "string list option"
| SArray tschema
| SString "rat option" "string list option"
| SNumber
| SInteger
| SBoolean

lemma tschema_size_entry: "(k, s) \<in> set ps \<Longrightarrow> size s < size (SObject ps req)"
  by (induction ps) auto

fun is_sarray :: "tschema \<Rightarrow> bool" where
  "is_sarray (SArray s) = True"
| "is_sarray _ = False"

text \<open>\<open>/^[A-Za-z_][A-Za-z0-9_]*$/\<close>.\<close>

definition word_start :: "char \<Rightarrow> bool" where
  "word_start c = (is_lower c \<or> is_upper c \<or> c = CHR ''_'')"

definition word_char :: "char \<Rightarrow> bool" where
  "word_char c = (word_start c \<or> is_digit c)"

fun is_identifier :: "string \<Rightarrow> bool" where
  "is_identifier [] = False"
| "is_identifier (c # cs) = (word_start c \<and> list_all word_char cs)"

datatype schema_refusal =
  Root_not_object | Schema_not_object | Schema_too_deep | Annotation_not_text | Properties_missing
| Properties_too_many | Property_name_invalid | Required_invalid | Array_in_array | Items_invalid
| MaxLength_invalid | Enum_invalid | Type_invalid | Keyword_unknown

text \<open>The first refusal of a loop that returns at the first one.\<close>

fun first_refusal :: "('a \<Rightarrow> 'e option) \<Rightarrow> 'a list \<Rightarrow> 'e option" where
  "first_refusal f [] = None"
| "first_refusal f (x # xs) = (case f x of Some e \<Rightarrow> Some e | None \<Rightarrow> first_refusal f xs)"

lemma first_refusal_cong [fundef_cong]:
  "xs = ys \<Longrightarrow> (\<And>x. x \<in> set ys \<Longrightarrow> f x = g x) \<Longrightarrow> first_refusal f xs = first_refusal g ys"
  by (induction xs arbitrary: ys) (auto split: option.splits)

lemma first_refusal_None: "first_refusal f xs = None \<longleftrightarrow> (\<forall>x \<in> set xs. f x = None)"
  by (induction xs) (auto split: option.splits)

fun is_text :: "tvalue \<Rightarrow> bool" where
  "is_text (VStr s) = True"
| "is_text _ = False"

fun text_of :: "tvalue \<Rightarrow> string" where
  "text_of (VStr s) = s"
| "text_of _ = []"

definition ANNOTATIONS :: "string list" where
  "ANNOTATIONS = [''title'', ''description'']"

definition annotation_refused :: "(string \<times> tvalue) list \<Rightarrow> bool" where
  "annotation_refused kvs =
     list_ex (\<lambda>a. case own kvs a of Some v \<Rightarrow> \<not> is_text v | None \<Rightarrow> False) ANNOTATIONS"

definition keyword_refused :: "string list \<Rightarrow> (string \<times> tvalue) list \<Rightarrow> bool" where
  "keyword_refused allowed kvs = list_ex (\<lambda>key. key \<notin> set (''type'' # ANNOTATIONS @ allowed)) (map fst kvs)"

definition required_refused :: "string list \<Rightarrow> (string \<times> tvalue) list \<Rightarrow> bool" where
  "required_refused names kvs =
     (case own kvs ''required'' of
        None \<Rightarrow> False
      | Some (VArr es) \<Rightarrow> list_ex (\<lambda>e. \<not> is_text e \<or> text_of e \<notin> set names) es
      | Some _ \<Rightarrow> True)"

definition max_length_refused :: "(string \<times> tvalue) list \<Rightarrow> bool" where
  "max_length_refused kvs =
     (case own kvs ''maxLength'' of
        None \<Rightarrow> False
      | Some (VNum (Finite q)) \<Rightarrow> \<not> isSafeInteger (Finite q) \<or> q < 1 \<or> rat_of_nat STRING_CHARACTERS < q
      | Some _ \<Rightarrow> True)"

definition enum_refused :: "(string \<times> tvalue) list \<Rightarrow> bool" where
  "enum_refused kvs =
     (case own kvs ''enum'' of
        None \<Rightarrow> False
      | Some (VArr es) \<Rightarrow> es = [] \<or> list_ex (\<lambda>e. \<not> is_text e) es
      | Some _ \<Rightarrow> True)"

text \<open>The last loop, over the keywords that are present.\<close>

definition keywords_end :: "string list \<Rightarrow> (string \<times> tvalue) list \<Rightarrow> schema_refusal option" where
  "keywords_end allowed kvs = (if keyword_refused allowed kvs then Some Keyword_unknown else None)"

text \<open>The switch on \<open>value.type\<close>.\<close>

datatype schema_type = T_object | T_array | T_string | T_number | T_integer | T_boolean | T_other

definition type_of :: "(string \<times> tvalue) list \<Rightarrow> schema_type" where
  "type_of kvs =
     (case own kvs ''type'' of
        Some (VStr t) \<Rightarrow>
          if t = ''object'' then T_object else if t = ''array'' then T_array
          else if t = ''string'' then T_string else if t = ''number'' then T_number
          else if t = ''integer'' then T_integer else if t = ''boolean'' then T_boolean else T_other
      | _ \<Rightarrow> T_other)"

fun own_object :: "(string \<times> tvalue) list \<Rightarrow> string \<Rightarrow> (string \<times> tvalue) list option" where
  "own_object kvs name = (case own kvs name of Some (VObj es) \<Rightarrow> Some es | _ \<Rightarrow> None)"

lemma own_object_size: "own_object kvs name = Some es \<Longrightarrow> size (VObj es) < size (VObj kvs)"
  using own_size [of kvs name "VObj es"] by (auto split: option.splits tvalue.splits)

lemma own_object_entry_size: "own_object kvs name = Some es \<Longrightarrow> (n, v) \<in> set es \<Longrightarrow> size v < size (VObj kvs)"
  using own_object_size [of kvs name es] tvalue_size_entry [of n v es] by linarith

declare own_object.simps [simp del]

function schemaProblem :: "tvalue \<Rightarrow> nat \<Rightarrow> bool \<Rightarrow> schema_refusal option" where
  "schemaProblem (VObj kvs) depth inArray =
     (if SCHEMA_DEPTH < depth then Some Schema_too_deep
      else if annotation_refused kvs then Some Annotation_not_text
      else
        (case type_of kvs of
           T_object \<Rightarrow>
             (case own_object kvs ''properties'' of
                None \<Rightarrow> Some Properties_missing
              | Some ps \<Rightarrow>
                  if SCHEMA_PROPERTIES < length ps then Some Properties_too_many
                  else
                    (case first_refusal
                       (\<lambda>(name, child). if \<not> is_identifier name then Some Property_name_invalid
                                        else schemaProblem child (depth + 1) False) ps of
                       Some e \<Rightarrow> Some e
                     | None \<Rightarrow>
                         if required_refused (map fst ps) kvs then Some Required_invalid
                         else keywords_end [''properties'', ''required''] kvs))
         | T_array \<Rightarrow>
             if inArray then Some Array_in_array
             else
               (case own_object kvs ''items'' of
                  None \<Rightarrow> Some Items_invalid
                | Some es \<Rightarrow>
                    if type_of es = T_array then Some Items_invalid
                    else
                      (case schemaProblem (VObj es) (depth + 1) True of
                         Some e \<Rightarrow> Some e
                       | None \<Rightarrow> keywords_end [''items''] kvs))
         | T_string \<Rightarrow>
             if max_length_refused kvs then Some MaxLength_invalid
             else if enum_refused kvs then Some Enum_invalid
             else keywords_end [''maxLength'', ''enum''] kvs
         | T_number \<Rightarrow> keywords_end [] kvs
         | T_integer \<Rightarrow> keywords_end [] kvs
         | T_boolean \<Rightarrow> keywords_end [] kvs
         | T_other \<Rightarrow> Some Type_invalid))"
| "schemaProblem VNull depth inArray = Some Schema_not_object"
| "schemaProblem (VBool b) depth inArray = Some Schema_not_object"
| "schemaProblem (VNum n) depth inArray = Some Schema_not_object"
| "schemaProblem (VStr s) depth inArray = Some Schema_not_object"
| "schemaProblem (VArr vs) depth inArray = Some Schema_not_object"
  by pat_completeness auto
termination
  by (relation "measure (\<lambda>(v, _). size v)")
    (auto dest: own_object_size own_object_entry_size simp del: tvalue.size)

definition templateSchemaProblem :: "tvalue \<Rightarrow> schema_refusal option" where
  "templateSchemaProblem v =
     (case v of
        VObj kvs \<Rightarrow> if type_of kvs = T_object then schemaProblem v 1 False else Some Root_not_object
      | _ \<Rightarrow> Some Root_not_object)"

text \<open>
  The value seen as a \<open>TemplateInputSchema\<close>, as the code casts it once it was accepted. What the cast
  would give a value that is not a schema is never read.
\<close>

definition max_length_of :: "(string \<times> tvalue) list \<Rightarrow> rat option" where
  "max_length_of kvs = (case own kvs ''maxLength'' of Some (VNum (Finite q)) \<Rightarrow> Some q | _ \<Rightarrow> None)"

definition texts_of :: "(string \<times> tvalue) list \<Rightarrow> string \<Rightarrow> string list option" where
  "texts_of kvs name = (case own kvs name of Some (VArr es) \<Rightarrow> Some (map text_of es) | _ \<Rightarrow> None)"

function schema_of :: "tvalue \<Rightarrow> tschema" where
  "schema_of (VObj kvs) =
     (case type_of kvs of
        T_object \<Rightarrow>
          SObject
            (case own_object kvs ''properties'' of
               Some ps \<Rightarrow> map (\<lambda>(name, child). (name, schema_of child)) ps
             | None \<Rightarrow> [])
            (texts_of kvs ''required'')
      | T_array \<Rightarrow> SArray (case own_object kvs ''items'' of Some es \<Rightarrow> schema_of (VObj es) | None \<Rightarrow> SBoolean)
      | T_string \<Rightarrow> SString (max_length_of kvs) (texts_of kvs ''enum'')
      | T_number \<Rightarrow> SNumber
      | T_integer \<Rightarrow> SInteger
      | _ \<Rightarrow> SBoolean)"
| "schema_of VNull = SBoolean"
| "schema_of (VBool b) = SBoolean"
| "schema_of (VNum n) = SBoolean"
| "schema_of (VStr s) = SBoolean"
| "schema_of (VArr vs) = SBoolean"
  by pat_completeness auto
termination
  by (relation "measure size") (auto dest: own_object_size own_object_entry_size simp del: tvalue.size)

section \<open>What is accepted\<close>

text \<open>The schemas the subset holds: depth, count and names of properties, no array in an array, bounds.\<close>

function schema_ok :: "nat \<Rightarrow> bool \<Rightarrow> tschema \<Rightarrow> bool" where
  "schema_ok depth inArray (SObject ps req) =
     (depth \<le> SCHEMA_DEPTH \<and> length ps \<le> SCHEMA_PROPERTIES \<and>
      (\<forall>(name, s) \<in> set ps. is_identifier name \<and> schema_ok (depth + 1) False s) \<and>
      (case req of None \<Rightarrow> True | Some names \<Rightarrow> set names \<subseteq> fst ` set ps))"
| "schema_ok depth inArray (SArray s) =
     (depth \<le> SCHEMA_DEPTH \<and> \<not> inArray \<and> \<not> is_sarray s \<and> schema_ok (depth + 1) True s)"
| "schema_ok depth inArray (SString maxLength enum) =
     (depth \<le> SCHEMA_DEPTH \<and> enum \<noteq> Some [] \<and>
      (case maxLength of
         None \<Rightarrow> True
       | Some q \<Rightarrow> of_int \<lfloor>q\<rfloor> = q \<and> 1 \<le> q \<and> q \<le> rat_of_nat STRING_CHARACTERS))"
| "schema_ok depth inArray SNumber = (depth \<le> SCHEMA_DEPTH)"
| "schema_ok depth inArray SInteger = (depth \<le> SCHEMA_DEPTH)"
| "schema_ok depth inArray SBoolean = (depth \<le> SCHEMA_DEPTH)"
  by pat_completeness auto
termination
  by (relation "measure (\<lambda>(_, _, s). size s)") (auto dest: tschema_size_entry simp del: tschema.size(7))

lemma max_length_safe:
  assumes "1 \<le> q" and "q \<le> rat_of_nat STRING_CHARACTERS"
  shows "\<bar>\<lfloor>q\<rfloor>\<bar> \<le> MAX_SAFE_INTEGER"
proof -
  have "\<lfloor>q\<rfloor> \<le> \<lfloor>rat_of_nat STRING_CHARACTERS\<rfloor>" using assms(2) by (rule floor_mono)
  moreover have "0 \<le> \<lfloor>q\<rfloor>" using assms(1) by simp
  ultimately show ?thesis by (simp add: STRING_CHARACTERS_def MAX_SAFE_INTEGER_def)
qed

lemma max_length_accepted:
  assumes "\<not> max_length_refused kvs"
  shows "case max_length_of kvs of None \<Rightarrow> True
         | Some q \<Rightarrow> of_int \<lfloor>q\<rfloor> = q \<and> 1 \<le> q \<and> q \<le> rat_of_nat STRING_CHARACTERS"
  using assms unfolding max_length_refused_def max_length_of_def
  by (simp add: not_less split: option.splits tvalue.splits js_number.splits)

lemma required_accepted:
  assumes "\<not> required_refused names kvs"
  shows "case texts_of kvs ''required'' of None \<Rightarrow> True | Some ns \<Rightarrow> set ns \<subseteq> set names"
  using assms unfolding required_refused_def texts_of_def
  by (auto simp: list_ex_iff split: option.splits tvalue.splits)

lemma enum_accepted: "\<not> enum_refused kvs \<Longrightarrow> texts_of kvs ''enum'' \<noteq> Some []"
  unfolding enum_refused_def texts_of_def by (simp split: option.splits tvalue.splits)

lemma is_sarray_schema_of: "is_sarray (schema_of (VObj es)) \<longleftrightarrow> type_of es = T_array"
  by (simp split: schema_type.splits)

lemma accepted_schema_ok: "schemaProblem v depth inArray = None \<Longrightarrow> schema_ok depth inArray (schema_of v)"
proof (induction v depth inArray rule: schemaProblem.induct)
  case (1 kvs depth inArray)
  have top: "depth \<le> SCHEMA_DEPTH" "\<not> annotation_refused kvs" "type_of kvs \<noteq> T_other"
    using 1(3) by (auto split: if_splits)
  show ?case
  proof (cases "type_of kvs")
    case T_object
    with 1(3) top obtain ps where ps: "own_object kvs ''properties'' = Some ps" "length ps \<le> SCHEMA_PROPERTIES"
      "\<forall>x \<in> set ps. (case x of (name, child) \<Rightarrow> if \<not> is_identifier name then Some Property_name_invalid
                                        else schemaProblem child (depth + 1) False) = None"
      "\<not> required_refused (map fst ps) kvs"
      by (auto simp: first_refusal_None split: if_splits option.splits)
    have IH: "is_identifier name \<and> schema_ok (depth + 1) False (schema_of child)" if "(name, child) \<in> set ps" for name child
      using 1(1) [OF _ _ T_object ps(1) _ that refl] ps(2) top ps(3) that by (fastforce split: if_splits)
    have "fst ` set (map (\<lambda>(name, child). (name, schema_of child)) ps) = fst ` set ps"
      by (force simp: image_iff)
    then show ?thesis
      using T_object top ps(1,2) IH required_accepted [OF ps(4)] by (auto split: option.splits)
  next
    case T_array
    with 1(3) top obtain es where es: "\<not> inArray" "own_object kvs ''items'' = Some es" "type_of es \<noteq> T_array"
      "schemaProblem (VObj es) (depth + 1) True = None"
      by (auto split: if_splits option.splits)
    have "schema_ok (depth + 1) True (schema_of (VObj es))"
      using 1(2) [OF _ _ T_array _ es(2)] es top by simp
    then show ?thesis
      using T_array es top is_sarray_schema_of [of es] by (simp del: schema_of.simps(1) add: schema_of.simps(1) [of kvs])
  next
    case T_string
    with 1(3) top have "\<not> max_length_refused kvs" "\<not> enum_refused kvs" by (auto split: if_splits)
    with T_string top show ?thesis using max_length_accepted [of kvs] enum_accepted [of kvs] by simp
  qed (use top in simp_all)
qed simp_all

section \<open>Schemas written as JSON\<close>

definition max_length_entry :: "rat option \<Rightarrow> (string \<times> tvalue) list" where
  "max_length_entry m = (case m of None \<Rightarrow> [] | Some q \<Rightarrow> [(''maxLength'', VNum (Finite q))])"

definition texts_entry :: "string \<Rightarrow> string list option \<Rightarrow> (string \<times> tvalue) list" where
  "texts_entry name ts = (case ts of None \<Rightarrow> [] | Some ss \<Rightarrow> [(name, VArr (map VStr ss))])"

function schema_value :: "tschema \<Rightarrow> tvalue" where
  "schema_value (SObject ps req) =
     VObj ([(''type'', VStr ''object''), (''properties'', VObj (map (\<lambda>(name, s). (name, schema_value s)) ps))] @
           texts_entry ''required'' req)"
| "schema_value (SArray s) = VObj [(''type'', VStr ''array''), (''items'', schema_value s)]"
| "schema_value (SString m e) = VObj ((''type'', VStr ''string'') # max_length_entry m @ texts_entry ''enum'' e)"
| "schema_value SNumber = VObj [(''type'', VStr ''number'')]"
| "schema_value SInteger = VObj [(''type'', VStr ''integer'')]"
| "schema_value SBoolean = VObj [(''type'', VStr ''boolean'')]"
  by pat_completeness auto
termination
  by (relation "measure size") (auto dest: tschema_size_entry simp del: tschema.size(7))

fun value_entries :: "tvalue \<Rightarrow> (string \<times> tvalue) list" where
  "value_entries (VObj kvs) = kvs"
| "value_entries _ = []"

lemma schema_value_object: "schema_value s = VObj (value_entries (schema_value s))"
  by (cases s) simp_all

lemmas entry_simps = own_def texts_entry_def max_length_entry_def own_object.simps texts_of_def max_length_of_def

lemma type_of_schema_value:
  "type_of (value_entries (schema_value s)) =
     (case s of SObject ps req \<Rightarrow> T_object | SArray i \<Rightarrow> T_array | SString m e \<Rightarrow> T_string
      | SNumber \<Rightarrow> T_number | SInteger \<Rightarrow> T_integer | SBoolean \<Rightarrow> T_boolean)"
  by (cases s) (simp_all add: type_of_def own_def)

lemma map_text_of [simp]: "map text_of (map VStr ts) = ts"
  by (induction ts) simp_all

lemma schema_of_value [simp]: "schema_of (schema_value s) = s"
proof (induction s rule: schema_value.induct)
  case (1 ps req)
  have "map (\<lambda>(name, child). (name, schema_of child)) (map (\<lambda>(name, s). (name, schema_value s)) ps) = ps"
    using 1 by (induction ps) auto
  moreover have "texts_of (value_entries (schema_value (SObject ps req))) ''required'' = req"
    by (cases req) (simp_all add: entry_simps del: map_map)
  moreover have "own_object (value_entries (schema_value (SObject ps req))) ''properties'' =
      Some (map (\<lambda>(name, s). (name, schema_value s)) ps)"
    by (simp add: entry_simps)
  ultimately show ?case
    using type_of_schema_value [of "SObject ps req"] by (subst schema_value_object) (simp del: schema_value.simps map_map)
next
  case (2 s)
  have "own_object (value_entries (schema_value (SArray s))) ''items'' = Some (value_entries (schema_value s))"
    by (cases s) (simp_all add: entry_simps)
  then show ?case
    using 2 type_of_schema_value [of "SArray s"] schema_value_object [of s]
    by (subst schema_value_object) (simp del: schema_value.simps)
next
  case (3 m e)
  have "max_length_of (value_entries (schema_value (SString m e))) = m"
    "texts_of (value_entries (schema_value (SString m e))) ''enum'' = e"
    by (cases m; cases e; simp add: entry_simps del: map_map)+
  then show ?case
    using type_of_schema_value [of "SString m e"] by (subst schema_value_object) (simp del: schema_value.simps)
qed (simp_all add: type_of_def own_def)

lemma schema_value_keywords:
  "\<not> annotation_refused (value_entries (schema_value s))"
  "keywords_end (case s of SObject ps req \<Rightarrow> [''properties'', ''required''] | SArray i \<Rightarrow> [''items'']
     | SString m e \<Rightarrow> [''maxLength'', ''enum''] | _ \<Rightarrow> []) (value_entries (schema_value s)) = None"
  by (cases s; simp add: annotation_refused_def keywords_end_def keyword_refused_def ANNOTATIONS_def entry_simps
      split: option.splits)+

lemma max_length_value:
  "max_length_refused (value_entries (schema_value (SString m e))) \<longleftrightarrow>
     \<not> (case m of None \<Rightarrow> True | Some q \<Rightarrow> of_int \<lfloor>q\<rfloor> = q \<and> 1 \<le> q \<and> q \<le> rat_of_nat STRING_CHARACTERS)"
proof (cases m)
  case None
  then show ?thesis by (cases e) (simp_all add: max_length_refused_def entry_simps)
next
  case (Some q)
  then show ?thesis
    using max_length_safe [of q] by (auto simp: max_length_refused_def entry_simps not_less)
qed

lemma schema_value_iff: "schemaProblem (schema_value s) depth inArray = None \<longleftrightarrow> schema_ok depth inArray s"
proof
  assume "schemaProblem (schema_value s) depth inArray = None"
  then show "schema_ok depth inArray s" using accepted_schema_ok [of "schema_value s"] by simp
next
  show "schema_ok depth inArray s \<Longrightarrow> schemaProblem (schema_value s) depth inArray = None"
  proof (induction depth inArray s rule: schema_ok.induct)
    case (1 depth inArray ps req)
    note kw = schema_value_keywords [of "SObject ps req"]
    have "own_object (value_entries (schema_value (SObject ps req))) ''properties'' =
        Some (map (\<lambda>(name, s). (name, schema_value s)) ps)"
      by (simp add: entry_simps)
    moreover have "\<not> required_refused (map fst (map (\<lambda>(name, s). (name, schema_value s)) ps))
        (value_entries (schema_value (SObject ps req)))"
      using 1(2) by (force simp: required_refused_def entry_simps list_ex_iff split: option.splits)
    moreover have "first_refusal (\<lambda>(name, child). if \<not> is_identifier name then Some Property_name_invalid
        else schemaProblem child (depth + 1) False) (map (\<lambda>(name, s). (name, schema_value s)) ps) = None"
      using 1 by (fastforce simp: first_refusal_None)
    ultimately show ?case
      using 1(2) kw type_of_schema_value [of "SObject ps req"]
      by (subst schema_value_object) (simp del: schema_value.simps value_entries.simps)
  next
    case (2 depth inArray s)
    have items: "own_object (value_entries (schema_value (SArray s))) ''items'' = Some (value_entries (schema_value s))"
      by (cases s) (simp_all add: entry_simps)
    have na: "type_of (value_entries (schema_value s)) \<noteq> T_array"
      using 2(2) type_of_schema_value [of s] by (cases s) simp_all
    have "schemaProblem (VObj (value_entries (schema_value s))) (depth + 1) True = None"
      using 2 schema_value_object [of s] by simp
    then show ?case
      using items na 2(2) schema_value_keywords [of "SArray s"] type_of_schema_value [of "SArray s"]
      by (subst schema_value_object) (simp del: schema_value.simps value_entries.simps)
  next
    case (3 depth inArray m e)
    have "\<not> enum_refused (value_entries (schema_value (SString m e)))"
      using 3 by (cases m; cases e) (auto simp: enum_refused_def entry_simps list_ex_iff)
    then show ?case
      using 3 max_length_value [of m e] schema_value_keywords [of "SString m e"] type_of_schema_value [of "SString m e"]
      by (subst schema_value_object) (simp del: schema_value.simps value_entries.simps)
  next
    case (4 depth inArray)
    then show ?case
      using schema_value_keywords [of SNumber] type_of_schema_value [of SNumber]
      by (subst schema_value_object) (simp del: schema_value.simps value_entries.simps)
  next
    case (5 depth inArray)
    then show ?case
      using schema_value_keywords [of SInteger] type_of_schema_value [of SInteger]
      by (subst schema_value_object) (simp del: schema_value.simps value_entries.simps)
  next
    case (6 depth inArray)
    then show ?case
      using schema_value_keywords [of SBoolean] type_of_schema_value [of SBoolean]
      by (subst schema_value_object) (simp del: schema_value.simps value_entries.simps)
  qed
qed

lemma templateSchemaProblem_accepts:
  "templateSchemaProblem v = None \<Longrightarrow> (\<exists>ps req. schema_of v = SObject ps req) \<and> schema_ok 1 False (schema_of v)"
  using accepted_schema_ok [of v 1 False]
  by (cases v) (auto simp: templateSchemaProblem_def split: if_splits)

lemma templateSchemaProblem_value:
  "templateSchemaProblem (schema_value s) = None \<longleftrightarrow> (\<exists>ps req. s = SObject ps req) \<and> schema_ok 1 False s"
proof -
  have "templateSchemaProblem (schema_value s) =
      (if type_of (value_entries (schema_value s)) = T_object then schemaProblem (schema_value s) 1 False
       else Some Root_not_object)"
    by (cases s) (simp_all add: templateSchemaProblem_def del: schemaProblem.simps)
  then show ?thesis
    using schema_value_iff [of s 1 False] type_of_schema_value [of s] by (cases s) simp_all
qed

section \<open>The grammar of the subset\<close>

text \<open>
  What it means for a JSON value to be a schema of the subset, said once without the loops of the check: the
  type names the schema, every other entry is one of the keywords of that type, the annotations are texts,
  and the parts read as the parts of the schema. The bounds are those of \<open>schema_ok\<close>.
\<close>

definition schema_entries :: "(string \<times> tvalue) list \<Rightarrow> string \<Rightarrow> string set \<Rightarrow> bool" where
  "schema_entries kvs name keywords =
     (own kvs ''type'' = Some (VStr name) \<and>
      fst ` set kvs \<subseteq> {''type'', ''title'', ''description''} \<union> keywords \<and>
      (\<forall>a \<in> {''title'', ''description''}. case own kvs a of None \<Rightarrow> True | Some v \<Rightarrow> is_text v))"

inductive written_as :: "tvalue \<Rightarrow> tschema \<Rightarrow> bool" where
  object: "schema_entries kvs ''object'' {''properties'', ''required''} \<Longrightarrow>
    own kvs ''properties'' = Some (VObj ps) \<Longrightarrow> map fst ps = map fst qs \<Longrightarrow>
    list_all2 written_as (map snd ps) (map snd qs) \<Longrightarrow>
    own kvs ''required'' = map_option (\<lambda>names. VArr (map VStr names)) req \<Longrightarrow> written_as (VObj kvs) (SObject qs req)"
| array: "schema_entries kvs ''array'' {''items''} \<Longrightarrow> own kvs ''items'' = Some v \<Longrightarrow> written_as v s \<Longrightarrow>
    written_as (VObj kvs) (SArray s)"
| string: "schema_entries kvs ''string'' {''maxLength'', ''enum''} \<Longrightarrow>
    own kvs ''maxLength'' = map_option (\<lambda>q. VNum (Finite q)) m \<Longrightarrow>
    own kvs ''enum'' = map_option (\<lambda>texts. VArr (map VStr texts)) e \<Longrightarrow> written_as (VObj kvs) (SString m e)"
| number: "schema_entries kvs ''number'' {} \<Longrightarrow> written_as (VObj kvs) SNumber"
| integer: "schema_entries kvs ''integer'' {} \<Longrightarrow> written_as (VObj kvs) SInteger"
| boolean: "schema_entries kvs ''boolean'' {} \<Longrightarrow> written_as (VObj kvs) SBoolean"

lemma type_of_name:
  "type_of kvs = T_object \<longleftrightarrow> own kvs ''type'' = Some (VStr ''object'')"
  "type_of kvs = T_array \<longleftrightarrow> own kvs ''type'' = Some (VStr ''array'')"
  "type_of kvs = T_string \<longleftrightarrow> own kvs ''type'' = Some (VStr ''string'')"
  "type_of kvs = T_number \<longleftrightarrow> own kvs ''type'' = Some (VStr ''number'')"
  "type_of kvs = T_integer \<longleftrightarrow> own kvs ''type'' = Some (VStr ''integer'')"
  "type_of kvs = T_boolean \<longleftrightarrow> own kvs ''type'' = Some (VStr ''boolean'')"
  by (simp_all add: type_of_def split: option.splits tvalue.splits)

lemma schema_entries_iff:
  "schema_entries kvs name (set keywords) \<longleftrightarrow>
     own kvs ''type'' = Some (VStr name) \<and> keywords_end keywords kvs = None \<and> \<not> annotation_refused kvs"
proof -
  have "keywords_end keywords kvs = None \<longleftrightarrow> fst ` set kvs \<subseteq> {''type'', ''title'', ''description''} \<union> set keywords"
    by (auto simp: keywords_end_def keyword_refused_def ANNOTATIONS_def list_ex_iff)
  moreover have "\<not> annotation_refused kvs \<longleftrightarrow>
      (\<forall>a \<in> {''title'', ''description''}. case own kvs a of None \<Rightarrow> True | Some v \<Rightarrow> is_text v)"
    by (simp add: annotation_refused_def ANNOTATIONS_def split: option.splits)
  ultimately show ?thesis unfolding schema_entries_def by blast
qed

lemma schema_entries_list:
  "schema_entries kvs ''object'' {''properties'', ''required''} = schema_entries kvs ''object'' (set [''properties'', ''required''])"
  "schema_entries kvs ''array'' {''items''} = schema_entries kvs ''array'' (set [''items''])"
  "schema_entries kvs ''string'' {''maxLength'', ''enum''} = schema_entries kvs ''string'' (set [''maxLength'', ''enum''])"
  "schema_entries kvs n {} = schema_entries kvs n (set [])"
  by simp_all

lemmas schema_entries_code = schema_entries_list [unfolded schema_entries_iff type_of_name [symmetric]]

lemma written_texts:
  "own kvs k = map_option (\<lambda>ts. VArr (map VStr ts)) r \<Longrightarrow> texts_of kvs k = r"
  by (cases r) (simp_all add: texts_of_def del: map_map)

lemma texts_written: "list_all is_text es \<Longrightarrow> map VStr (map text_of es) = es"
proof (induction es)
  case (Cons v es)
  then show ?case by (cases v) simp_all
qed simp

lemma written_as_schema_of: "written_as v s \<Longrightarrow> schema_of v = s"
proof (induction rule: written_as.induct)
  case (object kvs ps qs req)
  have "map (\<lambda>(name, child). (name, schema_of child)) ps = qs"
    using object.hyps(3) object.IH
  proof (induction ps qs rule: list_induct2')
    case (4 p ps q qs)
    then show ?case by (cases p; cases q) simp
  qed simp_all
  then show ?case
    using object(1,2) written_texts [OF object.hyps(4)] unfolding schema_entries_code by (simp add: own_object.simps)
next
  case (array kvs v s)
  then obtain es where "v = VObj es" by (auto elim: written_as.cases)
  then show ?case using array unfolding schema_entries_code by (simp add: own_object.simps)
next
  case (string kvs m e)
  then show ?case
    using written_texts [OF string(3)] unfolding schema_entries_code by (cases m) (simp_all add: max_length_of_def)
qed (simp_all add: schema_entries_def type_of_name [symmetric])

lemma required_written:
  "own kvs ''required'' = map_option (\<lambda>ts. VArr (map VStr ts)) r \<Longrightarrow>
   required_refused names kvs \<longleftrightarrow> \<not> (case r of None \<Rightarrow> True | Some ns \<Rightarrow> set ns \<subseteq> set names)"
  by (cases r) (auto simp: required_refused_def list_ex_iff)

lemma enum_written:
  "own kvs ''enum'' = map_option (\<lambda>ts. VArr (map VStr ts)) e \<Longrightarrow> enum_refused kvs \<longleftrightarrow> e = Some []"
  by (cases e) (auto simp: enum_refused_def list_ex_iff)

lemma max_length_written:
  "own kvs ''maxLength'' = map_option (\<lambda>q. VNum (Finite q)) m \<Longrightarrow>
   max_length_refused kvs \<longleftrightarrow> \<not> (case m of None \<Rightarrow> True | Some q \<Rightarrow> of_int \<lfloor>q\<rfloor> = q \<and> 1 \<le> q \<and> q \<le> rat_of_nat STRING_CHARACTERS)"
proof (cases m)
  case (Some q)
  assume "own kvs ''maxLength'' = map_option (\<lambda>q. VNum (Finite q)) m"
  then show ?thesis using max_length_safe [of q] Some by (auto simp: max_length_refused_def not_less)
qed (simp add: max_length_refused_def)

lemma written_as_accepted:
  "written_as v s \<Longrightarrow> schema_ok depth inArray s \<Longrightarrow> schemaProblem v depth inArray = None"
proof (induction arbitrary: depth inArray rule: written_as.induct)
  case (object kvs ps qs req)
  have len: "length ps = length qs" using object.hyps(3) by (metis length_map)
  have ok: "\<forall>(name, s) \<in> set qs. is_identifier name \<and> schema_ok (depth + 1) False s" using object.prems by simp
  have "first_refusal (\<lambda>(name, child). if \<not> is_identifier name then Some Property_name_invalid
      else schemaProblem child (depth + 1) False) ps = None"
    using object.hyps(3) object.IH ok
  proof (induction ps qs rule: list_induct2')
    case (4 p ps q qs)
    then show ?case by (cases p; cases q) simp
  qed simp_all
  moreover have "fst ` set qs = set (map fst ps)" using object.hyps(3) by simp
  then have "\<not> required_refused (map fst ps) kvs"
    using object.prems required_written [OF object.hyps(4), of "map fst ps"] by (cases req) auto
  ultimately show ?case
    using object.prems object.hyps(1,2) len
    unfolding schema_entries_code by (simp add: own_object.simps)
next
  case (array kvs v s)
  then obtain es where es: "v = VObj es" by (auto elim: written_as.cases)
  have "type_of es \<noteq> T_array"
    using array.prems array.hyps(3) is_sarray_schema_of [of es] written_as_schema_of [OF array.hyps(3)] by (simp add: es del: schema_of.simps)
  then show ?case
    using array.prems array.hyps(1,2) array.IH [of "depth + 1" True] es unfolding schema_entries_code
    by (simp add: own_object.simps del: schemaProblem.simps(1)) (simp add: schemaProblem.simps(1) [of kvs] own_object.simps)
next
  case (string kvs m e)
  then show ?case
    using max_length_written [OF string.hyps(2)] enum_written [OF string.hyps(3)] unfolding schema_entries_code by simp
next
  case (number kvs)
  then show ?case using schema_entries_iff [of kvs "''number''" "[]"] by (simp add: type_of_name [symmetric])
next
  case (integer kvs)
  then show ?case using schema_entries_iff [of kvs "''integer''" "[]"] by (simp add: type_of_name [symmetric])
next
  case (boolean kvs)
  then show ?case using schema_entries_iff [of kvs "''boolean''" "[]"] by (simp add: type_of_name [symmetric])
qed

lemma accepted_texts:
  "\<not> required_refused names kvs \<Longrightarrow> own kvs ''required'' = map_option (\<lambda>ts. VArr (map VStr ts)) (texts_of kvs ''required'')"
  "\<not> enum_refused kvs \<Longrightarrow> own kvs ''enum'' = map_option (\<lambda>ts. VArr (map VStr ts)) (texts_of kvs ''enum'')"
  using texts_written
  by (auto simp: required_refused_def enum_refused_def texts_of_def list_ex_iff list_all_iff simp del: map_map
      split: option.splits tvalue.splits)

lemma accepted_max_length:
  "\<not> max_length_refused kvs \<Longrightarrow> own kvs ''maxLength'' = map_option (\<lambda>q. VNum (Finite q)) (max_length_of kvs)"
  by (auto simp: max_length_refused_def max_length_of_def split: option.splits tvalue.splits js_number.splits)

lemma own_object_own: "own_object kvs k = Some es \<Longrightarrow> own kvs k = Some (VObj es)"
  by (simp add: own_object.simps split: option.splits tvalue.splits)

lemma accepted_written_as: "schemaProblem v depth inArray = None \<Longrightarrow> written_as v (schema_of v)"
proof (induction v depth inArray rule: schemaProblem.induct)
  case (1 kvs depth inArray)
  have top: "depth \<le> SCHEMA_DEPTH" "\<not> annotation_refused kvs" "type_of kvs \<noteq> T_other"
    using 1(3) by (auto split: if_splits)
  show ?case
  proof (cases "type_of kvs")
    case T_object
    with 1(3) top obtain ps where ps: "own_object kvs ''properties'' = Some ps" "length ps \<le> SCHEMA_PROPERTIES"
      "\<forall>x \<in> set ps. (case x of (name, child) \<Rightarrow> if \<not> is_identifier name then Some Property_name_invalid
                                        else schemaProblem child (depth + 1) False) = None"
      "\<not> required_refused (map fst ps) kvs" "keywords_end [''properties'', ''required''] kvs = None"
      by (auto simp: first_refusal_None split: if_splits option.splits)
    have "written_as child (schema_of child)" if "(name, child) \<in> set ps" for name child
      using 1(1) [OF _ _ T_object ps(1) _ that refl] ps(2) top ps(3) that by (fastforce split: if_splits)
    then have "list_all2 written_as (map snd ps) (map snd (map (\<lambda>(name, child). (name, schema_of child)) ps))"
      by (auto simp: list_all2_map1 list_all2_map2 list_all2_same case_prod_unfold)
    moreover have "map fst ps = map fst (map (\<lambda>(name, child). (name, schema_of child)) ps)" by auto
    ultimately have "written_as (VObj kvs) (SObject (map (\<lambda>(name, child). (name, schema_of child)) ps) (texts_of kvs ''required''))"
      using written_as.object [OF _ own_object_own [OF ps(1)] _ _ accepted_texts(1) [OF ps(4)]] T_object top(2) ps(5)
      unfolding schema_entries_code by blast
    then show ?thesis using T_object ps(1) by simp
  next
    case T_array
    with 1(3) top obtain es where es: "\<not> inArray" "own_object kvs ''items'' = Some es" "type_of es \<noteq> T_array"
      "schemaProblem (VObj es) (depth + 1) True = None" "keywords_end [''items''] kvs = None"
      by (auto split: if_splits option.splits)
    have "written_as (VObj es) (schema_of (VObj es))"
      using 1(2) [OF _ _ T_array _ es(2)] es top by simp
    then have "written_as (VObj kvs) (SArray (schema_of (VObj es)))"
      using written_as.array [OF _ own_object_own [OF es(2)]] T_array top(2) es(5) unfolding schema_entries_code by blast
    then show ?thesis
      using T_array es(2) by (simp del: schema_of.simps(1) add: schema_of.simps(1) [of kvs])
  next
    case T_string
    with 1(3) top have s: "\<not> max_length_refused kvs" "\<not> enum_refused kvs" "keywords_end [''maxLength'', ''enum''] kvs = None"
      by (auto split: if_splits)
    have "written_as (VObj kvs) (SString (max_length_of kvs) (texts_of kvs ''enum''))"
      using written_as.string [OF _ accepted_max_length [OF s(1)] accepted_texts(2) [OF s(2)]] T_string top(2) s(3)
      unfolding schema_entries_code by blast
    then show ?thesis using T_string by simp
  next
    case T_number
    with 1(3) top show ?thesis
      using written_as.number [of kvs] schema_entries_iff [of kvs "''number''" "[]"] by (simp add: type_of_name [symmetric])
  next
    case T_integer
    with 1(3) top show ?thesis
      using written_as.integer [of kvs] schema_entries_iff [of kvs "''integer''" "[]"] by (simp add: type_of_name [symmetric])
  next
    case T_boolean
    with 1(3) top show ?thesis
      using written_as.boolean [of kvs] schema_entries_iff [of kvs "''boolean''" "[]"] by (simp add: type_of_name [symmetric])
  qed (use top in simp_all)
qed simp_all

lemma templateSchemaProblem_exact:
  "templateSchemaProblem v = None \<longleftrightarrow> (\<exists>ps req. written_as v (SObject ps req) \<and> schema_ok 1 False (SObject ps req))"
proof
  assume a: "templateSchemaProblem v = None"
  then obtain kvs where v: "v = VObj kvs" "schemaProblem v 1 False = None"
    by (cases v) (auto simp: templateSchemaProblem_def split: if_splits)
  from templateSchemaProblem_accepts [OF a] accepted_written_as [OF v(2)]
  show "\<exists>ps req. written_as v (SObject ps req) \<and> schema_ok 1 False (SObject ps req)" by force
next
  assume "\<exists>ps req. written_as v (SObject ps req) \<and> schema_ok 1 False (SObject ps req)"
  then obtain ps req where w: "written_as v (SObject ps req)" "schema_ok 1 False (SObject ps req)" by blast
  from w(1) obtain kvs where kvs: "v = VObj kvs" "type_of kvs = T_object"
    by (cases rule: written_as.cases) (simp add: schema_entries_def type_of_name)
  then show "templateSchemaProblem v = None"
    using written_as_accepted [OF w] by (simp add: templateSchemaProblem_def del: schemaProblem.simps)
qed

section \<open>Checking an input\<close>

datatype input_code = INPUT_REQUIRED | INPUT_TYPE | INPUT_MAX_LENGTH | INPUT_ENUM | INPUT_TOO_MANY_ITEMS | INPUT_TOO_LARGE

type_synonym input_issue = "string \<times> input_code"

definition push_issue :: "input_issue list \<Rightarrow> input_issue \<Rightarrow> input_issue list" where
  "push_issue issues i = (if length issues < INPUT_ISSUES then issues @ [i] else issues)"

definition child_path :: "string \<Rightarrow> string \<Rightarrow> string" where
  "child_path path name = (if path = [] then name else path @ ''.'' @ name)"

definition item_path :: "string \<Rightarrow> nat \<Rightarrow> string" where
  "item_path path index = path @ ''['' @ show_nat index @ '']''"

definition string_limit :: "rat option \<Rightarrow> rat" where
  "string_limit maxLength =
     min (case maxLength of Some q \<Rightarrow> q | None \<Rightarrow> rat_of_nat STRING_CHARACTERS) (rat_of_nat STRING_CHARACTERS)"

text \<open>A required property is missing when it is absent or null.\<close>

definition missing_required :: "(string \<times> tvalue) list \<Rightarrow> string \<Rightarrow> bool" where
  "missing_required kvs name = (own kvs name = None \<or> own kvs name = Some VNull)"

function check :: "tschema \<Rightarrow> tvalue \<Rightarrow> string \<Rightarrow> input_issue list \<Rightarrow> input_issue list" where
  "check (SObject ps req) v path issues =
     (case v of
        VObj kvs \<Rightarrow>
          foldl (\<lambda>acc (name, child).
              case own kvs name of
                None \<Rightarrow> acc
              | Some entry \<Rightarrow> if entry = VNull then acc else check child entry (child_path path name) acc)
            (foldl (\<lambda>acc name. if missing_required kvs name then push_issue acc (child_path path name, INPUT_REQUIRED) else acc)
               issues (case req of None \<Rightarrow> [] | Some names \<Rightarrow> names))
            ps
      | _ \<Rightarrow> push_issue issues (path, INPUT_TYPE))"
| "check (SArray items) v path issues =
     (case v of
        VArr vs \<Rightarrow>
          if ARRAY_ITEMS < length vs then push_issue issues (path, INPUT_TOO_MANY_ITEMS)
          else foldl (\<lambda>acc (index, item). check items item (item_path path index) acc) issues (enumerate 0 vs)
      | _ \<Rightarrow> push_issue issues (path, INPUT_TYPE))"
| "check (SString maxLength enum) v path issues =
     (case v of
        VStr s \<Rightarrow>
          let acc = (if string_limit maxLength < rat_of_nat (length s) then push_issue issues (path, INPUT_MAX_LENGTH) else issues)
          in (case enum of
                None \<Rightarrow> acc
              | Some texts \<Rightarrow> if s \<in> set texts then acc else push_issue acc (path, INPUT_ENUM))
      | _ \<Rightarrow> push_issue issues (path, INPUT_TYPE))"
| "check SInteger v path issues =
     (case v of VNum n \<Rightarrow> if isSafeInteger n then issues else push_issue issues (path, INPUT_TYPE) | _ \<Rightarrow> push_issue issues (path, INPUT_TYPE))"
| "check SNumber v path issues =
     (case v of VNum n \<Rightarrow> if isFinite n then issues else push_issue issues (path, INPUT_TYPE) | _ \<Rightarrow> push_issue issues (path, INPUT_TYPE))"
| "check SBoolean v path issues = (case v of VBool b \<Rightarrow> issues | _ \<Rightarrow> push_issue issues (path, INPUT_TYPE))"
  by pat_completeness auto
termination
  by (relation "measure (\<lambda>(s, _). size s)") (auto dest: tschema_size_entry simp del: tschema.size(7))

definition validateTemplateInput :: "tschema \<Rightarrow> tvalue \<Rightarrow> input_issue list" where
  "validateTemplateInput schema input = check schema input [] []"

text \<open>What a schema accepts.\<close>

function conforms :: "tschema \<Rightarrow> tvalue \<Rightarrow> bool" where
  "conforms (SObject ps req) v =
     (\<exists>kvs. v = VObj kvs \<and>
        (\<forall>name \<in> set (case req of None \<Rightarrow> [] | Some names \<Rightarrow> names). \<not> missing_required kvs name) \<and>
        (\<forall>(name, child) \<in> set ps. \<forall>entry. own kvs name = Some entry \<longrightarrow> entry = VNull \<or> conforms child entry))"
| "conforms (SArray items) v =
     (\<exists>vs. v = VArr vs \<and> length vs \<le> ARRAY_ITEMS \<and> (\<forall>item \<in> set vs. conforms items item))"
| "conforms (SString maxLength enum) v =
     (\<exists>s. v = VStr s \<and> rat_of_nat (length s) \<le> string_limit maxLength \<and>
        (\<forall>texts. enum = Some texts \<longrightarrow> s \<in> set texts))"
| "conforms SInteger v = (\<exists>n. v = VNum n \<and> isSafeInteger n)"
| "conforms SNumber v = (\<exists>n. v = VNum n \<and> isFinite n)"
| "conforms SBoolean v = (\<exists>b. v = VBool b)"
  by pat_completeness auto
termination
  by (relation "measure (\<lambda>(s, _). size s)") (auto dest: tschema_size_entry simp del: tschema.size(7))

text \<open>Pushing never removes an issue and never passes the limit; a check that adds none accepts.\<close>

lemma push_issue_bound: "length issues \<le> INPUT_ISSUES \<Longrightarrow> length (push_issue issues i) \<le> INPUT_ISSUES"
  by (simp add: push_issue_def)

lemma push_issue_Nil [simp]: "push_issue issues i \<noteq> []"
  by (auto simp: push_issue_def INPUT_ISSUES_def)

lemma foldl_bound:
  "(\<And>acc x. x \<in> set xs \<Longrightarrow> length acc \<le> n \<Longrightarrow> length (f acc x) \<le> n) \<Longrightarrow> length acc \<le> n \<Longrightarrow> length (foldl f acc xs) \<le> (n::nat)"
  by (induction xs arbitrary: acc) auto

lemma foldl_Nil_iff:
  "(\<And>acc x. x \<in> set xs \<Longrightarrow> f acc x = [] \<longleftrightarrow> acc = [] \<and> P x) \<Longrightarrow> foldl f acc xs = [] \<longleftrightarrow> acc = [] \<and> (\<forall>x \<in> set xs. P x)"
  by (induction xs arbitrary: acc) auto

lemma snd_enumerate: "snd ` set (enumerate n xs) = set xs"
  by (metis list.set_map map_snd_enumerate)

lemma check_bound: "length issues \<le> INPUT_ISSUES \<Longrightarrow> length (check s v path issues) \<le> INPUT_ISSUES"
proof (induction s v path issues rule: check.induct)
  case (1 ps req v path issues)
  show ?case
  proof (cases v)
    case (VObj kvs)
    have "length (foldl (\<lambda>acc name. if missing_required kvs name then push_issue acc (child_path path name, INPUT_REQUIRED) else acc)
        issues (case req of None \<Rightarrow> [] | Some names \<Rightarrow> names)) \<le> INPUT_ISSUES"
      using 1(2) by (intro foldl_bound) (auto intro: push_issue_bound)
    then show ?thesis
      unfolding check.simps VObj tvalue.case
      by (rule foldl_bound [rotated]) (auto split: option.splits intro!: 1(1) [OF VObj] simp: VObj)
  qed (use 1(2) in \<open>simp_all add: push_issue_bound\<close>)
next
  case (2 items v path issues)
  then show ?case
    by (auto split: tvalue.splits intro!: push_issue_bound foldl_bound)
qed (auto split: tvalue.splits option.splits intro: push_issue_bound simp: Let_def)

lemma check_Nil_iff: "check s v path issues = [] \<longleftrightarrow> issues = [] \<and> conforms s v"
proof (induction s v path issues rule: check.induct)
  case (1 ps req v path issues)
  show ?case
  proof (cases v)
    case (VObj kvs)
    have r: "foldl (\<lambda>acc name. if missing_required kvs name then push_issue acc (child_path path name, INPUT_REQUIRED) else acc)
        issues names = [] \<longleftrightarrow> issues = [] \<and> (\<forall>name \<in> set names. \<not> missing_required kvs name)" for names
      by (rule foldl_Nil_iff) simp
    have p: "foldl (\<lambda>acc (name, child). case own kvs name of
                None \<Rightarrow> acc
              | Some entry \<Rightarrow> if entry = VNull then acc else check child entry (child_path path name) acc) acc ps = [] \<longleftrightarrow>
          acc = [] \<and> (\<forall>x \<in> set ps. case x of (name, child) \<Rightarrow>
            \<forall>entry. own kvs name = Some entry \<longrightarrow> entry = VNull \<or> conforms child entry)" for acc
    proof (rule foldl_Nil_iff)
      fix acc x
      assume x: "x \<in> set ps"
      obtain name child where nc: "x = (name, child)" by (cases x)
      show "(case x of (name, child) \<Rightarrow> case own kvs name of
                None \<Rightarrow> acc
              | Some entry \<Rightarrow> if entry = VNull then acc else check child entry (child_path path name) acc) = [] \<longleftrightarrow>
          acc = [] \<and> (case x of (name, child) \<Rightarrow>
            \<forall>entry. own kvs name = Some entry \<longrightarrow> entry = VNull \<or> conforms child entry)"
        using 1 [OF VObj x [unfolded nc]] unfolding nc by (auto split: option.splits)
    qed
    show ?thesis unfolding check.simps VObj tvalue.case p r by auto
  qed simp_all
next
  case (2 items v path issues)
  show ?case
  proof (cases v)
    case (VArr vs)
    have "foldl (\<lambda>acc (index, item). check items item (item_path path index) acc) issues (enumerate 0 vs) = [] \<longleftrightarrow>
        issues = [] \<and> (\<forall>x \<in> set (enumerate 0 vs). conforms items (snd x))" if "\<not> ARRAY_ITEMS < length vs"
      by (rule foldl_Nil_iff) (use 2 [OF VArr that] in auto)
    moreover have "(\<forall>x \<in> set (enumerate 0 vs). conforms items (snd x)) \<longleftrightarrow> (\<forall>item \<in> set vs. conforms items item)"
      unfolding snd_enumerate [of 0 vs, symmetric] by blast
    ultimately show ?thesis by (auto simp: VArr not_less)
  qed simp_all
qed (auto split: tvalue.splits option.splits simp: Let_def not_less)

lemma validate_iff: "validateTemplateInput s v = [] \<longleftrightarrow> conforms s v"
  by (simp add: validateTemplateInput_def check_Nil_iff)

lemma validate_bound: "length (validateTemplateInput s v) \<le> INPUT_ISSUES"
  by (simp add: validateTemplateInput_def check_bound)

section \<open>The schema of an entity\<close>

record entity_field =
  ef_id :: string
  ef_type :: string
  ef_required :: bool
  ef_maxLength :: "rat option"
  ef_values :: "string list option"

text \<open>A \<open>maxLength\<close> of 0 is as good as none.\<close>

definition field_schema :: "entity_field \<Rightarrow> tschema option" where
  "field_schema f =
     (if ef_type f = ''integer'' then Some SInteger
      else if ef_type f = ''decimal'' then Some SNumber
      else if ef_type f = ''boolean'' then Some SBoolean
      else if ef_type f = ''enum'' then Some (SString None (ef_values f))
      else if ef_type f = ''json'' then None
      else Some (SString (if ef_maxLength f = Some 0 then None else ef_maxLength f) None))"

definition add_field ::
    "(string \<times> tschema) list \<times> string list \<Rightarrow> entity_field \<Rightarrow> (string \<times> tschema) list \<times> string list" where
  "add_field acc f =
     (case field_schema f of
        None \<Rightarrow> acc
      | Some s \<Rightarrow>
          (AList.update (ef_id f) s (fst acc), if ef_required f then snd acc @ [ef_id f] else snd acc))"

definition templateInputSchemaFromFields :: "entity_field list \<Rightarrow> tschema" where
  "templateInputSchemaFromFields efs =
     (let (properties, required) = foldl add_field ([], []) efs
      in SObject properties (if required = [] then None else Some required))"

text \<open>A field whose schema the subset holds.\<close>

definition field_ok :: "entity_field \<Rightarrow> bool" where
  "field_ok f = (is_identifier (ef_id f) \<and> ef_values f \<noteq> Some [] \<and>
     (case ef_maxLength f of
        None \<Rightarrow> True
      | Some q \<Rightarrow> q = 0 \<or> of_int \<lfloor>q\<rfloor> = q \<and> 1 \<le> q \<and> q \<le> rat_of_nat STRING_CHARACTERS))"

lemma field_schema_ok: "field_ok f \<Longrightarrow> field_schema f = Some s \<Longrightarrow> schema_ok 2 False s"
  unfolding field_ok_def field_schema_def SCHEMA_DEPTH_def
  by (cases "ef_maxLength f"; simp add: SCHEMA_DEPTH_def split: if_splits; force simp: SCHEMA_DEPTH_def)

lemma length_update_le: "length (AList.update k v kvs) \<le> Suc (length kvs)"
  by (induction kvs) auto

lemma update_entries: "set (AList.update k v kvs) \<subseteq> insert (k, v) (set kvs)"
  by (induction kvs) auto

lemma add_fields_ok:
  assumes "foldl add_field (ps, req) efs = (ps', req')" and "\<forall>f \<in> set efs. field_ok f"
    and "\<forall>(n, s) \<in> set ps. is_identifier n \<and> schema_ok 2 False s" and "set req \<subseteq> fst ` set ps"
  shows "(\<forall>(n, s) \<in> set ps'. is_identifier n \<and> schema_ok 2 False s) \<and> set req' \<subseteq> fst ` set ps' \<and>
    length ps' \<le> length ps + length efs"
  using assms
proof (induction efs arbitrary: ps req)
  case (Cons f efs)
  show ?case
  proof (cases "field_schema f")
    case None
    then show ?thesis using Cons.IH [of ps req] Cons.prems by (simp add: add_field_def)
  next
    case (Some s)
    let ?ps = "AList.update (ef_id f) s ps" and ?req = "if ef_required f then req @ [ef_id f] else req"
    have af: "add_field (ps, req) f = (?ps, ?req)" using Some by (simp add: add_field_def)
    have "is_identifier (ef_id f)" "schema_ok 2 False s"
      using Cons.prems(2) field_schema_ok [OF _ Some] by (auto simp: field_ok_def)
    then have "\<forall>(n, s) \<in> set ?ps. is_identifier n \<and> schema_ok 2 False s"
      using update_entries [of "ef_id f" s ps] Cons.prems(3) by blast
    moreover have "fst ` set ?ps = insert (ef_id f) (fst ` set ps)" by (simp add: dom_update)
    then have "set ?req \<subseteq> fst ` set ?ps" using Cons.prems(4) by auto
    moreover have "foldl add_field (?ps, ?req) efs = (ps', req')"
      using Cons.prems(1) by (simp only: foldl.simps af)
    ultimately show ?thesis
      using Cons.IH [of ?ps ?req] Cons.prems(2) length_update_le [of "ef_id f" s ps] by fastforce
  qed
qed simp

lemma entity_schema_ok:
  assumes "\<forall>f \<in> set efs. field_ok f" and "length efs \<le> SCHEMA_PROPERTIES"
  shows "templateSchemaProblem (schema_value (templateInputSchemaFromFields efs)) = None"
proof -
  obtain ps req where f: "foldl add_field ([], []) efs = (ps, req)" by fastforce
  show ?thesis
    unfolding templateSchemaProblem_value templateInputSchemaFromFields_def f
    using add_fields_ok [OF f assms(1)] assms(2)
    by (simp add: SCHEMA_DEPTH_def numeral_2_eq_2)
qed

end
