(* ===== verification/Template_Check.thy ===== *)
theory Template_Check
  imports Template_Schema
begin

text \<open>
  The syntax tree of a document template and its checking against an input schema, from
  \<open>modules/documents/src/domain/template-language.ts\<close>. Scopes are lists with the innermost one first, where
  the code appends and reads from the end. A refusal keeps its code, what its message depends on, and its
  line. The section \<open>Well-typed templates\<close> is the typing judgement the checker decides.
\<close>

section \<open>Syntax\<close>

text \<open>A path says whether it starts at \<open>this\<close>; the other expressions are the counters.\<close>

datatype expression = Path bool "string list" | Index | Number | Page | Pages

datatype targument = Literal string | Value expression

datatype formatter = Money targument | Digits "nat option" | Date | Datetime | Upper | Yesno

datatype placeholder = Placeholder (ph_value: expression) (ph_formatter: "formatter option") (ph_line: nat)

datatype code_child = CText string | CPlace placeholder

datatype inline =
  Text string
| Place placeholder
| Strong "inline list"
| Emphasis "inline list"
| Code "code_child list"
| Link "inline list" "code_child list"
| Break

datatype template_list = TList bool nat "list_item list"
and list_item = TItem "inline list" "template_list option"

datatype table_align = Align_left | Align_center | Align_right

datatype row =
  Row "inline list list" nat
| Row_each expression "row list" nat
| Row_if expression "row list" "row list" nat

datatype block =
  Heading nat "inline list" nat
| Paragraph "inline list" nat
| BList template_list nat
| Quote "inline list list" nat
| Rule nat
| Pagebreak nat
| Table "table_align list" "inline list list" "row list" nat
| Each expression "block list" nat
| If_block expression "block list" "block list" nat

section \<open>Refusals\<close>

datatype issue_code =
  TEMPLATE_TOO_LARGE | TEMPLATE_SYNTAX | TEMPLATE_FORMATTER | TEMPLATE_BLOCK | TEMPLATE_PLACEHOLDER
| TEMPLATE_IMAGE | TEMPLATE_FOOTNOTE | TEMPLATE_HTML | TEMPLATE_CODE_BLOCK | TEMPLATE_HEADING_LEVEL
| TEMPLATE_LIST_DEPTH | TEMPLATE_TABLE | TEMPLATE_LAYOUT | TEMPLATE_FIELD_UNKNOWN | TEMPLATE_FIELD_TYPE
| TEMPLATE_SCHEMA_INVALID

text \<open>A message is the number of its wording and the texts put into it.\<close>

record issue =
  is_code :: issue_code
  is_wording :: nat
  is_words :: "string list"
  is_line :: "nat option"

definition MAX_ISSUES :: nat where "MAX_ISSUES = 50"

definition add_issue :: "issue_code \<Rightarrow> nat \<Rightarrow> string list \<Rightarrow> nat option \<Rightarrow> issue list \<Rightarrow> issue list" where
  "add_issue c wording ws line issues =
     (let i = \<lparr>is_code = c, is_wording = wording, is_words = ws, is_line = line\<rparr>
      in if MAX_ISSUES \<le> length issues \<or> i \<in> set issues then issues else issues @ [i])"

lemma add_issue_Nil [simp]: "add_issue c wording ws line issues \<noteq> []"
  by (auto simp: add_issue_def Let_def MAX_ISSUES_def)

lemma add_issue_bound: "length issues \<le> MAX_ISSUES \<Longrightarrow> length (add_issue c wording ws line issues) \<le> MAX_ISSUES"
  by (simp add: add_issue_def Let_def)

lemma add_issue_distinct: "distinct issues \<Longrightarrow> distinct (add_issue c wording ws line issues)"
  by (simp add: add_issue_def Let_def)

section \<open>The schema of an expression\<close>

record schema_scope =
  ss_schema :: tschema
  ss_item :: bool

datatype expression_schema = Counter | Of_schema tschema

fun counter_name :: "expression \<Rightarrow> string" where
  "counter_name Index = ''@index''"
| "counter_name Number = ''@number''"
| "counter_name Page = ''@page''"
| "counter_name Pages = ''@pages''"
| "counter_name (Path this segments) = []"

definition describe :: "expression \<Rightarrow> string" where
  "describe e =
     (case e of
        Path this segments \<Rightarrow>
          (let d = join ''.'' ((if this then [''this''] else []) @ segments) in if d = [] then ''this'' else d)
      | _ \<Rightarrow> counter_name e)"

fun walk_schema :: "tschema \<Rightarrow> string list \<Rightarrow> tschema option" where
  "walk_schema s [] = Some s"
| "walk_schema (SObject ps req) (name # names) =
     (case map_of ps name of None \<Rightarrow> None | Some child \<Rightarrow> walk_schema child names)"
| "walk_schema _ (name # names) = None"

fun declares :: "tschema \<Rightarrow> string \<Rightarrow> bool" where
  "declares (SObject ps req) name = (map_of ps name \<noteq> None)"
| "declares _ name = False"

text \<open>From the innermost scope outwards, the first whose object declares the first segment.\<close>

fun search_schema :: "schema_scope list \<Rightarrow> string list \<Rightarrow> tschema option" where
  "search_schema [] segments = None"
| "search_schema (scope # scopes) segments =
     (case segments of
        [] \<Rightarrow> None
      | name # _ \<Rightarrow>
          if declares (ss_schema scope) name then walk_schema (ss_schema scope) segments
          else search_schema scopes segments)"

definition schemaOfExpression :: "expression \<Rightarrow> schema_scope list \<Rightarrow> expression_schema option" where
  "schemaOfExpression e scopes =
     (case e of
        Path this segments \<Rightarrow>
          map_option Of_schema
            (if this then walk_schema (ss_schema (hd scopes)) segments else search_schema scopes segments)
      | _ \<Rightarrow> Some Counter)"

section \<open>Checking\<close>

datatype value_type = Ty_object | Ty_array | Ty_string | Ty_number | Ty_integer | Ty_boolean

fun schema_type_of :: "tschema \<Rightarrow> value_type" where
  "schema_type_of (SObject ps req) = Ty_object"
| "schema_type_of (SArray s) = Ty_array"
| "schema_type_of (SString m e) = Ty_string"
| "schema_type_of SNumber = Ty_number"
| "schema_type_of SInteger = Ty_integer"
| "schema_type_of SBoolean = Ty_boolean"

fun value_type_of :: "expression_schema \<Rightarrow> value_type" where
  "value_type_of Counter = Ty_integer"
| "value_type_of (Of_schema s) = schema_type_of s"

fun FORMATTER_TYPES :: "formatter \<Rightarrow> value_type list" where
  "FORMATTER_TYPES (Money c) = [Ty_integer, Ty_number]"
| "FORMATTER_TYPES (Digits d) = [Ty_integer, Ty_number]"
| "FORMATTER_TYPES Date = [Ty_string, Ty_integer, Ty_number]"
| "FORMATTER_TYPES Datetime = [Ty_string, Ty_integer, Ty_number]"
| "FORMATTER_TYPES Upper = [Ty_string]"
| "FORMATTER_TYPES Yesno = [Ty_boolean]"

fun formatter_name :: "formatter \<Rightarrow> string" where
  "formatter_name (Money c) = ''money''"
| "formatter_name (Digits d) = ''number''"
| "formatter_name Date = ''date''"
| "formatter_name Datetime = ''datetime''"
| "formatter_name Upper = ''upper''"
| "formatter_name Yesno = ''yesno''"

definition checkCurrency :: "expression \<Rightarrow> nat \<Rightarrow> schema_scope list \<Rightarrow> issue list \<Rightarrow> issue list" where
  "checkCurrency e line scopes issues =
     (case schemaOfExpression e scopes of
        None \<Rightarrow> add_issue TEMPLATE_FIELD_UNKNOWN 1 [describe e] (Some line) issues
      | Some s \<Rightarrow>
          if value_type_of s \<noteq> Ty_string then add_issue TEMPLATE_FIELD_TYPE 1 [describe e] (Some line) issues
          else issues)"

definition checkFormatter ::
    "formatter \<Rightarrow> expression \<Rightarrow> expression_schema \<Rightarrow> nat \<Rightarrow> schema_scope list \<Rightarrow> issue list \<Rightarrow> issue list" where
  "checkFormatter f e s line scopes issues =
     (let issues' = (if value_type_of s \<notin> set (FORMATTER_TYPES f)
                     then add_issue TEMPLATE_FIELD_TYPE 2 [formatter_name f, describe e] (Some line) issues else issues)
      in case f of
           Money (Value c) \<Rightarrow> checkCurrency c line scopes issues'
         | _ \<Rightarrow> issues')"

definition checkPlaceholder :: "placeholder \<Rightarrow> schema_scope list \<Rightarrow> issue list \<Rightarrow> issue list" where
  "checkPlaceholder node scopes issues =
     (if ph_value node \<in> {Index, Number} \<and> \<not> ss_item (hd scopes) then
        add_issue TEMPLATE_PLACEHOLDER 1 [describe (ph_value node)] (Some (ph_line node)) issues
      else
        (case schemaOfExpression (ph_value node) scopes of
           None \<Rightarrow> add_issue TEMPLATE_FIELD_UNKNOWN 2 [describe (ph_value node)] (Some (ph_line node)) issues
         | Some s \<Rightarrow>
             (case ph_formatter node of
                Some f \<Rightarrow> checkFormatter f (ph_value node) s (ph_line node) scopes issues
              | None \<Rightarrow>
                  if value_type_of s \<in> {Ty_object, Ty_array} then
                    add_issue TEMPLATE_FIELD_TYPE 3 [describe (ph_value node)] (Some (ph_line node)) issues
                  else issues)))"

fun checkCode :: "code_child list \<Rightarrow> schema_scope list \<Rightarrow> issue list \<Rightarrow> issue list" where
  "checkCode [] scopes issues = issues"
| "checkCode (CText s # nodes) scopes issues = checkCode nodes scopes issues"
| "checkCode (CPlace p # nodes) scopes issues = checkCode nodes scopes (checkPlaceholder p scopes issues)"

fun checkInlines :: "inline list \<Rightarrow> schema_scope list \<Rightarrow> issue list \<Rightarrow> issue list" where
  "checkInlines [] scopes issues = issues"
| "checkInlines (Text s # nodes) scopes issues = checkInlines nodes scopes issues"
| "checkInlines (Break # nodes) scopes issues = checkInlines nodes scopes issues"
| "checkInlines (Place p # nodes) scopes issues = checkInlines nodes scopes (checkPlaceholder p scopes issues)"
| "checkInlines (Strong cs # nodes) scopes issues = checkInlines nodes scopes (checkInlines cs scopes issues)"
| "checkInlines (Emphasis cs # nodes) scopes issues = checkInlines nodes scopes (checkInlines cs scopes issues)"
| "checkInlines (Code cs # nodes) scopes issues = checkInlines nodes scopes (checkCode cs scopes issues)"
| "checkInlines (Link cs url # nodes) scopes issues =
     checkInlines nodes scopes (checkCode url scopes (checkInlines cs scopes issues))"

definition checkCells :: "inline list list \<Rightarrow> schema_scope list \<Rightarrow> issue list \<Rightarrow> issue list" where
  "checkCells cells scopes issues = foldl (\<lambda>acc cell. checkInlines cell scopes acc) issues cells"

text \<open>The scope inside an each, or the refusal.\<close>

definition itemScope :: "expression \<Rightarrow> nat \<Rightarrow> schema_scope list \<Rightarrow> issue list \<Rightarrow> issue list + schema_scope list" where
  "itemScope path line scopes issues =
     (case schemaOfExpression path scopes of
        None \<Rightarrow> Inl (add_issue TEMPLATE_FIELD_UNKNOWN 3 [describe path] (Some line) issues)
      | Some (Of_schema (SArray items)) \<Rightarrow> Inr (\<lparr>ss_schema = items, ss_item = True\<rparr> # scopes)
      | Some _ \<Rightarrow> Inl (add_issue TEMPLATE_FIELD_TYPE 4 [describe path] (Some line) issues))"

definition checkCondition :: "expression \<Rightarrow> nat \<Rightarrow> schema_scope list \<Rightarrow> issue list \<Rightarrow> issue list" where
  "checkCondition path line scopes issues =
     (if schemaOfExpression path scopes = None
      then add_issue TEMPLATE_FIELD_UNKNOWN 4 [describe path] (Some line) issues else issues)"

fun checkRows :: "row list \<Rightarrow> schema_scope list \<Rightarrow> issue list \<Rightarrow> issue list" where
  "checkRows [] scopes issues = issues"
| "checkRows (Row cells line # rows) scopes issues = checkRows rows scopes (checkCells cells scopes issues)"
| "checkRows (Row_each path children line # rows) scopes issues =
     checkRows rows scopes
       (case itemScope path line scopes issues of
          Inl refused \<Rightarrow> refused
        | Inr inner \<Rightarrow> checkRows children inner issues)"
| "checkRows (Row_if path yes no line # rows) scopes issues =
     checkRows rows scopes (checkRows no scopes (checkRows yes scopes (checkCondition path line scopes issues)))"

text \<open>The contents of a list in the order they are checked: an item, then those of its sublist.\<close>

fun item_contents :: "list_item \<Rightarrow> inline list list" where
  "item_contents (TItem content None) = [content]"
| "item_contents (TItem content (Some (TList ordered start items))) =
     content # map (\<lambda>item. case item of TItem c sub \<Rightarrow> c) items"

fun list_contents :: "template_list \<Rightarrow> inline list list" where
  "list_contents (TList ordered start items) = concat (map item_contents items)"

fun checkBlocks :: "block list \<Rightarrow> schema_scope list \<Rightarrow> issue list \<Rightarrow> issue list" where
  "checkBlocks [] scopes issues = issues"
| "checkBlocks (Heading level content line # blocks) scopes issues =
     checkBlocks blocks scopes (checkInlines content scopes issues)"
| "checkBlocks (Paragraph content line # blocks) scopes issues =
     checkBlocks blocks scopes (checkInlines content scopes issues)"
| "checkBlocks (BList tlist line # blocks) scopes issues =
     checkBlocks blocks scopes (checkCells (list_contents tlist) scopes issues)"
| "checkBlocks (Quote paragraphs line # blocks) scopes issues =
     checkBlocks blocks scopes (checkCells paragraphs scopes issues)"
| "checkBlocks (Rule line # blocks) scopes issues = checkBlocks blocks scopes issues"
| "checkBlocks (Pagebreak line # blocks) scopes issues = checkBlocks blocks scopes issues"
| "checkBlocks (Table align header rows line # blocks) scopes issues =
     checkBlocks blocks scopes (checkRows rows scopes (checkCells header scopes issues))"
| "checkBlocks (Each path children line # blocks) scopes issues =
     checkBlocks blocks scopes
       (case itemScope path line scopes issues of
          Inl refused \<Rightarrow> refused
        | Inr inner \<Rightarrow> checkBlocks children inner issues)"
| "checkBlocks (If_block path yes no line # blocks) scopes issues =
     checkBlocks blocks scopes (checkBlocks no scopes (checkBlocks yes scopes (checkCondition path line scopes issues)))"

definition root_scope :: "tschema \<Rightarrow> schema_scope list" where
  "root_scope schema = [\<lparr>ss_schema = schema, ss_item = False\<rparr>]"

definition checkTemplateFields :: "block list \<Rightarrow> tschema \<Rightarrow> issue list" where
  "checkTemplateFields blocks schema = checkBlocks blocks (root_scope schema) []"

definition checkTemplateLineFields :: "code_child list \<Rightarrow> tschema \<Rightarrow> issue list" where
  "checkTemplateLineFields content schema =
     map (\<lambda>i. i\<lparr>is_line := None\<rparr>) (checkCode content (root_scope schema) [])"

section \<open>Well-typed templates\<close>

definition placeholder_ok :: "schema_scope list \<Rightarrow> placeholder \<Rightarrow> bool" where
  "placeholder_ok scopes node =
     ((ph_value node \<in> {Index, Number} \<longrightarrow> ss_item (hd scopes)) \<and>
      (\<exists>s. schemaOfExpression (ph_value node) scopes = Some s \<and>
         (case ph_formatter node of
            None \<Rightarrow> value_type_of s \<notin> {Ty_object, Ty_array}
          | Some f \<Rightarrow>
              value_type_of s \<in> set (FORMATTER_TYPES f) \<and>
              (\<forall>c. f = Money (Value c) \<longrightarrow>
                 (\<exists>cs. schemaOfExpression c scopes = Some cs \<and> value_type_of cs = Ty_string)))))"

definition code_ok :: "schema_scope list \<Rightarrow> code_child list \<Rightarrow> bool" where
  "code_ok scopes nodes = (\<forall>p. CPlace p \<in> set nodes \<longrightarrow> placeholder_ok scopes p)"

fun inlines_ok :: "schema_scope list \<Rightarrow> inline list \<Rightarrow> bool" where
  "inlines_ok scopes [] = True"
| "inlines_ok scopes (Text s # nodes) = inlines_ok scopes nodes"
| "inlines_ok scopes (Break # nodes) = inlines_ok scopes nodes"
| "inlines_ok scopes (Place p # nodes) = (placeholder_ok scopes p \<and> inlines_ok scopes nodes)"
| "inlines_ok scopes (Strong cs # nodes) = (inlines_ok scopes cs \<and> inlines_ok scopes nodes)"
| "inlines_ok scopes (Emphasis cs # nodes) = (inlines_ok scopes cs \<and> inlines_ok scopes nodes)"
| "inlines_ok scopes (Code cs # nodes) = (code_ok scopes cs \<and> inlines_ok scopes nodes)"
| "inlines_ok scopes (Link cs url # nodes) = (inlines_ok scopes cs \<and> code_ok scopes url \<and> inlines_ok scopes nodes)"

definition item_type :: "expression \<Rightarrow> schema_scope list \<Rightarrow> tschema option" where
  "item_type path scopes =
     (case schemaOfExpression path scopes of Some (Of_schema (SArray items)) \<Rightarrow> Some items | _ \<Rightarrow> None)"

fun rows_ok :: "schema_scope list \<Rightarrow> row list \<Rightarrow> bool" where
  "rows_ok scopes [] = True"
| "rows_ok scopes (Row cells line # rows) = (list_all (inlines_ok scopes) cells \<and> rows_ok scopes rows)"
| "rows_ok scopes (Row_each path children line # rows) =
     ((case item_type path scopes of
         None \<Rightarrow> False
       | Some items \<Rightarrow> rows_ok (\<lparr>ss_schema = items, ss_item = True\<rparr> # scopes) children) \<and> rows_ok scopes rows)"
| "rows_ok scopes (Row_if path yes no line # rows) =
     (schemaOfExpression path scopes \<noteq> None \<and> rows_ok scopes yes \<and> rows_ok scopes no \<and> rows_ok scopes rows)"

fun blocks_ok :: "schema_scope list \<Rightarrow> block list \<Rightarrow> bool" where
  "blocks_ok scopes [] = True"
| "blocks_ok scopes (Heading level content line # blocks) = (inlines_ok scopes content \<and> blocks_ok scopes blocks)"
| "blocks_ok scopes (Paragraph content line # blocks) = (inlines_ok scopes content \<and> blocks_ok scopes blocks)"
| "blocks_ok scopes (BList tlist line # blocks) =
     (list_all (inlines_ok scopes) (list_contents tlist) \<and> blocks_ok scopes blocks)"
| "blocks_ok scopes (Quote paragraphs line # blocks) =
     (list_all (inlines_ok scopes) paragraphs \<and> blocks_ok scopes blocks)"
| "blocks_ok scopes (Rule line # blocks) = blocks_ok scopes blocks"
| "blocks_ok scopes (Pagebreak line # blocks) = blocks_ok scopes blocks"
| "blocks_ok scopes (Table align header rows line # blocks) =
     (list_all (inlines_ok scopes) header \<and> rows_ok scopes rows \<and> blocks_ok scopes blocks)"
| "blocks_ok scopes (Each path children line # blocks) =
     ((case item_type path scopes of
         None \<Rightarrow> False
       | Some items \<Rightarrow> blocks_ok (\<lparr>ss_schema = items, ss_item = True\<rparr> # scopes) children) \<and> blocks_ok scopes blocks)"
| "blocks_ok scopes (If_block path yes no line # blocks) =
     (schemaOfExpression path scopes \<noteq> None \<and> blocks_ok scopes yes \<and> blocks_ok scopes no \<and> blocks_ok scopes blocks)"

text \<open>The checker reports nothing exactly for the well-typed templates.\<close>

lemma checkCurrency_Nil:
  "checkCurrency e line scopes issues = [] \<longleftrightarrow>
     issues = [] \<and> (\<exists>cs. schemaOfExpression e scopes = Some cs \<and> value_type_of cs = Ty_string)"
  by (simp add: checkCurrency_def split: option.splits)

lemma checkFormatter_Nil:
  "checkFormatter f e s line scopes issues = [] \<longleftrightarrow>
     issues = [] \<and> value_type_of s \<in> set (FORMATTER_TYPES f) \<and>
     (\<forall>c. f = Money (Value c) \<longrightarrow> (\<exists>cs. schemaOfExpression c scopes = Some cs \<and> value_type_of cs = Ty_string))"
  unfolding checkFormatter_def Let_def
  by (cases f; simp add: checkCurrency_Nil del: FORMATTER_TYPES.simps split: targument.splits; blast)

lemma checkPlaceholder_Nil: "checkPlaceholder p scopes issues = [] \<longleftrightarrow> issues = [] \<and> placeholder_ok scopes p"
  unfolding checkPlaceholder_def placeholder_ok_def
  by (simp add: checkFormatter_Nil split: option.splits) blast

lemma checkCode_Nil: "checkCode nodes scopes issues = [] \<longleftrightarrow> issues = [] \<and> code_ok scopes nodes"
  by (induction nodes scopes issues rule: checkCode.induct) (auto simp: code_ok_def checkPlaceholder_Nil)

lemma checkInlines_Nil: "checkInlines nodes scopes issues = [] \<longleftrightarrow> issues = [] \<and> inlines_ok scopes nodes"
  by (induction nodes scopes issues rule: checkInlines.induct) (simp_all add: checkPlaceholder_Nil checkCode_Nil conj_ac)

lemma checkCells_Nil: "checkCells cells scopes issues = [] \<longleftrightarrow> issues = [] \<and> list_all (inlines_ok scopes) cells"
  unfolding checkCells_def list_all_iff by (rule foldl_Nil_iff) (rule checkInlines_Nil)

lemma checkCondition_Nil: "checkCondition path line scopes issues = [] \<longleftrightarrow> issues = [] \<and> schemaOfExpression path scopes \<noteq> None"
  by (simp add: checkCondition_def)

lemma itemScope_Nil:
  "(case itemScope path line scopes issues of Inl refused \<Rightarrow> refused | Inr inner \<Rightarrow> f inner) = [] \<longleftrightarrow>
     (case item_type path scopes of None \<Rightarrow> False | Some items \<Rightarrow> f (\<lparr>ss_schema = items, ss_item = True\<rparr> # scopes) = [])"
  by (simp add: itemScope_def item_type_def split: option.splits expression_schema.splits tschema.splits)

lemma itemScope_Inr:
  "item_type path scopes = Some items \<Longrightarrow>
     itemScope path line scopes issues = Inr (\<lparr>ss_schema = items, ss_item = True\<rparr> # scopes)"
  by (simp add: itemScope_def item_type_def split: option.splits expression_schema.splits tschema.splits)

lemma checkRows_Nil: "checkRows rows scopes issues = [] \<longleftrightarrow> issues = [] \<and> rows_ok scopes rows"
proof (induction rows scopes issues rule: checkRows.induct)
  case (3 path children line rows scopes issues)
  show ?case
    using 3(1) [OF itemScope_Inr]
    unfolding checkRows.simps(3) rows_ok.simps(3) 3(2) itemScope_Nil by (auto split: option.splits)
qed (auto simp: checkCells_Nil checkCondition_Nil)

lemma checkBlocks_Nil: "checkBlocks blocks scopes issues = [] \<longleftrightarrow> issues = [] \<and> blocks_ok scopes blocks"
proof (induction blocks scopes issues rule: checkBlocks.induct)
  case (9 path children line blocks scopes issues)
  show ?case
    using 9(1) [OF itemScope_Inr]
    unfolding checkBlocks.simps(9) blocks_ok.simps(9) 9(2) itemScope_Nil by (auto split: option.splits)
qed (auto simp: checkCells_Nil checkCondition_Nil checkInlines_Nil checkRows_Nil)

lemma checkTemplateFields_Nil: "checkTemplateFields blocks schema = [] \<longleftrightarrow> blocks_ok (root_scope schema) blocks"
  by (simp add: checkTemplateFields_def checkBlocks_Nil)

lemma checkTemplateLineFields_Nil: "checkTemplateLineFields content schema = [] \<longleftrightarrow> code_ok (root_scope schema) content"
  by (simp add: checkTemplateLineFields_def checkCode_Nil)

end
