(* ===== verification/Template_Inline.thy ===== *)
theory Template_Inline
  imports Template_Check
begin

text \<open>
  The inline half of the parser of \<open>modules/documents/src/domain/template-language.ts\<close>: placeholders with
  their formatters, block tags, the atoms of a line, the look-ahead tables of \<open>InlineScan\<close> and the nodes
  they make. A text is read by its remaining suffix where the code counts an index; the tables keep the
  indices. Refusals are added to a list that is passed along.
\<close>

section \<open>Texts\<close>

definition BACKSLASH :: char where "BACKSLASH = CHR 0x5C"
definition BACKTICK :: char where "BACKTICK = CHR 0x60"

text \<open>\<open>s.indexOf(p)\<close>.\<close>

fun sub_index :: "string \<Rightarrow> string \<Rightarrow> nat option" where
  "sub_index p [] = (if p = [] then Some 0 else None)"
| "sub_index p (c # cs) = (if starts_with p (c # cs) then Some 0 else map_option Suc (sub_index p cs))"

definition ends_with :: "string \<Rightarrow> string \<Rightarrow> bool" where
  "ends_with p s = starts_with (rev p) (rev s)"

lemma sub_index_le: "sub_index p s = Some i \<Longrightarrow> i \<le> length s"
  by (induction s arbitrary: i) (auto split: if_splits)

text \<open>\<open>/[!-/:-@[-`{-~]/\<close> and \<open>/[\p{L}\p{N}]/u\<close>, the latter for code units below 256.\<close>

definition is_punctuation :: "char \<Rightarrow> bool" where
  "is_punctuation c = (let n = code c in
     33 \<le> n \<and> n \<le> 47 \<or> 58 \<le> n \<and> n \<le> 64 \<or> 91 \<le> n \<and> n \<le> 96 \<or> 123 \<le> n \<and> n \<le> 126)"

definition letter_or_number :: "char \<Rightarrow> bool" where
  "letter_or_number c = (is_lower c \<or> is_upper c \<or> is_digit c \<or>
     (let n = code c in n \<in> {170, 178, 179, 181, 185, 186, 188, 189, 190} \<or> 192 \<le> n \<and> n \<noteq> 215 \<and> n \<noteq> 247))"

section \<open>Placeholders\<close>

text \<open>At most eight identifiers with dots between them.\<close>

definition path_shape :: "string \<Rightarrow> bool" where
  "path_shape s = (let ps = split_on CHR ''.'' s in length ps \<le> 8 \<and> list_all is_identifier ps)"

definition parseValue :: "string \<Rightarrow> bool \<Rightarrow> expression option" where
  "parseValue text pageCounters =
     (if text = ''@index'' then Some Index
      else if text = ''@number'' then Some Number
      else if pageCounters \<and> text = ''page'' then Some Page
      else if pageCounters \<and> text = ''pages'' then Some Pages
      else if text = ''this'' then Some (Path True [])
      else if \<not> path_shape text then None
      else
        let segments = split_on CHR ''.'' text
        in if hd segments = ''this'' then Some (Path True (tl segments)) else Some (Path False segments))"

fun is_path :: "expression \<Rightarrow> bool" where
  "is_path (Path this segments) = True"
| "is_path _ = False"

text \<open>The text before the first \<open>c\<close> and, when there is one, the text after it.\<close>

definition cut_at :: "char \<Rightarrow> string \<Rightarrow> string \<times> string option" where
  "cut_at c s = (let a = takeWhile (\<lambda>d. d \<noteq> c) s; r = dropWhile (\<lambda>d. d \<noteq> c) s
                 in (a, if r = [] then None else Some (tl r)))"

text \<open>\<open>/^(['"])([A-Z]{3})\1$/\<close>.\<close>

definition quoted_code :: "string \<Rightarrow> string option" where
  "quoted_code s =
     (if length s = 5 \<and> (hd s = CHR 0x27 \<or> hd s = CHR 0x22) \<and> last s = hd s \<and> list_all is_upper (take 3 (tl s))
      then Some (take 3 (tl s)) else None)"

type_synonym 'a parsed = "'a \<times> issue list"

definition parse_money :: "string option \<Rightarrow> nat \<Rightarrow> bool \<Rightarrow> issue list \<Rightarrow> formatter option parsed" where
  "parse_money arg line pageCounters issues =
     (if arg = None \<or> arg = Some [] then (None, add_issue TEMPLATE_FORMATTER 1 [] (Some line) issues)
      else
        (case quoted_code (the arg) of
           Some c \<Rightarrow> (Some (Money (Literal c)), issues)
         | None \<Rightarrow>
             (case parseValue (the arg) pageCounters of
                Some (Path this segments) \<Rightarrow> (Some (Money (Value (Path this segments))), issues)
              | _ \<Rightarrow> (None, add_issue TEMPLATE_FORMATTER 2 [] (Some line) issues))))"

definition parse_digits :: "string option \<Rightarrow> nat \<Rightarrow> issue list \<Rightarrow> formatter option parsed" where
  "parse_digits arg line issues =
     (case arg of
        None \<Rightarrow> (Some (Digits None), issues)
      | Some s \<Rightarrow>
          if length s = 1 \<and> is_digit (hd s) \<and> digit_value (hd s) \<le> 6
          then (Some (Digits (Some (digit_value (hd s)))), issues)
          else (None, add_issue TEMPLATE_FORMATTER 3 [] (Some line) issues))"

definition plain_formatters :: "(string \<times> formatter) list" where
  "plain_formatters = [(''date'', Date), (''datetime'', Datetime), (''upper'', Upper), (''yesno'', Yesno)]"

definition parseFormatter :: "string \<Rightarrow> nat \<Rightarrow> bool \<Rightarrow> issue list \<Rightarrow> formatter option parsed" where
  "parseFormatter text line pageCounters issues =
     (let (before, after) = cut_at CHR '':'' text; name = trim before; arg = map_option trim after in
      if name = ''money'' then parse_money arg line pageCounters issues
      else if name = ''number'' then parse_digits arg line issues
      else
        (case map_of plain_formatters name of
           None \<Rightarrow> (None, add_issue TEMPLATE_FORMATTER 4 [take 32 name] (Some line) issues)
         | Some f \<Rightarrow>
             if arg \<noteq> None then (None, add_issue TEMPLATE_FORMATTER 5 [name] (Some line) issues)
             else (Some f, issues)))"

section \<open>Block tags\<close>

datatype directive = D_each expression | D_if expression | D_end_each | D_end_if | D_else

datatype tag = Tag_each | Tag_if | Tag_end_each | Tag_end_if | Tag_else

definition tag_words :: "(string \<times> tag) list" where
  "tag_words = [(''#each'', Tag_each), (''#if'', Tag_if), (''/each'', Tag_end_each), (''/if'', Tag_end_if), (''else'', Tag_else)]"

text \<open>\<open>/^(#each|#if|\/each|\/if|else)(?:\s+(.*))?$/\<close>: the tag and what follows the white space after it.\<close>

fun match_tag :: "(string \<times> tag) list \<Rightarrow> string \<Rightarrow> (tag \<times> string option) option" where
  "match_tag [] s = None"
| "match_tag ((word, tg) # tags) s =
     (if starts_with word s then
        (case drop (length word) s of
           [] \<Rightarrow> Some (tg, None)
         | c # cs \<Rightarrow> if is_space c then Some (tg, Some (dropWhile is_space cs)) else match_tag tags s)
      else match_tag tags s)"

definition DIRECTIVE :: "string \<Rightarrow> (tag \<times> string option) option" where
  "DIRECTIVE inner = match_tag tag_words inner"

definition opening_directive :: "tag \<Rightarrow> string option \<Rightarrow> nat \<Rightarrow> issue list \<Rightarrow> directive option parsed" where
  "opening_directive tg rest line issues =
     (case (case rest of None \<Rightarrow> None | Some r \<Rightarrow> if r = [] then None else parseValue (trim r) False) of
        Some (Path this segments) \<Rightarrow>
          (Some (if tg = Tag_each then D_each (Path this segments) else D_if (Path this segments)), issues)
      | _ \<Rightarrow> (None, add_issue TEMPLATE_BLOCK (if tg = Tag_each then 1 else 2) [] (Some line) issues))"

definition closing_directive :: "tag \<Rightarrow> directive" where
  "closing_directive tg = (case tg of Tag_end_each \<Rightarrow> D_end_each | Tag_end_if \<Rightarrow> D_end_if | _ \<Rightarrow> D_else)"

definition tag_wording :: "tag \<Rightarrow> nat" where
  "tag_wording tg = (case tg of Tag_end_each \<Rightarrow> 3 | Tag_end_if \<Rightarrow> 4 | _ \<Rightarrow> 5)"

definition parseDirective :: "string \<Rightarrow> nat \<Rightarrow> issue list \<Rightarrow> directive option parsed" where
  "parseDirective inner line issues =
     (case DIRECTIVE inner of
        None \<Rightarrow> (None, issues)
      | Some (tg, rest) \<Rightarrow>
          if tg = Tag_each \<or> tg = Tag_if then opening_directive tg rest line issues
          else if rest \<noteq> None \<and> rest \<noteq> Some [] then
            (None, add_issue TEMPLATE_BLOCK (tag_wording tg) [] (Some line) issues)
          else (Some (closing_directive tg), issues))"

text \<open>A line that is one block tag: \<open>None\<close> when it is none, \<open>Some None\<close> when it was refused.\<close>

definition lineDirective :: "string \<Rightarrow> nat \<Rightarrow> issue list \<Rightarrow> directive option option parsed" where
  "lineDirective text line issues =
     (let trimmed = trim text in
      if \<not> starts_with ''{{'' trimmed \<or> \<not> ends_with ''}}'' trimmed then (None, issues)
      else
        let inner = trim (take (length trimmed - 4) (drop 2 trimmed)) in
        if CHR ''{'' \<in> set inner \<or> CHR ''}'' \<in> set inner \<or> DIRECTIVE inner = None then (None, issues)
        else let (d, issues') = parseDirective inner line issues in (Some d, issues'))"

section \<open>Atoms\<close>

datatype atom = Char char bool nat | APlace placeholder | ABreak

definition literals :: "nat \<Rightarrow> string \<Rightarrow> atom list" where
  "literals line s = map (\<lambda>c. Char c True line) s"

text \<open>What stands between the braces: a placeholder, or a refusal.\<close>

definition placeholder_of :: "string \<Rightarrow> nat \<Rightarrow> bool \<Rightarrow> issue list \<Rightarrow> placeholder option parsed" where
  "placeholder_of inner line pageCounters issues =
     (if DIRECTIVE inner \<noteq> None \<or> starts_with ''#'' inner \<or> starts_with ''/'' inner then
        (None, add_issue TEMPLATE_BLOCK 6 [take 40 inner] (Some line) issues)
      else
        let (valueText, formatterText) = cut_at CHR ''|'' inner in
        case parseValue (trim valueText) pageCounters of
          None \<Rightarrow> (None, add_issue TEMPLATE_PLACEHOLDER 2 [take 60 inner] (Some line) issues)
        | Some v \<Rightarrow>
            (case map_option trim formatterText of
               None \<Rightarrow> (Some (Placeholder v None line), issues)
             | Some ft \<Rightarrow>
                 if CHR ''|'' \<in> set ft then (None, add_issue TEMPLATE_FORMATTER 6 [] (Some line) issues)
                 else
                   (case parseFormatter ft line pageCounters issues of
                      (None, issues') \<Rightarrow> (None, issues')
                    | (Some f, issues') \<Rightarrow> (Some (Placeholder v (Some f) line), issues'))))"

definition triple_brace :: "string \<Rightarrow> nat \<Rightarrow> issue list \<Rightarrow> issue list" where
  "triple_brace s line issues =
     (if starts_with ''{{{'' s then add_issue TEMPLATE_PLACEHOLDER 3 [] (Some line) issues else issues)"

function atomsOf :: "string \<Rightarrow> nat \<Rightarrow> bool \<Rightarrow> issue list \<Rightarrow> atom list parsed" where
  "atomsOf [] line pageCounters issues = ([], issues)"
| "atomsOf (c # cs) line pageCounters issues =
     (if c = BACKSLASH \<and> cs \<noteq> [] \<and> is_punctuation (hd cs) then
        (if starts_with ''{{'' cs then
           let (as, issues') = atomsOf (drop 2 cs) line pageCounters issues in (literals line ''{{'' @ as, issues')
         else
           let (as, issues') = atomsOf (tl cs) line pageCounters issues in (Char (hd cs) True line # as, issues'))
      else if starts_with ''{{'' (c # cs) then
        let issues1 = triple_brace (c # cs) line issues in
        (case sub_index ''}}'' (tl cs) of
           None \<Rightarrow> (literals line (c # cs), add_issue TEMPLATE_PLACEHOLDER 4 [] (Some line) issues1)
         | Some n \<Rightarrow>
             let (p, issues2) = placeholder_of (trim (take n (tl cs))) line pageCounters issues1;
                 (as, issues3) = atomsOf (drop (n + 2) (tl cs)) line pageCounters issues2
             in (case p of None \<Rightarrow> (as, issues3) | Some ph \<Rightarrow> (APlace ph # as, issues3)))
      else let (as, issues') = atomsOf cs line pageCounters issues in (Char c False line # as, issues'))"
  by pat_completeness auto
termination
  by (relation "measure (\<lambda>(s, _). length s)") auto

fun is_char :: "atom option \<Rightarrow> char \<Rightarrow> bool" where
  "is_char (Some (Char d lit line)) c = (\<not> lit \<and> d = c)"
| "is_char _ c = False"

fun wordChar :: "atom option \<Rightarrow> bool" where
  "wordChar (Some (Char d lit line)) = letter_or_number d"
| "wordChar _ = False"

fun char_in :: "(char \<Rightarrow> bool) \<Rightarrow> atom option \<Rightarrow> bool" where
  "char_in p (Some (Char d lit line)) = p d"
| "char_in p _ = False"

text \<open>\<open>atoms[index]\<close>, undefined out of range; \<open>atoms[index - 1]\<close> is undefined at 0.\<close>

definition atom_at :: "atom list \<Rightarrow> nat \<Rightarrow> atom option" where
  "atom_at atoms i = (if i < length atoms then Some (atoms ! i) else None)"

definition atom_before :: "atom list \<Rightarrow> nat \<Rightarrow> atom option" where
  "atom_before atoms i = (if i = 0 then None else atom_at atoms (i - 1))"


section \<open>Look-ahead tables\<close>

record inline_scan =
  sn_run :: "nat list"
  sn_strong :: "char \<Rightarrow> nat list"
  sn_emphasis :: "char \<Rightarrow> nat list"
  sn_code :: "nat \<Rightarrow> nat list"
  sn_open :: "nat list"
  sn_bracket :: "nat option list"

definition push_start :: "('k \<Rightarrow> nat list) \<Rightarrow> 'k \<Rightarrow> nat \<Rightarrow> 'k \<Rightarrow> nat list" where
  "push_start m key i = m(key := m key @ [i])"

text \<open>The length of the run of a delimiter from an index on.\<close>

definition run_length :: "atom list \<Rightarrow> nat \<Rightarrow> char \<Rightarrow> nat" where
  "run_length atoms i ch = length (takeWhile (\<lambda>a. is_char (Some a) ch) (drop i atoms))"

definition delimiter :: "char \<Rightarrow> bool" where
  "delimiter ch = (ch = CHR ''*'' \<or> ch = CHR ''_'' \<or> ch = BACKTICK)"

definition scan_run :: "atom list \<Rightarrow> nat \<Rightarrow> char \<Rightarrow> inline_scan \<Rightarrow> inline_scan" where
  "scan_run atoms i ch s =
     (if delimiter ch \<and> \<not> is_char (atom_before atoms i) ch then
        let len = run_length atoms i ch; s' = s\<lparr>sn_run := (sn_run s)[i := len]\<rparr> in
        if ch = BACKTICK then s'\<lparr>sn_code := push_start (sn_code s) len i\<rparr>
        else if 2 \<le> len then s'\<lparr>sn_strong := push_start (sn_strong s) ch i\<rparr>
        else if ch \<noteq> CHR ''_'' \<or> \<not> wordChar (atom_at atoms (i + 1)) then
          s'\<lparr>sn_emphasis := push_start (sn_emphasis s) ch i\<rparr>
        else s'
      else s)"

definition scan_bracket :: "nat \<Rightarrow> char \<Rightarrow> inline_scan \<Rightarrow> inline_scan" where
  "scan_bracket i ch s =
     (if ch = CHR ''['' then s\<lparr>sn_open := i # sn_open s\<rparr>
      else if ch = CHR '']'' \<and> sn_open s \<noteq> [] then
        s\<lparr>sn_open := tl (sn_open s), sn_bracket := (sn_bracket s)[hd (sn_open s) := Some i]\<rparr>
      else s)"

definition scan_step :: "atom list \<Rightarrow> inline_scan \<Rightarrow> nat \<Rightarrow> inline_scan" where
  "scan_step atoms s i =
     (case atoms ! i of
        Char ch lit line \<Rightarrow> if lit then s else scan_bracket i ch (scan_run atoms i ch s)
      | _ \<Rightarrow> s)"

definition empty_scan :: "atom list \<Rightarrow> inline_scan" where
  "empty_scan atoms =
     \<lparr>sn_run = replicate (length atoms) 0, sn_strong = (\<lambda>_. []), sn_emphasis = (\<lambda>_. []), sn_code = (\<lambda>_. []),
      sn_open = [], sn_bracket = replicate (length atoms) None\<rparr>"

definition inlineScan :: "atom list \<Rightarrow> inline_scan" where
  "inlineScan atoms = foldl (scan_step atoms) (empty_scan atoms) [0..<length atoms]"

text \<open>The first index from each one on, the length of the text when there is none; filled from the end.\<close>

fun next_table :: "(atom \<Rightarrow> bool) \<Rightarrow> nat \<Rightarrow> atom list \<Rightarrow> nat list" where
  "next_table p i [] = [i]"
| "next_table p i (a # as) = (let r = next_table p (i + 1) as in (if p a then i else hd r) # r)"

definition nextParen :: "atom list \<Rightarrow> nat list" where
  "nextParen atoms = next_table (\<lambda>a. is_char (Some a) CHR '')'') 0 atoms"

definition nextSpace :: "atom list \<Rightarrow> nat list" where
  "nextSpace atoms = next_table (\<lambda>a. char_in is_space (Some a)) 0 atoms"

text \<open>The binary search of \<open>InlineScan.after\<close>.\<close>

function first_after :: "nat list \<Rightarrow> nat \<Rightarrow> nat \<Rightarrow> nat \<Rightarrow> nat" where
  "first_after starts bound low high =
     (if low < high then
        let middle = (low + high) div 2 in
        if starts ! middle \<le> bound then first_after starts bound (middle + 1) high
        else first_after starts bound low middle
      else low)"
  by pat_completeness auto
termination
  by (relation "measure (\<lambda>(starts, bound, low, high). high - low)") auto

declare first_after.simps [simp del]

definition after :: "nat list \<Rightarrow> nat \<Rightarrow> nat \<Rightarrow> nat option" where
  "after starts bound limit =
     (let low = first_after starts bound 0 (length starts) in
      if low < length starts \<and> starts ! low < limit then Some (starts ! low) else None)"

text \<open>What the search finds lies strictly after the bound, sorted or not.\<close>

lemma first_after_greater:
  "high \<le> length starts \<Longrightarrow> (high < length starts \<Longrightarrow> bound < starts ! high) \<Longrightarrow> low \<le> high \<Longrightarrow>
     low \<le> first_after starts bound low high \<and> first_after starts bound low high \<le> high \<and>
     (first_after starts bound low high < length starts \<longrightarrow> bound < starts ! first_after starts bound low high)"
proof (induction starts bound low high rule: first_after.induct)
  case (1 starts bound low high)
  let ?m = "(low + high) div 2"
  show ?case
  proof (cases "low < high")
    case True
    then have m: "low \<le> ?m" "?m < high" by auto
    show ?thesis
    proof (cases "starts ! ?m \<le> bound")
      case le: True
      have "first_after starts bound low high = first_after starts bound (?m + 1) high"
        using True le by (subst first_after.simps) (simp add: Let_def)
      then show ?thesis using 1(1) [OF True refl le 1(3,4)] m by simp
    next
      case gr: False
      have "first_after starts bound low high = first_after starts bound low ?m"
        using True gr by (subst first_after.simps) (simp add: Let_def)
      then show ?thesis using 1(2) [OF True refl gr] m gr 1(3) by simp
    qed
  next
    case False
    then have "first_after starts bound low high = low" by (subst first_after.simps) simp
    then show ?thesis using False 1(3,4,5) by simp
  qed
qed

lemma after_bounds: "after starts bound limit = Some j \<Longrightarrow> bound < j \<and> j < limit"
  using first_after_greater [of "length starts" starts bound 0]
  by (auto simp: after_def Let_def split: if_splits)

lemma scan_run_keeps [simp]:
  "sn_open (scan_run atoms i ch s) = sn_open s" "sn_bracket (scan_run atoms i ch s) = sn_bracket s"
  by (simp_all add: scan_run_def Let_def)

lemma length_scan_step [simp]: "length (sn_bracket (scan_step atoms s i)) = length (sn_bracket s)"
  by (simp add: scan_step_def scan_bracket_def split: atom.splits)

text \<open>A bracket closes after it opens.\<close>

definition brackets_forward :: "nat \<Rightarrow> inline_scan \<Rightarrow> bool" where
  "brackets_forward n s =
     (list_all (\<lambda>i. i < n) (sn_open s) \<and> (\<forall>i < length (sn_bracket s). \<forall>j. sn_bracket s ! i = Some j \<longrightarrow> i < j \<and> j < n))"

lemma brackets_forward_mono: "brackets_forward n s \<Longrightarrow> brackets_forward (Suc n) s"
  unfolding brackets_forward_def list_all_iff using less_SucI by blast

lemma brackets_forward_bracket:
  assumes "brackets_forward n s"
  shows "brackets_forward (Suc n) (scan_bracket n ch s)"
proof (cases "ch = CHR '']'' \<and> sn_open s \<noteq> []")
  case True
  then obtain k ks where k: "sn_open s = k # ks" by (cases "sn_open s") auto
  have kn: "k < n" using assms k by (simp add: brackets_forward_def)
  have "scan_bracket n ch s = s\<lparr>sn_open := ks, sn_bracket := (sn_bracket s)[k := Some n]\<rparr>"
    using True k by (simp add: scan_bracket_def)
  then show ?thesis
    using brackets_forward_mono [OF assms] kn k unfolding brackets_forward_def
    by (cases "k < length (sn_bracket s)") (auto simp: nth_list_update split: if_splits)
next
  case False
  then have "scan_bracket n ch s = (if ch = CHR ''['' then s\<lparr>sn_open := n # sn_open s\<rparr> else s)"
    by (auto simp: scan_bracket_def)
  then show ?thesis using brackets_forward_mono [OF assms] unfolding brackets_forward_def by simp
qed

lemma brackets_forward_run: "brackets_forward n s \<Longrightarrow> brackets_forward n (scan_run atoms i ch s)"
  by (simp add: brackets_forward_def)

lemma brackets_forward_step: "brackets_forward n s \<Longrightarrow> brackets_forward (Suc n) (scan_step atoms s n)"
  by (simp add: scan_step_def brackets_forward_mono brackets_forward_bracket brackets_forward_run split: atom.splits)

lemma brackets_forward_scan: "brackets_forward n (foldl (scan_step atoms) (empty_scan atoms) [0..<n])"
proof (induction n)
  case 0
  then show ?case by (simp add: brackets_forward_def empty_scan_def)
next
  case (Suc n)
  then show ?case by (simp add: brackets_forward_step)
qed

lemma length_sn_bracket: "length (sn_bracket (inlineScan atoms)) = length atoms"
proof -
  have keep: "length (sn_bracket (foldl (scan_step atoms) s js)) = length (sn_bracket s)" for s js
    by (induction js arbitrary: s) simp_all
  show ?thesis unfolding inlineScan_def keep by (simp add: empty_scan_def)
qed

lemma bracket_after:
  assumes "i < length atoms" and "sn_bracket (inlineScan atoms) ! i = Some j"
  shows "i < j \<and> j < length atoms"
proof -
  have "brackets_forward (length atoms) (inlineScan atoms)"
    unfolding inlineScan_def by (rule brackets_forward_scan)
  then show ?thesis
    using assms unfolding brackets_forward_def length_sn_bracket by blast
qed

section \<open>Nodes\<close>

definition INLINE_DEPTH :: nat where "INLINE_DEPTH = 8"

definition push_text :: "inline list \<Rightarrow> string \<Rightarrow> inline list" where
  "push_text nodes s =
     (case (if nodes = [] then None else Some (last nodes)) of
        Some (Text t) \<Rightarrow> butlast nodes @ [Text (t @ s)]
      | _ \<Rightarrow> nodes @ [Text s])"

definition push_code_text :: "code_child list \<Rightarrow> string \<Rightarrow> code_child list" where
  "push_code_text nodes s =
     (case (if nodes = [] then None else Some (last nodes)) of
        Some (CText t) \<Rightarrow> butlast nodes @ [CText (t @ s)]
      | _ \<Rightarrow> nodes @ [CText s])"

definition code_step :: "code_child list \<Rightarrow> atom \<Rightarrow> code_child list" where
  "code_step nodes a =
     (case a of
        APlace ph \<Rightarrow> nodes @ [CPlace ph]
      | ABreak \<Rightarrow> push_code_text nodes '' ''
      | Char ch lit line \<Rightarrow> push_code_text nodes [ch])"

definition codeChildren :: "atom list \<Rightarrow> nat \<Rightarrow> nat \<Rightarrow> code_child list" where
  "codeChildren atoms i j = foldl code_step [] (map (\<lambda>k. atoms ! k) [i..<j])"

text \<open>The refusals a character raises by what follows it.\<close>

definition html_start :: "char \<Rightarrow> bool" where
  "html_start c = (is_lower c \<or> is_upper c \<or> c = CHR ''/'' \<or> c = CHR ''!'' \<or> c = CHR ''?'')"

definition char_issues :: "atom list \<Rightarrow> nat \<Rightarrow> char \<Rightarrow> nat \<Rightarrow> issue list \<Rightarrow> issue list" where
  "char_issues atoms i ch line issues =
     (let nxt = atom_at atoms (i + 1);
          issues1 = (if ch = CHR ''!'' \<and> is_char nxt CHR ''['' then add_issue TEMPLATE_IMAGE 1 [] (Some line) issues else issues);
          issues2 = (if ch = CHR ''['' \<and> is_char nxt CHR ''^'' then add_issue TEMPLATE_FOOTNOTE 1 [] (Some line) issues1 else issues1)
      in if ch = CHR ''<'' \<and> char_in html_start nxt then add_issue TEMPLATE_HTML 1 [] (Some line) issues2 else issues2)"

text \<open>Where a code span, a strong or emphasised span and a link close; \<open>None\<close> when they do not.\<close>

definition code_close :: "inline_scan \<Rightarrow> nat \<Rightarrow> nat \<Rightarrow> nat \<Rightarrow> nat option" where
  "code_close scan i limit run =
     (case after (sn_code scan run) i limit of
        Some close \<Rightarrow> if close + run \<le> limit then Some close else None
      | None \<Rightarrow> None)"

definition span_close :: "atom list \<Rightarrow> inline_scan \<Rightarrow> nat \<Rightarrow> nat \<Rightarrow> char \<Rightarrow> nat \<Rightarrow> nat \<Rightarrow> nat option" where
  "span_close atoms scan i limit ch width depth =
     (if ch = CHR ''_'' \<and> wordChar (atom_before atoms i) \<or> \<not> depth < INLINE_DEPTH then None
      else
        (case (if width = 2 then after (sn_strong scan ch) (i + 1) limit else after (sn_emphasis scan ch) i limit) of
           Some close \<Rightarrow> if i + width - 1 < close \<and> close + width \<le> limit then Some close else None
         | None \<Rightarrow> None))"

definition link_close :: "atom list \<Rightarrow> inline_scan \<Rightarrow> nat \<Rightarrow> nat \<Rightarrow> nat \<Rightarrow> bool \<Rightarrow> (nat \<times> nat) option" where
  "link_close atoms scan i limit depth inLink =
     (if inLink \<or> \<not> depth < INLINE_DEPTH then None
      else
        (case sn_bracket scan ! i of
           None \<Rightarrow> None
         | Some labelEnd \<Rightarrow>
             let urlStart = labelEnd + 2 in
             if 0 < labelEnd \<and> labelEnd < limit \<and> is_char (atom_at atoms (labelEnd + 1)) CHR ''('' then
               let urlEnd = nextParen atoms ! urlStart in
               if urlStart < urlEnd \<and> urlEnd < limit \<and> urlEnd < nextSpace atoms ! urlStart
               then Some (labelEnd, urlEnd) else None
             else None))"

lemma code_close_bounds: "code_close scan i limit run = Some close \<Longrightarrow> i < close \<and> close + run \<le> limit"
  by (auto simp: code_close_def dest: after_bounds split: option.splits if_splits)

lemma span_close_bounds:
  "span_close atoms scan i limit ch width depth = Some close \<Longrightarrow> 0 < width \<Longrightarrow>
     i + width \<le> close \<and> close + width \<le> limit \<and> depth < INLINE_DEPTH"
  by (auto simp: span_close_def split: option.splits if_splits)

lemma link_close_bounds:
  assumes "link_close atoms (inlineScan atoms) i limit depth inLink = Some (labelEnd, urlEnd)" and "i < length atoms"
  shows "i < labelEnd \<and> labelEnd + 2 < urlEnd \<and> urlEnd < limit \<and> depth < INLINE_DEPTH \<and> \<not> inLink"
  using assms bracket_after [OF assms(2)]
  by (auto simp: link_close_def Let_def split: option.splits if_splits)

text \<open>
  The loop over the atoms from \<open>i\<close> up to \<open>limit\<close>. The tables are those of the whole paragraph.
\<close>

function inlineNodes ::
    "atom list \<Rightarrow> nat \<Rightarrow> nat \<Rightarrow> nat \<Rightarrow> bool \<Rightarrow> inline list \<Rightarrow> issue list \<Rightarrow> inline list parsed" where
  "inlineNodes atoms i limit depth inLink nodes issues =
     (if \<not> (i < limit \<and> i < length atoms) then (nodes, issues)
      else
        case atoms ! i of
          APlace ph \<Rightarrow> inlineNodes atoms (i + 1) limit depth inLink (nodes @ [Place ph]) issues
        | ABreak \<Rightarrow> inlineNodes atoms (i + 1) limit depth inLink (nodes @ [Break]) issues
        | Char ch lit line \<Rightarrow>
            if lit then inlineNodes atoms (i + 1) limit depth inLink (push_text nodes [ch]) issues
            else
              let scan = inlineScan atoms; run = min (sn_run scan ! i) (limit - i) in
              if ch = BACKTICK \<and> 0 < run then
                (case code_close scan i limit run of
                   None \<Rightarrow> inlineNodes atoms (i + run) limit depth inLink (push_text nodes (replicate run BACKTICK)) issues
                 | Some close \<Rightarrow>
                     inlineNodes atoms (close + run) limit depth inLink
                       (nodes @ [Code (codeChildren atoms (i + run) close)]) issues)
              else
                let issues1 = char_issues atoms i ch line issues in
                if (ch = CHR ''*'' \<or> ch = CHR ''_'') \<and> 0 < run then
                  let width = (if 2 \<le> run then 2 else 1) in
                  (case span_close atoms scan i limit ch width depth of
                     None \<Rightarrow> inlineNodes atoms (i + run) limit depth inLink (push_text nodes (replicate run ch)) issues1
                   | Some close \<Rightarrow>
                       let (children, issues2) = inlineNodes atoms (i + width) close (depth + 1) inLink [] issues1 in
                       inlineNodes atoms (close + width) limit depth inLink
                         (nodes @ [if width = 2 then Strong children else Emphasis children]) issues2)
                else
                  (case (if ch = CHR ''['' then link_close atoms scan i limit depth inLink else None) of
                     None \<Rightarrow> inlineNodes atoms (i + 1) limit depth inLink (push_text nodes [ch]) issues1
                   | Some (labelEnd, urlEnd) \<Rightarrow>
                       let (children, issues2) = inlineNodes atoms (i + 1) labelEnd (depth + 1) True [] issues1 in
                       inlineNodes atoms (urlEnd + 1) limit depth inLink
                         (nodes @ [Link children (codeChildren atoms (labelEnd + 2) urlEnd)]) issues2))"
  by pat_completeness auto
termination
proof (relation "measure (\<lambda>(atoms, i, limit, _). limit - i)", goal_cases)
qed (auto dest!: code_close_bounds span_close_bounds link_close_bounds split: if_splits)

declare inlineNodes.simps [simp del]

end
