(* ===== verification/Template_Parse.thy ===== *)
theory Template_Parse
  imports Template_Inline
begin

text \<open>
  The block half of the parser of \<open>modules/documents/src/domain/template-language.ts\<close>: comments, headings,
  lists, quotes, rules, tables and block tags, and the one-line fields. The local variables of
  \<open>parseTemplate\<close> are the record \<open>parser\<close>; the stack of open blocks has the innermost first; the loop reads
  the lines that are left, with the number of the next one.
\<close>

section \<open>Lines\<close>

datatype segment = Seg string nat bool

definition TAB :: char where "TAB = CHR 9"
definition BLANK :: char where "BLANK = CHR '' ''"

definition space_or_tab :: "char \<Rightarrow> bool" where
  "space_or_tab c = (c = BLANK \<or> c = TAB)"

definition trim_end :: "string \<Rightarrow> string" where
  "trim_end s = rev (dropWhile is_space (rev s))"

text \<open>\<open>body.split(/\r\n|\r|\n/)\<close>.\<close>

fun split_lines :: "string \<Rightarrow> string list" where
  "split_lines [] = [[]]"
| "split_lines (c # cs) =
     (if code c = 13 \<and> (case cs of [] \<Rightarrow> False | d # _ \<Rightarrow> code d = 10) then
        (case cs of [] \<Rightarrow> [] | d # ds \<Rightarrow> [] # split_lines ds)
      else if code c = 13 \<or> code c = 10 then [] # split_lines cs
      else (case split_lines cs of [] \<Rightarrow> [[c]] | l # ls \<Rightarrow> (c # l) # ls))"

definition expandTabs :: "string \<Rightarrow> string" where
  "expandTabs s =
     concat (map (\<lambda>c. if c = TAB then replicate 4 BLANK else [c]) (takeWhile space_or_tab s)) @ dropWhile space_or_tab s"

definition indentOf :: "string \<Rightarrow> nat" where
  "indentOf s = length (takeWhile (\<lambda>c. c = BLANK) s)"

text \<open>What follows at most three spaces.\<close>

definition dedent :: "string \<Rightarrow> string option" where
  "dedent s = (if indentOf s \<le> 3 then Some (drop (indentOf s) s) else None)"

definition segment :: "string \<Rightarrow> nat \<Rightarrow> segment" where
  "segment s line =
     (let backslash = ends_with [BACKSLASH] s in
      Seg (trim (if backslash then butlast s else s)) line (backslash \<or> ends_with [BLANK, BLANK] s))"

section \<open>Inline content\<close>

fun segment_atoms :: "bool option \<Rightarrow> segment list \<Rightarrow> issue list \<Rightarrow> atom list parsed" where
  "segment_atoms before [] issues = ([], issues)"
| "segment_atoms before (Seg s line hardBreak # segs) issues =
     (let joint = (case before of None \<Rightarrow> [] | Some hard \<Rightarrow> [if hard then ABreak else Char BLANK True line]);
          (as, issues1) = atomsOf s line False issues;
          (bs, issues2) = segment_atoms (Some hardBreak) segs issues1
      in (joint @ as @ bs, issues2))"

definition parseInline :: "segment list \<Rightarrow> issue list \<Rightarrow> inline list parsed" where
  "parseInline segs issues =
     (let (atoms, issues1) = segment_atoms None segs issues in
      inlineNodes atoms 0 (length atoms) 0 False [] issues1)"

fun parse_contents :: "segment list list \<Rightarrow> issue list \<Rightarrow> inline list list parsed" where
  "parse_contents [] issues = ([], issues)"
| "parse_contents (segs # rest) issues =
     (let (nodes, issues1) = parseInline segs issues;
          (others, issues2) = parse_contents rest issues1
      in (nodes # others, issues2))"

section \<open>Kinds of line\<close>

definition headingOf :: "string \<Rightarrow> (nat \<times> string) option" where
  "headingOf s =
     (case dedent s of
        None \<Rightarrow> None
      | Some r \<Rightarrow>
          let level = length (takeWhile (\<lambda>c. c = CHR ''#'') r); rest = drop level r in
          if level < 1 \<or> 6 < level then None
          else if rest \<noteq> [] \<and> \<not> space_or_tab (hd rest) then None
          else
            let content = trim rest; body = rev (dropWhile (\<lambda>c. c = CHR ''#'') (rev content)) in
            Some (level,
              if body = [] then []
              else if length body < length content \<and> space_or_tab (last body) then trim_end body
              else content))"

definition isRule :: "string \<Rightarrow> bool" where
  "isRule s =
     (indentOf s \<le> 3 \<and>
      (case trim s of
         [] \<Rightarrow> False
       | marker # cs \<Rightarrow>
           (marker = CHR ''-'' \<or> marker = CHR ''*'' \<or> marker = CHR ''_'') \<and>
           list_all (\<lambda>c. c = marker \<or> space_or_tab c) (trim s) \<and>
           3 \<le> length (filter (\<lambda>c. c = marker) (trim s))))"

definition FENCE :: "string \<Rightarrow> string option" where
  "FENCE s =
     (case dedent s of
        None \<Rightarrow> None
      | Some r \<Rightarrow>
          if starts_with (replicate 3 BACKTICK) r then Some (replicate 3 BACKTICK)
          else if starts_with ''~~~'' r then Some ''~~~'' else None)"

definition QUOTE :: "string \<Rightarrow> string option" where
  "QUOTE s =
     (case dedent s of
        None \<Rightarrow> None
      | Some r \<Rightarrow>
          if starts_with ''>'' r then Some (if starts_with [BLANK] (tl r) then tl (tl r) else tl r) else None)"

definition html_line :: "string \<Rightarrow> bool" where
  "html_line s =
     (case dedent s of
        None \<Rightarrow> False
      | Some r \<Rightarrow> starts_with ''<'' r \<and> tl r \<noteq> [] \<and> html_start (hd (tl r)))"

text \<open>The label of a reference definition.\<close>

definition DEFINITION :: "string \<Rightarrow> string option" where
  "DEFINITION s =
     (case dedent s of
        None \<Rightarrow> None
      | Some r \<Rightarrow>
          if starts_with ''['' r then
            let l = takeWhile (\<lambda>c. c \<noteq> CHR '']'') (tl r) in
            if l \<noteq> [] \<and> starts_with '']:'' (drop (length l) (tl r)) then Some l else None
          else None)"

definition SETEXT :: "string \<Rightarrow> bool" where
  "SETEXT s =
     (case dedent s of
        None \<Rightarrow> False
      | Some r \<Rightarrow> starts_with ''='' r \<and> list_all space_or_tab (dropWhile (\<lambda>c. c = CHR ''='') r))"

text \<open>A list item: its indent, its number when it has one, and its text.\<close>

definition item_text :: "string \<Rightarrow> string option" where
  "item_text s = (if s \<noteq> [] \<and> space_or_tab (hd s) then Some (dropWhile space_or_tab s) else None)"

definition BULLET :: "string \<Rightarrow> (nat \<times> string) option" where
  "BULLET s =
     (case drop (indentOf s) s of
        [] \<Rightarrow> None
      | c # cs \<Rightarrow>
          if c = CHR ''-'' \<or> c = CHR ''*'' \<or> c = CHR ''+''
          then map_option (\<lambda>t. (indentOf s, t)) (item_text cs) else None)"

definition ORDERED :: "string \<Rightarrow> (nat \<times> nat \<times> string) option" where
  "ORDERED s =
     (let r = drop (indentOf s) s; ds = takeWhile is_digit r; cs = drop (length ds) r in
      if 1 \<le> length ds \<and> length ds \<le> 9 \<and> cs \<noteq> [] \<and> (hd cs = CHR ''.'' \<or> hd cs = CHR '')'')
      then map_option (\<lambda>t. (indentOf s, read_nat ds, t)) (item_text (tl cs)) else None)"

definition list_item_line :: "string \<Rightarrow> (nat \<times> nat option \<times> string) option" where
  "list_item_line s =
     (case BULLET s of
        Some (indent, t) \<Rightarrow> Some (indent, None, t)
      | None \<Rightarrow> (case ORDERED s of Some (indent, n, t) \<Rightarrow> Some (indent, Some n, t) | None \<Rightarrow> None))"

definition PAGE_BREAK :: string where "PAGE_BREAK = ''---pagebreak---''"

section \<open>Tables\<close>

definition strip_pipes :: "string \<Rightarrow> string" where
  "strip_pipes s =
     (let r = (if starts_with ''|'' s then tl s else s)
      in if ends_with ''|'' r \<and> \<not> ends_with [BACKSLASH, CHR ''|''] r then butlast r else r)"

text \<open>The cells of a row; \<open>current\<close> is what was read of the cell so far.\<close>

function split_cells :: "string \<Rightarrow> string \<Rightarrow> string list" where
  "split_cells [] current = [trim current]"
| "split_cells (c # cs) current =
     (if c = BACKSLASH \<and> starts_with ''|'' cs then split_cells (tl cs) (current @ [BACKSLASH, CHR ''|''])
      else if starts_with ''{{'' (c # cs) then
        (case sub_index ''}}'' (tl cs) of
           None \<Rightarrow> [trim (current @ c # cs)]
         | Some n \<Rightarrow> split_cells (drop (n + 2) (tl cs)) (current @ c # take (n + 3) cs))
      else if c = CHR ''|'' then trim current # split_cells cs []
      else split_cells cs (current @ [c]))"
  by pat_completeness auto
termination
  by (relation "measure (\<lambda>(s, _). length s)") auto

definition tableCells :: "string \<Rightarrow> string list" where
  "tableCells s = split_cells (strip_pipes (trim s)) []"

definition hasPipe :: "string \<Rightarrow> bool" where
  "hasPipe s = (1 < length (tableCells s) \<or> starts_with ''|'' (dropWhile is_space s))"

text \<open>\<open>/^(:?)-+(:?)$/\<close>: whether a colon stands before and after the dashes.\<close>

definition delimiter_cell :: "string \<Rightarrow> (bool \<times> bool) option" where
  "delimiter_cell s =
     (let left = starts_with '':'' s; r = (if left then tl s else s); e = dropWhile (\<lambda>c. c = CHR ''-'') r in
      if starts_with ''-'' r \<and> (e = [] \<or> e = '':'') then Some (left, e \<noteq> []) else None)"

definition align_of :: "bool \<times> bool \<Rightarrow> table_align" where
  "align_of lr = (if fst lr \<and> snd lr then Align_center else if snd lr then Align_right else Align_left)"

fun all_some :: "'a option list \<Rightarrow> 'a list option" where
  "all_some [] = Some []"
| "all_some (None # xs) = None"
| "all_some (Some x # xs) = map_option (Cons x) (all_some xs)"

definition delimiterRow :: "string option \<Rightarrow> table_align list option" where
  "delimiterRow line =
     (case line of
        None \<Rightarrow> None
      | Some s \<Rightarrow>
          if CHR ''-'' \<notin> set s \<or> \<not> hasPipe s \<and> delimiter_cell (trim s) = None then None
          else map_option (map align_of) (all_some (map delimiter_cell (tableCells s))))"

section \<open>Open blocks\<close>

datatype frame_kind = F_root | F_each | F_if

text \<open>\<open>Container\<close> for blocks, \<open>RowFrame\<close> for the rows of a table.\<close>

record 'b frame =
  fr_kind :: frame_kind
  fr_line :: nat
  fr_path :: expression
  fr_then :: "'b list"
  fr_otherwise :: "'b list"
  fr_inElse :: bool

definition new_frame :: "frame_kind \<Rightarrow> nat \<Rightarrow> expression \<Rightarrow> 'b frame" where
  "new_frame kind line path =
     \<lparr>fr_kind = kind, fr_line = line, fr_path = path, fr_then = [], fr_otherwise = [], fr_inElse = False\<rparr>"

definition frame_push :: "'b \<Rightarrow> 'b frame \<Rightarrow> 'b frame" where
  "frame_push b f =
     (if fr_inElse f then f\<lparr>fr_otherwise := fr_otherwise f @ [b]\<rparr> else f\<lparr>fr_then := fr_then f @ [b]\<rparr>)"

definition target_push :: "'b \<Rightarrow> 'b frame list \<Rightarrow> 'b frame list" where
  "target_push b stack = (case stack of [] \<Rightarrow> [] | f # fs \<Rightarrow> frame_push b f # fs)"

definition BLOCK_DEPTH :: nat where "BLOCK_DEPTH = 8"

definition block_of_frame :: "block frame \<Rightarrow> block" where
  "block_of_frame f =
     (if fr_kind f = F_each then Each (fr_path f) (fr_then f) (fr_line f)
      else If_block (fr_path f) (fr_then f) (fr_otherwise f) (fr_line f))"

definition row_of_frame :: "row frame \<Rightarrow> row" where
  "row_of_frame f =
     (if fr_kind f = F_each then Row_each (fr_path f) (fr_then f) (fr_line f)
      else Row_if (fr_path f) (fr_then f) (fr_otherwise f) (fr_line f))"

text \<open>\<open>closeContainer\<close> and \<open>closeRowFrame\<close>: the popped frame goes into its parent. The root is never popped.\<close>

fun close_frame :: "('b frame \<Rightarrow> 'b) \<Rightarrow> 'b frame list \<Rightarrow> 'b frame list" where
  "close_frame mk (popped # parent # stack) = frame_push (mk popped) parent # stack"
| "close_frame mk stack = stack"

definition closeContainer :: "block frame list \<Rightarrow> block frame list" where
  "closeContainer stack = close_frame block_of_frame stack"

definition closeRowFrame :: "row frame list \<Rightarrow> row frame list" where
  "closeRowFrame stack = close_frame row_of_frame stack"

definition open_frame :: "frame_kind \<Rightarrow> expression \<Rightarrow> nat \<Rightarrow> 'b frame list \<Rightarrow> issue list \<Rightarrow> 'b frame list parsed" where
  "open_frame kind path line stack issues =
     (new_frame kind line path # stack,
      if BLOCK_DEPTH < length stack then add_issue TEMPLATE_BLOCK 7 [] (Some line) issues else issues)"

definition else_frame :: "nat \<Rightarrow> 'b frame list \<Rightarrow> issue list \<Rightarrow> 'b frame list parsed" where
  "else_frame line stack issues =
     (case stack of
        [] \<Rightarrow> (stack, issues)
      | inner # rest \<Rightarrow>
          if fr_kind inner \<noteq> F_if \<or> fr_inElse inner then (stack, add_issue TEMPLATE_BLOCK 8 [] (Some line) issues)
          else (inner\<lparr>fr_inElse := True\<rparr> # rest, issues))"

definition end_frame ::
    "('b frame list \<Rightarrow> 'b frame list) \<Rightarrow> nat \<Rightarrow> frame_kind \<Rightarrow> nat \<Rightarrow> 'b frame list \<Rightarrow> issue list \<Rightarrow> 'b frame list parsed" where
  "end_frame close wording kind line stack issues =
     (case stack of
        [] \<Rightarrow> (stack, issues)
      | inner # rest \<Rightarrow>
          if fr_kind inner \<noteq> kind then (stack, add_issue TEMPLATE_BLOCK wording [] (Some line) issues)
          else (close stack, issues))"

definition applyDirective :: "directive \<Rightarrow> nat \<Rightarrow> block frame list \<Rightarrow> issue list \<Rightarrow> block frame list parsed" where
  "applyDirective d line stack issues =
     (case d of
        D_each path \<Rightarrow> open_frame F_each path line stack issues
      | D_if path \<Rightarrow> open_frame F_if path line stack issues
      | D_else \<Rightarrow> else_frame line stack issues
      | D_end_each \<Rightarrow> end_frame closeContainer 9 F_each line stack issues
      | D_end_if \<Rightarrow> end_frame closeContainer 10 F_if line stack issues)"

definition applyRowDirective :: "directive \<Rightarrow> nat \<Rightarrow> row frame list \<Rightarrow> issue list \<Rightarrow> row frame list parsed" where
  "applyRowDirective d line stack issues =
     (case d of
        D_each path \<Rightarrow> open_frame F_each path line stack issues
      | D_if path \<Rightarrow> open_frame F_if path line stack issues
      | D_else \<Rightarrow> else_frame line stack issues
      | D_end_each \<Rightarrow> end_frame closeRowFrame 11 F_each line stack issues
      | D_end_if \<Rightarrow> end_frame closeRowFrame 12 F_if line stack issues)"

text \<open>The frames still open at the end, the outermost first, and closing them all.\<close>

definition unclosed :: "nat \<Rightarrow> 'b frame list \<Rightarrow> issue list \<Rightarrow> issue list" where
  "unclosed wording stack issues =
     foldl (\<lambda>acc f. add_issue TEMPLATE_BLOCK (if fr_kind f = F_each then wording else wording + 1) []
              (Some (fr_line f)) acc) issues (tl (rev stack))"

fun close_all :: "('b frame \<Rightarrow> 'b) \<Rightarrow> 'b frame list \<Rightarrow> 'b frame list" where
  "close_all mk [] = []"
| "close_all mk [base] = [base]"
| "close_all mk (popped # parent # stack) = close_all mk (frame_push (mk popped) parent # stack)"

section \<open>The rows of a table\<close>

text \<open>One cell per column: an absent cell is empty, a cell too many is reported and dropped.\<close>

definition row_segments :: "nat \<Rightarrow> string list \<Rightarrow> nat \<Rightarrow> segment list list" where
  "row_segments columns cells line =
     map (\<lambda>k. [segment (if k < length cells then cells ! k else []) line]) [0..<columns]"

definition table_row :: "nat \<Rightarrow> string \<Rightarrow> nat \<Rightarrow> row frame list \<Rightarrow> issue list \<Rightarrow> row frame list parsed" where
  "table_row columns text line stack issues =
     (let cells = tableCells text;
          issues1 = (if columns < length cells
                     then add_issue TEMPLATE_TABLE 1 [show_nat (length cells), show_nat columns] (Some line) issues
                     else issues);
          (contents, issues2) = parse_contents (row_segments columns cells line) issues1
      in (target_push (Row contents line) stack, issues2))"

text \<open>The lines the table takes, with their number; the last component counts them.\<close>

fun table_rows ::
    "nat \<Rightarrow> string list \<Rightarrow> nat \<Rightarrow> row frame list \<Rightarrow> issue list \<Rightarrow> nat \<Rightarrow> row frame list \<times> issue list \<times> nat" where
  "table_rows columns [] line stack issues taken = (stack, issues, taken)"
| "table_rows columns (text # rest) line stack issues taken =
     (if trim text = [] then (stack, issues, taken)
      else
        (case lineDirective text line issues of
           (Some None, issues1) \<Rightarrow> table_rows columns rest (line + 1) stack issues1 (taken + 1)
         | (Some (Some d), issues1) \<Rightarrow>
             let (stack1, issues2) = applyRowDirective d line stack issues1 in
             table_rows columns rest (line + 1) stack1 issues2 (taken + 1)
         | (None, issues1) \<Rightarrow>
             if \<not> hasPipe text then (stack, issues1, taken)
             else
               let (stack1, issues2) = table_row columns text line stack issues1 in
               table_rows columns rest (line + 1) stack1 issues2 (taken + 1)))"

definition root_frame :: "nat \<Rightarrow> 'b frame" where
  "root_frame line = new_frame F_root line (Path True [])"

text \<open>The block of a table whose header is on line \<open>line\<close>, given the lines after its delimiter row.\<close>

definition parseTable :: "string \<Rightarrow> string list \<Rightarrow> nat \<Rightarrow> table_align list \<Rightarrow> issue list \<Rightarrow> block \<times> issue list \<times> nat" where
  "parseTable text rest line aligns issues =
     (let headerCells = tableCells text; columns = length aligns;
          issues1 = (if length headerCells \<noteq> columns
                     then add_issue TEMPLATE_TABLE 2 [show_nat (length headerCells), show_nat columns] (Some line) issues
                     else issues);
          (header, issues2) = parse_contents (row_segments columns headerCells line) issues1;
          (stack, issues3, taken) = table_rows columns rest (line + 2) [root_frame line] issues2 0
      in (Table aligns header (fr_then (hd (close_all row_of_frame stack))) line, unclosed 13 stack issues3, taken))"

section \<open>Comments\<close>

text \<open>
  How many of the lines a comment takes: those up to the first that closes it (the first line is searched
  after its \<open><!--\<close>), and what follows the closing. \<open>None\<close> when it is never closed.
\<close>

definition after_close :: "string \<Rightarrow> string option" where
  "after_close s = (case sub_index ''-->'' s of None \<Rightarrow> None | Some n \<Rightarrow> Some (drop (n + 3) s))"

fun comment_end :: "string list \<Rightarrow> (nat \<times> string) option" where
  "comment_end [] = None"
| "comment_end (l # ls) =
     (case after_close l of
        Some rest \<Rightarrow> Some (1, rest)
      | None \<Rightarrow> map_option (\<lambda>(n, rest). (n + 1, rest)) (comment_end ls))"

definition comment_opening :: "string \<Rightarrow> string" where
  "comment_opening l = (case sub_index ''<!--'' l of None \<Rightarrow> l | Some n \<Rightarrow> drop (n + 4) l)"

function stripComments :: "string list \<Rightarrow> nat \<Rightarrow> issue list \<Rightarrow> string list parsed" where
  "stripComments [] line issues = ([], issues)"
| "stripComments (l # ls) line issues =
     (if \<not> starts_with ''<!--'' (trim l) then
        let (kept, issues1) = stripComments ls (line + 1) issues in (l # kept, issues1)
      else
        (case comment_end (comment_opening l # ls) of
           None \<Rightarrow>
             (replicate (length (l # ls)) [], add_issue TEMPLATE_HTML 2 [] (Some line) issues)
         | Some (n, rest) \<Rightarrow>
             let issues1 = (if trim rest \<noteq> [] then add_issue TEMPLATE_HTML 3 [] (Some (line + n - 1)) issues else issues);
                 (kept, issues2) = stripComments (drop (n - 1) ls) (line + n) issues1
             in (replicate n [] @ kept, issues2)))"
  by pat_completeness auto
termination
  by (relation "measure (\<lambda>(ls, _). length ls)") auto

section \<open>The parser\<close>

record sublist =
  su_ordered :: bool
  su_start :: nat
  su_indent :: nat
  su_items :: "segment list list"

record open_item =
  oi_lines :: "segment list"
  oi_sublist :: "sublist option"

record open_list =
  ol_ordered :: bool
  ol_start :: nat
  ol_indent :: nat
  ol_line :: nat
  ol_items :: "open_item list"

record open_quote =
  oq_lines :: "(string \<times> nat) list"
  oq_line :: nat

record parser =
  pr_stack :: "block frame list"
  pr_paragraph :: "segment list"
  pr_list :: "open_list option"
  pr_quote :: "open_quote option"
  pr_issues :: "issue list"

definition push_block :: "block \<Rightarrow> parser \<Rightarrow> parser" where
  "push_block b p = p\<lparr>pr_stack := target_push b (pr_stack p)\<rparr>"

definition refuse :: "issue_code \<Rightarrow> nat \<Rightarrow> nat \<Rightarrow> parser \<Rightarrow> parser" where
  "refuse c wording line p = p\<lparr>pr_issues := add_issue c wording [] (Some line) (pr_issues p)\<rparr>"

fun segment_line :: "segment \<Rightarrow> nat" where
  "segment_line (Seg s line hard) = line"

definition flushParagraph :: "parser \<Rightarrow> parser" where
  "flushParagraph p =
     (if pr_paragraph p = [] then p
      else
        let (nodes, issues) = parseInline (pr_paragraph p) (pr_issues p) in
        push_block (Paragraph nodes (segment_line (hd (pr_paragraph p)))) (p\<lparr>pr_paragraph := [], pr_issues := issues\<rparr>))"

definition parse_sublist :: "sublist option \<Rightarrow> issue list \<Rightarrow> template_list option parsed" where
  "parse_sublist sub issues =
     (case sub of
        None \<Rightarrow> (None, issues)
      | Some s \<Rightarrow>
          let (contents, issues1) = parse_contents (su_items s) issues in
          (Some (TList (su_ordered s) (su_start s) (map (\<lambda>c. TItem c None) contents)), issues1))"

fun parse_items :: "open_item list \<Rightarrow> issue list \<Rightarrow> list_item list parsed" where
  "parse_items [] issues = ([], issues)"
| "parse_items (item # items) issues =
     (let (content, issues1) = parseInline (oi_lines item) issues;
          (sub, issues2) = parse_sublist (oi_sublist item) issues1;
          (others, issues3) = parse_items items issues2
      in (TItem content sub # others, issues3))"

definition flushList :: "parser \<Rightarrow> parser" where
  "flushList p =
     (case pr_list p of
        None \<Rightarrow> p
      | Some l \<Rightarrow>
          let (items, issues) = parse_items (ol_items l) (pr_issues p) in
          push_block (BList (TList (ol_ordered l) (ol_start l) items) (ol_line l))
            (p\<lparr>pr_list := None, pr_issues := issues\<rparr>))"

text \<open>The paragraphs of a quote, the last one ended by a blank line the code adds.\<close>

fun quote_paragraphs :: "(string \<times> nat) list \<Rightarrow> segment list \<Rightarrow> segment list list" where
  "quote_paragraphs [] current = (if current = [] then [] else [current])"
| "quote_paragraphs ((s, line) # entries) current =
     (if trim s = [] then (if current = [] then [] else [current]) @ quote_paragraphs entries []
      else quote_paragraphs entries (current @ [segment s line]))"

definition flushQuote :: "parser \<Rightarrow> parser" where
  "flushQuote p =
     (case pr_quote p of
        None \<Rightarrow> p
      | Some q \<Rightarrow>
          let (paragraphs, issues) = parse_contents (quote_paragraphs (oq_lines q) []) (pr_issues p) in
          push_block (Quote paragraphs (oq_line q)) (p\<lparr>pr_quote := None, pr_issues := issues\<rparr>))"

definition flushAll :: "parser \<Rightarrow> parser" where
  "flushAll p = flushQuote (flushList (flushParagraph p))"

definition heading_line :: "nat \<Rightarrow> string \<Rightarrow> nat \<Rightarrow> parser \<Rightarrow> parser" where
  "heading_line level content line p =
     (let p1 = flushAll p in
      if 3 < level then refuse TEMPLATE_HEADING_LEVEL 1 line p1
      else
        let (nodes, issues) = parseInline [segment content line] (pr_issues p1) in
        push_block (Heading level nodes line) (p1\<lparr>pr_issues := issues\<rparr>))"

definition quote_line :: "string \<Rightarrow> nat \<Rightarrow> parser \<Rightarrow> parser" where
  "quote_line s line p =
     (let p1 = flushList (flushParagraph p);
          p2 = (if starts_with ''>'' (dropWhile is_space s) then refuse TEMPLATE_SYNTAX 1 line p1 else p1);
          q = (case pr_quote p2 of None \<Rightarrow> \<lparr>oq_lines = [], oq_line = line\<rparr> | Some q \<Rightarrow> q)
      in p2\<lparr>pr_quote := Some (q\<lparr>oq_lines := oq_lines q @ [(s, line)]\<rparr>)\<rparr>)"

definition update_last :: "('a \<Rightarrow> 'a) \<Rightarrow> 'a list \<Rightarrow> 'a list" where
  "update_last f xs = (if xs = [] then [] else butlast xs @ [f (last xs)])"

definition add_subitem :: "bool \<Rightarrow> nat \<Rightarrow> nat \<Rightarrow> segment \<Rightarrow> open_item \<Rightarrow> open_item" where
  "add_subitem ordered start indent entry parent =
     (let s = (case oi_sublist parent of
                 None \<Rightarrow> \<lparr>su_ordered = ordered, su_start = start, su_indent = indent, su_items = []\<rparr>
               | Some s \<Rightarrow> s)
      in parent\<lparr>oi_sublist := Some (s\<lparr>su_items := su_items s @ [[entry]]\<rparr>)\<rparr>)"

definition too_deep :: "nat \<Rightarrow> open_list \<Rightarrow> bool" where
  "too_deep indent l =
     (case oi_sublist (last (ol_items l)) of None \<Rightarrow> False | Some s \<Rightarrow> su_indent s + 2 \<le> indent)"

definition new_item :: "bool \<Rightarrow> nat \<Rightarrow> nat \<Rightarrow> nat \<Rightarrow> segment \<Rightarrow> parser \<Rightarrow> parser" where
  "new_item ordered start indent line entry p =
     (let p1 = (case pr_list p of
                  None \<Rightarrow> p
                | Some l \<Rightarrow> if ol_ordered l \<noteq> ordered then flushList p else p);
          l = (case pr_list p1 of
                 None \<Rightarrow> \<lparr>ol_ordered = ordered, ol_start = start, ol_indent = indent, ol_line = line, ol_items = []\<rparr>
               | Some l \<Rightarrow> l)
      in p1\<lparr>pr_list := Some (l\<lparr>ol_items := ol_items l @ [\<lparr>oi_lines = [entry], oi_sublist = None\<rparr>]\<rparr>)\<rparr>)"

definition item_line :: "nat \<Rightarrow> nat option \<Rightarrow> string \<Rightarrow> nat \<Rightarrow> parser \<Rightarrow> parser" where
  "item_line indent number text line p =
     (let p1 = flushParagraph p; ordered = (number \<noteq> None); start = (case number of None \<Rightarrow> 1 | Some n \<Rightarrow> n);
          entry = segment text line
      in case pr_list p1 of
           None \<Rightarrow>
             if 4 \<le> indent then refuse TEMPLATE_CODE_BLOCK 1 line p1
             else new_item ordered start indent line entry p1
         | Some l \<Rightarrow>
             if ol_indent l + 2 \<le> indent then
               (if too_deep indent l then refuse TEMPLATE_LIST_DEPTH 1 line p1
                else p1\<lparr>pr_list := Some (l\<lparr>ol_items := update_last (add_subitem ordered start indent entry) (ol_items l)\<rparr>)\<rparr>)
             else new_item ordered start indent line entry p1)"

text \<open>A line that continues the last item, or the last item of its sublist when it is indented that far.\<close>

definition continue_item :: "nat \<Rightarrow> segment \<Rightarrow> open_item \<Rightarrow> open_item" where
  "continue_item indent s item =
     (case oi_sublist item of
        Some sub \<Rightarrow>
          if su_indent sub + 2 \<le> indent
          then item\<lparr>oi_sublist := Some (sub\<lparr>su_items := update_last (\<lambda>ls. ls @ [s]) (su_items sub)\<rparr>)\<rparr>
          else item\<lparr>oi_lines := oi_lines item @ [s]\<rparr>
      | None \<Rightarrow> item\<lparr>oi_lines := oi_lines item @ [s]\<rparr>)"

definition text_line :: "string \<Rightarrow> nat \<Rightarrow> parser \<Rightarrow> parser" where
  "text_line text line p =
     (case pr_list p of
        None \<Rightarrow>
          if 4 \<le> indentOf text \<and> pr_paragraph p = [] then refuse TEMPLATE_CODE_BLOCK 1 line p
          else p\<lparr>pr_paragraph := pr_paragraph p @ [segment text line]\<rparr>
      | Some l \<Rightarrow>
          p\<lparr>pr_list := Some (l\<lparr>ol_items := update_last (continue_item (indentOf text) (segment text line)) (ol_items l)\<rparr>)\<rparr>)"

definition directive_line :: "directive option \<Rightarrow> nat \<Rightarrow> parser \<Rightarrow> parser" where
  "directive_line d line p =
     (let p1 = flushAll p in
      case d of
        None \<Rightarrow> p1
      | Some d \<Rightarrow>
          let (stack, issues) = applyDirective d line (pr_stack p1) (pr_issues p1) in
          p1\<lparr>pr_stack := stack, pr_issues := issues\<rparr>)"

definition table_lines :: "string \<Rightarrow> string list \<Rightarrow> nat \<Rightarrow> table_align list \<Rightarrow> parser \<Rightarrow> parser \<times> nat" where
  "table_lines text rest line aligns p =
     (let p1 = flushAll p; (b, issues, taken) = parseTable text rest line aligns (pr_issues p1) in
      (push_block b (p1\<lparr>pr_issues := issues\<rparr>), taken))"

definition definition_line :: "string \<Rightarrow> nat \<Rightarrow> parser \<Rightarrow> parser" where
  "definition_line label line p =
     (if starts_with ''^'' label then refuse TEMPLATE_FOOTNOTE 2 line (flushAll p)
      else refuse TEMPLATE_SYNTAX 2 line (flushAll p))"

text \<open>How many of the following lines a code block takes: up to and with the one that closes it.\<close>

fun fence_lines :: "string \<Rightarrow> string list \<Rightarrow> nat" where
  "fence_lines fence [] = 0"
| "fence_lines fence (l # ls) = (if starts_with fence (trim l) then 1 else fence_lines fence ls + 1)"

text \<open>One turn of the loop for a line that is not blank and no block tag, and the further lines it takes.\<close>

definition content_line :: "string \<Rightarrow> string list \<Rightarrow> nat \<Rightarrow> parser \<Rightarrow> parser \<times> nat" where
  "content_line text rest line p =
     (if trim text = PAGE_BREAK then (push_block (Pagebreak line) (flushAll p), 0)
      else case FENCE text of
        Some fence \<Rightarrow> (refuse TEMPLATE_CODE_BLOCK 2 line (flushAll p), fence_lines fence rest)
      | None \<Rightarrow>
      if html_line text then (refuse TEMPLATE_HTML 1 line (flushAll p), 0)
      else case DEFINITION text of
        Some label \<Rightarrow> (definition_line label line p, 0)
      | None \<Rightarrow>
      case headingOf text of
        Some (level, content) \<Rightarrow> (heading_line level content line p, 0)
      | None \<Rightarrow>
      if isRule text then (push_block (Rule line) (flushAll p), 0)
      else if SETEXT text \<and> pr_paragraph p \<noteq> [] then (refuse TEMPLATE_SYNTAX 3 line p, 0)
      else case QUOTE text of
        Some s \<Rightarrow> (quote_line s line p, 0)
      | None \<Rightarrow>
      case (if hasPipe text then delimiterRow (case rest of [] \<Rightarrow> None | l # _ \<Rightarrow> Some l) else None) of
        Some aligns \<Rightarrow> (let (p1, taken) = table_lines text (tl rest) line aligns p in (p1, taken + 1))
      | None \<Rightarrow>
      case list_item_line text of
        Some (indent, number, s) \<Rightarrow> (item_line indent number s line p, 0)
      | None \<Rightarrow> (text_line text line p, 0))"

definition parse_line :: "string \<Rightarrow> string list \<Rightarrow> nat \<Rightarrow> parser \<Rightarrow> parser \<times> nat" where
  "parse_line text rest line p =
     (let p1 = (if pr_quote p \<noteq> None \<and> QUOTE text = None then flushQuote p else p) in
      if trim text = [] then (flushAll p1, 0)
      else
        let (d, issues) = lineDirective text line (pr_issues p1); p2 = p1\<lparr>pr_issues := issues\<rparr> in
        case d of
          Some directive \<Rightarrow> (directive_line directive line p2, 0)
        | None \<Rightarrow> content_line text rest line p2)"

function parse_lines :: "string list \<Rightarrow> nat \<Rightarrow> parser \<Rightarrow> parser" where
  "parse_lines [] line p = p"
| "parse_lines (text # rest) line p =
     (let (p1, taken) = parse_line text rest line p in parse_lines (drop taken rest) (line + 1 + taken) p1)"
  by pat_completeness auto
termination
  by (relation "measure (\<lambda>(ls, _). length ls)") auto

definition new_parser :: "issue list \<Rightarrow> parser" where
  "new_parser issues =
     \<lparr>pr_stack = [root_frame 0], pr_paragraph = [], pr_list = None, pr_quote = None, pr_issues = issues\<rparr>"

definition BODY_CHARACTERS :: nat where "BODY_CHARACTERS = 65536"
definition LINE_CHARACTERS :: nat where "LINE_CHARACTERS = 200"

definition parseTemplate :: "string \<Rightarrow> block list parsed" where
  "parseTemplate body =
     (if BODY_CHARACTERS < length body then ([], add_issue TEMPLATE_TOO_LARGE 1 [] None [])
      else
        let (lines, issues) = stripComments (split_lines body) 1 [];
            p = flushAll (parse_lines (map expandTabs lines) 1 (new_parser issues))
        in (fr_then (hd (close_all block_of_frame (pr_stack p))), unclosed 15 (pr_stack p) (pr_issues p)))"

section \<open>One-line fields\<close>

datatype line_field = F_title | F_header | F_footer

definition parseTemplateLine :: "string \<Rightarrow> line_field \<Rightarrow> code_child list parsed" where
  "parseTemplateLine text field =
     (if LINE_CHARACTERS < length text \<or> CHR 13 \<in> set text \<or> CHR 10 \<in> set text
      then ([], add_issue TEMPLATE_LAYOUT 1 [] None [])
      else
        let (atoms, issues) = atomsOf text 1 (field \<noteq> F_title) [] in
        (codeChildren atoms 0 (length atoms), map (\<lambda>i. i\<lparr>is_line := None\<rparr>) issues))"

end
