(* ===== verification/Template_Eval.thy ===== *)
theory Template_Eval
  imports Template_Check Calendar
begin

text \<open>
  Rendering a parsed template for an input, from \<open>modules/documents/src/domain/template-evaluate.ts\<close>. The
  class \<open>Evaluation\<close> is a record of its two counters passed along; \<open>into\<close> arrays are accumulators; a
  thrown error is \<open>Inl\<close>. What \<open>Intl\<close>, \<open>String\<close> and \<open>Date.parse\<close> answer are the fields of \<open>host\<close>; that
  \<open>Intl.DateTimeFormat\<close> throws a \<open>RangeError\<close> for a time beyond the range of \<open>Date\<close> is written out.
\<close>

section \<open>Rendered documents\<close>

datatype doc_locale = En | Pl

record style =
  st_bold :: bool
  st_italic :: bool
  st_code :: bool

datatype run = Run (run_text: string) (run_style: style)

datatype rendered_list = RList bool nat "rendered_item list"
and rendered_item = RItem "run list" "rendered_list option"

datatype rendered_block =
  RHeading nat "run list"
| RParagraph "run list"
| RBlock_list rendered_list
| RQuote "run list list"
| RRule
| RPagebreak
| RTable "table_align list" "run list list" "run list list list"

datatype margin_part = Margin_text string | Margin_page | Margin_pages

record rendered_template =
  rt_locale :: doc_locale
  rt_title :: string
  rt_header :: "margin_part list option"
  rt_footer :: "margin_part list option"
  rt_blocks :: "rendered_block list"
  rt_repeatedRows :: nat

datatype value_fault =
  Not_minor_units | Not_currency | Not_number | Not_date | Not_text | Not_boolean | Not_printable | Not_list

datatype render_error =
  TEMPLATE_VALUE_INVALID value_fault
| TEMPLATE_ROWS_EXCEEDED
| TEMPLATE_OUTPUT_TOO_LARGE
| RANGE_ERROR

section \<open>The host\<close>

record host =
  h_string :: "js_number \<Rightarrow> string"
  h_currency :: "string \<Rightarrow> bool"
  h_currency_digits :: "doc_locale \<Rightarrow> string \<Rightarrow> nat option"
  h_money :: "doc_locale \<Rightarrow> string \<Rightarrow> rat \<Rightarrow> string"
  h_number :: "doc_locale \<Rightarrow> nat option \<Rightarrow> rat \<Rightarrow> string"
  h_date :: "doc_locale \<Rightarrow> bool \<Rightarrow> string \<Rightarrow> rat \<Rightarrow> string"
  h_upper :: "doc_locale \<Rightarrow> string \<Rightarrow> string"
  h_date_parse :: "string \<Rightarrow> rat option"

record evaluate_options =
  eo_locale :: doc_locale
  eo_timeZone :: string

record evaluation =
  ev_rows :: nat
  ev_characters :: nat

record scope =
  sc_value :: tvalue
  sc_index :: "nat option"

definition REPEATED_ROWS :: nat where "REPEATED_ROWS = 2000"
definition PRINTED_CHARACTERS :: nat where "PRINTED_CHARACTERS = 1000000"

text \<open>The largest time a \<open>Date\<close> holds, in milliseconds.\<close>

definition MAX_TIME :: rat where "MAX_TIME = 8640000000000000"

section \<open>Reading values\<close>

definition is_control :: "char \<Rightarrow> bool" where
  "is_control c = (code c \<le> 8 \<or> 11 \<le> code c \<and> code c \<le> 31 \<or> code c = 127)"

fun walk_value :: "tvalue \<Rightarrow> string list \<Rightarrow> tvalue option" where
  "walk_value v [] = Some v"
| "walk_value (VObj kvs) (name # names) = (case own kvs name of None \<Rightarrow> None | Some v \<Rightarrow> walk_value v names)"
| "walk_value _ (name # names) = None"

fun holds :: "tvalue \<Rightarrow> string \<Rightarrow> bool" where
  "holds (VObj kvs) name = (own kvs name \<noteq> None)"
| "holds _ name = False"

fun search_value :: "scope list \<Rightarrow> string list \<Rightarrow> tvalue option" where
  "search_value [] segments = None"
| "search_value (s # scopes) segments =
     (case segments of
        [] \<Rightarrow> None
      | name # _ \<Rightarrow>
          if holds (sc_value s) name then walk_value (sc_value s) segments else search_value scopes segments)"

definition number_value :: "nat \<Rightarrow> tvalue" where
  "number_value n = VNum (Finite (rat_of_nat n))"

definition resolve :: "expression \<Rightarrow> scope list \<Rightarrow> tvalue option" where
  "resolve e scopes =
     (case e of
        Index \<Rightarrow> Some (case sc_index (hd scopes) of None \<Rightarrow> VNull | Some i \<Rightarrow> number_value i)
      | Number \<Rightarrow> Some (case sc_index (hd scopes) of None \<Rightarrow> VNull | Some i \<Rightarrow> number_value (i + 1))
      | Path this segments \<Rightarrow>
          if this then walk_value (sc_value (hd scopes)) segments else search_value scopes segments
      | _ \<Rightarrow> Some VNull)"

text \<open>\<open>value === null || value === undefined\<close>.\<close>

definition absent :: "tvalue option \<Rightarrow> bool" where
  "absent v = (v = None \<or> v = Some VNull)"

definition truthy :: "tvalue option \<Rightarrow> bool" where
  "truthy v =
     (case v of
        None \<Rightarrow> False
      | Some VNull \<Rightarrow> False
      | Some (VBool b) \<Rightarrow> b
      | Some (VNum n) \<Rightarrow> n \<noteq> Finite 0 \<and> n \<noteq> NaN
      | Some (VStr s) \<Rightarrow> s \<noteq> []
      | Some (VArr vs) \<Rightarrow> vs \<noteq> []
      | Some (VObj kvs) \<Rightarrow> True)"

section \<open>Dates\<close>

text \<open>A text of the given shape, in which \<open>d\<close> stands for a digit.\<close>

fun has_shape :: "string \<Rightarrow> string \<Rightarrow> bool" where
  "has_shape [] s = (s = [])"
| "has_shape (p # ps) [] = False"
| "has_shape (p # ps) (c # cs) = ((if p = CHR ''d'' then is_digit c else c = p) \<and> has_shape ps cs)"

definition date_shape :: "string \<Rightarrow> bool" where
  "date_shape s = has_shape ''dddd-dd-dd'' s"

definition zone_shape :: "string \<Rightarrow> bool" where
  "zone_shape s = (s = ''Z'' \<or> has_shape ''+dd:dd'' s \<or> has_shape ''-dd:dd'' s)"

definition fraction_zone :: "string \<Rightarrow> bool" where
  "fraction_zone s =
     (let ds = takeWhile is_digit s in 1 \<le> length ds \<and> length ds \<le> 9 \<and> zone_shape (drop (length ds) s))"

definition datetime_shape :: "string \<Rightarrow> bool" where
  "datetime_shape s =
     (has_shape ''dddd-dd-ddTdd:dd'' (take 16 s) \<and>
      (let r = drop 16 s in
       zone_shape r \<or>
       has_shape '':dd'' (take 3 r) \<and>
         (zone_shape (drop 3 r) \<or>
          (case drop 3 r of [] \<Rightarrow> False | c # cs \<Rightarrow> c = CHR ''.'' \<and> fraction_zone cs))))"

text \<open>A moment, and whether it is a whole day. The date that \<open>Date.UTC\<close> gives back has the month and the day
  it was given exactly for a day of the calendar.\<close>

definition day_instant :: "string \<Rightarrow> (rat \<times> bool) option" where
  "day_instant s =
     (let y = int (read_nat (take 4 s)); m = int (read_nat (take 2 (drop 5 s))); d = int (read_nat (drop 8 s))
      in if 1 \<le> m \<and> m \<le> 12 \<and> 1 \<le> d \<and> d \<le> daysInMonth y m
         then Some (of_int (date_UTC y (m - 1) d 0 0 0), True) else None)"

definition instant :: "host \<Rightarrow> tvalue \<Rightarrow> (rat \<times> bool) option" where
  "instant h v =
     (case v of
        VNum (Finite q) \<Rightarrow> Some (q, False)
      | VStr s \<Rightarrow>
          if date_shape s then day_instant s
          else if datetime_shape s then map_option (\<lambda>t. (t, False)) (h_date_parse h s)
          else None
      | _ \<Rightarrow> None)"

section \<open>Printing\<close>

definition repeat :: "nat \<Rightarrow> evaluation \<Rightarrow> render_error + evaluation" where
  "repeat n ev =
     (let ev' = ev\<lparr>ev_rows := ev_rows ev + n\<rparr>
      in if REPEATED_ROWS < ev_rows ev' then Inl TEMPLATE_ROWS_EXCEEDED else Inr ev')"

definition printed :: "string \<Rightarrow> evaluation \<Rightarrow> render_error + (string \<times> evaluation)" where
  "printed text ev =
     (let clean = filter (\<lambda>c. \<not> is_control c) text;
          ev' = ev\<lparr>ev_characters := ev_characters ev + length clean\<rparr>
      in if PRINTED_CHARACTERS < ev_characters ev' then Inl TEMPLATE_OUTPUT_TOO_LARGE else Inr (clean, ev'))"

definition invalid :: "value_fault \<Rightarrow> render_error + 'a" where
  "invalid fault = Inl (TEMPLATE_VALUE_INVALID fault)"

definition plainText :: "host \<Rightarrow> tvalue option \<Rightarrow> render_error + string" where
  "plainText h v =
     (case v of
        None \<Rightarrow> Inr []
      | Some VNull \<Rightarrow> Inr []
      | Some (VStr s) \<Rightarrow> Inr s
      | Some (VNum n) \<Rightarrow> Inr (h_string h n)
      | Some (VBool b) \<Rightarrow> Inr (if b then ''true'' else ''false'')
      | Some _ \<Rightarrow> invalid Not_printable)"

definition argument :: "targument \<Rightarrow> scope list \<Rightarrow> tvalue option" where
  "argument a scopes = (case a of Literal s \<Rightarrow> Some (VStr s) | Value e \<Rightarrow> resolve e scopes)"

definition currency_of :: "host \<Rightarrow> tvalue option \<Rightarrow> string option" where
  "currency_of h v =
     (case v of
        Some (VStr s) \<Rightarrow> if length s = 3 \<and> list_all is_upper s \<and> h_currency h s then Some s else None
      | _ \<Rightarrow> None)"

fun YES_NO :: "doc_locale \<Rightarrow> bool \<Rightarrow> string" where
  "YES_NO En b = (if b then ''Yes'' else ''No'')"
| "YES_NO Pl b = (if b then ''Tak'' else ''Nie'')"

definition format_money :: "host \<Rightarrow> doc_locale \<Rightarrow> targument \<Rightarrow> tvalue \<Rightarrow> scope list \<Rightarrow> render_error + string" where
  "format_money h loc currency v scopes =
     (case v of
        VNum (Finite q) \<Rightarrow>
          if \<not> isSafeInteger (Finite q) then invalid Not_minor_units
          else
            (case currency_of h (argument currency scopes) of
               None \<Rightarrow> invalid Not_currency
             | Some c \<Rightarrow>
                 let digits = (case h_currency_digits h loc c of None \<Rightarrow> 2 | Some d \<Rightarrow> d)
                 in Inr (h_money h loc c (q / 10 ^ digits)))
      | _ \<Rightarrow> invalid Not_minor_units)"

definition format_number :: "host \<Rightarrow> doc_locale \<Rightarrow> nat option \<Rightarrow> tvalue \<Rightarrow> render_error + string" where
  "format_number h loc digits v =
     (case v of VNum (Finite q) \<Rightarrow> Inr (h_number h loc digits q) | _ \<Rightarrow> invalid Not_number)"

definition format_date :: "host \<Rightarrow> evaluate_options \<Rightarrow> bool \<Rightarrow> tvalue \<Rightarrow> render_error + string" where
  "format_date h opts time v =
     (case instant h v of
        None \<Rightarrow> invalid Not_date
      | Some (t, day) \<Rightarrow>
          if MAX_TIME < \<bar>t\<bar> then Inl RANGE_ERROR
          else Inr (h_date h (eo_locale opts) time (if day then ''UTC'' else eo_timeZone opts) t))"

definition applyFormatter ::
    "host \<Rightarrow> evaluate_options \<Rightarrow> formatter \<Rightarrow> tvalue option \<Rightarrow> scope list \<Rightarrow> render_error + string" where
  "applyFormatter h opts f value scopes =
     (case value of
        None \<Rightarrow> Inr []
      | Some v \<Rightarrow>
          if v = VNull then Inr []
          else
            (case f of
               Money currency \<Rightarrow> format_money h (eo_locale opts) currency v scopes
             | Digits digits \<Rightarrow> format_number h (eo_locale opts) digits v
             | Date \<Rightarrow> format_date h opts False v
             | Datetime \<Rightarrow> format_date h opts True v
             | Upper \<Rightarrow> (case v of VStr s \<Rightarrow> Inr (h_upper h (eo_locale opts) s) | _ \<Rightarrow> invalid Not_text)
             | Yesno \<Rightarrow> (case v of VBool b \<Rightarrow> Inr (YES_NO (eo_locale opts) b) | _ \<Rightarrow> invalid Not_boolean)))"

definition placeholder_text :: "host \<Rightarrow> evaluate_options \<Rightarrow> placeholder \<Rightarrow> scope list \<Rightarrow> render_error + string" where
  "placeholder_text h opts node scopes =
     (let value = resolve (ph_value node) scopes in
      case ph_formatter node of
        None \<Rightarrow> plainText h value
      | Some f \<Rightarrow> applyFormatter h opts f value scopes)"

definition format ::
    "host \<Rightarrow> evaluate_options \<Rightarrow> placeholder \<Rightarrow> scope list \<Rightarrow> evaluation \<Rightarrow> render_error + (string \<times> evaluation)" where
  "format h opts node scopes ev = and_then (placeholder_text h opts node scopes) (\<lambda>text. printed text ev)"

section \<open>Runs\<close>

definition plain_style :: style where
  "plain_style = \<lparr>st_bold = False, st_italic = False, st_code = False\<rparr>"

text \<open>An empty run is dropped, a run of the style of the last one joins it.\<close>

definition append_run :: "run list \<Rightarrow> run \<Rightarrow> run list" where
  "append_run rs r =
     (if run_text r = [] then rs
      else if rs \<noteq> [] \<and> run_style (last rs) = run_style r
      then butlast rs @ [Run (run_text (last rs) @ run_text r) (run_style r)]
      else rs @ [r])"

type_synonym ('a) rendering = "render_error + ('a \<times> evaluation)"

fun run_code ::
    "host \<Rightarrow> evaluate_options \<Rightarrow> scope list \<Rightarrow> style \<Rightarrow> code_child list \<Rightarrow> run list \<Rightarrow> evaluation \<Rightarrow> run list rendering" where
  "run_code h opts scopes st [] rs ev = Inr (rs, ev)"
| "run_code h opts scopes st (CText s # nodes) rs ev =
     and_then (printed s ev) (\<lambda>p. run_code h opts scopes st nodes (append_run rs (Run (fst p) st)) (snd p))"
| "run_code h opts scopes st (CPlace ph # nodes) rs ev =
     and_then (format h opts ph scopes ev) (\<lambda>p. run_code h opts scopes st nodes (append_run rs (Run (fst p) st)) (snd p))"

definition runs_text :: "run list \<Rightarrow> string" where
  "runs_text rs = concat (map run_text rs)"

text \<open>The target of a link follows its label when it is not the label.\<close>

definition append_link :: "style \<Rightarrow> run list \<Rightarrow> run list \<Rightarrow> string \<Rightarrow> run list" where
  "append_link st rs label url =
     (let rs' = foldl append_run rs label
      in if runs_text label \<noteq> url then append_run rs' (Run ('' ('' @ url @ '')'') st) else rs')"

fun runs ::
    "host \<Rightarrow> evaluate_options \<Rightarrow> scope list \<Rightarrow> style \<Rightarrow> inline list \<Rightarrow> run list \<Rightarrow> evaluation \<Rightarrow> run list rendering" where
  "runs h opts scopes st [] rs ev = Inr (rs, ev)"
| "runs h opts scopes st (Text s # nodes) rs ev =
     and_then (printed s ev) (\<lambda>p. runs h opts scopes st nodes (append_run rs (Run (fst p) st)) (snd p))"
| "runs h opts scopes st (Place ph # nodes) rs ev =
     and_then (format h opts ph scopes ev) (\<lambda>p. runs h opts scopes st nodes (append_run rs (Run (fst p) st)) (snd p))"
| "runs h opts scopes st (Break # nodes) rs ev = runs h opts scopes st nodes (append_run rs (Run [CHR 10] st)) ev"
| "runs h opts scopes st (Strong cs # nodes) rs ev =
     and_then (runs h opts scopes (st\<lparr>st_bold := True\<rparr>) cs rs ev) (\<lambda>p. runs h opts scopes st nodes (fst p) (snd p))"
| "runs h opts scopes st (Emphasis cs # nodes) rs ev =
     and_then (runs h opts scopes (st\<lparr>st_italic := True\<rparr>) cs rs ev) (\<lambda>p. runs h opts scopes st nodes (fst p) (snd p))"
| "runs h opts scopes st (Code cs # nodes) rs ev =
     and_then (run_code h opts scopes (st\<lparr>st_code := True\<rparr>) cs rs ev) (\<lambda>p. runs h opts scopes st nodes (fst p) (snd p))"
| "runs h opts scopes st (Link cs url # nodes) rs ev =
     and_then (runs h opts scopes st cs [] ev) (\<lambda>label.
     and_then (run_code h opts scopes st url [] (snd label)) (\<lambda>target.
       runs h opts scopes st nodes (append_link st rs (fst label) (runs_text (fst target))) (snd target)))"

definition line_runs :: "host \<Rightarrow> evaluate_options \<Rightarrow> scope list \<Rightarrow> inline list \<Rightarrow> evaluation \<Rightarrow> run list rendering" where
  "line_runs h opts scopes content ev = runs h opts scopes plain_style content [] ev"

section \<open>Blocks\<close>

fun render_cells :: "host \<Rightarrow> evaluate_options \<Rightarrow> scope list \<Rightarrow> inline list list \<Rightarrow> evaluation \<Rightarrow> run list list rendering" where
  "render_cells h opts scopes [] ev = Inr ([], ev)"
| "render_cells h opts scopes (cell # cells) ev =
     and_then (line_runs h opts scopes cell ev) (\<lambda>p.
     and_then (render_cells h opts scopes cells (snd p)) (\<lambda>q. Inr (fst p # fst q, snd q)))"

fun render_list :: "host \<Rightarrow> evaluate_options \<Rightarrow> scope list \<Rightarrow> template_list \<Rightarrow> evaluation \<Rightarrow> rendered_list rendering"
and render_items :: "host \<Rightarrow> evaluate_options \<Rightarrow> scope list \<Rightarrow> list_item list \<Rightarrow> evaluation \<Rightarrow> rendered_item list rendering" where
  "render_list h opts scopes (TList ordered start items) ev =
     and_then (render_items h opts scopes items ev) (\<lambda>p. Inr (RList ordered start (fst p), snd p))"
| "render_items h opts scopes [] ev = Inr ([], ev)"
| "render_items h opts scopes (TItem content None # items) ev =
     and_then (line_runs h opts scopes content ev) (\<lambda>p.
     and_then (render_items h opts scopes items (snd p)) (\<lambda>q. Inr (RItem (fst p) None # fst q, snd q)))"
| "render_items h opts scopes (TItem content (Some sub) # items) ev =
     and_then (line_runs h opts scopes content ev) (\<lambda>p.
     and_then (render_list h opts scopes sub (snd p)) (\<lambda>s.
     and_then (render_items h opts scopes items (snd s)) (\<lambda>q. Inr (RItem (fst p) (Some (fst s)) # fst q, snd q))))"

text \<open>The items an each repeats for: an absent list is empty.\<close>

definition each_items :: "expression \<Rightarrow> scope list \<Rightarrow> evaluation \<Rightarrow> tvalue list rendering" where
  "each_items path scopes ev =
     (case resolve path scopes of
        None \<Rightarrow> Inr ([], ev)
      | Some VNull \<Rightarrow> Inr ([], ev)
      | Some (VArr vs) \<Rightarrow> and_then (repeat (length vs) ev) (\<lambda>ev'. Inr (vs, ev'))
      | Some _ \<Rightarrow> invalid Not_list)"

definition item_scope :: "nat \<times> tvalue \<Rightarrow> scope" where
  "item_scope iv = \<lparr>sc_value = snd iv, sc_index = Some (fst iv)\<rparr>"

fun render_rows ::
    "host \<Rightarrow> evaluate_options \<Rightarrow> scope list \<Rightarrow> row list \<Rightarrow> run list list list \<Rightarrow> evaluation \<Rightarrow> run list list list rendering" where
  "render_rows h opts scopes [] acc ev = Inr (acc, ev)"
| "render_rows h opts scopes (Row cells line # rows) acc ev =
     and_then (render_cells h opts scopes cells ev) (\<lambda>p. render_rows h opts scopes rows (acc @ [fst p]) (snd p))"
| "render_rows h opts scopes (Row_each path children line # rows) acc ev =
     and_then (each_items path scopes ev) (\<lambda>p.
     and_then (for_each (\<lambda>s iv. render_rows h opts (item_scope iv # scopes) children (fst s) (snd s))
                 (acc, snd p) (enumerate 0 (fst p)))
       (\<lambda>s. render_rows h opts scopes rows (fst s) (snd s)))"
| "render_rows h opts scopes (Row_if path yes no line # rows) acc ev =
     and_then (if truthy (resolve path scopes) then render_rows h opts scopes yes acc ev
               else render_rows h opts scopes no acc ev)
       (\<lambda>s. render_rows h opts scopes rows (fst s) (snd s))"

text \<open>Adjacent lists of the same kind become one.\<close>

definition push_list :: "rendered_block list \<Rightarrow> rendered_list \<Rightarrow> rendered_block list" where
  "push_list acc l =
     (case (if acc = [] then None else Some (last acc), l) of
        (Some (RBlock_list (RList ordered start items)), RList ordered' start' items') \<Rightarrow>
          if ordered = ordered' then butlast acc @ [RBlock_list (RList ordered start (items @ items'))]
          else acc @ [RBlock_list l]
      | _ \<Rightarrow> acc @ [RBlock_list l])"

fun render_blocks ::
    "host \<Rightarrow> evaluate_options \<Rightarrow> scope list \<Rightarrow> block list \<Rightarrow> rendered_block list \<Rightarrow> evaluation \<Rightarrow> rendered_block list rendering" where
  "render_blocks h opts scopes [] acc ev = Inr (acc, ev)"
| "render_blocks h opts scopes (Heading level content line # blocks) acc ev =
     and_then (line_runs h opts scopes content ev) (\<lambda>p.
       render_blocks h opts scopes blocks (acc @ [RHeading level (fst p)]) (snd p))"
| "render_blocks h opts scopes (Paragraph content line # blocks) acc ev =
     and_then (line_runs h opts scopes content ev) (\<lambda>p.
       render_blocks h opts scopes blocks (acc @ [RParagraph (fst p)]) (snd p))"
| "render_blocks h opts scopes (BList l line # blocks) acc ev =
     and_then (render_list h opts scopes l ev) (\<lambda>p.
       render_blocks h opts scopes blocks (push_list acc (fst p)) (snd p))"
| "render_blocks h opts scopes (Quote paragraphs line # blocks) acc ev =
     and_then (render_cells h opts scopes paragraphs ev) (\<lambda>p.
       render_blocks h opts scopes blocks (acc @ [RQuote (fst p)]) (snd p))"
| "render_blocks h opts scopes (Rule line # blocks) acc ev = render_blocks h opts scopes blocks (acc @ [RRule]) ev"
| "render_blocks h opts scopes (Pagebreak line # blocks) acc ev =
     render_blocks h opts scopes blocks (acc @ [RPagebreak]) ev"
| "render_blocks h opts scopes (Table align header rows line # blocks) acc ev =
     and_then (render_rows h opts scopes rows [] ev) (\<lambda>body.
     and_then (render_cells h opts scopes header (snd body)) (\<lambda>top.
       render_blocks h opts scopes blocks (acc @ [RTable align (fst top) (fst body)]) (snd top)))"
| "render_blocks h opts scopes (Each path children line # blocks) acc ev =
     and_then (each_items path scopes ev) (\<lambda>p.
     and_then (for_each (\<lambda>s iv. render_blocks h opts (item_scope iv # scopes) children (fst s) (snd s))
                 (acc, snd p) (enumerate 0 (fst p)))
       (\<lambda>s. render_blocks h opts scopes blocks (fst s) (snd s)))"
| "render_blocks h opts scopes (If_block path yes no line # blocks) acc ev =
     and_then (if truthy (resolve path scopes) then render_blocks h opts scopes yes acc ev
               else render_blocks h opts scopes no acc ev)
       (\<lambda>s. render_blocks h opts scopes blocks (fst s) (snd s))"

section \<open>The whole document\<close>

fun page_counter :: "code_child \<Rightarrow> margin_part option" where
  "page_counter (CPlace ph) =
     (case ph_value ph of Page \<Rightarrow> Some Margin_page | Pages \<Rightarrow> Some Margin_pages | _ \<Rightarrow> None)"
| "page_counter (CText s) = None"

definition append_part :: "margin_part list \<Rightarrow> string \<Rightarrow> margin_part list" where
  "append_part parts s =
     (case (if parts = [] then None else Some (last parts)) of
        Some (Margin_text t) \<Rightarrow> butlast parts @ [Margin_text (t @ s)]
      | _ \<Rightarrow> parts @ [Margin_text s])"

definition code_child_text ::
    "host \<Rightarrow> evaluate_options \<Rightarrow> scope list \<Rightarrow> code_child \<Rightarrow> evaluation \<Rightarrow> string rendering" where
  "code_child_text h opts scopes node ev =
     (case node of CText s \<Rightarrow> printed s ev | CPlace ph \<Rightarrow> format h opts ph scopes ev)"

fun margin_parts ::
    "host \<Rightarrow> evaluate_options \<Rightarrow> scope list \<Rightarrow> code_child list \<Rightarrow> margin_part list \<Rightarrow> evaluation \<Rightarrow> margin_part list rendering" where
  "margin_parts h opts scopes [] parts ev = Inr (parts, ev)"
| "margin_parts h opts scopes (node # nodes) parts ev =
     (case page_counter node of
        Some counter \<Rightarrow> margin_parts h opts scopes nodes (parts @ [counter]) ev
      | None \<Rightarrow>
          and_then (code_child_text h opts scopes node ev)
            (\<lambda>p. margin_parts h opts scopes nodes (append_part parts (fst p)) (snd p)))"

definition marginLine ::
    "host \<Rightarrow> evaluate_options \<Rightarrow> scope list \<Rightarrow> code_child list option \<Rightarrow> evaluation \<Rightarrow> margin_part list option rendering" where
  "marginLine h opts scopes content ev =
     (case content of
        None \<Rightarrow> Inr (None, ev)
      | Some nodes \<Rightarrow> and_then (margin_parts h opts scopes nodes [] ev) (\<lambda>p. Inr (Some (fst p), snd p)))"

record compiled_parts =
  cp_blocks :: "block list"
  cp_title :: "code_child list"
  cp_header :: "code_child list option"
  cp_footer :: "code_child list option"

text \<open>\<open>s.replace(/\s+/g, ' ')\<close>.\<close>

fun collapse :: "bool \<Rightarrow> string \<Rightarrow> string" where
  "collapse inside [] = []"
| "collapse inside (c # cs) =
     (if is_space c then (if inside then collapse True cs else CHR '' '' # collapse True cs) else c # collapse False cs)"

definition fresh_evaluation :: evaluation where
  "fresh_evaluation = \<lparr>ev_rows = 0, ev_characters = 0\<rparr>"

definition evaluateTemplate ::
    "host \<Rightarrow> compiled_parts \<Rightarrow> tvalue \<Rightarrow> evaluate_options \<Rightarrow> render_error + rendered_template" where
  "evaluateTemplate h tpl input opts =
     (let scopes = [\<lparr>sc_value = input, sc_index = None\<rparr>] in
      and_then (render_blocks h opts scopes (cp_blocks tpl) [] fresh_evaluation) (\<lambda>body.
      and_then (run_code h opts scopes plain_style (cp_title tpl) [] (snd body)) (\<lambda>title.
      and_then (marginLine h opts scopes (cp_header tpl) (snd title)) (\<lambda>header.
      and_then (marginLine h opts scopes (cp_footer tpl) (snd header)) (\<lambda>footer.
        Inr \<lparr>rt_locale = eo_locale opts, rt_title = trim (collapse False (runs_text (fst title))),
             rt_header = fst header, rt_footer = fst footer, rt_blocks = fst body,
             rt_repeatedRows = ev_rows (snd footer)\<rparr>)))))"

end
