(* ===== verification/Template_Sound.thy ===== *)
theory Template_Sound
  imports Template_Eval
begin

text \<open>
  Type soundness of document templates: a well-typed template, rendered for an input its schema accepts,
  is never refused for the kind of a value. It needs every object that is an item of a list to hold exactly the
  properties the schema declares (an optional one may be null): the scopes of a render are searched by the
  properties the values have, the scopes of the check by those the schema declares, and an undeclared or a
  missing property of an item makes the two disagree. The outermost object, and objects that are no items, may
  leave out optional properties and hold undeclared ones. The last section shows both disagreements.
\<close>

section \<open>Inputs\<close>

text \<open>\<open>item\<close> says whether the value is an item of a list.\<close>

function covers :: "bool \<Rightarrow> tschema \<Rightarrow> tvalue \<Rightarrow> bool" where
  "covers item (SObject ps req) v =
     (\<exists>kvs. v = VObj kvs \<and> (item \<longrightarrow> fst ` set kvs = fst ` set ps) \<and>
        (\<forall>(name, child) \<in> set ps. \<forall>entry. own kvs name = Some entry \<longrightarrow> entry = VNull \<or> covers False child entry))"
| "covers item (SArray items) v = (\<exists>vs. v = VArr vs \<and> (\<forall>x \<in> set vs. covers True items x))"
| "covers item (SString m e) v = True"
| "covers item SInteger v = True"
| "covers item SNumber v = True"
| "covers item SBoolean v = True"
  by pat_completeness auto
termination
  by (relation "measure (\<lambda>(_, s, _). size s)") (auto dest: tschema_size_entry simp del: tschema.size(7))

definition typed :: "bool \<Rightarrow> tschema \<Rightarrow> tvalue \<Rightarrow> bool" where
  "typed item s v = (conforms s v \<and> covers item s v)"

lemma own_keys: "own kvs name \<noteq> None \<longleftrightarrow> name \<in> fst ` set kvs"
  by (simp add: own_def map_of_eq_None_iff)

lemma typed_object:
  "typed item (SObject ps req) v \<longleftrightarrow>
     (\<exists>kvs. v = VObj kvs \<and> (item \<longrightarrow> fst ` set kvs = fst ` set ps) \<and>
        (\<forall>name \<in> set (case req of None \<Rightarrow> [] | Some names \<Rightarrow> names). \<not> missing_required kvs name) \<and>
        (\<forall>(name, child) \<in> set ps. \<forall>entry. own kvs name = Some entry \<longrightarrow> entry = VNull \<or> typed False child entry))"
proof (cases v)
  case (VObj kvs)
  have "(\<forall>x \<in> set ps. \<forall>entry. own kvs (fst x) = Some entry \<longrightarrow> entry = VNull \<or> conforms (snd x) entry \<and> covers False (snd x) entry) \<longleftrightarrow>
      (\<forall>x \<in> set ps. \<forall>entry. own kvs (fst x) = Some entry \<longrightarrow> entry = VNull \<or> conforms (snd x) entry) \<and>
      (\<forall>x \<in> set ps. \<forall>entry. own kvs (fst x) = Some entry \<longrightarrow> entry = VNull \<or> covers False (snd x) entry)"
    by blast
  then show ?thesis unfolding VObj typed_def by (simp add: case_prod_unfold conj_ac)
qed (simp_all add: typed_def)

lemma typed_item: "typed item s v \<Longrightarrow> typed False s v" "typed True s v \<Longrightarrow> typed item s v"
  by (cases s; auto simp: typed_def)+

lemma typed_array:
  "typed item (SArray items) v \<longleftrightarrow> (\<exists>vs. v = VArr vs \<and> length vs \<le> ARRAY_ITEMS \<and> (\<forall>x \<in> set vs. typed True items x))"
  unfolding typed_def by auto

lemma typed_scalar:
  "typed item (SString m e) v \<Longrightarrow> \<exists>s. v = VStr s"
  "typed item SInteger v \<Longrightarrow> \<exists>q. v = VNum (Finite q) \<and> isSafeInteger (Finite q)"
  "typed item SNumber v \<Longrightarrow> \<exists>q. v = VNum (Finite q)"
  "typed item SBoolean v \<Longrightarrow> \<exists>b. v = VBool b"
  unfolding typed_def by (auto elim: isSafeInteger.elims isFinite.elims)

text \<open>A value found where a schema was found: undefined, null, or of that schema.\<close>

definition fits :: "tschema \<Rightarrow> tvalue option \<Rightarrow> bool" where
  "fits s v = (absent v \<or> (\<exists>x. v = Some x \<and> typed False s x))"

lemma fits_null [simp]: "fits s None" "fits s (Some VNull)"
  by (simp_all add: fits_def absent_def)

lemma walk_fits: "walk_schema s names = Some t \<Longrightarrow> typed item s v \<Longrightarrow> fits t (walk_value v names)"
proof (induction s names arbitrary: v item rule: walk_schema.induct)
  case (2 ps req name names)
  from 2(2) obtain child where child: "map_of ps name = Some child" "walk_schema child names = Some t"
    by (auto split: option.splits)
  from 2(3) obtain kvs where kvs: "v = VObj kvs"
    "\<forall>(name, child) \<in> set ps. \<forall>entry. own kvs name = Some entry \<longrightarrow> entry = VNull \<or> typed False child entry"
    by (auto simp: typed_object)
  show ?case
  proof (cases "own kvs name")
    case (Some entry)
    with kvs(2) map_of_SomeD [OF child(1)] consider "entry = VNull" | "typed False child entry" by fastforce
    then show ?thesis
    proof cases
      case 1
      then show ?thesis using Some kvs(1) by (cases names) simp_all
    next
      case 2
      then show ?thesis using "2.IH" [OF child] Some kvs(1) by simp
    qed
  qed (simp add: kvs(1))
qed (auto simp: fits_def dest: typed_item(1))

text \<open>The scopes of a render under those of the check; all but the outermost are items.\<close>

fun scopes_fit :: "schema_scope list \<Rightarrow> scope list \<Rightarrow> bool" where
  "scopes_fit (ss # sss) (sc # scs) = (typed (sss \<noteq> []) (ss_schema ss) (sc_value sc) \<and> scopes_fit sss scs)"
| "scopes_fit sss scs = (sss = [] \<and> scs = [])"

lemma declares_holds: "typed True s v \<Longrightarrow> declares s name \<longleftrightarrow> holds v name"
proof (cases s)
  case (SObject ps req)
  assume "typed True s v"
  then obtain kvs where "v = VObj kvs" "fst ` set kvs = fst ` set ps" by (auto simp: SObject typed_object)
  then show ?thesis using own_keys [of kvs name] by (auto simp: SObject map_of_eq_None_iff own_def)
qed (auto dest: typed_scalar simp: typed_array)

lemma search_fits:
  "scopes_fit sss scs \<Longrightarrow> search_schema sss segments = Some t \<Longrightarrow> fits t (search_value scs segments)"
proof (induction sss scs rule: scopes_fit.induct)
  case (1 ss sss sc scs)
  show ?case
  proof (cases "sss = []")
    case True
    then have "scs = []" using 1(2) by (cases scs) simp_all
    then show ?thesis using True 1(2,3) walk_fits [of "ss_schema ss" segments t False "sc_value sc"]
      by (auto split: list.splits if_splits)
  next
    case False
    then show ?thesis
      using 1 declares_holds [of "ss_schema ss" "sc_value sc"] walk_fits [of "ss_schema ss" segments t True "sc_value sc"]
      by (auto split: list.splits if_splits)
  qed
qed auto

lemma resolve_fits:
  assumes "scopes_fit sss scs" and "sss \<noteq> []" and "schemaOfExpression e sss = Some (Of_schema t)"
  shows "fits t (resolve e scs)"
  using assms search_fits [OF assms(1)] walk_fits
  by (cases sss; cases scs) (auto simp: schemaOfExpression_def resolve_def split: expression.splits if_splits)

lemma resolve_counter:
  assumes "schemaOfExpression e sss = Some Counter"
  shows "absent (resolve e scs) \<or> (\<exists>n. resolve e scs = Some (number_value n))"
  using assms
  by (cases e; cases "sc_index (hd scs)") (auto simp: schemaOfExpression_def resolve_def absent_def)

section \<open>Placeholders\<close>

text \<open>The refusals a schema cannot rule out.\<close>

definition residual :: "render_error \<Rightarrow> bool" where
  "residual e = (e \<in> {TEMPLATE_VALUE_INVALID Not_minor_units, TEMPLATE_VALUE_INVALID Not_currency,
     TEMPLATE_VALUE_INVALID Not_date, TEMPLATE_ROWS_EXCEEDED, TEMPLATE_OUTPUT_TOO_LARGE, RANGE_ERROR})"

definition safe :: "render_error + 'a \<Rightarrow> bool" where
  "safe r = (case r of Inl e \<Rightarrow> residual e | Inr _ \<Rightarrow> True)"

lemma safe_Inr [simp]: "safe (Inr x)"
  by (simp add: safe_def)

lemma safe_Inl [simp]: "safe (Inl e) = residual e"
  by (simp add: safe_def)

lemma safe_and_then [intro]: "safe r \<Longrightarrow> (\<And>x. r = Inr x \<Longrightarrow> safe (f x)) \<Longrightarrow> safe (and_then r f)"
  by (cases r) auto

lemma safe_for_each: "(\<And>s x. x \<in> set xs \<Longrightarrow> safe (f s x)) \<Longrightarrow> safe (for_each f s xs)"
  by (induction xs arbitrary: s) auto

lemma safe_printed [simp]: "safe (printed s ev)"
  by (simp add: printed_def Let_def residual_def)

text \<open>What a value of each type is once it is there.\<close>

definition kind_of :: "value_type \<Rightarrow> tvalue \<Rightarrow> bool" where
  "kind_of ty v =
     (case ty of
        Ty_string \<Rightarrow> (\<exists>s. v = VStr s)
      | Ty_number \<Rightarrow> (\<exists>q. v = VNum (Finite q))
      | Ty_integer \<Rightarrow> (\<exists>q. v = VNum (Finite q))
      | Ty_boolean \<Rightarrow> (\<exists>b. v = VBool b)
      | Ty_array \<Rightarrow> (\<exists>vs. v = VArr vs)
      | Ty_object \<Rightarrow> (\<exists>kvs. v = VObj kvs))"

lemma typed_kind: "typed item s v \<Longrightarrow> kind_of (schema_type_of s) v"
  by (cases s) (auto simp: kind_of_def typed_object typed_array dest: typed_scalar)

lemma resolve_kind:
  assumes "scopes_fit sss scs" and "sss \<noteq> []" and "schemaOfExpression e sss = Some s"
  shows "absent (resolve e scs) \<or> (\<exists>v. resolve e scs = Some v \<and> kind_of (value_type_of s) v)"
proof (cases s)
  case Counter
  then show ?thesis
    using resolve_counter [of e sss scs] assms(3) by (auto simp: kind_of_def number_value_def)
next
  case (Of_schema t)
  then show ?thesis
    using resolve_fits [OF assms(1,2), of e t] assms(3) typed_kind [of False t] by (auto simp: fits_def)
qed

lemma safe_format_date: "kind_of Ty_string v \<or> kind_of Ty_number v \<Longrightarrow> safe (format_date h opts time v)"
  by (auto simp: format_date_def invalid_def residual_def split: option.splits)

lemma safe_format_money: "kind_of Ty_number v \<Longrightarrow> safe (format_money h loc currency v scopes)"
  by (auto simp: format_money_def kind_of_def invalid_def residual_def Let_def simp del: isSafeInteger.simps
      split: option.splits)

lemma safe_placeholder_text:
  assumes "scopes_fit sss scs" and "sss \<noteq> []" and "placeholder_ok sss p"
  shows "safe (placeholder_text h opts p scs)"
proof -
  from assms(3) obtain s where s: "schemaOfExpression (ph_value p) sss = Some s"
    "case ph_formatter p of None \<Rightarrow> value_type_of s \<notin> {Ty_object, Ty_array}
     | Some f \<Rightarrow> value_type_of s \<in> set (FORMATTER_TYPES f)"
    by (auto simp: placeholder_ok_def split: option.splits)
  from resolve_kind [OF assms(1,2) s(1)]
  consider "absent (resolve (ph_value p) scs)"
    | v where "resolve (ph_value p) scs = Some v" "kind_of (value_type_of s) v" "v \<noteq> VNull"
    by (auto simp: absent_def)
  then show ?thesis
  proof cases
    case 1
    then show ?thesis
      by (auto simp: absent_def placeholder_text_def plainText_def applyFormatter_def Let_def split: option.splits)
  next
    case 2
    show ?thesis
    proof (cases "ph_formatter p")
      case None
      then show ?thesis using 2 s(2)
        by (cases "value_type_of s") (auto simp: placeholder_text_def plainText_def kind_of_def)
    next
      case (Some f)
      then show ?thesis
        using 2 s(2)
        by (cases f)
          (auto simp: placeholder_text_def applyFormatter_def kind_of_def format_number_def
            intro!: safe_format_money safe_format_date)
    qed
  qed
qed

lemma safe_format:
  "scopes_fit sss scs \<Longrightarrow> sss \<noteq> [] \<Longrightarrow> placeholder_ok sss p \<Longrightarrow> safe (format h opts p scs ev)"
  unfolding format_def by (intro safe_and_then safe_placeholder_text safe_printed)

section \<open>Blocks\<close>

text \<open>Sublists of sublists are not checked; the parser makes none.\<close>

fun list_shallow :: "template_list \<Rightarrow> bool" where
  "list_shallow (TList ordered start items) =
     list_all (\<lambda>item. case item of
         TItem content None \<Rightarrow> True
       | TItem content (Some (TList o' s' subitems)) \<Rightarrow>
           list_all (\<lambda>sub. case sub of TItem c deeper \<Rightarrow> deeper = None) subitems) items"

fun blocks_shallow :: "block list \<Rightarrow> bool" where
  "blocks_shallow [] = True"
| "blocks_shallow (BList l line # blocks) = (list_shallow l \<and> blocks_shallow blocks)"
| "blocks_shallow (Each path children line # blocks) = (blocks_shallow children \<and> blocks_shallow blocks)"
| "blocks_shallow (If_block path yes no line # blocks) =
     (blocks_shallow yes \<and> blocks_shallow no \<and> blocks_shallow blocks)"
| "blocks_shallow (b # blocks) = blocks_shallow blocks"

lemma safe_run_code:
  "scopes_fit sss scs \<Longrightarrow> sss \<noteq> [] \<Longrightarrow> code_ok sss nodes \<Longrightarrow> safe (run_code h opts scs st nodes rs ev)"
proof (induction h opts scs st nodes rs ev rule: run_code.induct)
  case (2 h opts scs st s nodes rs ev)
  then show ?case by (auto simp: code_ok_def)
next
  case (3 h opts scs st p nodes rs ev)
  then show ?case by (auto simp: code_ok_def intro!: safe_and_then safe_format)
qed simp

lemma safe_runs:
  "scopes_fit sss scs \<Longrightarrow> sss \<noteq> [] \<Longrightarrow> inlines_ok sss nodes \<Longrightarrow> safe (runs h opts scs st nodes rs ev)"
  by (induction h opts scs st nodes rs ev rule: runs.induct)
    (auto intro!: safe_and_then safe_format safe_run_code)

lemma safe_cells:
  "scopes_fit sss scs \<Longrightarrow> sss \<noteq> [] \<Longrightarrow> list_all (inlines_ok sss) cells \<Longrightarrow> safe (render_cells h opts scs cells ev)"
  by (induction cells arbitrary: ev) (auto simp: line_runs_def intro!: safe_and_then safe_runs)

lemma safe_flat_items:
  assumes "scopes_fit sss scs" and "sss \<noteq> []"
  shows "list_all (\<lambda>item. case item of TItem c deeper \<Rightarrow> deeper = None \<and> inlines_ok sss c) items \<Longrightarrow>
     safe (render_items h opts scs items ev)"
proof (induction items arbitrary: ev)
  case (Cons item items)
  obtain c deeper where item: "item = TItem c deeper" by (cases item)
  with Cons assms show ?case by (auto simp: line_runs_def intro!: safe_and_then safe_runs)
qed simp

lemma safe_items:
  assumes "scopes_fit sss scs" and "sss \<noteq> []"
  shows "list_shallow (TList o1 s1 items) \<Longrightarrow> list_all (inlines_ok sss) (list_contents (TList o1 s1 items)) \<Longrightarrow>
     safe (render_items h opts scs items ev)"
proof (induction items arbitrary: ev)
  case (Cons item items)
  show ?case
  proof (cases item)
    case (TItem c sub)
    show ?thesis
    proof (cases sub)
      case None
      with TItem Cons assms show ?thesis by (auto simp: line_runs_def intro!: safe_and_then safe_runs)
    next
      case (Some l)
      obtain o2 s2 subitems where l: "l = TList o2 s2 subitems" by (cases l)
      have "list_all (\<lambda>item. case item of TItem c deeper \<Rightarrow> deeper = None \<and> inlines_ok sss c) subitems"
        using Cons.prems unfolding TItem Some l by (force simp: list_all_iff split: list_item.splits)
      then have "safe (render_items h opts scs subitems ev')" for ev'
        by (rule safe_flat_items [OF assms])
      with TItem Some l Cons assms show ?thesis by (auto simp: line_runs_def intro!: safe_and_then safe_runs)
    qed
  qed
qed simp

lemma safe_list:
  assumes "scopes_fit sss scs" and "sss \<noteq> []" and "list_shallow l" and "list_all (inlines_ok sss) (list_contents l)"
  shows "safe (render_list h opts scs l ev)"
  using safe_items [OF assms(1,2)] assms(3,4) by (cases l) (auto intro!: safe_and_then)

text \<open>What an each repeats over is a list of values of the item type.\<close>

lemma each_items_fit:
  assumes "scopes_fit sss scs" and "sss \<noteq> []" and "item_type path sss = Some items"
  shows "safe (each_items path scs ev) \<and>
    (\<forall>vs ev'. each_items path scs ev = Inr (vs, ev') \<longrightarrow> (\<forall>v \<in> set vs. typed True items v))"
proof -
  have "schemaOfExpression path sss = Some (Of_schema (SArray items))"
    using assms(3) by (auto simp: item_type_def split: option.splits expression_schema.splits tschema.splits)
  from resolve_fits [OF assms(1,2) this]
  consider "absent (resolve path scs)" | vs where "resolve path scs = Some (VArr vs)" "\<forall>v \<in> set vs. typed True items v"
    by (auto simp: fits_def typed_array)
  then show ?thesis
  proof cases
    case 1
    then show ?thesis by (auto simp: absent_def each_items_def)
  next
    case 2
    then show ?thesis by (auto simp: each_items_def repeat_def Let_def residual_def)
  qed
qed

lemma item_scope_fits:
  assumes "scopes_fit sss scs" and "\<forall>v \<in> set vs. typed True items v" and "iv \<in> set (enumerate 0 vs)"
  shows "scopes_fit (\<lparr>ss_schema = items, ss_item = True\<rparr> # sss) (item_scope iv # scs)"
proof -
  have "snd iv \<in> set vs" using assms(3) snd_enumerate [of 0 vs] by blast
  then show ?thesis using assms(1,2) by (simp add: typed_item item_scope_def)
qed

lemma safe_rows:
  "scopes_fit sss scs \<Longrightarrow> sss \<noteq> [] \<Longrightarrow> rows_ok sss rows \<Longrightarrow> safe (render_rows h opts scs rows acc ev)"
proof (induction h opts scs rows acc ev arbitrary: sss rule: render_rows.induct)
  case (2 h opts scs cells line rows acc ev)
  then show ?case by (auto intro!: safe_and_then safe_cells)
next
  case (3 h opts scs path children line rows acc ev)
  from 3(5) obtain items where items: "item_type path sss = Some items"
    "rows_ok (\<lparr>ss_schema = items, ss_item = True\<rparr> # sss) children" "rows_ok sss rows"
    by (auto split: option.splits)
  note each = each_items_fit [OF 3(3,4) items(1)]
  show ?case
    unfolding render_rows.simps(3)
  proof (intro safe_and_then safe_for_each)
    show "safe (each_items path scs ev)" using each by blast
  next
    fix p s iv
    assume p: "each_items path scs ev = Inr p" and iv: "iv \<in> set (enumerate 0 (fst p))"
    have "\<forall>v \<in> set (fst p). typed True items v" using each p by (cases p) auto
    from 3(1) [OF p iv item_scope_fits [OF 3(3) this iv] _ items(2)]
    show "safe (render_rows h opts (item_scope iv # scs) children (fst s) (snd s))" by simp
  next
    fix p s
    assume "each_items path scs ev = Inr p"
      and "for_each (\<lambda>s iv. render_rows h opts (item_scope iv # scs) children (fst s) (snd s)) (acc, snd p) (enumerate 0 (fst p)) = Inr s"
    from 3(2) [OF this 3(3,4) items(3)] show "safe (render_rows h opts scs rows (fst s) (snd s))" .
  qed
next
  case (4 h opts scs path yes no line rows acc ev)
  then show ?case by (auto intro!: safe_and_then)
qed simp

lemma safe_blocks:
  "scopes_fit sss scs \<Longrightarrow> sss \<noteq> [] \<Longrightarrow> blocks_ok sss blocks \<Longrightarrow> blocks_shallow blocks \<Longrightarrow>
     safe (render_blocks h opts scs blocks acc ev)"
proof (induction h opts scs blocks acc ev arbitrary: sss rule: render_blocks.induct)
  case (9 h opts scs path children line blocks acc ev)
  from 9(5) obtain items where items: "item_type path sss = Some items"
    "blocks_ok (\<lparr>ss_schema = items, ss_item = True\<rparr> # sss) children" "blocks_ok sss blocks"
    by (auto split: option.splits)
  from 9(6) have sh: "blocks_shallow children" "blocks_shallow blocks" by simp_all
  note each = each_items_fit [OF 9(3,4) items(1)]
  show ?case
    unfolding render_blocks.simps(9)
  proof (intro safe_and_then safe_for_each)
    show "safe (each_items path scs ev)" using each by blast
  next
    fix p s iv
    assume p: "each_items path scs ev = Inr p" and iv: "iv \<in> set (enumerate 0 (fst p))"
    have "\<forall>v \<in> set (fst p). typed True items v" using each p by (cases p) auto
    from 9(1) [OF p iv item_scope_fits [OF 9(3) this iv] _ items(2) sh(1)]
    show "safe (render_blocks h opts (item_scope iv # scs) children (fst s) (snd s))" by simp
  next
    fix p s
    assume "each_items path scs ev = Inr p"
      and "for_each (\<lambda>s iv. render_blocks h opts (item_scope iv # scs) children (fst s) (snd s)) (acc, snd p) (enumerate 0 (fst p)) = Inr s"
    from 9(2) [OF this 9(3,4) items(3) sh(2)] show "safe (render_blocks h opts scs blocks (fst s) (snd s))" .
  qed
qed (auto simp: line_runs_def intro!: safe_and_then safe_runs safe_cells safe_rows safe_list)

lemma safe_margin_parts:
  "scopes_fit sss scs \<Longrightarrow> sss \<noteq> [] \<Longrightarrow> code_ok sss nodes \<Longrightarrow> safe (margin_parts h opts scs nodes parts ev)"
proof (induction nodes arbitrary: parts ev)
  case (Cons node nodes)
  then have "code_ok sss nodes" by (auto simp: code_ok_def)
  moreover have "safe (code_child_text h opts scs node ev)"
    using Cons.prems safe_format by (cases node) (auto simp: code_child_text_def code_ok_def)
  ultimately show ?case using Cons by (auto intro!: safe_and_then split: option.splits)
qed simp

definition parts_ok :: "tschema \<Rightarrow> compiled_parts \<Rightarrow> bool" where
  "parts_ok schema tpl =
     (blocks_ok (root_scope schema) (cp_blocks tpl) \<and> blocks_shallow (cp_blocks tpl) \<and>
      code_ok (root_scope schema) (cp_title tpl) \<and>
      (\<forall>nodes. cp_header tpl = Some nodes \<longrightarrow> code_ok (root_scope schema) nodes) \<and>
      (\<forall>nodes. cp_footer tpl = Some nodes \<longrightarrow> code_ok (root_scope schema) nodes))"

lemma safe_template:
  assumes "parts_ok schema tpl" and "conforms schema input" and "covers False schema input"
  shows "safe (evaluateTemplate h tpl input opts)"
proof -
  have fits: "scopes_fit (root_scope schema) [\<lparr>sc_value = input, sc_index = None\<rparr>]"
    using assms(2,3) by (simp add: root_scope_def typed_def)
  have ne: "root_scope schema \<noteq> []" by (simp add: root_scope_def)
  show ?thesis
    using assms(1) unfolding parts_ok_def evaluateTemplate_def Let_def marginLine_def
    by (auto intro!: safe_and_then safe_blocks [OF fits ne] safe_run_code [OF fits ne] safe_margin_parts [OF fits ne]
        split: option.splits)
qed

section \<open>Where the check and the render disagree\<close>

text \<open>
  The comment on \<open>validateTemplateInput\<close> says that a property the schema does not declare cannot be reached
  by a placeholder. A path inside an each finds it first.
\<close>

definition priced_schema :: tschema where
  "priced_schema = SObject [(''items'', SArray (SObject [(''price'', SInteger)] None)), (''currency'', SString None None)] None"

definition priced_template :: "block list" where
  "priced_template =
     [Each (Path False [''items'']) [Paragraph [Place (Placeholder (Path False [''currency'']) None 2)] 2] 1]"

definition priced_input :: tvalue where
  "priced_input = VObj [(''items'', VArr [VObj [(''currency'', VObj [])]]), (''currency'', VStr ''PLN'')]"

lemma undeclared_property_reached:
  "checkTemplateFields priced_template priced_schema = [] \<and> validateTemplateInput priced_schema priced_input = [] \<and>
   render_blocks h opts [\<lparr>sc_value = priced_input, sc_index = None\<rparr>] priced_template [] fresh_evaluation =
     Inl (TEMPLATE_VALUE_INVALID Not_printable)"
  unfolding checkTemplateFields_Nil validate_iff
  by (simp add: priced_schema_def priced_template_def priced_input_def root_scope_def item_type_def
      schemaOfExpression_def placeholder_ok_def own_def missing_required_def ARRAY_ITEMS_def string_limit_def
      STRING_CHARACTERS_def resolve_def each_items_def repeat_def fresh_evaluation_def REPEATED_ROWS_def
      enumerate_eq_zip item_scope_def line_runs_def format_def placeholder_text_def plainText_def invalid_def)

text \<open>An optional property an item leaves out is searched further out, where another of its name has another type.\<close>

definition noted_schema :: tschema where
  "noted_schema = SObject [(''rows'', SArray (SObject [(''note'', SString None None)] None)),
     (''note'', SArray (SString None None))] None"

definition noted_template :: "block list" where
  "noted_template = [Each (Path False [''rows'']) [Paragraph [Place (Placeholder (Path False [''note'']) None 2)] 2] 1]"

definition noted_input :: tvalue where
  "noted_input = VObj [(''rows'', VArr [VObj []]), (''note'', VArr [])]"

lemma missing_property_searched_outwards:
  "checkTemplateFields noted_template noted_schema = [] \<and> validateTemplateInput noted_schema noted_input = [] \<and>
   render_blocks h opts [\<lparr>sc_value = noted_input, sc_index = None\<rparr>] noted_template [] fresh_evaluation =
     Inl (TEMPLATE_VALUE_INVALID Not_printable)"
  unfolding checkTemplateFields_Nil validate_iff
  by (simp add: noted_schema_def noted_template_def noted_input_def root_scope_def item_type_def
      schemaOfExpression_def placeholder_ok_def own_def missing_required_def ARRAY_ITEMS_def
      resolve_def each_items_def repeat_def fresh_evaluation_def REPEATED_ROWS_def
      enumerate_eq_zip item_scope_def line_runs_def format_def placeholder_text_def plainText_def invalid_def)

text \<open>A whole number within the safe range may be no time a \<open>Date\<close> holds: the formatter throws what nobody catches.\<close>

lemma date_beyond_range:
  "conforms SInteger (VNum (Finite 9000000000000000)) \<and>
   applyFormatter h opts Date (Some (VNum (Finite 9000000000000000))) scopes = Inl RANGE_ERROR"
  by (simp add: MAX_SAFE_INTEGER_def applyFormatter_def format_date_def instant_def MAX_TIME_def)

end
