(* ===== verification/Template_Shape.thy ===== *)
theory Template_Shape
  imports Template_Eval
begin

text \<open>
  What every rendered template looks like, whatever the values put into it: runs are not empty, neighbours
  differ in style and carry no control characters, tables are rectangular, lists of one kind do not touch,
  and the counters stay within their limits. Tables of the source have to be rectangular, which the parser
  makes them.
\<close>

section \<open>Runs\<close>

definition clean :: "string \<Rightarrow> bool" where
  "clean s = list_all (\<lambda>c. \<not> is_control c) s"

definition runs_fine :: "run list \<Rightarrow> bool" where
  "runs_fine rs = (list_all (\<lambda>r. run_text r \<noteq> [] \<and> clean (run_text r)) rs \<and> distinct_adj (map run_style rs))"

lemma clean_append [simp]: "clean (a @ b) \<longleftrightarrow> clean a \<and> clean b"
  by (simp add: clean_def)

lemma runs_fine_Nil [simp]: "runs_fine []"
  by (simp add: runs_fine_def)

lemma runs_fine_append: "runs_fine rs \<Longrightarrow> clean (run_text r) \<Longrightarrow> runs_fine (append_run rs r)"
proof (cases "rs = [] \<or> run_text r = []")
  case False
  then obtain ys y where rs: "rs = ys @ [y]" by (cases rs rule: rev_cases) auto
  assume "runs_fine rs" "clean (run_text r)"
  then show ?thesis
    using False unfolding rs runs_fine_def append_run_def by (auto simp: distinct_adj_append_iff)
qed (auto simp: runs_fine_def append_run_def)

lemma runs_fine_text: "runs_fine rs \<Longrightarrow> clean (runs_text rs)"
  unfolding runs_fine_def runs_text_def clean_def by (induction rs) (auto simp: list_all_iff)

lemma runs_fine_foldl: "runs_fine rs \<Longrightarrow> runs_fine label \<Longrightarrow> runs_fine (foldl append_run rs label)"
proof -
  have "runs_fine rs \<Longrightarrow> list_all (\<lambda>r. clean (run_text r)) label \<Longrightarrow> runs_fine (foldl append_run rs label)" for label
    by (induction label arbitrary: rs) (auto intro: runs_fine_append)
  then show "runs_fine rs \<Longrightarrow> runs_fine label \<Longrightarrow> ?thesis" by (auto simp: runs_fine_def list_all_iff)
qed

lemma clean_link: "clean ('' ('' @ url @ '')'') = clean url"
  by (auto simp: clean_def is_control_def code_def)

lemma runs_fine_link: "runs_fine rs \<Longrightarrow> runs_fine label \<Longrightarrow> clean url \<Longrightarrow> runs_fine (append_link st rs label url)"
  unfolding append_link_def Let_def using clean_link [of url] by (auto intro!: runs_fine_append runs_fine_foldl)

text \<open>The counters only grow, and stay within their limits.\<close>

definition counted :: "evaluation \<Rightarrow> bool" where
  "counted ev = (ev_rows ev \<le> REPEATED_ROWS \<and> ev_characters ev \<le> PRINTED_CHARACTERS)"

lemma printed_fine: "printed s ev = Inr p \<Longrightarrow> counted ev \<Longrightarrow> clean (fst p) \<and> counted (snd p)"
  by (auto simp: printed_def Let_def clean_def counted_def list_all_iff split: if_splits)

lemma format_fine: "format h opts ph scs ev = Inr p \<Longrightarrow> counted ev \<Longrightarrow> clean (fst p) \<and> counted (snd p)"
  unfolding format_def and_then_Inr by (metis printed_fine)

lemma run_code_fine:
  "run_code h opts scs st nodes rs ev = Inr p \<Longrightarrow> runs_fine rs \<Longrightarrow> counted ev \<Longrightarrow> runs_fine (fst p) \<and> counted (snd p)"
proof (induction h opts scs st nodes rs ev arbitrary: p rule: run_code.induct)
  case (2 h opts scs st s nodes rs ev)
  from 2(2) obtain q where q: "printed s ev = Inr q"
    "run_code h opts scs st nodes (append_run rs (Run (fst q) st)) (snd q) = Inr p"
    by (auto simp: and_then_Inr)
  show ?case using 2(1) [OF q] 2(3) printed_fine [OF q(1) 2(4)] by (simp add: runs_fine_append)
next
  case (3 h opts scs st ph nodes rs ev)
  from 3(2) obtain q where q: "format h opts ph scs ev = Inr q"
    "run_code h opts scs st nodes (append_run rs (Run (fst q) st)) (snd q) = Inr p"
    by (auto simp: and_then_Inr)
  show ?case using 3(1) [OF q] 3(3) format_fine [OF q(1) 3(4)] by (simp add: runs_fine_append)
qed auto

lemma runs_fine_runs:
  "runs h opts scs st nodes rs ev = Inr p \<Longrightarrow> runs_fine rs \<Longrightarrow> counted ev \<Longrightarrow> runs_fine (fst p) \<and> counted (snd p)"
proof (induction h opts scs st nodes rs ev arbitrary: p rule: runs.induct)
  case (2 h opts scs st s nodes rs ev)
  from 2(2) obtain q where q: "printed s ev = Inr q"
    "runs h opts scs st nodes (append_run rs (Run (fst q) st)) (snd q) = Inr p"
    by (auto simp: and_then_Inr)
  show ?case using 2(1) [OF q] 2(3) printed_fine [OF q(1) 2(4)] by (simp add: runs_fine_append)
next
  case (3 h opts scs st ph nodes rs ev)
  from 3(2) obtain q where q: "format h opts ph scs ev = Inr q"
    "runs h opts scs st nodes (append_run rs (Run (fst q) st)) (snd q) = Inr p"
    by (auto simp: and_then_Inr)
  show ?case using 3(1) [OF q] 3(3) format_fine [OF q(1) 3(4)] by (simp add: runs_fine_append)
next
  case (4 h opts scs st nodes rs ev)
  then show ?case using runs_fine_append [of rs "Run [CHR 10] st"] by (simp add: clean_def is_control_def code_def)
next
  case (7 h opts scs st cs nodes rs ev)
  from 7(2) obtain q where q: "run_code h opts scs (st\<lparr>st_code := True\<rparr>) cs rs ev = Inr q"
    "runs h opts scs st nodes (fst q) (snd q) = Inr p"
    by (auto simp: and_then_Inr)
  show ?case using 7(1) [OF q] run_code_fine [OF q(1) 7(3,4)] by simp
next
  case (8 h opts scs st cs url nodes rs ev)
  from 8(3) obtain label target where r: "runs h opts scs st cs [] ev = Inr label"
    "run_code h opts scs st url [] (snd label) = Inr target"
    "runs h opts scs st nodes (append_link st rs (fst label) (runs_text (fst target))) (snd target) = Inr p"
    by (auto simp: and_then_Inr)
  have l: "runs_fine (fst label) \<and> counted (snd label)" using 8(1) [OF r(1)] 8(5) by simp
  have t: "runs_fine (fst target) \<and> counted (snd target)" using run_code_fine [OF r(2)] l by simp
  show ?case using 8(2) [OF r(1,2,3)] 8(4) l t by (simp add: runs_fine_link runs_fine_text)
qed (auto simp: and_then_Inr)

lemma line_runs_fine: "line_runs h opts scs content ev = Inr p \<Longrightarrow> counted ev \<Longrightarrow> runs_fine (fst p) \<and> counted (snd p)"
  unfolding line_runs_def by (erule runs_fine_runs) simp_all

lemma cells_fine:
  "render_cells h opts scs cells ev = Inr p \<Longrightarrow> counted ev \<Longrightarrow>
     list_all runs_fine (fst p) \<and> length (fst p) = length cells \<and> counted (snd p)"
proof (induction cells arbitrary: ev p)
  case (Cons cell cells)
  from Cons.prems(1) obtain q r where q: "line_runs h opts scs cell ev = Inr q"
    "render_cells h opts scs cells (snd q) = Inr r" "p = (fst q # fst r, snd r)"
    by (auto simp: and_then_Inr)
  from line_runs_fine [OF q(1) Cons.prems(2)] Cons.IH [OF q(2)] show ?case by (simp add: q(3))
qed simp

section \<open>Lists and tables\<close>

fun list_fine :: "rendered_list \<Rightarrow> bool" and items_fine :: "rendered_item list \<Rightarrow> bool" where
  "list_fine (RList ordered start items) = items_fine items"
| "items_fine [] = True"
| "items_fine (RItem rs None # items) = (runs_fine rs \<and> items_fine items)"
| "items_fine (RItem rs (Some sub) # items) = (runs_fine rs \<and> list_fine sub \<and> items_fine items)"

lemma items_fine_append [simp]: "items_fine (xs @ ys) \<longleftrightarrow> items_fine xs \<and> items_fine ys"
proof (induction xs)
  case (Cons item xs)
  then show ?case by (cases "(item # xs)" rule: items_fine.cases) auto
qed simp

lemma render_list_fine:
  "render_list h opts scs l ev = Inr p \<Longrightarrow> counted ev \<Longrightarrow> list_fine (fst p) \<and> counted (snd p)"
  "render_items h opts scs items ev = Inr q \<Longrightarrow> counted ev \<Longrightarrow> items_fine (fst q) \<and> counted (snd q)"
proof (induction h opts scs l ev and h opts scs items ev arbitrary: p and q rule: render_list_render_items.induct)
  case (3 h opts scs content items ev)
  then show ?case using line_runs_fine [of h opts scs content ev] by (auto simp: and_then_Inr)
next
  case (4 h opts scs content sub items ev)
  then show ?case using line_runs_fine [of h opts scs content ev] by (fastforce simp: and_then_Inr)
qed (auto simp: and_then_Inr)

fun rows_rect :: "nat \<Rightarrow> row list \<Rightarrow> bool" where
  "rows_rect n [] = True"
| "rows_rect n (Row cells line # rows) = (length cells = n \<and> rows_rect n rows)"
| "rows_rect n (Row_each path children line # rows) = (rows_rect n children \<and> rows_rect n rows)"
| "rows_rect n (Row_if path yes no line # rows) = (rows_rect n yes \<and> rows_rect n no \<and> rows_rect n rows)"

text \<open>Every table has as many cells in its header and in each row as columns.\<close>

fun blocks_rect :: "block list \<Rightarrow> bool" where
  "blocks_rect [] = True"
| "blocks_rect (Table align header rows line # blocks) =
     (length header = length align \<and> rows_rect (length align) rows \<and> blocks_rect blocks)"
| "blocks_rect (Each path children line # blocks) = (blocks_rect children \<and> blocks_rect blocks)"
| "blocks_rect (If_block path yes no line # blocks) = (blocks_rect yes \<and> blocks_rect no \<and> blocks_rect blocks)"
| "blocks_rect (b # blocks) = blocks_rect blocks"

definition table_rows_fine :: "nat \<Rightarrow> run list list list \<Rightarrow> bool" where
  "table_rows_fine n rows = list_all (\<lambda>cells. length cells = n \<and> list_all runs_fine cells) rows"

lemma each_items_counted: "each_items path scs ev = Inr p \<Longrightarrow> counted ev \<Longrightarrow> counted (snd p)"
  by (auto simp: each_items_def repeat_def Let_def counted_def invalid_def and_then_Inr
      split: option.splits tvalue.splits if_splits)

lemma render_rows_fine:
  "render_rows h opts scs rows acc ev = Inr p \<Longrightarrow> rows_rect n rows \<Longrightarrow> table_rows_fine n acc \<Longrightarrow> counted ev \<Longrightarrow>
     table_rows_fine n (fst p) \<and> counted (snd p)"
proof (induction h opts scs rows acc ev arbitrary: p rule: render_rows.induct)
  case (2 h opts scs cells line rows acc ev)
  from 2(2) obtain q where q: "render_cells h opts scs cells ev = Inr q"
    "render_rows h opts scs rows (acc @ [fst q]) (snd q) = Inr p"
    by (auto simp: and_then_Inr)
  have "table_rows_fine n (acc @ [fst q]) \<and> counted (snd q)"
    using cells_fine [OF q(1)] 2(3,4,5) by (simp add: table_rows_fine_def)
  then show ?case using 2(1) [OF q] 2(3) by simp
next
  case (3 h opts scs path children line rows acc ev)
  from 3(3) obtain q s where q: "each_items path scs ev = Inr q"
    "for_each (\<lambda>s iv. render_rows h opts (item_scope iv # scs) children (fst s) (snd s)) (acc, snd q) (enumerate 0 (fst q)) = Inr s"
    "render_rows h opts scs rows (fst s) (snd s) = Inr p"
    by (auto simp: and_then_Inr)
  have "table_rows_fine n (fst s) \<and> counted (snd s)"
  proof (rule for_each_invariant [OF q(2)])
    show "table_rows_fine n (fst (acc, snd q)) \<and> counted (snd (acc, snd q))"
      using 3(5,6) each_items_counted [OF q(1)] by simp
  next
    fix t x t'
    assume "x \<in> set (enumerate 0 (fst q))" "table_rows_fine n (fst t) \<and> counted (snd t)"
      "render_rows h opts (item_scope x # scs) children (fst t) (snd t) = Inr t'"
    with 3(1) [OF q(1)] 3(4) show "table_rows_fine n (fst t') \<and> counted (snd t')" by simp
  qed
  then show ?case using 3(2) [OF q] 3(4) by simp
next
  case (4 h opts scs path yes no line rows acc ev)
  from 4(4) obtain s where s: "(if truthy (resolve path scs) then render_rows h opts scs yes acc ev
      else render_rows h opts scs no acc ev) = Inr s" "render_rows h opts scs rows (fst s) (snd s) = Inr p"
    by (auto simp: and_then_Inr)
  have "table_rows_fine n (fst s) \<and> counted (snd s)"
    using s(1) 4(1,2,5,6,7) by (cases "truthy (resolve path scs)") simp_all
  then show ?case using 4(3) [OF s] 4(5) by simp
qed simp

section \<open>Blocks\<close>

fun block_fine :: "rendered_block \<Rightarrow> bool" where
  "block_fine (RHeading level rs) = runs_fine rs"
| "block_fine (RParagraph rs) = runs_fine rs"
| "block_fine (RBlock_list l) = list_fine l"
| "block_fine (RQuote paragraphs) = list_all runs_fine paragraphs"
| "block_fine RRule = True"
| "block_fine RPagebreak = True"
| "block_fine (RTable align header rows) =
     (length header = length align \<and> list_all runs_fine header \<and> table_rows_fine (length align) rows)"

text \<open>Whether a block is a list, and of which kind.\<close>

fun list_kind :: "rendered_block \<Rightarrow> bool option" where
  "list_kind (RBlock_list (RList ordered start items)) = Some ordered"
| "list_kind _ = None"

definition lists_apart :: "rendered_block list \<Rightarrow> bool" where
  "lists_apart bs = successively (\<lambda>a b. list_kind a = None \<or> list_kind a \<noteq> list_kind b) bs"

definition blocks_fine :: "rendered_block list \<Rightarrow> bool" where
  "blocks_fine bs = (list_all block_fine bs \<and> lists_apart bs)"

lemma lists_apart_snoc:
  "lists_apart (bs @ [b]) \<longleftrightarrow> lists_apart bs \<and> (bs = [] \<or> list_kind (last bs) = None \<or> list_kind (last bs) \<noteq> list_kind b)"
  unfolding lists_apart_def by (auto simp: successively_append_iff)

lemma push_block_fine: "blocks_fine acc \<Longrightarrow> block_fine b \<Longrightarrow> list_kind b = None \<Longrightarrow> blocks_fine (acc @ [b])"
  by (auto simp: blocks_fine_def lists_apart_snoc)

lemma push_list_fine: "blocks_fine acc \<Longrightarrow> list_fine l \<Longrightarrow> blocks_fine (push_list acc l)"
proof -
  assume a: "blocks_fine acc" and l: "list_fine l"
  obtain ordered' start' items' where l': "l = RList ordered' start' items'" by (cases l)
  show ?thesis
  proof (cases acc rule: rev_cases)
    case Nil
    then show ?thesis using l by (simp add: push_list_def blocks_fine_def lists_apart_def)
  next
    case (snoc bs b)
    show ?thesis
    proof (cases "list_kind b = Some ordered'")
      case True
      then obtain start items where b: "b = RBlock_list (RList ordered' start items)"
        by (cases b rule: list_kind.cases) simp_all
      have "list_fine (RList ordered' start (items @ items'))"
        using a l unfolding snoc b l' by (simp add: blocks_fine_def)
      then show ?thesis
        using a unfolding snoc b l' push_list_def blocks_fine_def by (auto simp: lists_apart_snoc)
    next
      case False
      then have "push_list acc l = acc @ [RBlock_list l]"
        unfolding push_list_def snoc l' by (auto split: rendered_block.splits rendered_list.splits)
      then show ?thesis using a l False lists_apart_snoc [of acc "RBlock_list l"]
        unfolding blocks_fine_def snoc l' by simp
    qed
  qed
qed

lemma render_blocks_fine:
  "render_blocks h opts scs blocks acc ev = Inr p \<Longrightarrow> blocks_rect blocks \<Longrightarrow> blocks_fine acc \<Longrightarrow> counted ev \<Longrightarrow>
     blocks_fine (fst p) \<and> counted (snd p)"
proof (induction h opts scs blocks acc ev arbitrary: p rule: render_blocks.induct)
  case (2 h opts scs level content line blocks acc ev)
  from 2(2) obtain q where q: "line_runs h opts scs content ev = Inr q"
    "render_blocks h opts scs blocks (acc @ [RHeading level (fst q)]) (snd q) = Inr p"
    by (auto simp: and_then_Inr)
  show ?case using 2(1) [OF q] 2(3,4) line_runs_fine [OF q(1) 2(5)] by (simp add: push_block_fine)
next
  case (3 h opts scs content line blocks acc ev)
  from 3(2) obtain q where q: "line_runs h opts scs content ev = Inr q"
    "render_blocks h opts scs blocks (acc @ [RParagraph (fst q)]) (snd q) = Inr p"
    by (auto simp: and_then_Inr)
  show ?case using 3(1) [OF q] 3(3,4) line_runs_fine [OF q(1) 3(5)] by (simp add: push_block_fine)
next
  case (4 h opts scs l line blocks acc ev)
  from 4(2) obtain q where q: "render_list h opts scs l ev = Inr q"
    "render_blocks h opts scs blocks (push_list acc (fst q)) (snd q) = Inr p"
    by (auto simp: and_then_Inr)
  show ?case using 4(1) [OF q] 4(3,4) render_list_fine(1) [OF q(1) 4(5)] by (simp add: push_list_fine)
next
  case (5 h opts scs paragraphs line blocks acc ev)
  from 5(2) obtain q where q: "render_cells h opts scs paragraphs ev = Inr q"
    "render_blocks h opts scs blocks (acc @ [RQuote (fst q)]) (snd q) = Inr p"
    by (auto simp: and_then_Inr)
  show ?case using 5(1) [OF q] 5(3,4) cells_fine [OF q(1) 5(5)] by (simp add: push_block_fine)
next
  case (8 h opts scs align header rows line blocks acc ev)
  from 8(2) obtain body top where r: "render_rows h opts scs rows [] ev = Inr body"
    "render_cells h opts scs header (snd body) = Inr top"
    "render_blocks h opts scs blocks (acc @ [RTable align (fst top) (fst body)]) (snd top) = Inr p"
    by (auto simp: and_then_Inr)
  have b: "table_rows_fine (length align) (fst body) \<and> counted (snd body)"
    using render_rows_fine [OF r(1), of "length align"] 8(3,5) by (simp add: table_rows_fine_def)
  have t: "list_all runs_fine (fst top) \<and> length (fst top) = length align \<and> counted (snd top)"
    using cells_fine [OF r(2)] b 8(3) by simp
  show ?case using 8(1) [OF r] 8(3,4) b t by (simp add: push_block_fine)
next
  case (9 h opts scs path children line blocks acc ev)
  from 9(3) obtain q s where q: "each_items path scs ev = Inr q"
    "for_each (\<lambda>s iv. render_blocks h opts (item_scope iv # scs) children (fst s) (snd s)) (acc, snd q) (enumerate 0 (fst q)) = Inr s"
    "render_blocks h opts scs blocks (fst s) (snd s) = Inr p"
    by (auto simp: and_then_Inr)
  have "blocks_fine (fst s) \<and> counted (snd s)"
  proof (rule for_each_invariant [OF q(2)])
    show "blocks_fine (fst (acc, snd q)) \<and> counted (snd (acc, snd q))"
      using 9(5,6) each_items_counted [OF q(1)] by simp
  next
    fix t x t'
    assume "x \<in> set (enumerate 0 (fst q))" "blocks_fine (fst t) \<and> counted (snd t)"
      "render_blocks h opts (item_scope x # scs) children (fst t) (snd t) = Inr t'"
    with 9(1) [OF q(1)] 9(4) show "blocks_fine (fst t') \<and> counted (snd t')" by simp
  qed
  then show ?case using 9(2) [OF q] 9(4) by simp
next
  case (10 h opts scs path yes no line blocks acc ev)
  from 10(4) obtain s where s: "(if truthy (resolve path scs) then render_blocks h opts scs yes acc ev
      else render_blocks h opts scs no acc ev) = Inr s" "render_blocks h opts scs blocks (fst s) (snd s) = Inr p"
    by (auto simp: and_then_Inr)
  have "blocks_fine (fst s) \<and> counted (snd s)"
    using s(1) 10(1,2,5,6,7) by (cases "truthy (resolve path scs)") simp_all
  then show ?case using 10(3) [OF s] 10(5) by simp
qed (auto simp: push_block_fine)

end
