(* ===== verification/Template_Wellformed.thy ===== *)
theory Template_Wellformed
  imports Template_Parse Template_Sound Template_Shape
begin

text \<open>
  What the parser of document templates makes: its tables are rectangular, its lists nest once, its headings
  are of levels 1 to 3; its refusals are distinct and at most fifty; and a body without refusals nests its
  blocks at most eight deep. The last section shows that a text whose punctuation is escaped is read back.
\<close>

section \<open>Refusals\<close>

text \<open>Each parsing function only adds refusals, within the limit and without repetition.\<close>

definition issues_ok :: "issue list \<Rightarrow> bool" where
  "issues_ok issues = (length issues \<le> MAX_ISSUES \<and> distinct issues)"

definition grown :: "issue list \<Rightarrow> issue list \<Rightarrow> bool" where
  "grown a b = ((issues_ok a \<longrightarrow> issues_ok b) \<and> (b = [] \<longrightarrow> a = []))"

lemma grown_refl [simp, intro]: "grown a a"
  by (simp add: grown_def)

lemma grown_trans: "grown a b \<Longrightarrow> grown b c \<Longrightarrow> grown a c"
  by (auto simp: grown_def)

lemma grown_add [simp, intro]: "grown a (add_issue c w ws line a)"
  by (simp add: grown_def issues_ok_def add_issue_bound add_issue_distinct)

lemma grown_add_trans: "grown a b \<Longrightarrow> grown a (add_issue c w ws line b)"
  by (rule grown_trans [OF _ grown_add])

lemma grown_money: "grown issues (snd (parse_money arg line pc issues))"
  by (auto simp: parse_money_def split: option.splits expression.splits)

lemma grown_digits: "grown issues (snd (parse_digits arg line issues))"
  by (auto simp: parse_digits_def split: option.splits)

lemma grown_formatter: "grown issues (snd (parseFormatter text line pc issues))"
  unfolding parseFormatter_def Let_def
  by (simp add: grown_money grown_digits case_prod_unfold split: option.splits)

lemma grown_parseDirective: "grown issues (snd (parseDirective inner line issues))"
  by (simp add: parseDirective_def opening_directive_def case_prod_unfold split: option.splits expression.splits)

lemma grown_lineDirective: "grown issues (snd (lineDirective text line issues))"
  unfolding lineDirective_def Let_def by (simp add: grown_parseDirective case_prod_unfold)

lemma grown_placeholder: "grown issues (snd (placeholder_of inner line pc issues))"
  unfolding placeholder_of_def Let_def
  using grown_formatter [of issues "trim (the (snd (cut_at CHR ''|'' inner)))" line pc]
  by (auto simp: case_prod_unfold split: option.splits)

lemma grown_triple: "grown issues (triple_brace s line issues)"
  by (simp add: triple_brace_def)

lemma grown_atomsOf: "grown issues (snd (atomsOf s line pc issues))"
proof (induction s line pc issues rule: atomsOf.induct)
  case (2 c cs line pc issues)
  show ?case
  proof (cases "c = BACKSLASH \<and> cs \<noteq> [] \<and> is_punctuation (hd cs)")
    case True
    then show ?thesis using 2(1,2) by (simp add: Let_def case_prod_unfold)
  next
    case esc: False
    show ?thesis
    proof (cases "starts_with ''{{'' (c # cs)")
      case True
      let ?i1 = "triple_brace (c # cs) line issues"
      show ?thesis
      proof (cases "sub_index ''}}'' (tl cs)")
        case None
        then show ?thesis unfolding atomsOf.simps if_not_P [OF esc] if_P [OF True] using grown_add_trans [OF grown_triple] by (simp add: Let_def)
      next
        case (Some n)
        let ?p = "placeholder_of (trim (take n (tl cs))) line pc ?i1"
        have "grown issues (snd ?p)" by (rule grown_trans [OF grown_triple grown_placeholder])
        moreover have "grown (snd ?p) (snd (atomsOf (drop (n + 2) (tl cs)) line pc (snd ?p)))"
          using 2(3) [OF esc True refl Some, of ?p "fst ?p" "snd ?p"] by simp
        ultimately have "grown issues (snd (atomsOf (drop (n + 2) (tl cs)) line pc (snd ?p)))" by (rule grown_trans)
        then show ?thesis unfolding atomsOf.simps if_not_P [OF esc] if_P [OF True]
          using Some by (simp add: Let_def case_prod_unfold split: option.splits)
      qed
    next
      case False
      then show ?thesis unfolding atomsOf.simps if_not_P [OF esc] if_not_P [OF False]
        using 2(4) [OF esc False] by (simp add: case_prod_unfold Let_def)
    qed
  qed
qed simp

lemma grown_char: "grown issues (char_issues atoms i ch line issues)"
  unfolding char_issues_def Let_def by (simp add: grown_add_trans)

lemma grown_inlineNodes: "grown issues (snd (inlineNodes atoms i limit depth inLink nodes issues))"
proof (induction atoms i limit depth inLink nodes issues rule: inlineNodes.induct)
  case (1 atoms i limit depth inLink nodes issues)
  show ?case
  proof (cases "i < limit \<and> i < length atoms")
    case in_range: True
    then have nn: "\<not> \<not> (i < limit \<and> i < length atoms)" by simp
    note step = inlineNodes.simps [of atoms i limit depth inLink nodes issues, unfolded if_not_P [OF nn]]
    show ?thesis
    proof (cases "atoms ! i")
      case (APlace ph)
      show ?thesis unfolding step APlace atom.case by (rule 1(10) [OF nn APlace])
    next
      case ABreak
      show ?thesis unfolding step ABreak atom.case by (rule 1(11) [OF nn ABreak])
    next
      case (Char ch lit line)
      show ?thesis
      proof (cases lit)
        case True
        show ?thesis unfolding step Char atom.case if_P [OF True] by (rule 1(1) [OF nn Char True])
      next
        case lit: False
        let ?scan = "inlineScan atoms" and ?run = "min (sn_run (inlineScan atoms) ! i) (limit - i)"
        note IH = 1(2-9) [OF nn Char lit refl refl]
        show ?thesis
        proof (cases "ch = BACKTICK \<and> 0 < ?run")
          case code: True
          show ?thesis
          proof (cases "code_close ?scan i limit ?run")
            case None
            then show ?thesis unfolding step Char atom.case if_not_P [OF lit] Let_def if_P [OF code]
              using IH(1) [OF code None] by simp
          next
            case (Some close)
            then show ?thesis unfolding step Char atom.case if_not_P [OF lit] Let_def if_P [OF code]
              using IH(2) [OF code Some] by simp
          qed
        next
          case nocode: False
          let ?i1 = "char_issues atoms i ch line issues"
          have g1: "grown issues ?i1" by (rule grown_char)
          show ?thesis
          proof (cases "(ch = CHR ''*'' \<or> ch = CHR ''_'') \<and> 0 < ?run")
            case span: True
            let ?w = "if 2 \<le> ?run then 2 else 1 :: nat"
            show ?thesis
            proof (cases "span_close atoms ?scan i limit ch ?w depth")
              case None
              have "grown ?i1 (snd (inlineNodes atoms (i + ?run) limit depth inLink (push_text nodes (replicate ?run ch)) ?i1))"
                by (rule IH(3) [OF nocode refl span refl None])
              from grown_trans [OF g1 this] show ?thesis
                unfolding step Char atom.case if_not_P [OF lit] Let_def if_not_P [OF nocode] if_P [OF span] None by simp
            next
              case (Some close)
              let ?c = "inlineNodes atoms (i + ?w) close (depth + 1) inLink [] ?i1"
              have "grown ?i1 (snd ?c)" by (rule IH(4) [OF nocode refl span refl Some])
              moreover have "grown (snd ?c) (snd (inlineNodes atoms (close + ?w) limit depth inLink
                  (nodes @ [if ?w = 2 then Strong (fst ?c) else Emphasis (fst ?c)]) (snd ?c)))"
                by (rule IH(5) [OF nocode refl span refl Some refl]) simp
              ultimately have "grown issues (snd (inlineNodes atoms (close + ?w) limit depth inLink
                  (nodes @ [if ?w = 2 then Strong (fst ?c) else Emphasis (fst ?c)]) (snd ?c)))"
                using g1 grown_trans by blast
              then show ?thesis
                unfolding step Char atom.case if_not_P [OF lit] Let_def if_not_P [OF nocode] if_P [OF span] Some option.case
                by (simp only: case_prod_unfold)
            qed
          next
            case nospan: False
            let ?l = "if ch = CHR ''['' then link_close atoms ?scan i limit depth inLink else None"
            show ?thesis
            proof (cases ?l)
              case None
              have "grown ?i1 (snd (inlineNodes atoms (i + 1) limit depth inLink (push_text nodes [ch]) ?i1))"
                by (rule IH(6) [OF nocode refl nospan None])
              from grown_trans [OF g1 this] show ?thesis
                unfolding step Char atom.case if_not_P [OF lit] Let_def if_not_P [OF nocode] if_not_P [OF nospan] None
                by simp
            next
              case (Some ends)
              obtain labelEnd urlEnd where ends: "ends = (labelEnd, urlEnd)" by (cases ends)
              let ?c = "inlineNodes atoms (i + 1) labelEnd (depth + 1) True [] ?i1"
              have "grown ?i1 (snd ?c)" by (rule IH(7) [OF nocode refl nospan Some ends [symmetric]])
              moreover have "grown (snd ?c) (snd (inlineNodes atoms (urlEnd + 1) limit depth inLink
                  (nodes @ [Link (fst ?c) (codeChildren atoms (labelEnd + 2) urlEnd)]) (snd ?c)))"
                by (rule IH(8) [OF nocode refl nospan Some ends [symmetric] refl]) simp
              ultimately have "grown issues (snd (inlineNodes atoms (urlEnd + 1) limit depth inLink
                  (nodes @ [Link (fst ?c) (codeChildren atoms (labelEnd + 2) urlEnd)]) (snd ?c)))"
                using g1 grown_trans by blast
              then show ?thesis
                unfolding step Char atom.case if_not_P [OF lit] Let_def if_not_P [OF nocode] if_not_P [OF nospan]
                  Some ends option.case prod.case
                by (simp add: case_prod_unfold)
            qed
          qed
        qed
      qed
    qed
  next
    case False
    then show ?thesis by (subst inlineNodes.simps) simp
  qed
qed


lemma grown_segment_atoms: "grown issues (snd (segment_atoms before segs issues))"
proof (induction before segs issues rule: segment_atoms.induct)
  case (2 before s line hardBreak segs issues)
  let ?a = "atomsOf s line False issues"
  have "grown (snd ?a) (snd (segment_atoms (Some hardBreak) segs (snd ?a)))"
    by (rule 2 [of _ ?a "fst ?a" "snd ?a"]) simp_all
  then show ?case
    using grown_trans [OF grown_atomsOf [of issues s line False]] by (simp add: case_prod_unfold Let_def)
qed simp

lemma grown_parseInline: "grown issues (snd (parseInline segs issues))"
  using grown_trans [OF grown_segment_atoms [of issues None segs] grown_inlineNodes]
  by (simp add: parseInline_def case_prod_unfold Let_def)

lemma contents_grown: "grown issues (snd (parse_contents segss issues)) \<and> length (fst (parse_contents segss issues)) = length segss"
proof (induction segss arbitrary: issues)
  case (Cons segs segss)
  show ?case
    using Cons.IH [of "snd (parseInline segs issues)"] grown_trans [OF grown_parseInline [of issues segs]]
    by (simp add: case_prod_unfold Let_def)
qed simp

lemma grown_foldl_add: "grown issues (foldl (\<lambda>acc f. add_issue c (w f) (ws f) (l f) acc) issues xs)"
proof (induction xs arbitrary: issues)
  case (Cons x xs)
  show ?case using grown_trans [OF grown_add Cons.IH] by simp
qed simp

lemma grown_unclosed: "grown issues (unclosed w stack issues)"
  unfolding unclosed_def by (rule grown_foldl_add)

section \<open>Stacks of open blocks\<close>

definition frame_all :: "('b \<Rightarrow> bool) \<Rightarrow> 'b frame \<Rightarrow> bool" where
  "frame_all P f = (list_all P (fr_then f) \<and> list_all P (fr_otherwise f))"

lemma frame_all_push: "frame_all P f \<Longrightarrow> P b \<Longrightarrow> frame_all P (frame_push b f)"
  by (simp add: frame_all_def frame_push_def)

lemma frame_all_new [simp]: "frame_all P (new_frame kind line path)"
  by (simp add: frame_all_def new_frame_def)

text \<open>What closing a frame makes of its contents: \<open>good\<close> whatever happens, \<open>fit d\<close> when it nests at most \<open>d\<close> deep.\<close>

locale block_stack =
  fixes mk :: "'b frame \<Rightarrow> 'b" and good :: "'b \<Rightarrow> bool" and fit :: "nat \<Rightarrow> 'b \<Rightarrow> bool"
  assumes mk_good: "frame_all good f \<Longrightarrow> good (mk f)"
    and mk_fit: "frame_all (fit d) f \<Longrightarrow> fit (Suc d) (mk f)"
begin

fun stack_fits :: "'b frame list \<Rightarrow> bool" where
  "stack_fits [] = True"
| "stack_fits (f # fs) = (length fs \<le> BLOCK_DEPTH \<and> frame_all (fit (BLOCK_DEPTH - length fs)) f \<and> stack_fits fs)"

definition stack_inv :: "'b frame list \<Rightarrow> issue list \<Rightarrow> bool" where
  "stack_inv stack issues = (stack \<noteq> [] \<and> list_all (frame_all good) stack \<and> (issues = [] \<longrightarrow> stack_fits stack))"

lemma stack_inv_grown: "stack_inv stack a \<Longrightarrow> grown a b \<Longrightarrow> stack_inv stack b"
  by (auto simp: stack_inv_def grown_def)

lemma stack_inv_push:
  "stack_inv stack issues \<Longrightarrow> good b \<Longrightarrow> (issues = [] \<Longrightarrow> \<forall>d. fit d b) \<Longrightarrow> stack_inv (target_push b stack) issues"
  by (cases stack) (auto simp: stack_inv_def target_push_def frame_all_push)

lemma close_frame_inv: "stack_inv stack issues \<Longrightarrow> stack_inv (close_frame mk stack) issues"
proof -
  assume inv: "stack_inv stack issues"
  show ?thesis
  proof (cases "\<exists>popped parent rest. stack = popped # parent # rest")
    case True
    then obtain popped parent rest where stack: "stack = popped # parent # rest" by blast
    have "fit (BLOCK_DEPTH - length rest) (mk popped)"
      if "frame_all (fit (BLOCK_DEPTH - Suc (length rest))) popped" "Suc (length rest) \<le> BLOCK_DEPTH"
      using mk_fit [OF that(1)] that(2) by (simp add: Suc_diff_Suc Suc_le_eq)
    then show ?thesis
      using inv unfolding stack by (auto simp: stack_inv_def mk_good intro!: frame_all_push)
  next
    case False
    then have "close_frame mk stack = stack" by (cases stack; cases "tl stack") auto
    then show ?thesis using inv by simp
  qed
qed

lemma close_all_inv:
  "stack_inv stack issues \<Longrightarrow> stack_inv (close_all mk stack) issues \<and> length (close_all mk stack) = 1"
proof (induction "length stack" arbitrary: stack)
  case 0
  then show ?case by (simp add: stack_inv_def)
next
  case (Suc n)
  show ?case
  proof (cases "\<exists>popped parent rest. stack = popped # parent # rest")
    case True
    then obtain popped parent rest where stack: "stack = popped # parent # rest" by blast
    have "stack_inv (frame_push (mk popped) parent # rest) issues"
      using close_frame_inv [OF Suc(3)] by (simp add: stack)
    then show ?thesis using Suc(1) [of "frame_push (mk popped) parent # rest"] Suc(2) by (simp add: stack)
  next
    case False
    then have "close_all mk stack = stack" "length stack = 1"
      using Suc(2) by (cases stack; cases "tl stack"; simp)+
    then show ?thesis using Suc(3) by simp
  qed
qed

text \<open>What is left at the end: the contents of the root.\<close>

lemma close_all_root:
  assumes "stack_inv stack issues"
  shows "list_all good (fr_then (hd (close_all mk stack))) \<and>
    (issues = [] \<longrightarrow> list_all (fit BLOCK_DEPTH) (fr_then (hd (close_all mk stack))))"
proof -
  obtain f where f: "close_all mk stack = [f]"
    using close_all_inv [OF assms] by (metis One_nat_def length_0_conv length_Suc_conv)
  show ?thesis using close_all_inv [OF assms] by (simp add: f stack_inv_def frame_all_def)
qed

lemma stack_inv_root: "stack_inv [root_frame line] issues"
  by (simp add: stack_inv_def root_frame_def)

lemma open_frame_inv:
  assumes "stack_inv stack issues"
  shows "stack_inv (fst (open_frame kind path line stack issues)) (snd (open_frame kind path line stack issues)) \<and>
    grown issues (snd (open_frame kind path line stack issues))"
  using assms by (auto simp: open_frame_def stack_inv_def)

lemma else_frame_inv:
  assumes "stack_inv stack issues"
  shows "stack_inv (fst (else_frame line stack issues)) (snd (else_frame line stack issues)) \<and>
    grown issues (snd (else_frame line stack issues))"
  using assms by (cases stack) (auto simp: else_frame_def stack_inv_def frame_all_def)

lemma end_frame_inv:
  assumes "stack_inv stack issues"
  shows "stack_inv (fst (end_frame (close_frame mk) w kind line stack issues)) (snd (end_frame (close_frame mk) w kind line stack issues)) \<and>
    grown issues (snd (end_frame (close_frame mk) w kind line stack issues))"
  using assms close_frame_inv [OF assms]
  by (cases stack) (auto simp: end_frame_def intro: stack_inv_grown)

end

section \<open>Rows and tables\<close>

lemma rows_rect_list: "rows_rect n rows \<longleftrightarrow> list_all (\<lambda>r. rows_rect n [r]) rows"
  by (induction rows rule: rows_rect.induct) auto

fun rows_fit :: "nat \<Rightarrow> row list \<Rightarrow> bool" where
  "rows_fit d [] = True"
| "rows_fit d (Row cells line # rows) = rows_fit d rows"
| "rows_fit d (Row_each path children line # rows) = (0 < d \<and> rows_fit (d - 1) children \<and> rows_fit d rows)"
| "rows_fit d (Row_if path yes no line # rows) =
     (0 < d \<and> rows_fit (d - 1) yes \<and> rows_fit (d - 1) no \<and> rows_fit d rows)"

lemma rows_fit_list: "rows_fit d rows \<longleftrightarrow> list_all (\<lambda>r. rows_fit d [r]) rows"
  by (induction d rows rule: rows_fit.induct) auto

interpretation row_stack: block_stack row_of_frame "\<lambda>r. rows_rect n [r]" "\<lambda>d r. rows_fit d [r]" for n
proof
  fix f :: "row frame" and d
  assume "frame_all (\<lambda>r. rows_rect n [r]) f"
  then show "rows_rect n [row_of_frame f]"
    by (simp add: frame_all_def row_of_frame_def rows_rect_list [symmetric])
next
  fix f :: "row frame" and d
  assume "frame_all (\<lambda>r. rows_fit d [r]) f"
  then show "rows_fit (Suc d) [row_of_frame f]"
    by (simp add: frame_all_def row_of_frame_def rows_fit_list [symmetric])
qed

abbreviation row_inv :: "nat \<Rightarrow> row frame list \<Rightarrow> issue list \<Rightarrow> bool" where
  "row_inv n \<equiv> row_stack.stack_inv n"

lemma applyRowDirective_inv:
  assumes "row_inv n stack issues"
  shows "row_inv n (fst (applyRowDirective d line stack issues)) (snd (applyRowDirective d line stack issues)) \<and>
    grown issues (snd (applyRowDirective d line stack issues))"
  using row_stack.open_frame_inv [OF assms] row_stack.else_frame_inv [OF assms] row_stack.end_frame_inv [OF assms]
  by (simp add: applyRowDirective_def closeRowFrame_def [abs_def] split: directive.splits)

lemma table_row_inv:
  assumes "row_inv n stack issues"
  shows "row_inv n (fst (table_row n text line stack issues)) (snd (table_row n text line stack issues)) \<and>
    grown issues (snd (table_row n text line stack issues))"
proof -
  let ?cells = "tableCells text"
  let ?i1 = "if n < length ?cells
      then add_issue TEMPLATE_TABLE 1 [show_nat (length ?cells), show_nat n] (Some line) issues else issues"
  let ?c = "parse_contents (row_segments n ?cells line) ?i1"
  have g: "grown issues (snd ?c)"
    using grown_trans [of issues ?i1 "snd ?c"] contents_grown [of ?i1] by (simp split: if_splits)
  have "rows_rect n [Row (fst ?c) line]" using contents_grown [of ?i1] by (simp add: row_segments_def)
  then show ?thesis
    using row_stack.stack_inv_push [OF row_stack.stack_inv_grown [OF assms g]] g
    by (simp add: table_row_def Let_def case_prod_unfold)
qed

lemma table_rows_inv:
  "row_inv n stack issues \<Longrightarrow>
     (case table_rows n rest line stack issues taken of (stack', issues', taken') \<Rightarrow>
        row_inv n stack' issues' \<and> grown issues issues')"
proof (induction n rest line stack issues taken rule: table_rows.induct)
  case (2 n s rest line stack issues taken)
  let ?d = "lineDirective s line issues"
  have g: "grown issues (snd ?d)" by (rule grown_lineDirective)
  note inv = row_stack.stack_inv_grown [OF 2(4) g]
  show ?case
  proof (cases "trim s = []")
    case True
    then show ?thesis using 2(4) by simp
  next
    case False
    obtain dd issues1 where d: "?d = (dd, issues1)" by (cases ?d)
    show ?thesis
    proof (cases dd)
      case None
      show ?thesis
      proof (cases "hasPipe s")
        case pipe: True
        let ?r = "table_row n s line stack issues1"
        have r: "row_inv n (fst ?r) (snd ?r)" "grown issues1 (snd ?r)"
          using table_row_inv [of n stack issues1 s line] inv d by simp_all
        show ?thesis
          using 2(1) [OF False d [symmetric] None _ _ _ r(1)] pipe r(2) g False d None
          by (auto simp: case_prod_unfold Let_def intro: grown_trans)
      next
        case False
        then show ?thesis using \<open>trim s \<noteq> []\<close> d None inv g by simp
      qed
    next
      case (Some di)
      show ?thesis
      proof (cases di)
        case None
        then show ?thesis using 2(2) [OF False d [symmetric] Some None] inv g False d Some
          by (auto intro: grown_trans split: prod.splits)
      next
        case (Some de)
        let ?r = "applyRowDirective de line stack issues1"
        have r: "row_inv n (fst ?r) (snd ?r)" "grown issues1 (snd ?r)"
          using applyRowDirective_inv [of n stack issues1 de line] inv d by simp_all
        show ?thesis
          using 2(3) [OF False d [symmetric] \<open>dd = Some di\<close> Some _ _ r(1)] r(2) g False d Some \<open>dd = Some di\<close>
          by (auto simp: case_prod_unfold Let_def intro: grown_trans)
      qed
    qed
  qed
qed simp

lemma parseTable_parts:
  "case parseTable s rest line aligns issues of (b, issues', taken) \<Rightarrow>
     grown issues issues' \<and>
     (\<exists>header rows. b = Table aligns header rows line \<and> length header = length aligns \<and>
        rows_rect (length aligns) rows \<and> (issues' = [] \<longrightarrow> rows_fit BLOCK_DEPTH rows))"
proof -
  let ?n = "length aligns"
  let ?cells = "tableCells s"
  let ?i1 = "if length ?cells \<noteq> ?n
      then add_issue TEMPLATE_TABLE 2 [show_nat (length ?cells), show_nat ?n] (Some line) issues else issues"
  let ?c = "parse_contents (row_segments ?n ?cells line) ?i1"
  obtain stack issues3 taken where t: "table_rows ?n rest (line + 2) [root_frame line] (snd ?c) 0 = (stack, issues3, taken)"
    by (cases "table_rows ?n rest (line + 2) [root_frame line] (snd ?c) 0") auto
  have g: "grown issues (snd ?c)"
    using grown_trans [of issues ?i1 "snd ?c"] contents_grown [of ?i1] by (simp split: if_splits)
  have inv: "row_inv ?n stack issues3" "grown (snd ?c) issues3"
    using table_rows_inv [OF row_stack.stack_inv_root [of ?n line "snd ?c"], of rest "line + 2" 0] t by simp_all
  have g3: "grown issues3 (unclosed 13 stack issues3)" by (rule grown_unclosed)
  have root: "rows_rect ?n (fr_then (hd (close_all row_of_frame stack)))"
    "unclosed 13 stack issues3 = [] \<longrightarrow> rows_fit BLOCK_DEPTH (fr_then (hd (close_all row_of_frame stack)))"
    using row_stack.close_all_root [OF row_stack.stack_inv_grown [OF inv(1) g3]]
    by (simp_all add: rows_rect_list [symmetric] rows_fit_list [symmetric])
  have "length (fst ?c) = ?n" using contents_grown [of ?i1] by (simp add: row_segments_def)
  then show ?thesis
    using root grown_trans [OF grown_trans [OF g inv(2)] g3] t
    by (simp add: parseTable_def Let_def case_prod_unfold)
qed

section \<open>Blocks\<close>

fun levels_ok :: "block list \<Rightarrow> bool" where
  "levels_ok [] = True"
| "levels_ok (Heading level content line # blocks) = (1 \<le> level \<and> level \<le> 3 \<and> levels_ok blocks)"
| "levels_ok (Each path children line # blocks) = (levels_ok children \<and> levels_ok blocks)"
| "levels_ok (If_block path yes no line # blocks) = (levels_ok yes \<and> levels_ok no \<and> levels_ok blocks)"
| "levels_ok (b # blocks) = levels_ok blocks"

definition blocks_good :: "block list \<Rightarrow> bool" where
  "blocks_good bs = (blocks_rect bs \<and> blocks_shallow bs \<and> levels_ok bs)"

text \<open>Blocks that nest at most \<open>d\<close> deep, the rows of their tables at most \<open>BLOCK_DEPTH\<close>.\<close>

fun blocks_fit :: "nat \<Rightarrow> block list \<Rightarrow> bool" where
  "blocks_fit d [] = True"
| "blocks_fit d (Table align header rows line # blocks) = (rows_fit BLOCK_DEPTH rows \<and> blocks_fit d blocks)"
| "blocks_fit d (Each path children line # blocks) = (0 < d \<and> blocks_fit (d - 1) children \<and> blocks_fit d blocks)"
| "blocks_fit d (If_block path yes no line # blocks) =
     (0 < d \<and> blocks_fit (d - 1) yes \<and> blocks_fit (d - 1) no \<and> blocks_fit d blocks)"
| "blocks_fit d (b # blocks) = blocks_fit d blocks"

lemma blocks_rect_list: "blocks_rect bs \<longleftrightarrow> list_all (\<lambda>b. blocks_rect [b]) bs"
  by (induction bs rule: blocks_rect.induct) auto

lemma blocks_shallow_list: "blocks_shallow bs \<longleftrightarrow> list_all (\<lambda>b. blocks_shallow [b]) bs"
  by (induction bs rule: blocks_shallow.induct) auto

lemma levels_ok_list: "levels_ok bs \<longleftrightarrow> list_all (\<lambda>b. levels_ok [b]) bs"
  by (induction bs rule: levels_ok.induct) auto

lemma blocks_good_list: "blocks_good bs \<longleftrightarrow> list_all (\<lambda>b. blocks_good [b]) bs"
  unfolding blocks_good_def
  using blocks_rect_list [of bs] blocks_shallow_list [of bs] levels_ok_list [of bs] by (auto simp: list_all_iff)

lemma blocks_fit_list: "blocks_fit d bs \<longleftrightarrow> list_all (\<lambda>b. blocks_fit d [b]) bs"
  by (induction d bs rule: blocks_fit.induct) auto

interpretation body_stack: block_stack block_of_frame "\<lambda>b. blocks_good [b]" "\<lambda>d b. blocks_fit d [b]"
proof
  fix f :: "block frame" and d
  assume "frame_all (\<lambda>b. blocks_good [b]) f"
  then show "blocks_good [block_of_frame f]"
    unfolding frame_all_def blocks_good_list [symmetric] by (simp add: blocks_good_def block_of_frame_def)
next
  fix f :: "block frame" and d
  assume "frame_all (\<lambda>b. blocks_fit d [b]) f"
  then show "blocks_fit (Suc d) [block_of_frame f]"
    by (simp add: frame_all_def block_of_frame_def blocks_fit_list [symmetric])
qed

lemma applyDirective_inv:
  assumes "body_stack.stack_inv stack issues"
  shows "body_stack.stack_inv (fst (applyDirective d line stack issues)) (snd (applyDirective d line stack issues)) \<and>
    grown issues (snd (applyDirective d line stack issues))"
  using body_stack.open_frame_inv [OF assms] body_stack.else_frame_inv [OF assms] body_stack.end_frame_inv [OF assms]
  by (simp add: applyDirective_def closeContainer_def [abs_def] split: directive.splits)

section \<open>The parser\<close>

definition parser_inv :: "parser \<Rightarrow> bool" where
  "parser_inv p = body_stack.stack_inv (pr_stack p) (pr_issues p)"

definition advances :: "parser \<Rightarrow> parser \<Rightarrow> bool" where
  "advances p p' = ((parser_inv p \<longrightarrow> parser_inv p') \<and> grown (pr_issues p) (pr_issues p'))"

lemma advances_refl [simp]: "advances p p"
  by (simp add: advances_def)

lemma advances_trans: "advances p q \<Longrightarrow> advances q r \<Longrightarrow> advances p r"
  by (auto simp: advances_def intro: grown_trans)

lemma advances_same:
  "pr_stack p' = pr_stack p \<Longrightarrow> grown (pr_issues p) (pr_issues p') \<Longrightarrow> advances p p'"
  using body_stack.stack_inv_grown by (auto simp: advances_def parser_inv_def)

lemma advances_refuse: "advances p q \<Longrightarrow> advances p (refuse c w line q)"
  by (erule advances_trans) (rule advances_same; simp add: refuse_def)

lemma advances_push:
  assumes "grown (pr_issues p) (pr_issues q)" and "pr_stack q = pr_stack p" and "blocks_good [b]"
    and "pr_issues q = [] \<Longrightarrow> \<forall>d. blocks_fit d [b]"
  shows "advances p (push_block b q)"
  using assms body_stack.stack_inv_grown body_stack.stack_inv_push
  by (auto simp: advances_def parser_inv_def push_block_def)

lemma advances_paragraph: "advances p (flushParagraph p)"
  using grown_parseInline [of "pr_issues p" "pr_paragraph p"]
  by (auto simp: flushParagraph_def Let_def case_prod_unfold blocks_good_def intro!: advances_push)

lemma sublist_shallow:
  "grown issues (snd (parse_sublist sub issues)) \<and>
   (case fst (parse_sublist sub issues) of
      None \<Rightarrow> True
    | Some (TList o' s' subitems) \<Rightarrow> list_all (\<lambda>sub. case sub of TItem c deeper \<Rightarrow> deeper = None) subitems)"
  using contents_grown by (auto simp: parse_sublist_def Let_def case_prod_unfold list_all_iff split: option.splits)

lemma items_shallow:
  "grown issues (snd (parse_items items issues)) \<and> list_shallow (TList ordered start (fst (parse_items items issues)))"
proof (induction items arbitrary: issues)
  case (Cons item items)
  let ?c = "parseInline (oi_lines item) issues"
  let ?s = "parse_sublist (oi_sublist item) (snd ?c)"
  have "grown issues (snd ?s)"
    using grown_trans [OF grown_parseInline [of issues "oi_lines item"]] sublist_shallow by blast
  then have "grown issues (snd (parse_items items (snd ?s)))" using Cons.IH grown_trans by blast
  then show ?case
    using Cons.IH [of "snd ?s"] sublist_shallow [of "snd ?c" "oi_sublist item"]
    by (simp add: Let_def case_prod_unfold split: option.splits)
qed simp

lemma advances_list: "advances p (flushList p)"
proof (cases "pr_list p")
  case (Some l)
  then show ?thesis
    using items_shallow [of "pr_issues p" "ol_items l" "ol_ordered l" "ol_start l"]
    by (auto simp: flushList_def Let_def case_prod_unfold blocks_good_def simp del: list_shallow.simps intro!: advances_push)
qed (simp add: flushList_def)

lemma advances_quote: "advances p (flushQuote p)"
  using contents_grown
  by (auto simp: flushQuote_def Let_def case_prod_unfold blocks_good_def split: option.splits intro!: advances_push)

lemma advances_all: "advances p (flushAll p)"
  unfolding flushAll_def using advances_paragraph advances_list advances_quote advances_trans by blast

lemma advances_leaf:
  "advances p q \<Longrightarrow> blocks_good [b] \<Longrightarrow> \<forall>d. blocks_fit d [b] \<Longrightarrow> advances p (push_block b q)"
  by (erule advances_trans) (rule advances_push; simp)

lemma headingOf_level:
  assumes "headingOf s = Some (level, content)"
  shows "1 \<le> level"
proof (cases "dedent s")
  case (Some r)
  define n where "n = length (takeWhile (\<lambda>c. c = CHR ''#'') r)"
  show ?thesis
    using assms unfolding headingOf_def Some option.case Let_def n_def [symmetric] by (auto split: if_split_asm)
qed (use assms in \<open>simp add: headingOf_def\<close>)

lemma advances_heading: "1 \<le> level \<Longrightarrow> advances p (heading_line level content line p)"
proof -
  assume "1 \<le> level"
  let ?p1 = "flushAll p"
  let ?c = "parseInline [segment content line] (pr_issues ?p1)"
  have "advances ?p1 (push_block (Heading level (fst ?c) line) (?p1\<lparr>pr_issues := snd ?c\<rparr>))" if "level \<le> 3"
    using \<open>1 \<le> level\<close> that grown_parseInline by (intro advances_push) (simp_all add: blocks_good_def)
  then show ?thesis
    using advances_trans [OF advances_all] advances_refuse [OF advances_all]
    by (simp add: heading_line_def Let_def case_prod_unfold)
qed

lemma advances_quote_line: "advances p (quote_line s line p)"
proof -
  have 1: "advances p (flushList (flushParagraph p))"
    using advances_paragraph advances_list advances_trans by blast
  have keep: "advances p (q\<lparr>pr_quote := x\<rparr>)" if "advances p q" for q x
    by (rule advances_trans [OF that]) (rule advances_same; simp)
  show ?thesis unfolding quote_line_def Let_def using 1 advances_refuse [OF 1] by (auto intro: keep)
qed

lemma advances_set_list: "advances p q \<Longrightarrow> advances p (q\<lparr>pr_list := l\<rparr>)"
  by (erule advances_trans) (rule advances_same; simp)

lemma advances_new_item: "advances p (new_item ordered start indent line entry p)"
proof -
  have "advances p (case pr_list p of None \<Rightarrow> p | Some l \<Rightarrow> if ol_ordered l \<noteq> ordered then flushList p else p)"
    using advances_list by (simp split: option.split)
  then show ?thesis unfolding new_item_def Let_def by (rule advances_set_list)
qed

lemma advances_item: "advances p (item_line indent number s line p)"
proof -
  have 1: "advances p (flushParagraph p)" by (rule advances_paragraph)
  show ?thesis
    unfolding item_line_def Let_def
    using advances_refuse [OF 1] advances_set_list [OF 1] advances_trans [OF 1 advances_new_item]
    by (auto split: option.splits)
qed

lemma advances_text: "advances p (text_line s line p)"
proof -
  have "advances p (p\<lparr>pr_paragraph := x\<rparr>)" for x by (rule advances_same) simp_all
  then show ?thesis
    unfolding text_line_def using advances_refuse [OF advances_refl] advances_set_list [OF advances_refl]
    by (simp split: option.splits)
qed

lemma advances_directive: "advances p (directive_line d line p)"
proof -
  let ?p1 = "flushAll p"
  have "advances ?p1 (?p1\<lparr>pr_stack := fst r, pr_issues := snd r\<rparr>)"
    if r: "r = applyDirective de line (pr_stack ?p1) (pr_issues ?p1)" for r de
  proof (cases "parser_inv ?p1")
    case True
    then show ?thesis
      using applyDirective_inv [of "pr_stack ?p1" "pr_issues ?p1" de line] r by (simp add: advances_def parser_inv_def)
  next
    case False
    have "grown (pr_issues ?p1) (snd r)"
      unfolding r applyDirective_def open_frame_def else_frame_def end_frame_def
      by (simp split: directive.splits list.splits)
    then show ?thesis using False by (simp add: advances_def)
  qed
  then show ?thesis
    using advances_trans [OF advances_all] advances_all
    by (simp add: directive_line_def Let_def case_prod_unfold split: option.splits)
qed

lemma advances_table: "advances p (fst (table_lines s rest line aligns p))"
proof -
  let ?p1 = "flushAll p"
  obtain b issues taken where t: "parseTable s rest line aligns (pr_issues ?p1) = (b, issues, taken)"
    by (cases "parseTable s rest line aligns (pr_issues ?p1)") auto
  note parts = parseTable_parts [where s = s and rest = rest and line = line and aligns = aligns and issues = "pr_issues ?p1", unfolded t prod.case]
  have "advances ?p1 (push_block b (?p1\<lparr>pr_issues := issues\<rparr>))"
    using parts by (intro advances_push) (auto simp: blocks_good_def)
  then show ?thesis
    using advances_trans [OF advances_all] by (simp add: table_lines_def Let_def t)
qed

lemma advances_definition: "advances p (definition_line label line p)"
  by (simp add: definition_line_def advances_refuse advances_all)

lemma advances_content: "advances p (fst (content_line s rest line p))"
proof -
  have rule: "advances p (push_block (Rule line) (flushAll p))" "advances p (push_block (Pagebreak line) (flushAll p))"
    by (intro advances_leaf advances_all; simp add: blocks_good_def)+
  show ?thesis
    unfolding content_line_def
    using rule headingOf_level
    by (auto simp: Let_def case_prod_unfold
        intro!: advances_refuse advances_all advances_definition advances_heading advances_quote_line advances_table
          advances_item advances_text
        split: option.splits)
qed

lemma advances_line: "advances p (fst (parse_line s rest line p))"
proof -
  define p1 where "p1 = (if pr_quote p \<noteq> None \<and> QUOTE s = None then flushQuote p else p)"
  obtain d issues where d: "lineDirective s line (pr_issues p1) = (d, issues)" by fastforce
  define p2 where "p2 = p1\<lparr>pr_issues := issues\<rparr>"
  have 1: "advances p p1" unfolding p1_def using advances_quote by simp
  have "grown (pr_issues p1) issues" using grown_lineDirective [of "pr_issues p1" s line] d by simp
  then have "advances p1 p2" unfolding p2_def by (intro advances_same) simp_all
  then have 2: "advances p p2" using advances_trans [OF 1] by blast
  have "parse_line s rest line p =
      (if trim s = [] then (flushAll p1, 0)
       else case d of Some directive \<Rightarrow> (directive_line directive line p2, 0) | None \<Rightarrow> content_line s rest line p2)"
    unfolding parse_line_def Let_def p1_def [symmetric] d prod.case p2_def ..
  then show ?thesis
    using advances_trans [OF 1 advances_all] advances_trans [OF 2 advances_directive] advances_trans [OF 2 advances_content]
    by (simp split: option.split)
qed

lemma advances_lines: "advances p (parse_lines ls line p)"
proof (induction ls line p rule: parse_lines.induct)
  case (2 s rest line p)
  show ?case
    using 2 [of _ "fst (parse_line s rest line p)" "snd (parse_line s rest line p)"]
      advances_trans [OF advances_line [of p s rest line]]
    by (simp add: Let_def case_prod_unfold)
qed simp

lemma grown_comments: "grown issues (snd (stripComments ls line issues))"
proof (induction ls line issues rule: stripComments.induct)
  case (2 l ls line issues)
  show ?case
  proof (cases "starts_with ''<!--'' (trim l)")
    case False
    then show ?thesis using 2(1) [OF False] by (simp add: case_prod_unfold Let_def)
  next
    case True
    show ?thesis
    proof (cases "comment_end (comment_opening l # ls)")
      case None
      then show ?thesis using True by (simp del: comment_end.simps)
    next
      case (Some nr)
      obtain n rest where nr: "nr = (n, rest)" by (cases nr)
      let ?i1 = "if trim rest \<noteq> [] then add_issue TEMPLATE_HTML 3 [] (Some (line + n - 1)) issues else issues"
      have "grown ?i1 (snd (stripComments (drop (n - 1) ls) (line + n) ?i1))"
        by (rule 2(2) [OF _ Some nr [symmetric] refl]) (use True in simp)
      moreover have "grown issues ?i1" by simp
      ultimately have "grown issues (snd (stripComments (drop (n - 1) ls) (line + n) ?i1))" using grown_trans by blast
      then show ?thesis
        using True unfolding stripComments.simps Some nr option.case prod.case by (simp add: Let_def case_prod_unfold)
    qed
  qed
qed simp

lemma parsed_wellformed:
  assumes "parseTemplate body = (blocks, issues)"
  shows "blocks_good blocks \<and> issues_ok issues \<and>
    (issues = [] \<longrightarrow> blocks_fit BLOCK_DEPTH blocks \<and> length body \<le> BODY_CHARACTERS)"
proof (cases "BODY_CHARACTERS < length body")
  case True
  then show ?thesis
    using assms by (auto simp: parseTemplate_def blocks_good_def add_issue_def issues_ok_def MAX_ISSUES_def)
next
  case False
  let ?c = "stripComments (split_lines body) 1 []"
  let ?p = "flushAll (parse_lines (map expandTabs (fst ?c)) 1 (new_parser (snd ?c)))"
  have adv: "advances (new_parser (snd ?c)) ?p"
    using advances_trans [OF advances_lines advances_all] .
  have "parser_inv (new_parser (snd ?c))"
    by (simp add: parser_inv_def new_parser_def body_stack.stack_inv_root)
  then have inv: "body_stack.stack_inv (pr_stack ?p) (pr_issues ?p)"
    using adv by (simp add: advances_def parser_inv_def)
  have g: "grown (pr_issues ?p) (unclosed 15 (pr_stack ?p) (pr_issues ?p))" by (rule grown_unclosed)
  note root = body_stack.close_all_root [OF body_stack.stack_inv_grown [OF inv g]]
  have eq: "blocks = fr_then (hd (close_all block_of_frame (pr_stack ?p)))"
    "issues = unclosed 15 (pr_stack ?p) (pr_issues ?p)"
    using assms False by (simp_all add: parseTemplate_def Let_def case_prod_unfold)
  have "issues_ok []" by (simp add: issues_ok_def)
  then have "issues_ok (snd ?c)" using grown_comments [of "[]" "split_lines body" 1] by (simp add: grown_def)
  moreover have "grown (snd ?c) (pr_issues ?p)"
    using adv [unfolded advances_def, THEN conjunct2] by (simp only: new_parser_def parser.simps)
  then have "grown (snd ?c) issues" unfolding eq(2) using g by (rule grown_trans)
  ultimately have "issues_ok issues" unfolding grown_def by blast
  then show ?thesis
    using root False unfolding eq blocks_good_list [symmetric] blocks_fit_list [symmetric] by simp
qed

end
