(* ===== verification/Template_Compile.thy ===== *)
theory Template_Compile
  imports Template_Wellformed
begin

text \<open>
  Compiling one version of a document template, from \<open>modules/documents/src/domain/template-compile.ts\<close>:
  the layout with its absent fields filled in, and the body, the title, the header and the footer parsed and
  checked against the input schema. The theorems compose the parser, the checker, the input check and the
  renderer: a compiled template rendered for an input its schema accepts.
\<close>

section \<open>Layouts\<close>

record margins =
  mg_top :: int
  mg_right :: int
  mg_bottom :: int
  mg_left :: int

record layout =
  ly_pageSize :: string
  ly_margins :: margins
  ly_header :: "string option"
  ly_footer :: "string option"
  ly_title :: string

definition DOCUMENT_TEMPLATE_PAGE_SIZES :: "string list" where
  "DOCUMENT_TEMPLATE_PAGE_SIZES = [''A4'', ''Letter'']"

definition DOCUMENT_TEMPLATE_LOCALES :: "string list" where
  "DOCUMENT_TEMPLATE_LOCALES = [''en'', ''pl'']"

definition DOCUMENT_TEMPLATE_FORMATS :: "string list" where
  "DOCUMENT_TEMPLATE_FORMATS = [''pdf'', ''docx'']"

definition DEFAULT_TEMPLATE_MARGINS :: margins where
  "DEFAULT_TEMPLATE_MARGINS = \<lparr>mg_top = 20, mg_right = 20, mg_bottom = 20, mg_left = 20\<rparr>"

definition MARGIN_MIN_MM :: rat where "MARGIN_MIN_MM = 5"
definition MARGIN_MAX_MM :: rat where "MARGIN_MAX_MM = 60"

definition layoutIssue :: "nat \<Rightarrow> string list \<Rightarrow> issue" where
  "layoutIssue wording ws = \<lparr>is_code = TEMPLATE_LAYOUT, is_wording = wording, is_words = ws, is_line = None\<rparr>"

definition is_object :: "tvalue \<Rightarrow> bool" where
  "is_object v = (case v of VObj kvs \<Rightarrow> True | _ \<Rightarrow> False)"

definition margin_value :: "tvalue \<Rightarrow> int option" where
  "margin_value v =
     (case v of
        VNum (Finite q) \<Rightarrow>
          if isSafeInteger (Finite q) \<and> MARGIN_MIN_MM \<le> q \<and> q \<le> MARGIN_MAX_MM then Some \<lfloor>q\<rfloor> else None
      | _ \<Rightarrow> None)"

text \<open>One side of the margins: absent, refused, or set.\<close>

definition margin_side ::
    "(string \<times> tvalue) list \<Rightarrow> string \<Rightarrow> (int \<Rightarrow> margins \<Rightarrow> margins) \<Rightarrow> margins \<times> issue list \<Rightarrow> margins \<times> issue list" where
  "margin_side given side put mi =
     (case own given side of
        None \<Rightarrow> mi
      | Some v \<Rightarrow>
          (case margin_value v of
             Some n \<Rightarrow> (put n (fst mi), snd mi)
           | None \<Rightarrow> (fst mi, snd mi @ [layoutIssue 2 [side]])))"

definition layout_margins :: "(string \<times> tvalue) list \<Rightarrow> margins \<times> issue list" where
  "layout_margins source =
     (case own source ''margins'' of
        None \<Rightarrow> (DEFAULT_TEMPLATE_MARGINS, [])
      | Some (VObj given) \<Rightarrow>
          margin_side given ''left'' (\<lambda>n m. m\<lparr>mg_left := n\<rparr>)
            (margin_side given ''bottom'' (\<lambda>n m. m\<lparr>mg_bottom := n\<rparr>)
              (margin_side given ''right'' (\<lambda>n m. m\<lparr>mg_right := n\<rparr>)
                (margin_side given ''top'' (\<lambda>n m. m\<lparr>mg_top := n\<rparr>) (DEFAULT_TEMPLATE_MARGINS, []))))
      | Some _ \<Rightarrow> (DEFAULT_TEMPLATE_MARGINS, [layoutIssue 3 []]))"

text \<open>A header or footer line: blank is none.\<close>

definition layout_line :: "(string \<times> tvalue) list \<Rightarrow> string \<Rightarrow> string option \<times> issue list" where
  "layout_line source field =
     (case own source field of
        None \<Rightarrow> (None, [])
      | Some VNull \<Rightarrow> (None, [])
      | Some (VStr s) \<Rightarrow> (if trim s = [] then None else Some s, [])
      | Some _ \<Rightarrow> (None, [layoutIssue 4 [field]]))"

definition layout_title :: "(string \<times> tvalue) list \<Rightarrow> string \<Rightarrow> string \<times> issue list" where
  "layout_title source fallback =
     (case own source ''title'' of
        None \<Rightarrow> (fallback, [])
      | Some VNull \<Rightarrow> (fallback, [])
      | Some (VStr s) \<Rightarrow> (if trim s = [] then fallback else s, [])
      | Some _ \<Rightarrow> (fallback, [layoutIssue 5 []]))"

text \<open>\<open>source.pageSize ?? 'A4'\<close>.\<close>

definition page_size :: "(string \<times> tvalue) list \<Rightarrow> string \<times> issue list" where
  "page_size source =
     (case own source ''pageSize'' of
        None \<Rightarrow> (''A4'', [])
      | Some VNull \<Rightarrow> (''A4'', [])
      | Some (VStr s) \<Rightarrow>
          if s \<in> set DOCUMENT_TEMPLATE_PAGE_SIZES then (s, []) else (''A4'', [layoutIssue 1 []])
      | Some _ \<Rightarrow> (''A4'', [layoutIssue 1 []]))"

definition normalizeTemplateLayout :: "tvalue option \<Rightarrow> string \<Rightarrow> layout \<times> issue list" where
  "normalizeTemplateLayout v fallbackTitle =
     (let source = (case v of Some (VObj kvs) \<Rightarrow> kvs | _ \<Rightarrow> []);
          i0 = (case v of None \<Rightarrow> [] | Some x \<Rightarrow> if x = VNull \<or> is_object x then [] else [layoutIssue 6 []]);
          (size, i1) = page_size source;
          (margins, i2) = layout_margins source;
          (header, i3) = layout_line source ''header'';
          (footer, i4) = layout_line source ''footer'';
          (title, i5) = layout_title source fallbackTitle
      in (\<lparr>ly_pageSize = size, ly_margins = margins, ly_header = header, ly_footer = footer, ly_title = title\<rparr>,
          i0 @ i1 @ i2 @ i3 @ i4 @ i5))"

section \<open>Compiling\<close>

record template_content =
  tc_body :: tvalue
  tc_layout :: layout
  tc_inputSchema :: tvalue
  tc_locale :: string
  tc_format :: string

definition plain_issue :: "issue_code \<Rightarrow> nat \<Rightarrow> issue" where
  "plain_issue c wording = \<lparr>is_code = c, is_wording = wording, is_words = [], is_line = None\<rparr>"

text \<open>A one-line field parsed and, when it parses, checked.\<close>

definition compile_line :: "line_field \<Rightarrow> string option \<Rightarrow> tschema \<Rightarrow> code_child list option \<times> issue list" where
  "compile_line field text schema =
     (case text of
        None \<Rightarrow> (None, [])
      | Some s \<Rightarrow>
          let (content, issues) = parseTemplateLine s field in
          (Some content, issues @ (if issues = [] then checkTemplateLineFields content schema else [])))"

definition content_issues :: "template_content \<Rightarrow> issue list" where
  "content_issues content =
     (if tc_locale content \<notin> set DOCUMENT_TEMPLATE_LOCALES then [layoutIssue 7 []] else []) @
     (if tc_format content \<notin> set DOCUMENT_TEMPLATE_FORMATS then [layoutIssue 8 []] else [])"

definition compile_parts :: "string \<Rightarrow> layout \<Rightarrow> tschema \<Rightarrow> compiled_parts \<times> issue list" where
  "compile_parts body ly schema =
     (let (blocks, i1) = parseTemplate body;
          i2 = (if i1 = [] then checkTemplateFields blocks schema else []);
          (title, i3) = compile_line F_title (Some (ly_title ly)) schema;
          (header, i4) = compile_line F_header (ly_header ly) schema;
          (footer, i5) = compile_line F_footer (ly_footer ly) schema
      in (\<lparr>cp_blocks = blocks, cp_title = (case title of None \<Rightarrow> [] | Some t \<Rightarrow> t), cp_header = header, cp_footer = footer\<rparr>,
          i1 @ i2 @ i3 @ i4 @ i5))"

definition compileTemplate :: "template_content \<Rightarrow> compiled_parts option \<times> issue list" where
  "compileTemplate content =
     (if templateSchemaProblem (tc_inputSchema content) \<noteq> None then (None, [plain_issue TEMPLATE_SCHEMA_INVALID 1])
      else
        (case tc_body content of
           VStr body \<Rightarrow>
             let (parts, parsed) = compile_parts body (tc_layout content) (schema_of (tc_inputSchema content));
                 issues = content_issues content @ parsed
             in (if issues = [] then Some parts else None, issues)
         | _ \<Rightarrow> (None, content_issues content @ [plain_issue TEMPLATE_SYNTAX 4])))"

section \<open>Layouts are within their limits\<close>

definition margin_ok :: "int \<Rightarrow> bool" where
  "margin_ok n = (5 \<le> n \<and> n \<le> 60)"

definition layout_ok :: "layout \<Rightarrow> bool" where
  "layout_ok ly =
     (ly_pageSize ly \<in> set DOCUMENT_TEMPLATE_PAGE_SIZES \<and>
      margin_ok (mg_top (ly_margins ly)) \<and> margin_ok (mg_right (ly_margins ly)) \<and>
      margin_ok (mg_bottom (ly_margins ly)) \<and> margin_ok (mg_left (ly_margins ly)) \<and>
      ly_header ly \<noteq> Some [] \<and> ly_footer ly \<noteq> Some [])"

lemma margin_value_ok: "margin_value v = Some n \<Longrightarrow> margin_ok n"
  by (auto simp: margin_value_def margin_ok_def MARGIN_MIN_MM_def MARGIN_MAX_MM_def le_floor_iff floor_le_iff
      simp del: isSafeInteger.simps split: tvalue.splits js_number.splits if_splits)

lemma margin_side_ok:
  assumes "P (fst mi)" and "\<And>n m. margin_ok n \<Longrightarrow> P m \<Longrightarrow> P (put n m)"
  shows "P (fst (margin_side given side put mi))"
  using assms margin_value_ok by (auto simp: margin_side_def split: option.splits)

definition margins_ok :: "margins \<Rightarrow> bool" where
  "margins_ok m = (margin_ok (mg_top m) \<and> margin_ok (mg_right m) \<and> margin_ok (mg_bottom m) \<and> margin_ok (mg_left m))"

lemma layout_margins_ok: "margins_ok (fst (layout_margins source))"
proof -
  have default: "margins_ok DEFAULT_TEMPLATE_MARGINS"
    by (simp add: margins_ok_def DEFAULT_TEMPLATE_MARGINS_def margin_ok_def)
  have "margins_ok (fst (margin_side given ''left'' (\<lambda>n m. m\<lparr>mg_left := n\<rparr>)
            (margin_side given ''bottom'' (\<lambda>n m. m\<lparr>mg_bottom := n\<rparr>)
              (margin_side given ''right'' (\<lambda>n m. m\<lparr>mg_right := n\<rparr>)
                (margin_side given ''top'' (\<lambda>n m. m\<lparr>mg_top := n\<rparr>) (DEFAULT_TEMPLATE_MARGINS, []))))))" for given
    by (intro margin_side_ok [where P = margins_ok]) (use default in \<open>simp_all add: margins_ok_def\<close>)
  then show ?thesis unfolding layout_margins_def using default by (simp split: option.split tvalue.split)
qed

lemma page_size_ok: "fst (page_size source) \<in> set DOCUMENT_TEMPLATE_PAGE_SIZES"
proof -
  have "''A4'' \<in> set DOCUMENT_TEMPLATE_PAGE_SIZES" by (simp add: DOCUMENT_TEMPLATE_PAGE_SIZES_def)
  then show ?thesis by (simp add: page_size_def split: option.split tvalue.split)
qed

lemma layout_line_ok: "fst (layout_line source field) \<noteq> Some []"
proof -
  have "trim [] = []" by (simp add: trim_def)
  then show ?thesis by (auto simp: layout_line_def split: option.split tvalue.split)
qed

lemma normalized_layout_ok: "layout_ok (fst (normalizeTemplateLayout v fallback))"
  unfolding normalizeTemplateLayout_def Let_def case_prod_unfold layout_ok_def
  using layout_margins_ok page_size_ok layout_line_ok by (simp add: margins_ok_def)

section \<open>Compiled templates\<close>

lemma compiled_parts_cases:
  assumes "compileTemplate content = (Some tpl, issues)"
  shows "\<exists>body. tc_body content = VStr body \<and> templateSchemaProblem (tc_inputSchema content) = None \<and>
    compile_parts body (tc_layout content) (schema_of (tc_inputSchema content)) = (tpl, []) \<and> issues = []"
  using assms
  by (auto simp: compileTemplate_def Let_def case_prod_unfold prod_eq_iff split: tvalue.splits if_splits)

lemma compile_line_ok:
  "snd (compile_line field text schema) = [] \<Longrightarrow> fst (compile_line field text schema) = Some nodes \<Longrightarrow>
     code_ok (root_scope schema) nodes"
  by (auto simp: compile_line_def Let_def case_prod_unfold checkTemplateLineFields_Nil split: option.splits if_splits)

lemma compile_parts_ok:
  assumes "compile_parts body ly schema = (tpl, [])"
  shows "parts_ok schema tpl \<and> blocks_good (cp_blocks tpl) \<and> blocks_fit BLOCK_DEPTH (cp_blocks tpl)"
proof -
  let ?t = "compile_line F_title (Some (ly_title ly)) schema"
  let ?h = "compile_line F_header (ly_header ly) schema"
  let ?f = "compile_line F_footer (ly_footer ly) schema"
  obtain blocks i1 where p: "parseTemplate body = (blocks, i1)" by fastforce
  have tpl: "i1 = []" "checkTemplateFields blocks schema = []" "snd ?t = []" "snd ?h = []" "snd ?f = []"
    "tpl = \<lparr>cp_blocks = blocks, cp_title = (case fst ?t of None \<Rightarrow> [] | Some t \<Rightarrow> t), cp_header = fst ?h, cp_footer = fst ?f\<rparr>"
    using assms by (auto simp: compile_parts_def p Let_def case_prod_unfold split: if_splits)
  have "code_ok (root_scope schema) (case fst ?t of None \<Rightarrow> [] | Some t \<Rightarrow> t)"
    using compile_line_ok [OF tpl(3)] by (cases "fst ?t") (simp_all add: code_ok_def)
  then show ?thesis
    using parsed_wellformed [OF p] tpl compile_line_ok [OF tpl(4)] compile_line_ok [OF tpl(5)]
    by (simp add: parts_ok_def checkTemplateFields_Nil blocks_good_def)
qed

lemma compiled_safe:
  assumes "compileTemplate content = (Some tpl, issues)"
    and "validateTemplateInput (schema_of (tc_inputSchema content)) input = []"
    and "covers False (schema_of (tc_inputSchema content)) input"
    and "evaluateTemplate h tpl input opts = Inl e"
  shows "residual e"
proof -
  from compiled_parts_cases [OF assms(1)] obtain body where
    "compile_parts body (tc_layout content) (schema_of (tc_inputSchema content)) = (tpl, [])" by blast
  then have "parts_ok (schema_of (tc_inputSchema content)) tpl" using compile_parts_ok by blast
  from safe_template [OF this _ assms(3), of h opts] assms(2,4) show ?thesis
    by (simp add: validate_iff)
qed

definition rendered_fine :: "rendered_template \<Rightarrow> bool" where
  "rendered_fine r = (blocks_fine (rt_blocks r) \<and> rt_repeatedRows r \<le> REPEATED_ROWS)"

lemma margin_parts_counted:
  "margin_parts h opts scs nodes parts ev = Inr p \<Longrightarrow> counted ev \<Longrightarrow> counted (snd p)"
proof (induction nodes arbitrary: parts ev)
  case (Cons node nodes)
  show ?case
  proof (cases "page_counter node")
    case (Some c)
    then show ?thesis using Cons by simp
  next
    case None
    then obtain q where q: "code_child_text h opts scs node ev = Inr q"
      "margin_parts h opts scs nodes (append_part parts (fst q)) (snd q) = Inr p"
      using Cons.prems(1) by (auto simp: and_then_Inr)
    have "counted (snd q)"
      using q(1) Cons.prems(2) printed_fine format_fine by (cases node) (auto simp: code_child_text_def)
    then show ?thesis using Cons.IH [OF q(2)] by blast
  qed
qed auto

lemma marginLine_counted: "marginLine h opts scs content ev = Inr p \<Longrightarrow> counted ev \<Longrightarrow> counted (snd p)"
  using margin_parts_counted by (auto simp: marginLine_def and_then_Inr split: option.splits)

lemma compiled_renders_fine:
  assumes "compileTemplate content = (Some tpl, issues)" and "evaluateTemplate h tpl input opts = Inr r"
  shows "rendered_fine r"
proof -
  from compiled_parts_cases [OF assms(1)] obtain body where
    "compile_parts body (tc_layout content) (schema_of (tc_inputSchema content)) = (tpl, [])" by blast
  then have rect: "blocks_rect (cp_blocks tpl)" using compile_parts_ok by (auto simp: blocks_good_def)
  let ?scs = "[\<lparr>sc_value = input, sc_index = None\<rparr>]"
  from assms(2) obtain b t hd' f where ev: "render_blocks h opts ?scs (cp_blocks tpl) [] fresh_evaluation = Inr b"
    "run_code h opts ?scs plain_style (cp_title tpl) [] (snd b) = Inr t"
    "marginLine h opts ?scs (cp_header tpl) (snd t) = Inr hd'"
    "marginLine h opts ?scs (cp_footer tpl) (snd hd') = Inr f"
    "rt_blocks r = fst b" "rt_repeatedRows r = ev_rows (snd f)"
    by (auto simp: evaluateTemplate_def Let_def and_then_Inr)
  have "counted fresh_evaluation" by (simp add: counted_def fresh_evaluation_def)
  then have 1: "blocks_fine (fst b) \<and> counted (snd b)"
    using render_blocks_fine [OF ev(1) rect] by (simp add: blocks_fine_def lists_apart_def)
  then have "counted (snd t)" using run_code_fine [OF ev(2)] by simp
  then have "counted (snd f)" using marginLine_counted [OF ev(3)] marginLine_counted [OF ev(4)] by blast
  then show ?thesis using 1 ev(5,6) by (simp add: rendered_fine_def counted_def)
qed

end
