(* ===== verification/Template_Escape.thy ===== *)
theory Template_Escape
  imports Template_Parse
begin

text \<open>
  A text whose punctuation is escaped is one paragraph that says exactly that text: no block, tag, span or
  placeholder is opened by what an author escaped. The text is one line without white space at its ends; a
  backslash at its very end is a hard break and is left out.
\<close>

definition escape_text :: "string \<Rightarrow> string" where
  "escape_text s = concat (map (\<lambda>c. if is_punctuation c then [BACKSLASH, c] else [c]) s)"

lemma escape_text_simps [simp]:
  "escape_text [] = []"
  "escape_text (c # s) = (if is_punctuation c then [BACKSLASH, c] else [c]) @ escape_text s"
  by (simp_all add: escape_text_def)

lemma escape_text_Nil [simp]: "escape_text s = [] \<longleftrightarrow> s = []"
  by (cases s) auto

lemma starts_with_Cons: "starts_with (p # ps) s \<longleftrightarrow> (\<exists>cs. s = p # cs \<and> starts_with ps cs)"
  by (cases s) (auto simp: starts_with_def)

lemma starts_with_Nil [simp]: "starts_with [] s"
  by (simp add: starts_with_def)

lemma backslash_punctuation [simp]: "is_punctuation BACKSLASH"
  by (simp add: is_punctuation_def BACKSLASH_def code_def)

text \<open>The first character of an escaped text is a backslash or no punctuation.\<close>

lemma hd_escape: "s \<noteq> [] \<Longrightarrow> hd (escape_text s) = (if is_punctuation (hd s) then BACKSLASH else hd s)"
  by (cases s) auto

lemma escape_head: "escape_text s = c # cs \<Longrightarrow> is_punctuation c \<Longrightarrow> c = BACKSLASH"
  by (cases s) (auto split: if_splits)

lemma escape_not_started: "is_punctuation p \<Longrightarrow> p \<noteq> BACKSLASH \<Longrightarrow> \<not> starts_with (p # ps) (escape_text s)"
  using escape_head [of s] by (auto simp: starts_with_Cons)

lemma punctuation_marks:
  "is_punctuation CHR ''{''" "is_punctuation CHR ''|''" "is_punctuation CHR ''<''" "is_punctuation CHR ''-''"
  "is_punctuation CHR ''#''" "is_punctuation CHR ''*''" "is_punctuation CHR ''_''" "is_punctuation CHR ''[''"
  "is_punctuation CHR ''>''" "is_punctuation CHR ''=''" "is_punctuation CHR ''~''" "is_punctuation BACKTICK"
  "is_punctuation CHR ''+''" "is_punctuation CHR ''.''" "is_punctuation CHR '')''" "is_punctuation CHR ''!''"
  by (simp_all add: is_punctuation_def code_def BACKTICK_def)

lemma marks_differ:
  "CHR ''{'' \<noteq> BACKSLASH" "CHR ''|'' \<noteq> BACKSLASH" "CHR ''<'' \<noteq> BACKSLASH" "CHR ''-'' \<noteq> BACKSLASH"
  "CHR ''#'' \<noteq> BACKSLASH" "CHR ''*'' \<noteq> BACKSLASH" "CHR ''_'' \<noteq> BACKSLASH" "CHR ''['' \<noteq> BACKSLASH"
  "CHR ''>'' \<noteq> BACKSLASH" "CHR ''='' \<noteq> BACKSLASH" "CHR ''~'' \<noteq> BACKSLASH" "BACKTICK \<noteq> BACKSLASH"
  "CHR ''+'' \<noteq> BACKSLASH" "CHR ''.'' \<noteq> BACKSLASH" "CHR '')'' \<noteq> BACKSLASH" "CHR ''!'' \<noteq> BACKSLASH"
  by (simp_all add: BACKSLASH_def BACKTICK_def)

lemmas not_started = escape_not_started [OF punctuation_marks(1) marks_differ(1)]
  escape_not_started [OF punctuation_marks(2) marks_differ(2)] escape_not_started [OF punctuation_marks(3) marks_differ(3)]
  escape_not_started [OF punctuation_marks(8) marks_differ(8)] escape_not_started [OF punctuation_marks(9) marks_differ(9)]
  escape_not_started [OF punctuation_marks(10) marks_differ(10)] escape_not_started [OF punctuation_marks(11) marks_differ(11)]
  escape_not_started [OF punctuation_marks(12) marks_differ(12)]

section \<open>Atoms and nodes\<close>

definition escaped_atoms :: "nat \<Rightarrow> string \<Rightarrow> atom list" where
  "escaped_atoms line s = map (\<lambda>c. Char c (is_punctuation c) line) s"

lemma braces_not_started: "\<not> starts_with ''{{'' (c # escape_text s)"
  using not_started(1) [of "[]" s] by (auto simp: starts_with_Cons)

lemma atoms_of_escaped: "atomsOf (escape_text s) line pc issues = (escaped_atoms line s, issues)"
proof (induction s)
  case (Cons c s)
  show ?case
  proof (cases "is_punctuation c")
    case True
    then show ?thesis using Cons braces_not_started [of c s] by (simp add: escaped_atoms_def)
  next
    case False
    then have "c \<noteq> BACKSLASH" by auto
    then show ?thesis using Cons False braces_not_started [of c s] by (simp add: escaped_atoms_def)
  qed
qed (simp add: escaped_atoms_def)

lemma nth_escaped: "i < length s \<Longrightarrow> escaped_atoms line s ! i = Char (s ! i) (is_punctuation (s ! i)) line"
  by (simp add: escaped_atoms_def)

lemma char_issues_plain: "\<not> is_punctuation ch \<Longrightarrow> char_issues atoms i ch line issues = issues"
  using punctuation_marks(3,8,16) by (auto simp: char_issues_def Let_def)

lemma nodes_of_escaped:
  "i \<le> length s \<Longrightarrow>
     inlineNodes (escaped_atoms line s) i (length s) depth inLink nodes issues =
       (foldl push_text nodes (map (\<lambda>c. [c]) (drop i s)), issues)"
proof (induction "length s - i" arbitrary: i nodes)
  case 0
  then show ?case by (subst inlineNodes.simps) simp
next
  case (Suc n)
  then have i: "i < length s" by simp
  have len: "length (escaped_atoms line s) = length s" by (simp add: escaped_atoms_def)
  have drop: "drop i s = s ! i # drop (Suc i) s" using Cons_nth_drop_Suc [OF i] by simp
  have IH: "inlineNodes (escaped_atoms line s) (i + 1) (length s) depth inLink (push_text nodes [s ! i]) issues =
      (foldl push_text (push_text nodes [s ! i]) (map (\<lambda>c. [c]) (drop (Suc i) s)), issues)"
    using Suc(1) [of "i + 1" "push_text nodes [s ! i]"] Suc(2,3) by simp
  show ?case
  proof (cases "is_punctuation (s ! i)")
    case True
    then show ?thesis using i len IH drop by (subst inlineNodes.simps) (simp add: nth_escaped)
  next
    case False
    then have "s ! i \<noteq> BACKTICK" "s ! i \<noteq> CHR ''*''" "s ! i \<noteq> CHR ''_''" "s ! i \<noteq> CHR ''[''"
      using punctuation_marks by auto
    then show ?thesis using i len IH drop False char_issues_plain [OF False]
      by (subst inlineNodes.simps) (simp add: nth_escaped Let_def)
  qed
qed

lemma push_text_chars: "foldl push_text [Text t] (map (\<lambda>c. [c]) s) = [Text (t @ s)]"
  by (induction s arbitrary: t) (simp_all add: push_text_def)

lemma nodes_of_text: "s \<noteq> [] \<Longrightarrow> foldl push_text [] (map (\<lambda>c. [c]) s) = [Text s]"
  by (cases s) (simp_all add: push_text_def push_text_chars)

section \<open>The line opens no block\<close>

definition plain_line :: "string \<Rightarrow> bool" where
  "plain_line s =
     (s \<noteq> [] \<and> trim s = s \<and> CHR 13 \<notin> set s \<and> CHR 10 \<notin> set s \<and> last s \<noteq> BACKSLASH)"

lemma space_not_punctuation: "is_space c \<Longrightarrow> \<not> is_punctuation c"
  by (auto simp: is_space_def is_punctuation_def Let_def)

lemma last_escape: "s \<noteq> [] \<Longrightarrow> last (escape_text s) = last s"
  by (induction s) auto

lemma plain_ends: "plain_line s \<Longrightarrow> s \<noteq> [] \<and> \<not> is_space (hd s) \<and> \<not> is_space (last s)"
  using trim_ends [of s] by (auto simp: plain_line_def)

lemma space_backslash: "\<not> is_space BACKSLASH"
  using space_not_punctuation by force

lemma escape_ends:
  assumes "plain_line s"
  shows "\<not> is_space (hd (escape_text s))" "\<not> is_space (last (escape_text s))" "trim (escape_text s) = escape_text s"
proof -
  note e = plain_ends [OF assms]
  show 1: "\<not> is_space (hd (escape_text s))" using e hd_escape [of s] space_backslash by simp
  show 2: "\<not> is_space (last (escape_text s))" using e last_escape [of s] by simp
  show "trim (escape_text s) = escape_text s" by (rule trim_id) (use 1 2 in simp)
qed

lemma space_or_tab_space: "space_or_tab c \<Longrightarrow> is_space c"
  by (auto simp: space_or_tab_def BLANK_def TAB_def is_space_def code_def)

lemma code_eqD: "code c = code d \<Longrightarrow> c = d"
  unfolding code_def by (simp only: of_char_eq_iff)

lemma split_lines_one: "CHR 13 \<notin> set s \<Longrightarrow> CHR 10 \<notin> set s \<Longrightarrow> split_lines s = [s]"
proof (induction s)
  case (Cons c s)
  have "code c \<noteq> 13" "code c \<noteq> 10"
    using Cons.prems code_eqD [of c "CHR 13"] code_eqD [of c "CHR 10"] by (auto simp: code_def)
  then show ?case using Cons by simp
qed simp

lemma escape_no_newline: "c \<in> set (escape_text s) \<Longrightarrow> c \<noteq> BACKSLASH \<Longrightarrow> c \<in> set s"
  by (induction s) (auto split: if_splits)

lemma split_plain:
  "\<not> (c = BACKSLASH \<and> starts_with ''|'' cs) \<Longrightarrow> \<not> starts_with ''{{'' (c # cs) \<Longrightarrow> c \<noteq> CHR ''|'' \<Longrightarrow>
     split_cells (c # cs) current = split_cells cs (current @ [c])"
  by (subst split_cells.simps) (simp only: if_False simp_thms)

lemma split_bar: "split_cells (BACKSLASH # CHR ''|'' # cs) current = split_cells cs (current @ [BACKSLASH, CHR ''|''])"
  by (simp add: starts_with_Cons)

lemma split_escaped: "split_cells (escape_text s) current = [trim (current @ escape_text s)]"
proof (induction s arbitrary: current)
  case (Cons c s)
  have pipe: "\<not> starts_with ''|'' (escape_text s)" using not_started(2) by blast
  have brace: "\<not> starts_with ''{{'' (d # escape_text s)" for d by (rule braces_not_started)
  have brace2: "\<not> starts_with ''{{'' (BACKSLASH # cs)" for cs
    using marks_differ(1) by (simp add: starts_with_Cons)
  have plain: "split_cells (c # escape_text s) cur = [trim (cur @ c # escape_text s)]" if "c \<noteq> CHR ''|''" for cur
    using split_plain [of c "escape_text s" cur] pipe brace that Cons [of "cur @ [c]"] by simp
  show ?case
  proof (cases "is_punctuation c")
    case True
    then have esc: "escape_text (c # s) = BACKSLASH # c # escape_text s" by simp
    show ?thesis
    proof (cases "c = CHR ''|''")
      case True
      have "split_cells (BACKSLASH # c # escape_text s) current = split_cells (escape_text s) (current @ [BACKSLASH, c])"
        unfolding True by (rule split_bar)
      then show ?thesis unfolding Cons esc by (simp only: append_assoc append.simps)
    next
      case False
      have "split_cells (BACKSLASH # c # escape_text s) current = split_cells (c # escape_text s) (current @ [BACKSLASH])"
        by (rule split_plain) (use brace2 False marks_differ(2) in \<open>auto simp: starts_with_Cons\<close>)
      then show ?thesis unfolding esc using plain [OF False, of "current @ [BACKSLASH]"] by simp
    qed
  next
    case False
    then have "c \<noteq> CHR ''|''" using punctuation_marks(2) by auto
    then show ?thesis using plain [of current] False by simp
  qed
qed simp

lemma ends_with_snoc: "ends_with [c] s \<longleftrightarrow> s \<noteq> [] \<and> last s = c"
  by (cases s rule: rev_cases) (auto simp: ends_with_def starts_with_Cons)

lemma escape_snoc: "escape_text (s @ t) = escape_text s @ escape_text t"
  by (simp add: escape_text_def)

lemma strip_escaped: "strip_pipes (escape_text s) = escape_text s"
proof -
  have "ends_with [BACKSLASH, CHR ''|''] (escape_text s)" if "ends_with ''|'' (escape_text s)"
  proof -
    from that have ne: "s \<noteq> []" by (auto simp: ends_with_snoc)
    then obtain u c where s: "s = u @ [c]" by (cases s rule: rev_cases) auto
    with that last_escape [OF ne] have "c = CHR ''|''" by (simp add: ends_with_snoc)
    then show ?thesis using punctuation_marks(2) by (simp add: s escape_snoc ends_with_def starts_with_Cons)
  qed
  then show ?thesis using not_started(2) [of "[]" s] by (auto simp: strip_pipes_def Let_def)
qed

lemma no_pipe: "plain_line s \<Longrightarrow> \<not> hasPipe (escape_text s)"
proof -
  assume p: "plain_line s"
  have "dropWhile is_space (escape_text s) = escape_text s"
    using escape_ends(1) [OF p] plain_ends [OF p] by (cases "escape_text s") auto
  then show ?thesis
    using escape_ends(3) [OF p] not_started(2) [of "[]" s]
    by (simp add: hasPipe_def tableCells_def strip_escaped split_escaped)
qed

lemma digits_escaped: "dropWhile is_digit (escape_text s) = escape_text (dropWhile is_digit s)"
proof (induction s)
  case (Cons c s)
  have "\<not> is_digit BACKSLASH" by (simp add: is_digit_def BACKSLASH_def code_def)
  moreover have "is_punctuation c \<Longrightarrow> \<not> is_digit c" by (auto simp: is_digit_def is_punctuation_def Let_def)
  ultimately show ?case using Cons by auto
qed simp

lemma drop_takeWhile: "drop (length (takeWhile p s)) s = dropWhile p s"
  by (simp add: dropWhile_eq_drop)

lemma indent_escaped: "plain_line s \<Longrightarrow> indentOf (escape_text s) = 0"
proof -
  assume p: "plain_line s"
  have "is_space BLANK" by (simp add: BLANK_def is_space_def code_def)
  then have "hd (escape_text s) \<noteq> BLANK" using escape_ends(1) [OF p] by auto
  then show ?thesis by (cases "escape_text s") (auto simp: indentOf_def)
qed

lemma no_item: "plain_line s \<Longrightarrow> list_item_line (escape_text s) = None"
proof -
  assume p: "plain_line s"
  have bullet: "BULLET (escape_text s) = None"
    using escape_head [of s] punctuation_marks(4,6,13) marks_differ(4,6,13)
    by (auto simp: BULLET_def indent_escaped [OF p] split: list.split)
  have "ORDERED (escape_text s) = None"
  proof -
    let ?t = "escape_text s" and ?cs = "escape_text (dropWhile is_digit s)"
    have "\<not> (?cs \<noteq> [] \<and> (hd ?cs = CHR ''.'' \<or> hd ?cs = CHR '')''))"
      using escape_head [of "dropWhile is_digit s"] punctuation_marks(14,15) marks_differ(14,15)
      by (cases ?cs) auto
    then have no: "\<not> (1 \<le> length (takeWhile is_digit ?t) \<and> length (takeWhile is_digit ?t) \<le> 9 \<and>
        ?cs \<noteq> [] \<and> (hd ?cs = CHR ''.'' \<or> hd ?cs = CHR '')''))" by blast
    have cs: "drop (length (takeWhile is_digit ?t)) ?t = ?cs" by (simp only: drop_takeWhile digits_escaped)
    show ?thesis unfolding ORDERED_def indent_escaped [OF p] drop_0 Let_def cs by (simp only: no if_False)
  qed
  then show ?thesis by (simp add: list_item_line_def bullet)
qed

lemma content_of_escaped:
  assumes "plain_line s" and "pr_list p = None"
  shows "content_line (escape_text s) [] line p =
    (p\<lparr>pr_paragraph := pr_paragraph p @ [segment (escape_text s) line]\<rparr>, 0)"
proof -
  let ?t = "escape_text s"
  note ends = escape_ends [OF assms(1)]
  have ne: "?t \<noteq> []" using plain_ends [OF assms(1)] by simp
  have dedent: "dedent ?t = Some ?t" by (simp add: dedent_def indent_escaped [OF assms(1)])
  have head: "\<not> (is_punctuation (hd ?t) \<and> hd ?t \<noteq> BACKSLASH)" using escape_head [of s] ne by (cases ?t) auto
  have "trim ?t \<noteq> PAGE_BREAK"
  proof
    assume "trim ?t = PAGE_BREAK"
    then have "hd ?t = CHR ''-''" by (simp add: ends PAGE_BREAK_def)
    then show False using head punctuation_marks(4) marks_differ(4) by simp
  qed
  moreover have "FENCE ?t = None"
    using not_started(7,8) by (simp add: FENCE_def dedent numeral_3_eq_3)
  moreover have "\<not> html_line ?t" using not_started(3) by (simp add: html_line_def dedent)
  moreover have "DEFINITION ?t = None" using not_started(4) by (simp add: DEFINITION_def dedent)
  moreover have "headingOf ?t = None"
  proof -
    have "takeWhile (\<lambda>c. c = CHR ''#'') ?t = []"
      using head punctuation_marks(5) marks_differ(5) by (cases ?t) auto
    then show ?thesis by (simp add: headingOf_def dedent)
  qed
  moreover have "\<not> isRule ?t"
    unfolding isRule_def ends(3) using head punctuation_marks(4,6,7) marks_differ(4,6,7) by (cases ?t) auto
  moreover have "\<not> SETEXT ?t" using not_started(6) by (simp add: SETEXT_def dedent)
  moreover have "QUOTE ?t = None" using not_started(5) by (simp add: QUOTE_def dedent)
  ultimately show ?thesis
    using no_pipe [OF assms(1)] no_item [OF assms(1)] indent_escaped [OF assms(1)] assms(2)
    by (simp add: content_line_def text_line_def)
qed

section \<open>The text is read back\<close>

lemma segment_escaped: "plain_line s \<Longrightarrow> segment (escape_text s) line = Seg (escape_text s) line False"
proof -
  assume p: "plain_line s"
  have "last (escape_text s) \<noteq> BACKSLASH" using p last_escape [of s] by (simp add: plain_line_def)
  moreover have "\<not> ends_with [BLANK, BLANK] (escape_text s)"
  proof
    assume "ends_with [BLANK, BLANK] (escape_text s)"
    then have "last (escape_text s) = BLANK"
      by (cases "escape_text s" rule: rev_cases) (auto simp: ends_with_def starts_with_Cons)
    then show False using escape_ends(2) [OF p] by (simp add: BLANK_def is_space_def code_def)
  qed
  ultimately show ?thesis
    by (simp add: segment_def Let_def ends_with_snoc escape_ends(3) [OF p])
qed

lemma parse_escaped:
  assumes "plain_line s" and "length (escape_text s) \<le> BODY_CHARACTERS"
  shows "parseTemplate (escape_text s) = ([Paragraph [Text s] 1], [])"
proof -
  let ?t = "escape_text s"
  let ?p = "new_parser []"
  note ends = escape_ends [OF assms(1)]
  have ne: "?t \<noteq> []" "s \<noteq> []" using plain_ends [OF assms(1)] by simp_all
  have lines: "split_lines ?t = [?t]"
  proof (rule split_lines_one)
    show "CHR 13 \<notin> set ?t" using escape_no_newline [of "CHR 13" s] assms(1) by (auto simp: plain_line_def BACKSLASH_def)
    show "CHR 10 \<notin> set ?t" using escape_no_newline [of "CHR 10" s] assms(1) by (auto simp: plain_line_def BACKSLASH_def)
  qed
  have strip: "stripComments [?t] 1 [] = ([?t], [])" using not_started(3) by (simp add: ends(3))
  have tabs: "expandTabs ?t = ?t"
    using ends(1) space_or_tab_space ne by (cases ?t) (auto simp: expandTabs_def)
  have new: "pr_quote ?p = None" "pr_issues ?p = []" "pr_list ?p = None" "pr_paragraph ?p = []" and q: "?p\<lparr>pr_issues := []\<rparr> = ?p"
    by (simp_all add: new_parser_def)
  have tag: "lineDirective ?t 1 [] = (None, [])"
    using not_started(1) by (simp add: lineDirective_def Let_def ends(3))
  have line: "parse_line ?t [] 1 ?p = (?p\<lparr>pr_paragraph := [segment ?t 1]\<rparr>, 0)"
    using content_of_escaped [OF assms(1) new(3), of 1] tag new(1,2,4) ne
    unfolding parse_line_def Let_def ends(3) by (simp add: q)
  have inline: "parseInline [segment ?t 1] [] = ([Text s], [])"
  proof -
    have "segment_atoms None [segment ?t 1] [] = (escaped_atoms 1 s, [])"
      using atoms_of_escaped [of s 1 False "[]"] by (simp add: segment_escaped [OF assms(1)])
    then show ?thesis
      using nodes_of_escaped [of 0 s 1 0 False "[]" "[]"] nodes_of_text [OF ne(2)]
      by (simp add: parseInline_def escaped_atoms_def)
  qed
  have flush: "flushAll (?p\<lparr>pr_paragraph := [segment ?t 1]\<rparr>) =
      ?p\<lparr>pr_stack := [(root_frame 0)\<lparr>fr_then := [Paragraph [Text s] 1]\<rparr>]\<rparr>"
    using inline
    by (simp add: flushAll_def flushParagraph_def flushList_def flushQuote_def new_parser_def push_block_def
        target_push_def frame_push_def root_frame_def new_frame_def segment_escaped [OF assms(1)])
  have "\<not> BODY_CHARACTERS < length ?t" using assms(2) by simp
  then show ?thesis
    using line flush
    unfolding parseTemplate_def lines strip prod.case list.map tabs Let_def
    by (simp add: unclosed_def new_parser_def)
qed

end
