(* ===== verification/Template_Scan.thy ===== *)
theory Template_Scan
  imports Template_Inline
begin

text \<open>
  The tables of \<open>InlineScan\<close> against their meaning. What the inline parser asks of them, by a binary search
  or by an index, is what a scan of the text from that index would find: the next run of a delimiter that
  closes a span, the bracket that closes a bracket, the next closing parenthesis and the next white space.
\<close>

section \<open>What the lookups mean\<close>

definition run_start :: "atom list \<Rightarrow> char \<Rightarrow> nat \<Rightarrow> bool" where
  "run_start atoms ch i = (is_char (atom_at atoms i) ch \<and> \<not> is_char (atom_before atoms i) ch)"

definition strong_closer :: "atom list \<Rightarrow> char \<Rightarrow> nat \<Rightarrow> bool" where
  "strong_closer atoms ch i = (run_start atoms ch i \<and> 2 \<le> run_length atoms i ch)"

definition emphasis_closer :: "atom list \<Rightarrow> char \<Rightarrow> nat \<Rightarrow> bool" where
  "emphasis_closer atoms ch i =
     (run_start atoms ch i \<and> run_length atoms i ch < 2 \<and> (ch \<noteq> CHR ''_'' \<or> \<not> wordChar (atom_at atoms (i + 1))))"

definition code_closer :: "atom list \<Rightarrow> nat \<Rightarrow> nat \<Rightarrow> bool" where
  "code_closer atoms n i = (run_start atoms BACKTICK i \<and> run_length atoms i BACKTICK = n)"

text \<open>The first index after \<open>bound\<close> and before \<open>limit\<close>.\<close>

definition first_between :: "(nat \<Rightarrow> bool) \<Rightarrow> nat \<Rightarrow> nat \<Rightarrow> nat option" where
  "first_between p bound limit = find p [bound + 1..<limit]"

text \<open>The first index from \<open>i\<close> on, the end when there is none.\<close>

definition first_from :: "(nat \<Rightarrow> bool) \<Rightarrow> nat \<Rightarrow> nat \<Rightarrow> nat" where
  "first_from p i n = (case find p [i..<n] of None \<Rightarrow> n | Some j \<Rightarrow> j)"

text \<open>The bracket that closes one more bracket than was opened, from \<open>k\<close> on, with \<open>d\<close> open already.\<close>

fun match_bracket :: "atom list \<Rightarrow> nat \<Rightarrow> nat \<Rightarrow> nat option" where
  "match_bracket [] k d = None"
| "match_bracket (a # as) k d =
     (if is_char (Some a) CHR ''['' then match_bracket as (k + 1) (d + 1)
      else if is_char (Some a) CHR '']'' then (if d = 0 then Some k else match_bracket as (k + 1) (d - 1))
      else match_bracket as (k + 1) d)"

section \<open>The binary search\<close>

lemma first_after_least:
  "sorted starts \<Longrightarrow> high \<le> length starts \<Longrightarrow> (\<And>i. i < low \<Longrightarrow> starts ! i \<le> bound) \<Longrightarrow> low \<le> high \<Longrightarrow>
     i < first_after starts bound low high \<Longrightarrow> starts ! i \<le> bound"
proof (induction starts bound low high rule: first_after.induct)
  case (1 starts bound low high)
  let ?m = "(low + high) div 2"
  show ?case
  proof (cases "low < high")
    case True
    then have m: "low \<le> ?m" "?m < high" by auto
    show ?thesis
    proof (cases "starts ! ?m \<le> bound")
      case le: True
      have eq: "first_after starts bound low high = first_after starts bound (?m + 1) high"
        using True le by (subst first_after.simps) (simp add: Let_def)
      have below: "starts ! j \<le> bound" if "j < ?m + 1" for j
        using sorted_nth_mono [OF 1(3), of j ?m] that m 1(4) le by simp
      show ?thesis using 1(1) [OF True refl le 1(3,4) below] m 1(7) by (simp add: eq)
    next
      case gr: False
      have eq: "first_after starts bound low high = first_after starts bound low ?m"
        using True gr by (subst first_after.simps) (simp add: Let_def)
      show ?thesis using 1(2) [OF True refl gr 1(3) _ 1(5)] m 1(4,7) by (simp add: eq)
    qed
  next
    case False
    then have "first_after starts bound low high = low" by (subst first_after.simps) simp
    then show ?thesis using 1(5,7) by simp
  qed
qed

lemma find_first:
  "j \<in> set [a..<b] \<Longrightarrow> p j \<Longrightarrow> (\<And>k. a \<le> k \<Longrightarrow> k < j \<Longrightarrow> \<not> p k) \<Longrightarrow> find p [a..<b] = Some j"
  by (auto simp: find_Some_iff intro!: exI [of _ "j - a"])

lemma after_exact:
  assumes "\<And>i. i \<in> set starts \<longleftrightarrow> i < n \<and> p i" and "sorted starts" and "limit \<le> n"
  shows "after starts bound limit = first_between p bound limit"
proof -
  let ?low = "first_after starts bound 0 (length starts)"
  have low: "?low \<le> length starts" "?low < length starts \<longrightarrow> bound < starts ! ?low"
    using first_after_greater [of "length starts" starts bound 0] by auto
  have below: "starts ! i \<le> bound" if "i < ?low" for i
    using first_after_least [OF assms(2), of "length starts" 0 bound i] that by simp
  have none: "starts ! ?low \<le> k" if k: "k \<in> set starts" "bound < k" and "?low < length starts" for k
  proof -
    from k(1) obtain i where i: "i < length starts" "starts ! i = k" by (auto simp: in_set_conv_nth)
    with below [of i] k(2) have "?low \<le> i" by force
    then show ?thesis using sorted_nth_mono [OF assms(2), of ?low i] i by simp
  qed
  show ?thesis
  proof (cases "?low < length starts \<and> starts ! ?low < limit")
    case True
    then have mem: "starts ! ?low \<in> set starts" by simp
    have "find p [bound + 1..<limit] = Some (starts ! ?low)"
    proof (rule find_first)
      show "starts ! ?low \<in> set [bound + 1..<limit]" using True low by simp
      show "p (starts ! ?low)" using assms(1) mem by blast
    next
      fix k
      assume k: "bound + 1 \<le> k" "k < starts ! ?low"
      show "\<not> p k"
      proof
        assume "p k"
        then have "k \<in> set starts" using assms(1,3) k True by simp
        then show False using none [of k] k True by simp
      qed
    qed
    then show ?thesis using True by (simp add: after_def first_between_def)
  next
    case False
    have "\<not> p k" if "k \<in> set [bound + 1..<limit]" for k
    proof
      assume "p k"
      then have k: "k \<in> set starts" "bound < k" using assms(1,3) that by auto
      show False
      proof (cases "?low < length starts")
        case True
        then show False using none [OF k] that False by simp
      next
        case len: False
        from k(1) obtain i where "i < length starts" "starts ! i = k" by (auto simp: in_set_conv_nth)
        then show False using below [of i] len low(1) k(2) by simp
      qed
    qed
    then have "find p [bound + 1..<limit] = None" by (auto simp: find_None_iff)
    then show ?thesis using False by (auto simp: after_def first_between_def Let_def)
  qed
qed

section \<open>The tables\<close>

lemma scan_bracket_keeps [simp]:
  "sn_run (scan_bracket i ch s) = sn_run s" "sn_strong (scan_bracket i ch s) = sn_strong s"
  "sn_emphasis (scan_bracket i ch s) = sn_emphasis s" "sn_code (scan_bracket i ch s) = sn_code s"
  by (simp_all add: scan_bracket_def)

lemma is_char_at: "i < length atoms \<Longrightarrow> is_char (atom_at atoms i) ch \<longleftrightarrow> (\<exists>line. atoms ! i = Char ch False line)"
  by (cases "atoms ! i") (auto simp: atom_at_def)

lemma step_strong:
  assumes "i < length atoms" and "delimiter c" and "c \<noteq> BACKTICK"
  shows "sn_strong (scan_step atoms s i) c = sn_strong s c @ (if strong_closer atoms c i then [i] else [])"
  using assms
  by (cases "atoms ! i")
    (auto simp: scan_step_def scan_run_def strong_closer_def run_start_def is_char_at push_start_def Let_def)

lemma step_emphasis:
  assumes "i < length atoms" and "delimiter c" and "c \<noteq> BACKTICK"
  shows "sn_emphasis (scan_step atoms s i) c = sn_emphasis s c @ (if emphasis_closer atoms c i then [i] else [])"
  using assms
  by (cases "atoms ! i")
    (auto simp: scan_step_def scan_run_def emphasis_closer_def run_start_def is_char_at push_start_def Let_def)

lemma step_code:
  assumes "i < length atoms"
  shows "sn_code (scan_step atoms s i) n = sn_code s n @ (if code_closer atoms n i then [i] else [])"
  using assms
  by (cases "atoms ! i")
    (auto simp: scan_step_def scan_run_def code_closer_def run_start_def is_char_at push_start_def Let_def delimiter_def)

lemma fold_table:
  assumes "\<And>s i. i < n \<Longrightarrow> f (step s i) = f s @ (if p i then [i] else [])" and "f s0 = []"
  shows "f (foldl step s0 [0..<n]) = filter p [0..<n]"
proof -
  have "m \<le> n \<Longrightarrow> f (foldl step s0 [0..<m]) = filter p [0..<m]" for m
    using assms by (induction m) auto
  then show ?thesis by simp
qed

lemma strong_table:
  "delimiter c \<Longrightarrow> c \<noteq> BACKTICK \<Longrightarrow> sn_strong (inlineScan atoms) c = filter (strong_closer atoms c) [0..<length atoms]"
  unfolding inlineScan_def by (rule fold_table) (simp_all add: step_strong empty_scan_def)

lemma emphasis_table:
  "delimiter c \<Longrightarrow> c \<noteq> BACKTICK \<Longrightarrow> sn_emphasis (inlineScan atoms) c = filter (emphasis_closer atoms c) [0..<length atoms]"
  unfolding inlineScan_def by (rule fold_table) (simp_all add: step_emphasis empty_scan_def)

lemma code_table: "sn_code (inlineScan atoms) n = filter (code_closer atoms n) [0..<length atoms]"
  unfolding inlineScan_def by (rule fold_table) (simp_all add: step_code empty_scan_def)

lemma sorted_filter_upt: "sorted (filter p [a..<b])"
  by (simp add: sorted_wrt_filter)

lemma span_lookups:
  assumes "c = CHR ''*'' \<or> c = CHR ''_''" and "limit \<le> length atoms"
  shows "after (sn_strong (inlineScan atoms) c) bound limit = first_between (strong_closer atoms c) bound limit"
    and "after (sn_emphasis (inlineScan atoms) c) bound limit = first_between (emphasis_closer atoms c) bound limit"
proof -
  have c: "delimiter c" "c \<noteq> BACKTICK" using assms(1) by (auto simp: delimiter_def BACKTICK_def)
  show "after (sn_strong (inlineScan atoms) c) bound limit = first_between (strong_closer atoms c) bound limit"
    unfolding strong_table [OF c] by (rule after_exact [OF _ sorted_filter_upt assms(2)]) auto
  show "after (sn_emphasis (inlineScan atoms) c) bound limit = first_between (emphasis_closer atoms c) bound limit"
    unfolding emphasis_table [OF c] by (rule after_exact [OF _ sorted_filter_upt assms(2)]) auto
qed

lemma code_lookup:
  "limit \<le> length atoms \<Longrightarrow>
     after (sn_code (inlineScan atoms) n) bound limit = first_between (code_closer atoms n) bound limit"
  unfolding code_table by (rule after_exact [OF _ sorted_filter_upt]) auto

lemma first_from_step: "k < n \<Longrightarrow> first_from q k n = (if q k then k else first_from q (Suc k) n)"
  by (simp add: first_from_def upt_conv_Cons)

lemma next_table_exact:
  "next_table p k as ! i = first_from (\<lambda>j. p (as ! (j - k))) (k + i) (k + length as)" if "i \<le> length as" for i
  using that
proof (induction as arbitrary: k i)
  case Nil
  then show ?case by (simp add: first_from_def)
next
  case (Cons a as)
  have shift: "first_from (\<lambda>j. p (as ! (j - (k + 1)))) (k + 1 + m) (k + 1 + length as) =
      first_from (\<lambda>j. p ((a # as) ! (j - k))) (k + 1 + m) (k + 1 + length as)" for m
  proof -
    have "find (\<lambda>j. p (as ! (j - (k + 1)))) [k + 1 + m..<k + 1 + length as] =
        find (\<lambda>j. p ((a # as) ! (j - k))) [k + 1 + m..<k + 1 + length as]"
      by (rule find_cong) (auto simp: nth_Cons' Suc_diff_le)
    then show ?thesis by (simp add: first_from_def)
  qed
  have hd: "hd (next_table p (k + 1) as) = next_table p (k + 1) as ! 0"
    by (cases as) (simp_all add: Let_def)
  show ?case
  proof (cases i)
    case 0
    have "first_from (\<lambda>j. p ((a # as) ! (j - k))) k (k + 1 + length as) =
        (if p a then k else first_from (\<lambda>j. p ((a # as) ! (j - k))) (Suc k) (k + 1 + length as))"
      using first_from_step [of k "k + 1 + length as" "\<lambda>j. p ((a # as) ! (j - k))"] by simp
    then show ?thesis
      using Cons.IH [of 0 "k + 1"] shift [of 0] 0 hd by (simp add: Let_def)
  next
    case (Suc m)
    then show ?thesis
      using Cons.IH [of m "k + 1"] shift [of m] Cons.prems by (simp add: Let_def)
  qed
qed

section \<open>Brackets\<close>

definition opener :: "atom list \<Rightarrow> nat \<Rightarrow> bool" where
  "opener atoms i = is_char (atom_at atoms i) CHR ''[''"

definition partner :: "atom list \<Rightarrow> nat \<Rightarrow> nat option" where
  "partner atoms i = match_bracket (drop (i + 1) atoms) (i + 1) 0"

text \<open>After \<open>n\<close> atoms: an open bracket waits for the partner its depth on the stack gives it, the others have theirs.\<close>

definition brackets_known :: "atom list \<Rightarrow> nat \<Rightarrow> inline_scan \<Rightarrow> bool" where
  "brackets_known atoms n s =
     (length (sn_bracket s) = length atoms \<and> distinct (sn_open s) \<and>
      (\<forall>k < length (sn_open s). sn_open s ! k < n \<and> opener atoms (sn_open s ! k) \<and>
         sn_bracket s ! (sn_open s ! k) = None \<and>
         partner atoms (sn_open s ! k) = match_bracket (drop n atoms) n k) \<and>
      (\<forall>i < length atoms. i \<notin> set (sn_open s) \<longrightarrow>
         sn_bracket s ! i = (if i < n \<and> opener atoms i then partner atoms i else None)))"

lemma match_bracket_step:
  assumes "n < length atoms"
  shows "match_bracket (drop n atoms) n d =
     (if is_char (Some (atoms ! n)) CHR ''['' then match_bracket (drop (Suc n) atoms) (Suc n) (Suc d)
      else if is_char (Some (atoms ! n)) CHR '']'' then
        (if d = 0 then Some n else match_bracket (drop (Suc n) atoms) (Suc n) (d - 1))
      else match_bracket (drop (Suc n) atoms) (Suc n) d)"
  using Cons_nth_drop_Suc [OF assms, symmetric] by simp

lemma known_open:
  assumes "brackets_known atoms n s" and "n < length atoms" and "is_char (Some (atoms ! n)) CHR ''[''"
  shows "brackets_known atoms (Suc n) (s\<lparr>sn_open := n # sn_open s\<rparr>)"
proof -
  have op: "opener atoms n" using assms(2,3) by (simp add: opener_def atom_at_def)
  have fresh: "n \<notin> set (sn_open s)" using assms(1) by (force simp: brackets_known_def in_set_conv_nth)
  have pn: "partner atoms n = match_bracket (drop (Suc n) atoms) (Suc n) 0" by (simp add: partner_def)
  show ?thesis
    unfolding brackets_known_def
  proof (intro conjI allI impI)
    fix k
    assume "k < length (sn_open (s\<lparr>sn_open := n # sn_open s\<rparr>))"
    then show "sn_open (s\<lparr>sn_open := n # sn_open s\<rparr>) ! k < Suc n"
      and "opener atoms (sn_open (s\<lparr>sn_open := n # sn_open s\<rparr>) ! k)"
      and "sn_bracket (s\<lparr>sn_open := n # sn_open s\<rparr>) ! (sn_open (s\<lparr>sn_open := n # sn_open s\<rparr>) ! k) = None"
      and "partner atoms (sn_open (s\<lparr>sn_open := n # sn_open s\<rparr>) ! k) = match_bracket (drop (Suc n) atoms) (Suc n) k"
      using assms op fresh pn match_bracket_step [OF assms(2)]
      by (auto simp: brackets_known_def nth_Cons' less_Suc_eq)
  qed (use assms(1) fresh in \<open>auto simp: brackets_known_def less_Suc_eq\<close>)
qed

lemma known_close:
  assumes "brackets_known atoms n s" and "n < length atoms" and "is_char (Some (atoms ! n)) CHR '']''"
    and "sn_open s = k # ks"
  shows "brackets_known atoms (Suc n) (s\<lparr>sn_open := ks, sn_bracket := (sn_bracket s)[k := Some n]\<rparr>)"
proof -
  have no: "\<not> is_char (Some (atoms ! n)) CHR ''[''" using assms(3) by (cases "atoms ! n") auto
  then have nop: "\<not> opener atoms n" using assms(2) by (simp add: opener_def atom_at_def)
  note known = assms(1) [unfolded brackets_known_def assms(4)]
  have k: "k < n" "opener atoms k" "partner atoms k = Some n"
    using known match_bracket_step [OF assms(2), of 0] assms(3) no by auto
  have rest: "ks ! j < n \<and> opener atoms (ks ! j) \<and> sn_bracket s ! (ks ! j) = None \<and>
      partner atoms (ks ! j) = match_bracket (drop (Suc n) atoms) (Suc n) j" if "j < length ks" for j
    using known [THEN conjunct2, THEN conjunct2, THEN conjunct1, rule_format, of "Suc j"] that
      match_bracket_step [OF assms(2), of "Suc j"] assms(3) no
    by simp
  have dist: "distinct ks" "k \<notin> set ks" using known by simp_all
  then have neq: "ks ! j \<noteq> k" if "j < length ks" for j using that by auto
  show ?thesis
    unfolding brackets_known_def
  proof (intro conjI allI impI)
    fix j
    assume "j < length (sn_open (s\<lparr>sn_open := ks, sn_bracket := (sn_bracket s)[k := Some n]\<rparr>))"
    then have j: "j < length ks" by simp
    show "sn_open (s\<lparr>sn_open := ks, sn_bracket := (sn_bracket s)[k := Some n]\<rparr>) ! j < Suc n"
      and "opener atoms (sn_open (s\<lparr>sn_open := ks, sn_bracket := (sn_bracket s)[k := Some n]\<rparr>) ! j)"
      and "sn_bracket (s\<lparr>sn_open := ks, sn_bracket := (sn_bracket s)[k := Some n]\<rparr>) !
          (sn_open (s\<lparr>sn_open := ks, sn_bracket := (sn_bracket s)[k := Some n]\<rparr>) ! j) = None"
      and "partner atoms (sn_open (s\<lparr>sn_open := ks, sn_bracket := (sn_bracket s)[k := Some n]\<rparr>) ! j) =
          match_bracket (drop (Suc n) atoms) (Suc n) j"
      using rest [OF j] neq [OF j] by simp_all
  next
    fix i
    assume i: "i < length atoms" "i \<notin> set (sn_open (s\<lparr>sn_open := ks, sn_bracket := (sn_bracket s)[k := Some n]\<rparr>))"
    show "sn_bracket (s\<lparr>sn_open := ks, sn_bracket := (sn_bracket s)[k := Some n]\<rparr>) ! i =
        (if i < Suc n \<and> opener atoms i then partner atoms i else None)"
      using i known k nop by (cases "i = k") (auto simp: less_Suc_eq)
  qed (use known dist in simp_all)
qed

lemma known_skip:
  assumes "brackets_known atoms n s" and "n < length atoms" and "\<not> is_char (Some (atoms ! n)) CHR ''[''"
    and "is_char (Some (atoms ! n)) CHR '']'' \<longrightarrow> sn_open s = []"
  shows "brackets_known atoms (Suc n) s"
proof -
  have nop: "\<not> opener atoms n" using assms(2,3) by (simp add: opener_def atom_at_def)
  show ?thesis
    using assms nop match_bracket_step [OF assms(2)]
    unfolding brackets_known_def by (auto simp: less_Suc_eq)
qed

lemma known_run: "brackets_known atoms n s \<Longrightarrow> brackets_known atoms n (scan_run atoms i ch s)"
  by (simp add: brackets_known_def)

lemma known_step:
  assumes "brackets_known atoms n s" and "n < length atoms"
  shows "brackets_known atoms (Suc n) (scan_step atoms s n)"
proof (cases "atoms ! n")
  case (Char ch lit line)
  show ?thesis
  proof (cases lit)
    case True
    then show ?thesis using known_skip [OF assms] Char by (simp add: scan_step_def)
  next
    case False
    let ?s = "scan_run atoms n ch s"
    have s: "brackets_known atoms n ?s" by (rule known_run [OF assms(1)])
    have eq: "scan_step atoms s n = scan_bracket n ch ?s" using Char False by (simp add: scan_step_def)
    consider "ch = CHR ''[''" | "ch = CHR '']''" "sn_open ?s \<noteq> []" | "ch \<noteq> CHR ''[''" "ch = CHR '']'' \<longrightarrow> sn_open ?s = []"
      by blast
    then show ?thesis
    proof cases
      case 1
      then show ?thesis using known_open [OF s assms(2)] Char False by (simp add: eq scan_bracket_def)
    next
      case 2
      then obtain k ks where "sn_open ?s = k # ks" by (cases "sn_open ?s") auto
      then show ?thesis using known_close [OF s assms(2)] 2 Char False by (simp add: eq scan_bracket_def)
    next
      case 3
      then show ?thesis using known_skip [OF s assms(2)] Char False by (auto simp: eq scan_bracket_def)
    qed
  qed
qed (use known_skip [OF assms] in \<open>simp_all add: scan_step_def\<close>)

lemma known_scan: "n \<le> length atoms \<Longrightarrow> brackets_known atoms n (foldl (scan_step atoms) (empty_scan atoms) [0..<n])"
proof (induction n)
  case 0
  then show ?case by (simp add: brackets_known_def empty_scan_def)
next
  case (Suc n)
  then show ?case using known_step by simp
qed

lemma bracket_lookup:
  assumes "i < length atoms"
  shows "sn_bracket (inlineScan atoms) ! i = (if opener atoms i then partner atoms i else None)"
proof -
  let ?s = "inlineScan atoms"
  have k: "brackets_known atoms (length atoms) ?s" unfolding inlineScan_def by (rule known_scan) simp
  show ?thesis
  proof (cases "i \<in> set (sn_open ?s)")
    case True
    then obtain j where "j < length (sn_open ?s)" "sn_open ?s ! j = i" by (auto simp: in_set_conv_nth)
    then show ?thesis using k by (auto simp: brackets_known_def)
  next
    case False
    then show ?thesis using k assms by (auto simp: brackets_known_def)
  qed
qed

section \<open>All lookups\<close>

lemma lookups_exact:
  assumes "c = CHR ''*'' \<or> c = CHR ''_''" and "limit \<le> length atoms" and "i < length atoms"
  shows "after (sn_strong (inlineScan atoms) c) bound limit = first_between (strong_closer atoms c) bound limit \<and>
    after (sn_emphasis (inlineScan atoms) c) bound limit = first_between (emphasis_closer atoms c) bound limit \<and>
    after (sn_code (inlineScan atoms) n) bound limit = first_between (code_closer atoms n) bound limit \<and>
    sn_bracket (inlineScan atoms) ! i = (if opener atoms i then partner atoms i else None) \<and>
    nextParen atoms ! i = first_from (\<lambda>j. is_char (Some (atoms ! j)) CHR '')'') i (length atoms) \<and>
    nextSpace atoms ! i = first_from (\<lambda>j. char_in is_space (Some (atoms ! j))) i (length atoms)"
  using span_lookups [OF assms(1,2)] code_lookup [OF assms(2)] bracket_lookup [OF assms(3)]
    next_table_exact [of i atoms "\<lambda>a. is_char (Some a) CHR '')''" 0]
    next_table_exact [of i atoms "\<lambda>a. char_in is_space (Some a)" 0] assms(3)
  by (simp add: nextParen_def nextSpace_def)

text \<open>C9: The look-ahead tables of the inline parser, searched by halving or read by an index, answer what a scan
of the text would: the next run that closes a strong, an emphasised or a code span, the bracket that closes a
bracket, and the next closing parenthesis and white space.\<close>

theorem inline_lookups_exact:
  assumes "c = CHR ''*'' \<or> c = CHR ''_''" and "limit \<le> length atoms" and "i < length atoms"
  shows "after (sn_strong (inlineScan atoms) c) bound limit = first_between (strong_closer atoms c) bound limit \<and>
    after (sn_emphasis (inlineScan atoms) c) bound limit = first_between (emphasis_closer atoms c) bound limit \<and>
    after (sn_code (inlineScan atoms) n) bound limit = first_between (code_closer atoms n) bound limit \<and>
    sn_bracket (inlineScan atoms) ! i = (if opener atoms i then partner atoms i else None) \<and>
    nextParen atoms ! i = first_from (\<lambda>j. is_char (Some (atoms ! j)) CHR '')'') i (length atoms) \<and>
    nextSpace atoms ! i = first_from (\<lambda>j. char_in is_space (Some (atoms ! j))) i (length atoms)"
  by (rule lookups_exact [OF assms])

text \<open>The atoms of \<open>[*a*](\<close>, whose second bracket closes the first.\<close>

definition sample_atoms :: "atom list" where
  "sample_atoms = map (\<lambda>c. Char c False 1) ''[*a*]()''"

theorem inline_lookups_exact_witness:
  "after (sn_emphasis (inlineScan sample_atoms) CHR ''*'') 1 7 = Some 3 \<and>
   sn_bracket (inlineScan sample_atoms) ! 0 = Some 4 \<and> nextParen sample_atoms ! 0 = 6"
proof -
  have s: "sample_atoms = [Char CHR ''['' False 1, Char CHR ''*'' False 1, Char CHR ''a'' False 1, Char CHR ''*'' False 1,
      Char CHR '']'' False 1, Char CHR ''('' False 1, Char CHR '')'' False 1]"
    by (simp add: sample_atoms_def)
  have "first_between (emphasis_closer sample_atoms CHR ''*'') 1 7 = Some 3"
    by (simp add: first_between_def s upt_rec emphasis_closer_def run_start_def atom_at_def atom_before_def run_length_def)
  moreover have "(if opener sample_atoms 0 then partner sample_atoms 0 else None) = Some 4"
    by (simp add: s opener_def partner_def atom_at_def)
  moreover have "first_from (\<lambda>j. is_char (Some (sample_atoms ! j)) CHR '')'') 0 (length sample_atoms) = 6"
    by (simp add: s first_from_def upt_rec)
  ultimately show ?thesis
    using inline_lookups_exact [of "CHR ''*''" 7 sample_atoms 0 1 0] by (simp add: s)
qed

end
