(* ===== verification/Template_Properties.thy ===== *)
theory Template_Properties
  imports Template_Compile Template_Escape Template_Scan
begin

text \<open>
  What the document templates promise, from the text an author writes to the blocks a document is made of:
  the theorems on compiled templates, on the parser and on the input schemas, and the template they are tried on.
\<close>

section \<open>A small template\<close>

text \<open>One paragraph that prints a date: \<open>{{ d | date }}\<close>.\<close>

definition day_content :: template_content where
  "day_content = \<lparr>tc_body = VStr ''{{ d | date }}'', tc_layout = \<lparr>ly_pageSize = ''A4'', ly_margins = DEFAULT_TEMPLATE_MARGINS,
     ly_header = None, ly_footer = None, ly_title = ''T''\<rparr>,
     tc_inputSchema = schema_value (SObject [(''d'', SString None None)] None), tc_locale = ''en'', tc_format = ''pdf''\<rparr>"

lemmas char_simps = is_space_def is_digit_def is_lower_def is_upper_def code_def

lemma day_lines: "split_lines ''{{ d | date }}'' = [''{{ d | date }}'']" by (simp add: code_def)

lemma day_comments: "stripComments [''{{ d | date }}''] (Suc 0) [] = ([''{{ d | date }}''], [])"
  by (simp add: starts_with_def trim_def char_simps)

lemma day_no_tag: "DIRECTIVE ''d | date'' = None" by (simp add: DIRECTIVE_def tag_words_def starts_with_def)

lemma day_atoms: "atomsOf ''{{ d | date }}'' 1 False [] = ([APlace (Placeholder (Path False [''d'']) (Some Date) 1)], [])"
  by (simp add: starts_with_def BACKSLASH_def triple_brace_def trim_def char_simps placeholder_of_def day_no_tag cut_at_def parseValue_def path_shape_def parseFormatter_def plain_formatters_def word_start_def)

lemma day_nodes: "inlineNodes [APlace ph] 0 (Suc 0) 0 False [] issues = ([Place ph], issues)"
  by (simp add: inlineNodes.simps)

lemma day_directive: "lineDirective ''{{ d | date }}'' (Suc 0) [] = (None, [])"
  by (simp add: lineDirective_def starts_with_def ends_with_def trim_def char_simps day_no_tag)

lemma day_content_line: "content_line ''{{ d | date }}'' [] (Suc 0) (new_parser []) = ((new_parser [])\<lparr>pr_paragraph := [segment ''{{ d | date }}'' (Suc 0)]\<rparr>, 0)"
  by (simp add: content_line_def starts_with_def trim_def char_simps PAGE_BREAK_def FENCE_def dedent_def indentOf_def BLANK_def
     BACKTICK_def html_line_def DEFINITION_def headingOf_def isRule_def SETEXT_def QUOTE_def hasPipe_def tableCells_def strip_pipes_def
     ends_with_def BACKSLASH_def Let_def list_item_line_def BULLET_def ORDERED_def text_line_def new_parser_def numeral_3_eq_3)

lemma day_segment: "segment ''{{ d | date }}'' (Suc 0) = Seg ''{{ d | date }}'' (Suc 0) False"
  by (simp add: segment_def ends_with_def starts_with_def trim_def char_simps BACKSLASH_def BLANK_def)

lemma day_parse_line: "parse_line ''{{ d | date }}'' [] (Suc 0) (new_parser []) = ((new_parser [])\<lparr>pr_paragraph := [segment ''{{ d | date }}'' (Suc 0)]\<rparr>, 0)"
proof -
  have n: "pr_quote (new_parser []) = None" "pr_issues (new_parser []) = []" and q: "(new_parser [])\<lparr>pr_issues := []\<rparr> = new_parser []"
    by (simp_all add: new_parser_def)
  have t: "trim ''{{ d | date }}'' \<noteq> []" by (simp add: trim_def char_simps)
  show ?thesis using t unfolding parse_line_def n by (simp add: day_directive day_content_line q n)
qed

lemma day_parse_lines: "parse_lines [''{{ d | date }}''] (Suc 0) (new_parser []) = ((new_parser [])\<lparr>pr_paragraph := [segment ''{{ d | date }}'' (Suc 0)]\<rparr>)"
  using day_parse_line by simp

lemma day_inline: "parseInline [segment ''{{ d | date }}'' (Suc 0)] [] = ([Place (Placeholder (Path False [''d'']) (Some Date) 1)], [])"
  using day_atoms by (simp add: parseInline_def day_segment day_nodes)

lemma day_tabs: "map expandTabs [''{{ d | date }}''] = [''{{ d | date }}'']"
  by (simp add: expandTabs_def space_or_tab_def TAB_def BLANK_def)

lemma day_flush: "flushAll ((new_parser [])\<lparr>pr_paragraph := [segment ''{{ d | date }}'' (Suc 0)]\<rparr>) =
   (new_parser [])\<lparr>pr_stack := [(root_frame 0)\<lparr>fr_then := [Paragraph [Place (Placeholder (Path False [''d'']) (Some Date) 1)] 1]\<rparr>]\<rparr>"
  using day_inline by (simp add: new_parser_def flushAll_def flushParagraph_def flushList_def flushQuote_def day_segment push_block_def target_push_def frame_push_def root_frame_def new_frame_def)

lemma day_parsed: "parseTemplate ''{{ d | date }}'' = ([Paragraph [Place (Placeholder (Path False [''d'']) (Some Date) 1)] 1], [])"
proof -
  have lt: "\<not> BODY_CHARACTERS < length ''{{ d | date }}''" by (simp add: BODY_CHARACTERS_def)
  show ?thesis
    unfolding parseTemplate_def if_not_P [OF lt] day_lines One_nat_def day_comments Let_def prod.case day_tabs day_parse_lines day_flush
    by (simp add: unclosed_def new_parser_def)
qed

definition day_schema :: tschema where "day_schema = SObject [(''d'', SString None None)] None"

definition day_parts :: compiled_parts where
  "day_parts = \<lparr>cp_blocks = [Paragraph [Place (Placeholder (Path False [''d'']) (Some Date) 1)] 1],
     cp_title = [CText ''T''], cp_header = None, cp_footer = None\<rparr>"

definition day_input :: "string \<Rightarrow> tvalue" where "day_input s = VObj [(''d'', VStr s)]"

text \<open>A host that reads no date.\<close>

definition plain_host :: host where
  "plain_host = \<lparr>h_string = (\<lambda>n. []), h_currency = (\<lambda>s. False), h_currency_digits = (\<lambda>l s. None),
     h_money = (\<lambda>l s q. []), h_number = (\<lambda>l n q. []), h_date = (\<lambda>l b z q. []), h_upper = (\<lambda>l s. s),
     h_date_parse = (\<lambda>s. None)\<rparr>"

definition plain_options :: evaluate_options where
  "plain_options = \<lparr>eo_locale = En, eo_timeZone = ''UTC''\<rparr>"

lemma day_schema_known: "schema_of (tc_inputSchema day_content) = day_schema"
  unfolding day_content_def template_content.simps schema_of_value day_schema_def ..

lemma day_schema_accepted: "templateSchemaProblem (tc_inputSchema day_content) = None"
  unfolding day_content_def template_content.simps templateSchemaProblem_value
  by (simp add: SCHEMA_DEPTH_def SCHEMA_PROPERTIES_def word_start_def word_char_def char_simps)

lemma day_title: "compile_line F_title (Some ''T'') day_schema = (Some [CText ''T''], [])"
proof -
  have "parseTemplateLine ''T'' F_title = ([CText ''T''], [])"
    by (simp add: parseTemplateLine_def LINE_CHARACTERS_def BACKSLASH_def starts_with_def codeChildren_def code_step_def push_code_text_def)
  then show ?thesis by (simp add: compile_line_def checkTemplateLineFields_Nil code_ok_def)
qed

lemma day_checked: "checkTemplateFields (cp_blocks day_parts) day_schema = []"
  unfolding checkTemplateFields_Nil
  by (simp add: day_parts_def day_schema_def root_scope_def schemaOfExpression_def placeholder_ok_def own_def)

lemma day_compiled: "compileTemplate day_content = (Some day_parts, [])"
proof -
  have parts: "compile_parts ''{{ d | date }}'' (tc_layout day_content) day_schema = (day_parts, [])"
    using day_title day_checked
    unfolding compile_parts_def day_parsed Let_def prod.case
    by (simp add: day_content_def compile_line_def day_parts_def)
  have body: "tc_body day_content = VStr ''{{ d | date }}''" by (simp add: day_content_def)
  have "content_issues day_content = []"
    by (simp add: content_issues_def day_content_def DOCUMENT_TEMPLATE_LOCALES_def DOCUMENT_TEMPLATE_FORMATS_def)
  then show ?thesis
    unfolding compileTemplate_def body tvalue.case Let_def day_schema_known parts prod.case
    by (simp add: day_schema_accepted)
qed

lemma day_evaluated:
  "evaluateTemplate plain_host day_parts (day_input ''x'') plain_options = Inl (TEMPLATE_VALUE_INVALID Not_date)"
  "evaluateTemplate plain_host day_parts (VObj [(''d'', VNull)]) plain_options =
     Inr \<lparr>rt_locale = En, rt_title = ''T'', rt_header = None, rt_footer = None, rt_blocks = [RParagraph []], rt_repeatedRows = 0\<rparr>"
  by (simp_all add: evaluateTemplate_def day_parts_def day_input_def Let_def line_runs_def format_def placeholder_text_def
      resolve_def own_def applyFormatter_def format_date_def instant_def plain_host_def plain_options_def date_shape_def
      datetime_shape_def invalid_def printed_def fresh_evaluation_def PRINTED_CHARACTERS_def append_run_def runs_text_def
      marginLine_def is_control_def code_def trim_def is_space_def)

section \<open>The promises\<close>

text \<open>C5: A template that compiled, rendered for an input its schema accepts, raises no error of type, provided every
object of the input that is an item of a list holds exactly the properties its schema declares, an optional one
perhaps as null: whatever is thrown is a money value outside the safe integers or an unknown currency, a text that is
no date, too many repeated rows, too long an output or a date out of range. Elsewhere in the input optional
properties may be missing and undeclared ones present. For items the proviso is needed: the code searches a path the
item lacks in the outer scopes, and one it should not have in the item (lemmas
\<open>missing_property_searched_outwards\<close> and \<open>undeclared_property_reached\<close>), and fails there.\<close>

theorem template_type_sound:
  assumes "compileTemplate content = (Some tpl, issues)"
    and "validateTemplateInput (schema_of (tc_inputSchema content)) input = []"
    and "covers False (schema_of (tc_inputSchema content)) input"
    and "evaluateTemplate h tpl input opts = Inl e"
  shows "e \<in> {TEMPLATE_VALUE_INVALID Not_minor_units, TEMPLATE_VALUE_INVALID Not_currency,
     TEMPLATE_VALUE_INVALID Not_date, TEMPLATE_ROWS_EXCEEDED, TEMPLATE_OUTPUT_TOO_LARGE, RANGE_ERROR}"
  using compiled_safe [OF assms] by (simp only: residual_def)

theorem template_type_sound_witness:
  "TEMPLATE_VALUE_INVALID Not_date \<in> {TEMPLATE_VALUE_INVALID Not_minor_units, TEMPLATE_VALUE_INVALID Not_currency,
     TEMPLATE_VALUE_INVALID Not_date, TEMPLATE_ROWS_EXCEEDED, TEMPLATE_OUTPUT_TOO_LARGE, RANGE_ERROR}"
proof (rule template_type_sound [OF day_compiled _ _ day_evaluated(1)])
  show "validateTemplateInput (schema_of (tc_inputSchema day_content)) (day_input ''x'') = []"
    unfolding validate_iff day_schema_known
    by (simp add: day_schema_def day_input_def own_def string_limit_def STRING_CHARACTERS_def)
  show "covers False (schema_of (tc_inputSchema day_content)) (day_input ''x'')"
    unfolding day_schema_known by (simp add: day_schema_def day_input_def own_def)
qed

text \<open>C6: What a compiled template renders is well formed: neighbouring runs of one style are joined and none is
empty, the rows of a table are as wide as its header, no two lists of one kind meet, and the rows its repeats
produced are within their limit.\<close>

theorem template_render_fine:
  assumes "compileTemplate content = (Some tpl, issues)" and "evaluateTemplate h tpl input opts = Inr r"
  shows "blocks_fine (rt_blocks r) \<and> rt_repeatedRows r \<le> REPEATED_ROWS"
  using compiled_renders_fine [OF assms] by (simp only: rendered_fine_def)

theorem template_render_fine_witness: "blocks_fine [RParagraph []] \<and> 0 \<le> REPEATED_ROWS"
  using template_render_fine [OF day_compiled day_evaluated(2)] by simp

text \<open>C7: The parser, on any text: its tables are rectangular, its lists nest two deep, its headings have levels 1 to
3, it reports at most fifty issues, none of them twice, and a text it accepts is within its length and nests its blocks at most
\<open>BLOCK_DEPTH\<close> deep.\<close>

theorem template_parse_wellformed:
  assumes "parseTemplate body = (blocks, issues)"
  shows "blocks_rect blocks \<and> blocks_shallow blocks \<and> levels_ok blocks \<and> issues_ok issues \<and>
    (issues = [] \<longrightarrow> blocks_fit BLOCK_DEPTH blocks \<and> length body \<le> BODY_CHARACTERS)"
  using parsed_wellformed [OF assms] by (simp add: blocks_good_def)

theorem template_parse_wellformed_witness:
  "blocks_fit BLOCK_DEPTH [Paragraph [Place (Placeholder (Path False [''d'']) (Some Date) 1)] 1] \<and>
   length ''{{ d | date }}'' \<le> BODY_CHARACTERS"
  using template_parse_wellformed [OF day_parsed] by blast

text \<open>C8: A line whose punctuation is escaped is one paragraph that says exactly that line: nothing an author
escaped opens a block, a span, a table or a placeholder. The line is one that can stand in a paragraph: not empty,
without spaces at either end (four in front would be a code block, and the trailing ones are not printed), without
line breaks, not ending in a backslash, and short enough, once escaped, for the limit on a body.\<close>

theorem template_escape_roundtrip:
  assumes "plain_line s" and "length (escape_text s) \<le> BODY_CHARACTERS"
  shows "parseTemplate (escape_text s) = ([Paragraph [Text s] 1], [])"
  by (rule parse_escaped [OF assms])

theorem template_escape_roundtrip_witness: "parseTemplate (escape_text ''*{{a}}*'') = ([Paragraph [Text ''*{{a}}*''] 1], [])"
proof (rule template_escape_roundtrip)
  show "plain_line ''*{{a}}*''" by (simp add: plain_line_def trim_def char_simps BACKSLASH_def)
  show "length (escape_text ''*{{a}}*'') \<le> BODY_CHARACTERS"
    by (simp add: is_punctuation_def code_def BODY_CHARACTERS_def)
qed

text \<open>C10: The input check reports nothing exactly for the inputs the schema describes, and at most twenty issues
otherwise.\<close>

theorem template_input_check_exact:
  "(validateTemplateInput s v = [] \<longleftrightarrow> conforms s v) \<and> length (validateTemplateInput s v) \<le> INPUT_ISSUES"
  using validate_iff validate_bound by blast

text \<open>C11: The schemas the check accepts are exactly those of the subset. \<open>written_as\<close> is its grammar: the type, the
keywords of that type and the two annotations and no other keyword, each with a value of its kind; \<open>schema_ok\<close> its
bounds: depth, properties and their names, required names that are declared, no array in an array, lengths and
texts. The schema a value is read as is the one it is written as, every schema of the subset is accepted as it is
written out, and a value that was accepted reads as a schema that is accepted again.\<close>

theorem template_schema_exact:
  "(templateSchemaProblem v = None \<longleftrightarrow> (\<exists>ps req. written_as v (SObject ps req) \<and> schema_ok 1 False (SObject ps req))) \<and>
   (written_as v t \<longrightarrow> schema_of v = t) \<and> schema_of (schema_value s) = s \<and>
   (templateSchemaProblem (schema_value s) = None \<longleftrightarrow> (\<exists>ps req. s = SObject ps req) \<and> schema_ok 1 False s) \<and>
   (templateSchemaProblem v = None \<longrightarrow> templateSchemaProblem (schema_value (schema_of v)) = None)"
  using templateSchemaProblem_exact [of v] written_as_schema_of [of v t] templateSchemaProblem_value
    templateSchemaProblem_accepts by (simp only: schema_of_value simp_thms) blast

theorem template_schema_exact_witness:
  "templateSchemaProblem (schema_value day_schema) = None \<and>
   templateSchemaProblem (VObj [(''type'', VStr ''object''), (''properties'', VObj []), (''minProperties'', VNum (Finite 1))]) \<noteq> None"
proof
  show "templateSchemaProblem (schema_value day_schema) = None"
    using template_schema_exact [of "tc_inputSchema day_content" SBoolean day_schema] day_schema_accepted day_schema_known by simp
  show "templateSchemaProblem (VObj [(''type'', VStr ''object''), (''properties'', VObj []), (''minProperties'', VNum (Finite 1))]) \<noteq> None"
    by (auto simp: template_schema_exact [of _ SBoolean SBoolean] schema_entries_def elim: written_as.cases)
qed

end
