(* ===== verification/Spec2Isabelle.thy ===== *)
theory Spec2Isabelle
  imports Kernel_Modules Kernel_Acl Kernel_Lifecycle Kernel_Data_Classes Workflow_Compile
    Csv Rate_Limits Cadence Kernel_Grant Job_Loop Template_Properties
begin

text \<open>
  Verification library of Flowdular, a platform on which business applications are composed of modules. A
  kernel (\<open>packages/kernel\<close>) composes the modules, decides what a principal may do and keeps the keys; a server
  (\<open>packages/server\<close>) runs their endpoints and their durable jobs; the modules (\<open>modules/*\<close>) hold the
  products: workflows, approvals, documents, imports, schedules and so on. The library models the parts that
  decide something by themselves, each in the theories named below, in the order the code calls them. Paths are
  relative to the root of the repository.

  \<^bold>\<open>How the code is written here.\<close> A thrown error is \<open>Inl\<close> of the code's error type, a value is \<open>Inr\<close>;
  messages are dropped and error codes kept (where two refusals of one code differ only by their text, a number
  tells them apart). Classes are records of their fields, passed along; a \<open>Map\<close> is a function to options or an
  association list when its order is read; a \<open>for\<close> loop is a fold or a recursion on the list it runs over; a
  \<open>while\<close> loop is a \<open>function\<close> with its measure, or has a number of turns that is proved to be enough. What is
  not under the sources is a parameter: the hash, signature and cipher functions, \<open>localeCompare\<close>, \<open>Intl\<close>,
  \<open>Date.parse\<close>, the clock, the random source and the answers of modules. Texts are lists of code units below 256,
  except in \<open>Csv\<close>, where they are 16 bit words; numbers are exact integers or rationals, which is what the doubles
  of the code are within the bounds the code itself checks.

  \<^bold>\<open>Shared.\<close> \<open>Flow_Prelude\<close>: results and their composition, the loop that stops at the first throw, the string
  operations of the language, association lists. \<open>Json\<close>: JSON values and the canonical text
  (\<open>canonical\<close> of \<open>modules/workflows/src/domain/graph.ts\<close>), which digests are taken of; \<open>Json_Canonical\<close>:
  values with one text agree up to the order of object entries, and the converse where the comparison tells keys apart.

  \<^bold>\<open>Composition of modules.\<close> \<open>Kernel_Version\<close> (\<open>version-range.ts\<close>, \<open>module-compatibility.ts\<close>): versions, ranges,
  the compatibility check; the candidates an assertion tests decide whether any version older than the
  platform's line fits a range. \<open>Kernel_Modules\<close> (\<open>module-registry.ts\<close>): the depth-first composition; the order lists every module once,
  dependencies first, and a cycle is reported exactly when there is one. \<open>Kernel_Registries\<close>
  (\<open>capability-registry.ts\<close>, \<open>tool-registry.ts\<close>, \<open>agent-registry.ts\<close>), \<open>Kernel_Data_Classes\<close>
  (\<open>data-class-registry.ts\<close>): what modules register, with scoped views, atomic batches and sealing.

  \<^bold>\<open>Decisions on records.\<close> \<open>Kernel_Acl\<close> (\<open>acl.ts\<close>): permission checks and policies; a decision is allowed exactly
  when the permission is held and every policy agrees, and one more policy only narrows. \<open>Kernel_Lifecycle\<close>
  (\<open>lifecycle.ts\<close>): states, moves and the decision on a write.

  \<^bold>\<open>Keys and grants.\<close> \<open>Kernel_Keyring\<close> (\<open>keyring.ts\<close>): envelopes and their rotation behind a cipher given by
  its laws. \<open>Kernel_Grant\<close> (\<open>approval-grant.ts\<close>, \<open>grantFor\<close> of the approvals service): issuing and verifying; an
  accepted token carries a signature under a key of the ring and claims that fit, and what an approved request
  yields verifies.

  \<^bold>\<open>Workflows\<close> (\<open>modules/workflows/src/domain\<close>). \<open>Workflow_Types\<close>: the graph. \<open>Workflow_Values\<close>: JSON
  pointers, schema validation and compatibility, mappings at run time. \<open>Workflow_Gates\<close>: gate expressions, their
  check and evaluation. \<open>Workflow_Order\<close>: reachability and the stable topological order. \<open>Workflow_Security\<close>
  (\<open>graph-security.ts\<close>): what may be copied or shown. \<open>Workflow_Issues\<close>, \<open>Workflow_Compile\<close>: the compiler, loop by
  loop; a graph without issues is a dag of one trigger whose nodes are wired once per port by compatible schemas
  and whose mappings copy only what lies upstream and discloses nothing.

  \<^bold>\<open>Approvals\<close> (\<open>modules/approvals/src\<close>). \<open>Approvals_Store\<close>: the tables and every operation of the repository.
  \<open>Approvals\<close>: the service, each writing call split into what it prepares and what it commits. \<open>Approvals_Invariant\<close>:
  the interleavings of those halves with retention and erasure, and what holds of every reachable state: the
  status of a request is the one its ledger of decisions accounts for, and once resolved it stays. Who may vote is
  decided by the roles a member has at that time, never by the snapshot of eligible accounts taken at creation.

  \<^bold>\<open>Durable jobs\<close> (\<open>packages/server/src/jobs/runner.ts\<close>). \<open>Job_Runner\<close>: one item under its fence, and the pass with
  its pool of workers. \<open>Job_Loop\<close>: the runner around the passes. Claims, work and heartbeats answer in any order; the
  counts of a pass add up, a pass ends, and at most one chain of timers is alive.

  \<^bold>\<open>Schedules\<close> (\<open>modules/automations/src/domain\<close>; the adapters carry a copy of the cron file). \<open>Calendar\<close>: wall clock
  times and \<open>Date.UTC\<close>. \<open>Cron\<close>: parsing and the search for the next slot; the search of the code counts the
  days it has passed and gives up after 1500; it is modelled with its counter, and since each of its turns leaves a
  minute, an hour, a day or a month behind, 1501 * 1440 turns are enough. \<open>Cadence\<close>: cadences, their normal form and the next slot.

  \<^bold>\<open>Text in and out.\<close> \<open>Csv\<close> (\<open>modules/import/src/domain/csv.ts\<close>, \<open>packages/server/src/export/csv.ts\<close>): the reader over
  any split of the body into chunks, and the writer; what was written is read back. \<open>Rate_Limits\<close>
  (\<open>modules/auth/src/middleware/rate-limit.ts\<close>, \<open>modules/directory/src/services/rate-limiter.ts\<close>): the two fixed-window
  limiters.

  \<^bold>\<open>Document templates\<close> (\<open>modules/documents/src/domain\<close>). \<open>Template_Schema\<close> (\<open>template-schema.ts\<close>): input schemas and
  the check of an input. \<open>Template_Check\<close>: the syntax tree and the check of its paths and formatters.
  \<open>Template_Inline\<close>, \<open>Template_Parse\<close> (\<open>template-language.ts\<close>): the parser, inline and by lines. \<open>Template_Eval\<close>
  (\<open>template-evaluate.ts\<close>): the renderer. \<open>Template_Compile\<close> (\<open>template-compile.ts\<close>): layouts and the compilation of
  one version. \<open>Template_Scan\<close>: the look-ahead tables answer what a scan of the text would. \<open>Template_Wellformed\<close>:
  the shape of what is parsed, proved once over an interface of frame stacks that blocks and table rows
  both provide. \<open>Template_Shape\<close>: the shape of what is rendered. \<open>Template_Sound\<close>: what was checked renders without
  errors of type. \<open>Template_Escape\<close>: escaped text is read back. \<open>Template_Properties\<close>: the theorems that
  compose them.

  \<^bold>\<open>Not modelled.\<close> Storage behind SQL (repositories and migrations other than that of approvals), HTTP endpoints and
  their parsing, command lines, clients and user interface, and calls to providers (mail, models, web search,
  object storage): they pass values between the parts above and a database, a network or a browser. The engine that runs
  published workflows, the audit seal chain, metering, provisioning over SCIM, adapters, notifications and the
  authentication flows carry logic of their own and are next, in this order: the run engine of workflows on top of
  \<open>Workflow_Values\<close> and \<open>Workflow_Gates\<close>, the audit chain on top of \<open>Json_Canonical\<close>, mappings of adapters, SCIM
  filters and patches, and sessions and tokens.
\<close>

end
